(* ===== verification/Prelude.thy ===== *)
theory Prelude
  imports Main "HOL-Library.Word" "HOL-Library.Monad_Syntax"
begin

text \<open>
  The vocabulary the components share: machine integers as words, byte buffers as lists,
  checked buffer accesses in the option monad, and the generic lemmas the component
  theories use.  In every definition of the development \<^term>\<open>None\<close> stands for a run
  that the C or C++ code does not survive: a failed \<open>ASSERT\<close>, a dereference of a null or
  dangling pointer, or an access outside a buffer.  A function that returns
  \<^term>\<open>Some r\<close> returned \<open>r\<close> to its caller, error codes included.
\<close>

unbundle bit_operations_syntax

type_synonym u8 = "8 word"
type_synonym u16 = "16 word"
type_synonym u32 = "32 word"
type_synonym u64 = "64 word"
type_synonym bytes = "u8 list"

named_theorems buf_simps \<open>rules on checked reads and writes of buffers\<close>

section \<open>Checked buffer accesses\<close>

text \<open>\<open>ASSERT(c)\<close> of \<open>hcrypt.h\<close> and \<open>assert\<close>: the program stops when the condition fails.\<close>

definition assert_that :: "bool \<Rightarrow> unit option" where
  "assert_that c = (if c then Some () else None)"

text \<open>Reading element \<open>i\<close> of a buffer.\<close>

definition rd :: "'a list \<Rightarrow> nat \<Rightarrow> 'a option" where
  "rd xs i = (if i < length xs then Some (xs ! i) else None)"

text \<open>Reading \<open>n\<close> elements from offset \<open>ofs\<close> (the source side of a \<open>memcpy\<close>).\<close>

definition rd_slice :: "'a list \<Rightarrow> nat \<Rightarrow> nat \<Rightarrow> 'a list option" where
  "rd_slice xs ofs n = (if ofs + n \<le> length xs then Some (take n (drop ofs xs)) else None)"

text \<open>Overwriting elements from offset \<open>ofs\<close> on (the destination side of a \<open>memcpy\<close>).\<close>

definition wr :: "'a list \<Rightarrow> nat \<Rightarrow> 'a list \<Rightarrow> 'a list option" where
  "wr xs ofs ys = (if ofs + length ys \<le> length xs
     then Some (take ofs xs @ ys @ drop (ofs + length ys) xs) else None)"

text \<open>Subtraction of two values of type \<open>size_t\<close> on a 64-bit platform.\<close>

definition size_sub :: "nat \<Rightarrow> nat \<Rightarrow> nat" where
  "size_sub a b = (a + 2 ^ 64 - b) mod 2 ^ 64"

text \<open>Signed arithmetic in an \<open>int\<close>, whose overflow is undefined.\<close>

definition int32 :: "int \<Rightarrow> int option" where
  "int32 x = (if - (2 ^ 31) \<le> x \<and> x < 2 ^ 31 then Some x else None)"

text \<open>The conversion of a \<open>size_t\<close> or an \<open>unsigned int\<close> to an \<open>int\<close>.\<close>

definition as_int :: "nat \<Rightarrow> int" where
  "as_int n = (int n + 2 ^ 31) mod 2 ^ 32 - 2 ^ 31"

lemma as_int_small [simp]: "n < 2147483648 \<Longrightarrow> as_int n = int n"
  by (simp add: as_int_def)

lemma as_int_large: "2147483648 \<le> n \<Longrightarrow> n < 4294967296 \<Longrightarrow> as_int n = int n - 4294967296"
proof -
  assume "2147483648 \<le> n" "n < 4294967296"
  then have "(int n + 2147483648) mod 4294967296 = int n + 2147483648 - 4294967296"
    using mod_pos_geq [of 4294967296 "int n + 2147483648"] by simp
  then show ?thesis by (simp add: as_int_def)
qed

lemma word_of_as_int [simp]: "word_of_int (as_int n) = (word_of_nat n :: u32)"
proof -
  have "(word_of_int ((int n + 2147483648) mod 2 ^ 32) :: u32) = word_of_int (int n + 2147483648)"
    by (subst word_of_int_eq_iff) (simp add: take_bit_eq_mod)
  then show ?thesis by (simp add: as_int_def)
qed

lemma int32_in [simp]: "- 2147483648 \<le> x \<Longrightarrow> x < 2147483648 \<Longrightarrow> int32 x = Some x"
  by (simp add: int32_def)

lemma assert_that_simps [simp]:
  "assert_that True = Some ()" "assert_that False = None"
  by (simp_all add: assert_that_def)

lemma assert_that_eq_Some [simp]: "assert_that c = Some u \<longleftrightarrow> c"
  by (simp add: assert_that_def)

lemma rd_in [buf_simps]: "i < length xs \<Longrightarrow> rd xs i = Some (xs ! i)"
  by (simp add: rd_def)

lemma rd_eq_Some [simp]: "rd xs i = Some x \<longleftrightarrow> i < length xs \<and> xs ! i = x"
  by (auto simp: rd_def)

lemma rd_slice_in [buf_simps]:
  "ofs + n \<le> length xs \<Longrightarrow> rd_slice xs ofs n = Some (take n (drop ofs xs))"
  by (simp add: rd_slice_def)

lemma length_rd_slice: "rd_slice xs ofs n = Some ys \<Longrightarrow> length ys = n"
  by (auto simp: rd_slice_def split: if_splits)

lemma wr_in [buf_simps]:
  "ofs + length ys \<le> length xs \<Longrightarrow>
     wr xs ofs ys = Some (take ofs xs @ ys @ drop (ofs + length ys) xs)"
  by (simp add: wr_def)

lemma length_wr: "wr xs ofs ys = Some zs \<Longrightarrow> length zs = length xs"
  by (auto simp: wr_def split: if_splits)

lemma wr_eq_Some:
  "wr xs ofs ys = Some zs \<longleftrightarrow>
     ofs + length ys \<le> length xs \<and> zs = take ofs xs @ ys @ drop (ofs + length ys) xs"
  by (auto simp: wr_def)

text \<open>Reading back what was just written, and reading beside it.\<close>

lemma rd_slice_wr_same:
  assumes "wr xs ofs ys = Some zs"
  shows "rd_slice zs ofs (length ys) = Some ys"
  using assms by (auto simp: wr_eq_Some rd_slice_def)

lemma nth_wr:
  assumes "wr xs ofs ys = Some zs" and "i < length xs"
  shows "zs ! i = (if ofs \<le> i \<and> i < ofs + length ys then ys ! (i - ofs) else xs ! i)"
  using assms by (auto simp: wr_eq_Some nth_append)

lemma size_sub_le [simp]:
  assumes "b \<le> a" and "a < 2 ^ 64"
  shows "size_sub a b = a - b"
proof -
  have "a + m - b = (a - b) + m" for m :: nat
    using assms(1) by simp
  moreover have "((a - b) + m) mod m = (a - b) mod m" for m :: nat
    by (rule mod_add_self2)
  moreover have "(a - b) mod 2 ^ 64 = a - b"
    by (rule mod_less) (rule le_less_trans [OF diff_le_self assms(2)])
  ultimately show ?thesis
    unfolding size_sub_def by (simp only:)
qed

lemma size_sub_wraps:
  assumes "a < b" and "b \<le> 2 ^ 64"
  shows "size_sub a b = a + 2 ^ 64 - b"
proof -
  have "a + m - b < m" if "b \<le> m" for m using assms(1) that by simp
  from this [OF assms(2)] show ?thesis unfolding size_sub_def by (rule mod_less)
qed

section \<open>Bits of bytes and words\<close>

lemma u8_bit_out [simp]: "8 \<le> n \<Longrightarrow> \<not> bit (b :: u8) n"
  using bit_imp_le_length [of b n] by auto

lemma u8_bit_plus [simp]: "\<not> bit (b :: u8) (8 + n)" "\<not> bit (b :: u8) (16 + n)" "\<not> bit (b :: u8) (24 + n)"
  by (rule u8_bit_out, simp)+

lemma unat_and_mask: "unat (w AND mask n) = unat w mod 2 ^ n"
  by (simp only: take_bit_eq_mask [symmetric] unsigned_take_bit_eq) (simp add: take_bit_eq_mod)

lemma and_15: "unat (w AND (0xF :: 'a::len word)) = unat w mod 16" if "4 < LENGTH('a)"
proof -
  have "(0xF :: 'a word) = mask 4" by (simp add: mask_eq_exp_minus_1)
  then show ?thesis using unat_and_mask [of w 4] by simp
qed

lemma unat_ucast_u8_u32 [simp]: "unat (ucast (b :: u8) :: u32) = unat b"
proof -
  have "unat b < 2 ^ 32" using unsigned_less [of b, where 'a=nat] by simp
  then show ?thesis by (simp add: unsigned_ucast_eq take_bit_eq_mod)
qed

lemma unat_word_of_nat_u32: "m < 2 ^ 32 \<Longrightarrow> unat (word_of_nat m :: u32) = m"
  by (simp add: unat_of_nat take_bit_eq_mod)

lemma and_3_bits:
  fixes w :: "'a::len word"
  assumes "2 \<le> LENGTH('a)"
  shows "w AND 3 = 0 \<longleftrightarrow> \<not> bit w 0 \<and> \<not> bit w 1" and "w AND 3 = 3 \<longleftrightarrow> bit w 0 \<and> bit w 1"
proof -
  have b: "bit (w AND 3) n \<longleftrightarrow> n < 2 \<and> bit w n" for n
  proof -
    have 3: "(3 :: 'a word) = mask 2" by (simp add: mask_eq_exp_minus_1)
    show ?thesis using assms unfolding 3 by (auto simp: bit_simps)
  qed
  have t: "bit (3 :: 'a word) n \<longleftrightarrow> n < 2" for n
  proof -
    have 3: "(3 :: 'a word) = mask 2" by (simp add: mask_eq_exp_minus_1)
    show ?thesis using assms unfolding 3 by (auto simp: bit_simps)
  qed
  show "w AND 3 = 0 \<longleftrightarrow> \<not> bit w 0 \<and> \<not> bit w 1"
  proof
    assume "w AND 3 = 0"
    then show "\<not> bit w 0 \<and> \<not> bit w 1" using b [of 0] b [of 1] by simp
  next
    assume "\<not> bit w 0 \<and> \<not> bit w 1"
    then show "w AND 3 = 0" by (intro bit_word_eqI) (auto simp: b dest: less_2_cases)
  qed
  show "w AND 3 = 3 \<longleftrightarrow> bit w 0 \<and> bit w 1"
  proof
    assume "w AND 3 = 3"
    then show "bit w 0 \<and> bit w 1" using b [of 0] b [of 1] t [of 0] t [of 1] by simp
  next
    assume "bit w 0 \<and> bit w 1"
    then have "bit (w AND 3) n = bit (3 :: 'a word) n" for n
      unfolding b t by (metis less_2_cases One_nat_def)
    then show "w AND 3 = 3" by (intro bit_word_eqI)
  qed
qed

end
