(* ===== verification/RunTask.thy ===== *)
theory RunTask
  imports Prelude
begin

text \<open>
  The class \<open>RunTask\<close> of \<open>base/run_task.cpp\<close>: a task that is run by its caller's loop once a
  number of calls and a span of time have passed.  The state of the object is the record
  \<open>run_task\<close> with the fields of \<open>base/run_task.hpp\<close>; the callback \<open>yet\<close> is a
  function on the state it captures.  Durations and time points are integers (nanoseconds):
  their 64-bit counters last 292 years.  \<open>steady_clock::now()\<close> is read up to twice per call,
  so the operations take the two readings as arguments.
\<close>

record run_task =
  run_time :: "int option"
  run_count :: "int option"
  run_max_time :: "int option"
  run_max_count :: "int option"
  start_run_time_point :: "int option"

definition value_or :: "'a option \<Rightarrow> 'a \<Rightarrow> 'a" where
  "value_or x d = (case x of None \<Rightarrow> d | Some v \<Rightarrow> v)"

text \<open>The two constructors.\<close>

definition RunTask_count :: "int \<Rightarrow> run_task" where
  "RunTask_count max_count = \<lparr>run_time = None, run_count = None, run_max_time = None,
     run_max_count = Some max_count, start_run_time_point = None\<rparr>"

definition RunTask_time :: "int \<Rightarrow> int \<Rightarrow> run_task" where
  "RunTask_time max_time max_count = \<lparr>run_time = None, run_count = None,
     run_max_time = Some max_time, run_max_count = Some max_count,
     start_run_time_point = None\<rparr>"

definition checkCountDone :: "run_task \<Rightarrow> bool" where
  "checkCountDone t = (case run_max_count t of None \<Rightarrow> True
     | Some m \<Rightarrow> value_or (run_count t) 0 \<ge> m)"

definition checkTimeDone :: "run_task \<Rightarrow> bool" where
  "checkTimeDone t = (case run_max_time t of None \<Rightarrow> True
     | Some m \<Rightarrow> value_or (run_time t) 0 \<ge> m)"

definition selfIncForCount :: "run_task \<Rightarrow> run_task" where
  "selfIncForCount t = (case run_max_count t of None \<Rightarrow> t
     | Some _ \<Rightarrow> t\<lparr>run_count := Some (value_or (run_count t) 0 + 1)\<rparr>)"

definition selfIncForTime :: "int \<Rightarrow> int \<Rightarrow> run_task \<Rightarrow> run_task" where
  "selfIncForTime now1 now2 t = (case run_max_time t of None \<Rightarrow> t
     | Some _ \<Rightarrow>
       (let t1 = (case start_run_time_point t of
                    None \<Rightarrow> t\<lparr>start_run_time_point := Some now1\<rparr> | Some _ \<Rightarrow> t)
        in t1\<lparr>run_time := Some (now2 - value_or (start_run_time_point t1) 0)\<rparr>))"

definition doByTimeAndCount ::
    "int \<Rightarrow> int \<Rightarrow> ('s \<Rightarrow> 's) \<Rightarrow> run_task \<Rightarrow> 's \<Rightarrow> bool \<times> run_task \<times> 's" where
  "doByTimeAndCount now1 now2 yet t s =
    (if checkCountDone t \<and> checkTimeDone t then (False, t, s)
     else let t' = selfIncForTime now1 now2 (selfIncForCount t)
          in if \<not> (checkCountDone t' \<and> checkTimeDone t') then (False, t', s)
             else (True, t', yet s))"

definition doByTimeOrCount ::
    "int \<Rightarrow> int \<Rightarrow> ('s \<Rightarrow> 's) \<Rightarrow> run_task \<Rightarrow> 's \<Rightarrow> bool \<times> run_task \<times> 's" where
  "doByTimeOrCount now1 now2 yet t s =
    (if checkCountDone t \<or> checkTimeDone t then (False, t, s)
     else let t' = selfIncForTime now1 now2 (selfIncForCount t)
          in if \<not> (checkCountDone t' \<or> checkTimeDone t') then (False, t', s)
             else (True, t', yet s))"

definition reset :: "run_task \<Rightarrow> run_task" where
  "reset t = t\<lparr>run_count := None, run_time := None\<rparr>"

text \<open>A loop that polls the task with one pair of clock readings per round.\<close>

fun poll_loop :: "(int \<times> int) list \<Rightarrow> ('s \<Rightarrow> 's) \<Rightarrow> run_task \<Rightarrow> 's \<Rightarrow> bool list \<times> run_task \<times> 's" where
  "poll_loop [] yet t s = ([], t, s)"
| "poll_loop ((now1, now2) # cs) yet t s =
    (let (b, t', s') = doByTimeAndCount now1 now2 yet t s; (bs, r) = poll_loop cs yet t' s'
     in (b # bs, r))"

lemmas run_task_defs = checkCountDone_def checkTimeDone_def selfIncForCount_def
  selfIncForTime_def doByTimeAndCount_def doByTimeOrCount_def reset_def value_or_def
  RunTask_count_def RunTask_time_def

section \<open>Counting tasks\<close>

lemma doByTimeAndCount_counting:
  assumes "run_max_time t = None" and "run_max_count t = Some n"
    and "value_or (run_count t) 0 = k" and "k < n"
  shows "doByTimeAndCount c1 c2 yet t s =
    (k + 1 = n, t\<lparr>run_count := Some (k + 1)\<rparr>, if k + 1 = n then yet s else s)"
  using assms by (auto simp: run_task_defs split: option.splits)

lemma doByTimeAndCount_done:
  assumes "checkCountDone t" and "checkTimeDone t"
  shows "doByTimeAndCount c1 c2 yet t s = (False, t, s)"
  using assms by (simp add: doByTimeAndCount_def)

lemma poll_loop_done:
  assumes "checkCountDone t" and "checkTimeDone t"
  shows "poll_loop cs yet t s = (replicate (length cs) False, t, s)"
  by (induction cs) (auto simp: doByTimeAndCount_done [OF assms])

lemma poll_loop_counting:
  assumes "run_max_time t = None" and "run_max_count t = Some n"
    and "value_or (run_count t) 0 = k" and "k < n"
  shows "fst (poll_loop cs yet t s) = map (\<lambda>i. k + int i + 1 = n) [0..<length cs]
    \<and> snd (snd (poll_loop cs yet t s)) = (if n \<le> k + int (length cs) then yet s else s)"
  using assms
proof (induction cs arbitrary: t s k)
  case Nil
  then show ?case by simp
next
  case (Cons c cs)
  obtain c1 c2 where c: "c = (c1, c2)" by (cases c)
  let ?t = "t\<lparr>run_count := Some (k + 1)\<rparr>"
  have step: "doByTimeAndCount c1 c2 yet t s = (k + 1 = n, ?t, if k + 1 = n then yet s else s)"
    using Cons.prems by (intro doByTimeAndCount_counting) auto
  have upt: "[0..<length (c # cs)] = 0 # map Suc [0..<length cs]"
    by (simp add: map_Suc_upt upt_conv_Cons del: upt_Suc)
  show ?case
  proof (cases "k + 1 = n")
    case True
    then have d: "checkCountDone ?t" "checkTimeDone ?t"
      using Cons.prems by (auto simp: run_task_defs)
    have "poll_loop (c # cs) yet t s = (True # replicate (length cs) False, ?t, yet s)"
      using step poll_loop_done [OF d, of cs yet "yet s"] by (simp add: c True)
    then show ?thesis
      using True unfolding upt by (auto simp: map_replicate_const comp_def)
  next
    case False
    have "fst (poll_loop cs yet ?t s) = map (\<lambda>i. (k + 1) + int i + 1 = n) [0..<length cs]
      \<and> snd (snd (poll_loop cs yet ?t s)) = (if n \<le> (k + 1) + int (length cs) then yet s else s)"
      using Cons.prems False by (intro Cons.IH) (auto simp: value_or_def)
    then show ?thesis
      using step False unfolding upt
      by (auto simp: c comp_def split: prod.splits)
  qed
qed

section \<open>Timed tasks\<close>

text \<open>The object once its clock has started: calls counted from \<open>k\<close>, time from \<open>s0\<close>.\<close>

definition started :: "int \<Rightarrow> int \<Rightarrow> int \<Rightarrow> int \<Rightarrow> run_task \<Rightarrow> bool" where
  "started T n s0 k t \<longleftrightarrow> run_max_time t = Some T \<and> run_max_count t = Some n
     \<and> start_run_time_point t = Some s0 \<and> value_or (run_count t) 0 = k"

lemma doByTimeAndCount_timed:
  assumes "started T n s0 k t" and "\<not> (checkCountDone t \<and> checkTimeDone t)"
  shows "\<exists>t'. doByTimeAndCount c1 c2 yet t s =
      (n \<le> k + 1 \<and> T \<le> c2 - s0, t', if n \<le> k + 1 \<and> T \<le> c2 - s0 then yet s else s)
    \<and> started T n s0 (k + 1) t'
    \<and> (checkCountDone t' \<and> checkTimeDone t' \<longleftrightarrow> n \<le> k + 1 \<and> T \<le> c2 - s0)"
proof -
  let ?t = "selfIncForTime c1 c2 (selfIncForCount t)"
  have st: "started T n s0 (k + 1) ?t"
    and d: "checkCountDone ?t \<and> checkTimeDone ?t \<longleftrightarrow> n \<le> k + 1 \<and> T \<le> c2 - s0"
    using assms(1) by (auto simp: started_def run_task_defs)
  show ?thesis
    using assms(2) st d unfolding doByTimeAndCount_def Let_def by (intro exI [of _ ?t]) auto
qed

text \<open>The first round at which both the call count and the elapsed time are reached.\<close>

definition due :: "int \<Rightarrow> int \<Rightarrow> int \<Rightarrow> int \<Rightarrow> (int \<times> int) list \<Rightarrow> nat \<Rightarrow> bool" where
  "due T n s0 k cs i \<longleftrightarrow> n \<le> k + int i + 1 \<and> T \<le> snd (cs ! i) - s0"

lemma due_Cons_Suc [simp]: "due T n s0 k (c # cs) (Suc i) = due T n s0 (k + 1) cs i"
  by (simp add: due_def algebra_simps)

lemma all_less_Suc_shift: "(\<forall>j < Suc i. P j) \<longleftrightarrow> P 0 \<and> (\<forall>j < i. P (Suc j))"
  by (auto simp: less_Suc_eq_0_disj)

lemma poll_loop_timed:
  assumes "started T n s0 k t" and "\<not> (checkCountDone t \<and> checkTimeDone t)" and "i < length cs"
  shows "fst (poll_loop cs yet t s) ! i \<longleftrightarrow> due T n s0 k cs i \<and> (\<forall>j < i. \<not> due T n s0 k cs j)"
  using assms
proof (induction cs arbitrary: t s k i)
  case Nil
  then show ?case by simp
next
  case (Cons c cs)
  obtain c1 c2 where c: "c = (c1, c2)" by (cases c)
  from doByTimeAndCount_timed [OF Cons.prems(1,2), of c1 c2 yet s]
  obtain t' where step: "doByTimeAndCount c1 c2 yet t s =
        (n \<le> k + 1 \<and> T \<le> c2 - s0, t', if n \<le> k + 1 \<and> T \<le> c2 - s0 then yet s else s)"
    and st: "started T n s0 (k + 1) t'"
    and d: "checkCountDone t' \<and> checkTimeDone t' \<longleftrightarrow> n \<le> k + 1 \<and> T \<le> c2 - s0"
    by blast
  have due0: "due T n s0 k (c # cs) 0 \<longleftrightarrow> n \<le> k + 1 \<and> T \<le> c2 - s0"
    by (simp add: due_def c)
  show ?case
  proof (cases i)
    case 0
    then show ?thesis using step due0 by (simp add: c split: prod.splits)
  next
    case (Suc m)
    show ?thesis
    proof (cases "n \<le> k + 1 \<and> T \<le> c2 - s0")
      case True
      then have "fst (poll_loop (c # cs) yet t s) = True # replicate (length cs) False"
        using step d by (simp add: c poll_loop_done)
      then show ?thesis
        using True due0 Suc Cons.prems(3) by (auto simp: all_less_Suc_shift)
    next
      case False
      then have nd: "\<not> (checkCountDone t' \<and> checkTimeDone t')" using d by simp
      have "fst (poll_loop (c # cs) yet t s) ! i = fst (poll_loop cs yet t' s) ! m"
        using step False Suc by (auto simp: c split: prod.splits)
      also have "\<dots> = (due T n s0 (k + 1) cs m \<and> (\<forall>j < m. \<not> due T n s0 (k + 1) cs j))"
        using Cons.IH [OF st nd] Cons.prems(3) Suc by simp
      finally show ?thesis
        using False due0 Suc by (simp add: all_less_Suc_shift)
    qed
  qed
qed

text \<open>A task that has never run starts its clock with the first poll.\<close>

lemma doByTimeAndCount_start:
  assumes "run_max_time t = Some T" and "start_run_time_point t = None"
    and "\<not> (checkCountDone t \<and> checkTimeDone t)"
  shows "doByTimeAndCount c1 c2 yet t s = doByTimeAndCount c1 c2 yet (t\<lparr>start_run_time_point := Some c1\<rparr>) s"
proof -
  let ?t = "t\<lparr>start_run_time_point := Some c1\<rparr>"
  have "selfIncForTime c1 c2 (selfIncForCount t) = selfIncForTime c1 c2 (selfIncForCount ?t)"
    using assms(1,2) by (cases t; cases "run_max_count t") (simp_all add: run_task_defs)
  moreover have "checkCountDone ?t = checkCountDone t" and "checkTimeDone ?t = checkTimeDone t"
    by (simp_all add: checkCountDone_def checkTimeDone_def split: option.splits)
  ultimately show ?thesis using assms(3) by (auto simp: doByTimeAndCount_def)
qed

lemma poll_loop_start:
  assumes "run_max_time t = Some T" and "start_run_time_point t = None"
    and "\<not> (checkCountDone t \<and> checkTimeDone t)"
  shows "poll_loop ((c1, c2) # cs) yet t s =
    poll_loop ((c1, c2) # cs) yet (t\<lparr>start_run_time_point := Some c1\<rparr>) s"
  by (simp add: doByTimeAndCount_start [OF assms])

text \<open>
  A task built with a time span and a call count, polled in a loop, fires at exactly one
  poll: the first at which the number of polls has reached the count and the time since the
  first poll has reached the span.
\<close>

theorem timed_task_fires_once:
  assumes "0 < T \<or> 0 < n" and "i < length cs"
  shows "fst (poll_loop cs yet (RunTask_time T n) s) ! i \<longleftrightarrow>
    n \<le> int i + 1 \<and> T \<le> snd (cs ! i) - fst (cs ! 0)
    \<and> (\<forall>j < i. \<not> (n \<le> int j + 1 \<and> T \<le> snd (cs ! j) - fst (cs ! 0)))"
proof -
  from assms(2) obtain c1 c2 cs' where cs: "cs = (c1, c2) # cs'"
    by (cases cs) auto
  let ?t = "(RunTask_time T n)\<lparr>start_run_time_point := Some c1\<rparr>"
  have nd: "\<not> (checkCountDone (RunTask_time T n) \<and> checkTimeDone (RunTask_time T n))"
    and nd': "\<not> (checkCountDone ?t \<and> checkTimeDone ?t)"
    using assms(1) by (auto simp: run_task_defs)
  have "poll_loop cs yet (RunTask_time T n) s = poll_loop cs yet ?t s"
    unfolding cs by (rule poll_loop_start [OF _ _ nd]) (simp_all add: RunTask_time_def)
  moreover have "fst (poll_loop cs yet ?t s) ! i \<longleftrightarrow>
      due T n c1 0 cs i \<and> (\<forall>j < i. \<not> due T n c1 0 cs j)"
    by (rule poll_loop_timed [OF _ nd' assms(2)]) (simp add: started_def run_task_defs)
  moreover have "fst (cs ! 0) = c1" by (simp add: cs)
  ultimately show ?thesis by (simp add: due_def)
qed

theorem timed_task_fires_once_witness:
  "fst (poll_loop [(0, 1), (5, 6), (20, 21)] (\<lambda>n. n + 1) (RunTask_time 10 2) (0::nat)) ! 2"
  using timed_task_fires_once [of 10 2 2 "[(0, 1), (5, 6), (20, 21)]" "\<lambda>n. n + 1" "0::nat"]
  by (auto simp: less_Suc_eq numeral_2_eq_2)

section \<open>Periodic use\<close>

text \<open>
  The way the congestion controller uses its tasks: after each firing the caller resets the
  task and goes on polling.
\<close>

fun poll_periodic :: "(int \<times> int) list \<Rightarrow> ('s \<Rightarrow> 's) \<Rightarrow> run_task \<Rightarrow> 's \<Rightarrow> bool list \<times> run_task \<times> 's" where
  "poll_periodic [] yet t s = ([], t, s)"
| "poll_periodic ((now1, now2) # cs) yet t s =
    (let (b, t', s') = doByTimeAndCount now1 now2 yet t s;
         (bs, r) = poll_periodic cs yet (if b then reset t' else t') s'
     in (b # bs, r))"

lemma started_reset:
  assumes "started T n s0 k t" and "0 < T"
  shows "started T n s0 0 (reset t)" and "\<not> checkTimeDone (reset t)"
  using assms by (auto simp: started_def run_task_defs)

lemma poll_periodic_started:
  assumes "started T 1 s0 k t" and "0 \<le> k" and "0 < T"
    and "\<not> (checkCountDone t \<and> checkTimeDone t)"
  shows "fst (poll_periodic cs yet t s) = map (\<lambda>c. T \<le> snd c - s0) cs"
  using assms
proof (induction cs arbitrary: t s k)
  case Nil
  then show ?case by simp
next
  case (Cons c cs)
  obtain c1 c2 where c: "c = (c1, c2)" by (cases c)
  from doByTimeAndCount_timed [OF Cons.prems(1,4), of c1 c2 yet s] Cons.prems(2)
  obtain t' where step: "doByTimeAndCount c1 c2 yet t s =
        (T \<le> c2 - s0, t', if T \<le> c2 - s0 then yet s else s)"
    and st: "started T 1 s0 (k + 1) t'"
    and d: "checkCountDone t' \<and> checkTimeDone t' \<longleftrightarrow> T \<le> c2 - s0"
    by auto
  let ?u = "if T \<le> c2 - s0 then reset t' else t'"
  have "\<exists>k' \<ge> 0. started T 1 s0 k' ?u"
    using st started_reset(1) [OF st Cons.prems(3)] Cons.prems(2)
    by (cases "T \<le> c2 - s0") (auto intro: exI [of _ "k + 1"] exI [of _ 0])
  then obtain k' where k': "0 \<le> k'" "started T 1 s0 k' ?u" by blast
  have nd: "\<not> (checkCountDone ?u \<and> checkTimeDone ?u)"
    using d started_reset(2) [OF st Cons.prems(3)] by auto
  have "fst (poll_periodic cs yet ?u s') = map (\<lambda>c. T \<le> snd c - s0) cs" for s'
    using Cons.IH [OF k'(2,1) Cons.prems(3) nd] .
  then show ?case using step by (simp add: c case_prod_unfold Let_def split: if_splits)
qed

text \<open>
  C40: with the reset-after-firing use, \<open>RunTask::reset\<close> clears the call count and the elapsed
  time but keeps the start of the clock, so the span is always measured from the very first
  poll: once it has elapsed a first time, every later poll fires, and the task is not
  periodic with its span.
\<close>

theorem reset_keeps_the_clock:
  assumes "0 < T"
  shows "fst (poll_periodic cs yet (RunTask_time T 1) s) =
    map (\<lambda>c. T \<le> snd c - fst (cs ! 0)) cs"
proof (cases cs)
  case Nil
  then show ?thesis by simp
next
  case (Cons c cs')
  obtain c1 c2 where c: "c = (c1, c2)" by (cases c)
  let ?t = "(RunTask_time T 1)\<lparr>start_run_time_point := Some c1\<rparr>"
  have "poll_periodic cs yet (RunTask_time T 1) s = poll_periodic cs yet ?t s"
    using assms by (simp add: Cons c run_task_defs)
  moreover have "started T 1 c1 0 ?t" and "\<not> (checkCountDone ?t \<and> checkTimeDone ?t)"
    using assms by (auto simp: started_def run_task_defs)
  ultimately show ?thesis
    using poll_periodic_started [of T c1 0 ?t cs yet s] assms by (simp add: Cons c)
qed

theorem reset_keeps_the_clock_witness:
  "fst (poll_periodic [(0, 0), (500, 500), (501, 501), (502, 502)] id (RunTask_time 500 1) ()) =
    [False, True, True, True]"
  using reset_keeps_the_clock [of 500 "[(0, 0), (500, 500), (501, 501), (502, 502)]" id "()"]
  by simp

text \<open>
  A task built with a call count only fires at exactly the \<open>n\<close>-th poll, whatever the clock
  says, and its callback runs exactly once in any longer loop.
\<close>

theorem counting_task_fires_at_count:
  assumes "0 < n"
  shows "fst (poll_loop cs yet (RunTask_count n) s) = map (\<lambda>i. int i + 1 = n) [0..<length cs]
    \<and> snd (snd (poll_loop cs yet (RunTask_count n) s)) = (if n \<le> int (length cs) then yet s else s)"
  using poll_loop_counting [of "RunTask_count n" n 0 cs yet s] assms
  by (auto simp: run_task_defs)

theorem counting_task_fires_at_count_witness:
  "fst (poll_loop [(0, 0), (0, 0), (0, 0)] Suc (RunTask_count 2) 0) = [False, True, False]
    \<and> snd (snd (poll_loop [(0, 0), (0, 0), (0, 0)] Suc (RunTask_count 2) 0)) = 1"
  using counting_task_fires_at_count [of 2 "[(0, 0), (0, 0), (0, 0)]" Suc 0]
  by (simp add: upt_rec)

end
