(* ===== verification/SrtNet.thy ===== *)
theory SrtNet
  imports Prelude
begin

text \<open>
  The class \<open>SRTNet\<close> of \<open>srt_net/srt_net.cpp\<close>: a client or a server on the SRT library, with its
  threads.  A member function that runs under a lock or in one thread only is a function on the
  object's state; the loops of the threads, and \<open>stop\<close>, which waits for them, are cut at the
  points where another thread can come in between: before a call that may block, at a lock, and
  at a read of a shared flag.  One piece is one step of the thread, and the program counters
  \<open>worker_pc\<close>, \<open>event_pc\<close> and \<open>stop_pc\<close> say which piece is next.

  The SRT library, the resolver and the application's callbacks are arguments: the record
  \<open>srt_lib\<close> has a function per call, over a state \<open>'w\<close> of the world outside.  \<open>'c option\<close> is a
  \<open>std::shared_ptr<NetworkConnection>\<close>.
\<close>

section \<open>Data\<close>

datatype Mode = Mode_unknown | Mode_server | Mode_client

datatype family = AF_INET | AF_INET6

datatype sockaddr = Sockaddr (sa_family: family) (sa_addr: bytes) (sa_port: u16)

datatype sockopt = SRTO_SENDER | SRTO_RCVSYN | SRTO_LATENCY | SRTO_LOSSMAXTTL | SRTO_OHEADBW | SRTO_PAYLOADSIZE
  | SRTO_PBKEYLEN | SRTO_PASSPHRASE

datatype optval = Int32 int | Chars string

type_synonym SRTSOCKET = int

abbreviation (input) SRT_ERROR :: int where "SRT_ERROR \<equiv> -1"
abbreviation (input) MAX_WORKERS :: nat where "MAX_WORKERS \<equiv> 20"

text \<open>The calls into the SRT library and the system, and the application's callbacks.\<close>

record ('c, 'w) srt_lib =
  srt_create_socket :: "'w \<Rightarrow> SRTSOCKET \<times> 'w"
  srt_setsockflag :: "SRTSOCKET \<Rightarrow> sockopt \<Rightarrow> optval \<Rightarrow> 'w \<Rightarrow> int \<times> 'w"
  srt_bind :: "SRTSOCKET \<Rightarrow> sockaddr \<Rightarrow> 'w \<Rightarrow> int \<times> 'w"
  srt_listen :: "SRTSOCKET \<Rightarrow> int \<Rightarrow> 'w \<Rightarrow> int \<times> 'w"
  srt_accept :: "SRTSOCKET \<Rightarrow> 'w \<Rightarrow> (SRTSOCKET \<times> sockaddr) \<times> 'w"
  srt_connect :: "SRTSOCKET \<Rightarrow> sockaddr \<Rightarrow> 'w \<Rightarrow> int \<times> 'w"
  srt_close :: "SRTSOCKET \<Rightarrow> 'w \<Rightarrow> int \<times> 'w"
  srt_recvmsg2 :: "SRTSOCKET \<Rightarrow> nat \<Rightarrow> 'w \<Rightarrow> (int \<times> bytes) \<times> 'w"
  srt_sendmsg2 :: "SRTSOCKET \<Rightarrow> bytes \<Rightarrow> 'w \<Rightarrow> int \<times> 'w"
  srt_bistats :: "SRTSOCKET \<Rightarrow> int \<Rightarrow> int \<Rightarrow> 'w \<Rightarrow> int \<times> 'w"
  srt_epoll_create :: "'w \<Rightarrow> int \<times> 'w"
  srt_epoll_set :: "int \<Rightarrow> 'w \<Rightarrow> int \<times> 'w"
  srt_epoll_add_usock :: "int \<Rightarrow> SRTSOCKET \<Rightarrow> 'w \<Rightarrow> int \<times> 'w"
  srt_epoll_remove_usock :: "int \<Rightarrow> SRTSOCKET \<Rightarrow> 'w \<Rightarrow> int \<times> 'w"
  srt_epoll_uwait :: "int \<Rightarrow> nat \<Rightarrow> 'w \<Rightarrow> (int \<times> SRTSOCKET list) \<times> 'w"
  srt_epoll_release :: "int \<Rightarrow> 'w \<Rightarrow> int \<times> 'w"
  inet_pton :: "family \<Rightarrow> string \<Rightarrow> int \<times> bytes"
  getaddrinfo :: "string \<Rightarrow> u16 \<Rightarrow> 'w \<Rightarrow> (int \<times> sockaddr list) \<times> 'w"
  sys_close :: "int \<Rightarrow> 'w \<Rightarrow> int \<times> 'w"
  clientConnected :: "(sockaddr \<Rightarrow> SRTSOCKET \<Rightarrow> 'c option \<Rightarrow> 'w \<Rightarrow> 'c option \<times> 'c option \<times> 'w) option"
  receivedData :: "(bytes \<Rightarrow> 'c option \<Rightarrow> SRTSOCKET \<Rightarrow> 'w \<Rightarrow> 'c option \<times> 'w) option"
  receivedDataNoCopy :: "(bytes \<Rightarrow> 'c option \<Rightarrow> SRTSOCKET \<Rightarrow> 'w \<Rightarrow> 'c option \<times> 'w) option"
  clientDisconnected :: "('c option \<Rightarrow> SRTSOCKET \<Rightarrow> 'w \<Rightarrow> 'c option \<times> 'w) option"

text \<open>
  The program counters.  \<open>E_recv ready ret i\<close> is the loop of the event handler at index \<open>i\<close>;
  \<open>ready\<close> is the array, with \<^term>\<open>None\<close> for an element that was never written.
\<close>

datatype 'c worker_pc = W_start | W_closeAll | W_loop | W_accept | W_connected SRTSOCKET sockaddr
  | W_add SRTSOCKET "'c option" | C_loop | C_recv | C_exit | W_done

type_synonym ready_array = "SRTSOCKET option list"

datatype event_pc = E_loop ready_array | E_wait ready_array | E_recv ready_array nat nat
  | E_got ready_array nat nat SRTSOCKET int bytes | E_done

datatype stop_pc = S_idle | S_close_server | S_closeAll | S_join_worker | S_join_event | S_close_client | S_join_client

text \<open>What happened to sockets so far, which the statements below refer to.\<close>

datatype net_event = Created SRTSOCKET | Context_closed SRTSOCKET | Registered SRTSOCKET
  | Client_closed SRTSOCKET | Disconnected SRTSOCKET | Turned_away SRTSOCKET | Server_lost

text \<open>
  The object.  A thread is \<^term>\<open>None\<close> when it is not joinable.  \<open>std::map\<close> is the list of its
  entries in the order of the keys.
\<close>

record 'c srt_net =
  server_active :: bool
  client_active :: bool
  worker_thread :: "'c worker_pc option"
  event_thread :: "event_pc option"
  net_context :: SRTSOCKET
  poll_id :: int
  current_mode :: Mode
  client_list :: "(SRTSOCKET \<times> 'c option) list"
  client_context :: "'c option"
  connection_context :: "'c option"
  stopping :: stop_pc
  stop_result :: "bool option"
  history :: "net_event list"

definition SRTNet_new :: "'c srt_net" where
  "SRTNet_new = \<lparr>server_active = False, client_active = False, worker_thread = None, event_thread = None,
     net_context = 0, poll_id = 0, current_mode = Mode_unknown, client_list = [], client_context = None,
     connection_context = None, stopping = S_idle, stop_result = None, history = []\<rparr>"

definition happens :: "net_event \<Rightarrow> 'c srt_net \<Rightarrow> 'c srt_net" where
  "happens e n = n\<lparr>history := history n @ [e]\<rparr>"

text \<open>\<open>client_list_[s] = ctx\<close>, \<open>find\<close> and \<open>erase\<close> of the map.\<close>

fun clients_assign :: "SRTSOCKET \<Rightarrow> 'c option \<Rightarrow> (SRTSOCKET \<times> 'c option) list \<Rightarrow> (SRTSOCKET \<times> 'c option) list" where
  "clients_assign s c [] = [(s, c)]"
| "clients_assign s c ((s', c') # cs) =
    (if s < s' then (s, c) # (s', c') # cs
     else if s = s' then (s, c) # cs
     else (s', c') # clients_assign s c cs)"

definition clients_erase :: "SRTSOCKET \<Rightarrow> (SRTSOCKET \<times> 'c option) list \<Rightarrow> (SRTSOCKET \<times> 'c option) list" where
  "clients_erase s cs = filter (\<lambda>e. fst e \<noteq> s) cs"

section \<open>Addresses\<close>

definition isIPv4 :: "('c, 'w) srt_lib \<Rightarrow> string \<Rightarrow> bool" where
  "isIPv4 lib str \<longleftrightarrow> fst (inet_pton lib AF_INET str) \<noteq> 0"

definition isIPv6 :: "('c, 'w) srt_lib \<Rightarrow> string \<Rightarrow> bool" where
  "isIPv6 lib str \<longleftrightarrow> fst (inet_pton lib AF_INET6 str) \<noteq> 0"

section \<open>Closing the clients\<close>

fun close_clients ::
    "('c, 'w) srt_lib \<Rightarrow> (SRTSOCKET \<times> 'c option) list \<Rightarrow> 'c srt_net \<Rightarrow> 'w \<Rightarrow> 'c srt_net \<times> 'w" where
  "close_clients lib [] n w = (n, w)"
| "close_clients lib ((socket, ctx) # cs) n w =
    (let (result, w) = srt_close lib socket w; n = happens (Client_closed socket) n
     in case clientDisconnected lib of
          None \<Rightarrow> close_clients lib cs n w
        | Some cb \<Rightarrow> close_clients lib cs (happens (Disconnected socket) n) (snd (cb ctx socket w)))"

definition closeAllClientSockets :: "('c, 'w) srt_lib \<Rightarrow> 'c srt_net \<Rightarrow> 'w \<Rightarrow> 'c srt_net \<times> 'w" where
  "closeAllClientSockets lib n w =
    (let (n, w) = close_clients lib (client_list n) n w in (n\<lparr>client_list := []\<rparr>, w))"

section \<open>Starting\<close>

text \<open>
  A sequence of \<open>srt_setsockflag\<close> calls, each with its early return: were all of them accepted?
\<close>

fun set_flags :: "('c, 'w) srt_lib \<Rightarrow> SRTSOCKET \<Rightarrow> (sockopt \<times> optval) list \<Rightarrow> 'w \<Rightarrow> bool \<times> 'w" where
  "set_flags lib s [] w = (True, w)"
| "set_flags lib s ((opt, v) # fs) w =
    (let (result, w) = srt_setsockflag lib s opt v w in if result = SRT_ERROR then (False, w) else set_flags lib s fs w)"

definition psk_flags :: "string \<Rightarrow> (sockopt \<times> optval) list" where
  "psk_flags psk = (if length psk \<noteq> 0 then [(SRTO_PBKEYLEN, Int32 16), (SRTO_PASSPHRASE, Chars psk)] else [])"

text \<open>\<open>inet_pton\<close> into the socket address of the family, \<^term>\<open>None\<close> unless it returns 1.\<close>

definition address_of :: "('c, 'w) srt_lib \<Rightarrow> family \<Rightarrow> string \<Rightarrow> u16 \<Rightarrow> sockaddr option" where
  "address_of lib fam ip port = (let (r, addr) = inet_pton lib fam ip in if r = 1 then Some (Sockaddr fam addr port) else None)"

definition startServer ::
    "('c, 'w) srt_lib \<Rightarrow> string \<Rightarrow> u16 \<Rightarrow> int \<Rightarrow> int \<Rightarrow> int \<Rightarrow> int \<Rightarrow> string \<Rightarrow> 'c option
      \<Rightarrow> 'c srt_net \<Rightarrow> 'w \<Rightarrow> bool \<times> 'c srt_net \<times> 'w" where
  "startServer lib ip port reorder latency overhead mtu psk ctx n w =
    (let ipType = (if isIPv4 lib ip then AF_INET else if isIPv6 lib ip then AF_INET6 else AF_INET) in
     if current_mode n \<noteq> Mode_unknown then (False, n, w)
     else if clientConnected lib = None then (False, n, w)
     else
       let n = n\<lparr>connection_context := ctx\<rparr>; (sock, w) = srt_create_socket lib w; n = n\<lparr>net_context := sock\<rparr> in
       if sock = SRT_ERROR then (False, n, w)
       else let n = happens (Created sock) n in
         case address_of lib ipType ip port of
           None \<Rightarrow> (False, happens (Context_closed sock) n, snd (srt_close lib sock w))
         | Some sa \<Rightarrow>
           let (ok, w) = set_flags lib sock ([(SRTO_RCVSYN, Int32 1), (SRTO_LATENCY, Int32 latency), (SRTO_LOSSMAXTTL, Int32 reorder),
                 (SRTO_OHEADBW, Int32 overhead), (SRTO_PAYLOADSIZE, Int32 mtu)] @ psk_flags psk) w in
           if \<not> ok then (False, n, w)
           else let (result, w) = srt_bind lib sock sa w in
             if result = SRT_ERROR then (False, happens (Context_closed sock) n, snd (srt_close lib sock w))
             else let (result, w) = srt_listen lib sock 2 w in
               if result = SRT_ERROR then (False, happens (Context_closed sock) n, snd (srt_close lib sock w))
               else (True, n\<lparr>server_active := True, current_mode := Mode_server, worker_thread := Some W_start\<rparr>, w))"

text \<open>The addresses in turn until one connects; the last result decides.\<close>

fun connect_any :: "('c, 'w) srt_lib \<Rightarrow> SRTSOCKET \<Rightarrow> sockaddr list \<Rightarrow> int \<Rightarrow> 'w \<Rightarrow> int \<times> 'w" where
  "connect_any lib s [] result w = (result, w)"
| "connect_any lib s (a # as) result w =
    (let (result, w) = srt_connect lib s a w in if result \<noteq> SRT_ERROR then (result, w) else connect_any lib s as result w)"

definition startClient ::
    "('c, 'w) srt_lib \<Rightarrow> string \<Rightarrow> u16 \<Rightarrow> int \<Rightarrow> int \<Rightarrow> int \<Rightarrow> 'c option \<Rightarrow> int \<Rightarrow> string
      \<Rightarrow> 'c srt_net \<Rightarrow> 'w \<Rightarrow> bool \<times> 'c srt_net \<times> 'w" where
  "startClient lib host port reorder latency overhead ctx mtu psk n w =
    (if current_mode n \<noteq> Mode_unknown then (False, n, w)
     else
       let n = n\<lparr>client_context := ctx\<rparr>; (sock, w) = srt_create_socket lib w; n = n\<lparr>net_context := sock\<rparr> in
       if sock = SRT_ERROR then (False, n, w)
       else
         let n = happens (Created sock) n;
             (ok, w) = set_flags lib sock ([(SRTO_SENDER, Int32 1), (SRTO_LATENCY, Int32 latency), (SRTO_LOSSMAXTTL, Int32 reorder),
               (SRTO_OHEADBW, Int32 overhead), (SRTO_PAYLOADSIZE, Int32 mtu)] @ psk_flags psk) w in
         if \<not> ok then (False, n, w)
         else let ((result, svr), w) = getaddrinfo lib host port w in
           if result \<noteq> 0 then (False, n, w)
           else let (result, w) = connect_any lib sock svr result w in
             if result = SRT_ERROR then (False, happens (Context_closed sock) n, snd (srt_close lib sock w))
             else (True, n\<lparr>current_mode := Mode_client, client_active := True, worker_thread := Some C_loop\<rparr>, w))"

section \<open>The other calls\<close>

definition getConnectedServer :: "'c srt_net \<Rightarrow> SRTSOCKET \<times> 'c option" where
  "getConnectedServer n = (if current_mode n = Mode_client then (net_context n, client_context n) else (0, None))"

definition getActiveClients ::
    "((SRTSOCKET \<times> 'c option) list \<Rightarrow> 'w \<Rightarrow> (SRTSOCKET \<times> 'c option) list \<times> 'w) \<Rightarrow> 'c srt_net \<Rightarrow> 'w \<Rightarrow> 'c srt_net \<times> 'w" where
  "getActiveClients f n w = (let (cs, w) = f (client_list n) w in (n\<lparr>client_list := cs\<rparr>, w))"

text \<open>The comparison \<open>result != len\<close> is on \<open>size_t\<close>.\<close>

definition sendData ::
    "('c, 'w) srt_lib \<Rightarrow> bytes \<Rightarrow> SRTSOCKET \<Rightarrow> 'c srt_net \<Rightarrow> 'w \<Rightarrow> bool \<times> 'w" where
  "sendData lib data targetSystem n w =
    (let sent = (\<lambda>(result, w). (result \<noteq> SRT_ERROR \<and> (word_of_int result :: u64) = word_of_nat (length data), w)) in
     if current_mode n = Mode_client \<and> net_context n \<noteq> 0 \<and> client_active n then sent (srt_sendmsg2 lib (net_context n) data w)
     else if current_mode n = Mode_server \<and> targetSystem \<noteq> 0 \<and> server_active n then sent (srt_sendmsg2 lib targetSystem data w)
     else (False, w))"

definition getStatistics ::
    "('c, 'w) srt_lib \<Rightarrow> int \<Rightarrow> int \<Rightarrow> SRTSOCKET \<Rightarrow> 'c srt_net \<Rightarrow> 'w \<Rightarrow> bool \<times> 'w" where
  "getStatistics lib clr instantaneous targetSystem n w =
    (let ok = (\<lambda>(result, w). (result \<noteq> SRT_ERROR, w)) in
     if current_mode n = Mode_client \<and> client_active n \<and> net_context n \<noteq> 0 then ok (srt_bistats lib (net_context n) clr instantaneous w)
     else if current_mode n = Mode_server \<and> server_active n \<and> targetSystem \<noteq> 0 then ok (srt_bistats lib targetSystem clr instantaneous w)
     else (False, w))"

end
