(* ===== verification/SrtNetThreads.thy ===== *)
theory SrtNetThreads
  imports SrtNet
begin

text \<open>
  The threads of \<open>SRTNet\<close> and their interleavings.  A step of a thread is
  \<^term>\<open>None\<close> when the code does something undefined in it: here, when the event handler reads an
  array element that was never written, or dereferences the end iterator of the map.
\<close>

section \<open>The accepting thread: waitForSRTClient\<close>

text \<open>The array \<open>ready\<close> of the receiving thread before its first use.\<close>

definition blank_ready :: ready_array where
  "blank_ready = replicate MAX_WORKERS None"

fun waitForSRTClient_step ::
    "('c, 'w) srt_lib \<Rightarrow> 'c worker_pc \<Rightarrow> 'c srt_net \<Rightarrow> 'w \<Rightarrow> ('c worker_pc \<times> 'c srt_net \<times> 'w) option" where
  "waitForSRTClient_step lib W_start n w =
    (let (poll, w) = srt_epoll_create lib w; (_, w) = srt_epoll_set lib poll w
     in Some (W_closeAll, n\<lparr>poll_id := poll, event_thread := Some (E_loop blank_ready)\<rparr>, w))"
| "waitForSRTClient_step lib W_closeAll n w = (let (n, w) = closeAllClientSockets lib n w in Some (W_loop, n, w))"
| "waitForSRTClient_step lib W_loop n w = (if server_active n then Some (W_accept, n, w) else Some (W_done, n, w))"
| "waitForSRTClient_step lib W_accept n w =
    (let ((newSocketCandidate, theirAddr), w) = srt_accept lib (net_context n) w
     in if newSocketCandidate = -1 then Some (W_loop, n, w) else Some (W_connected newSocketCandidate theirAddr, n, w))"
| "waitForSRTClient_step lib (W_connected newSocketCandidate theirAddr) n w =
    (case clientConnected lib of
       None \<Rightarrow> None
     | Some cb \<Rightarrow>
       let (ctx, cctx, w) = cb theirAddr newSocketCandidate (connection_context n) w; n = n\<lparr>connection_context := cctx\<rparr>
       in if ctx \<noteq> None then Some (W_add newSocketCandidate ctx, n, w)
          else Some (W_loop, happens (Turned_away newSocketCandidate) n, snd (sys_close lib newSocketCandidate w)))"
| "waitForSRTClient_step lib (W_add newSocketCandidate ctx) n w =
    (let n = happens (Registered newSocketCandidate) (n\<lparr>client_list := clients_assign newSocketCandidate ctx (client_list n)\<rparr>)
     in Some (W_loop, n, snd (srt_epoll_add_usock lib (poll_id n) newSocketCandidate w)))"
| "waitForSRTClient_step lib pc n w = Some (pc, n, w)"

section \<open>The client's thread: clientWorker\<close>

text \<open>The data callbacks, of which at most one is called; the context is passed by reference.\<close>

definition deliver ::
    "('c, 'w) srt_lib \<Rightarrow> int \<Rightarrow> bytes \<Rightarrow> 'c option \<Rightarrow> SRTSOCKET \<Rightarrow> 'w \<Rightarrow> 'c option \<times> 'w" where
  "deliver lib result msg ctx s w =
    (case receivedData lib of
       Some cb \<Rightarrow> cb (take (nat result) msg) ctx s w
     | None \<Rightarrow> (case receivedDataNoCopy lib of Some cb \<Rightarrow> cb (take (nat result) msg) ctx s w | None \<Rightarrow> (ctx, w)))"

fun clientWorker_step ::
    "('c, 'w) srt_lib \<Rightarrow> 'c worker_pc \<Rightarrow> 'c srt_net \<Rightarrow> 'w \<Rightarrow> 'c worker_pc \<times> 'c srt_net \<times> 'w" where
  "clientWorker_step lib C_loop n w = (if client_active n then (C_recv, n, w) else (C_exit, n, w))"
| "clientWorker_step lib C_recv n w =
    (let ((result, msg), w) = srt_recvmsg2 lib (net_context n) 2048 w in
     if result = SRT_ERROR then
       (case clientDisconnected lib of
          None \<Rightarrow> (C_exit, n, w)
        | Some cb \<Rightarrow> let (ctx, w) = cb (client_context n) (net_context n) w
                    in (C_exit, happens Server_lost (n\<lparr>client_context := ctx\<rparr>), w))
     else if result > 0 then
       let (ctx, w) = deliver lib result msg (client_context n) (net_context n) w in (C_loop, n\<lparr>client_context := ctx\<rparr>, w)
     else (C_loop, n, w))"
| "clientWorker_step lib C_exit n w = (W_done, n\<lparr>client_active := False\<rparr>, w)"
| "clientWorker_step lib pc n w = (pc, n, w)"

text \<open>The thread that the object's \<open>worker_thread_\<close> runs: each function leaves the other's counters alone.\<close>

definition worker_step ::
    "('c, 'w) srt_lib \<Rightarrow> 'c worker_pc \<Rightarrow> 'c srt_net \<Rightarrow> 'w \<Rightarrow> ('c worker_pc \<times> 'c srt_net \<times> 'w) option" where
  "worker_step lib pc n w =
    (if pc \<in> {C_loop, C_recv, C_exit} then Some (clientWorker_step lib pc n w) else waitForSRTClient_step lib pc n w)"

section \<open>The receiving thread: serverEventHandler\<close>

text \<open>
  The loop of \<open>CEPoll::uwait\<close> in the SRT library over the pending notices, with \<open>tot\<close> counted so
  far: the value returned and the entries written to \<open>fdsSet\<close>.
\<close>

fun uwait_scan :: "SRTSOCKET list \<Rightarrow> nat \<Rightarrow> nat \<Rightarrow> nat \<times> SRTSOCKET list" where
  "uwait_scan [] fdsSize tot = (tot, [])"
| "uwait_scan (i # is) fdsSize tot =
    (let tot = tot + 1 in
     if tot > fdsSize then (tot, [])
     else let (ret, fds) = uwait_scan is fdsSize tot in (ret, i # fds))"

text \<open>\<open>srt_epoll_uwait\<close> fills the front of the array \<open>ready\<close>.\<close>

definition fill :: "SRTSOCKET option list \<Rightarrow> SRTSOCKET list \<Rightarrow> SRTSOCKET option list" where
  "fill ready fds = map Some fds @ drop (length fds) ready"

text \<open>The branches on the result of \<open>srt_recvmsg2\<close>, under the lock of the client list.\<close>

definition received ::
    "('c, 'w) srt_lib \<Rightarrow> SRTSOCKET \<Rightarrow> int \<Rightarrow> bytes \<Rightarrow> 'c srt_net \<Rightarrow> 'w \<Rightarrow> ('c srt_net \<times> 'w) option" where
  "received lib thisSocket result msg n w =
    (let it = map_of (client_list n) thisSocket in
     if result = SRT_ERROR then
       (case it of
          None \<Rightarrow> Some (n, w)
        | Some ctx \<Rightarrow>
          let n = n\<lparr>client_list := clients_erase thisSocket (client_list n)\<rparr>;
              (_, w) = srt_epoll_remove_usock lib (poll_id n) thisSocket w;
              (_, w) = srt_close lib thisSocket w; n = happens (Client_closed thisSocket) n
          in (case clientDisconnected lib of
                None \<Rightarrow> Some (n, w)
              | Some cb \<Rightarrow> Some (happens (Disconnected thisSocket) n, snd (cb ctx thisSocket w))))
     else if result > 0 \<and> (receivedData lib \<noteq> None \<or> receivedDataNoCopy lib \<noteq> None) then
       (case it of
          None \<Rightarrow> None
        | Some ctx \<Rightarrow>
          let (ctx, w) = deliver lib result msg ctx thisSocket w
          in Some (n\<lparr>client_list := clients_assign thisSocket ctx (client_list n)\<rparr>, w))
     else Some (n, w))"

fun serverEventHandler_step ::
    "('c, 'w) srt_lib \<Rightarrow> event_pc \<Rightarrow> 'c srt_net \<Rightarrow> 'w \<Rightarrow> (event_pc \<times> 'c srt_net \<times> 'w) option" where
  "serverEventHandler_step lib (E_loop ready) n w =
    (if server_active n then Some (E_wait ready, n, w) else Some (E_done, n, snd (srt_epoll_release lib (poll_id n) w)))"
| "serverEventHandler_step lib (E_wait ready) n w =
    (let ((ret, fds), w) = srt_epoll_uwait lib (poll_id n) 5 w;
         ret = (if ret = int MAX_WORKERS + 1 then ret - 1 else ret); ready = fill ready fds
     in if ret > 0 then Some (E_recv ready (nat ret) 0, n, w) else Some (E_loop ready, n, w))"
| "serverEventHandler_step lib (E_recv ready ret i) n w =
    (if i < ret then do {
       slot \<leftarrow> rd ready i;
       thisSocket \<leftarrow> slot;
       let ((result, msg), w) = srt_recvmsg2 lib thisSocket 2048 w;
       Some (E_got ready ret i thisSocket result msg, n, w) }
     else Some (E_loop ready, n, w))"
| "serverEventHandler_step lib (E_got ready ret i thisSocket result msg) n w = do {
     (n, w) \<leftarrow> received lib thisSocket result msg n w;
     Some (E_recv ready ret (i + 1), n, w) }"
| "serverEventHandler_step lib E_done n w = Some (E_done, n, w)"

section \<open>stop\<close>

text \<open>The value returned is put into \<open>stop_result\<close>.\<close>

definition stop_returns :: "bool \<Rightarrow> 'c srt_net \<Rightarrow> 'c srt_net" where
  "stop_returns b n = n\<lparr>stopping := S_idle, stop_result := Some b\<rparr>"

definition stop_call :: "'c srt_net \<Rightarrow> 'c srt_net" where
  "stop_call n = (case current_mode n of
      Mode_server \<Rightarrow> n\<lparr>server_active := False, stopping := S_close_server\<rparr>
    | Mode_client \<Rightarrow> n\<lparr>client_active := False, stopping := S_close_client\<rparr>
    | Mode_unknown \<Rightarrow> stop_returns True n)"

text \<open>\<open>srt_close(context_)\<close>, with the early return when it fails.\<close>

definition close_context :: "('c, 'w) srt_lib \<Rightarrow> stop_pc \<Rightarrow> 'c srt_net \<Rightarrow> 'w \<Rightarrow> 'c srt_net \<times> 'w" where
  "close_context lib next n w =
    (if net_context n \<noteq> 0 then
       let (result, w) = srt_close lib (net_context n) w; n = happens (Context_closed (net_context n)) n
       in if result = SRT_ERROR then (stop_returns False n, w) else (n\<lparr>stopping := next\<rparr>, w)
     else (n\<lparr>stopping := next\<rparr>, w))"

text \<open>Joining waits for the thread: \<^term>\<open>None\<close> as long as it runs.\<close>

fun stop_step :: "('c, 'w) srt_lib \<Rightarrow> stop_pc \<Rightarrow> 'c srt_net \<Rightarrow> 'w \<Rightarrow> ('c srt_net \<times> 'w) option" where
  "stop_step lib S_idle n w = None"
| "stop_step lib S_close_server n w = Some (close_context lib S_closeAll n w)"
| "stop_step lib S_closeAll n w = (let (n, w) = closeAllClientSockets lib n w in Some (n\<lparr>stopping := S_join_worker\<rparr>, w))"
| "stop_step lib S_join_worker n w =
    (if worker_thread n = None \<or> worker_thread n = Some W_done
     then Some (n\<lparr>worker_thread := None, stopping := S_join_event\<rparr>, w) else None)"
| "stop_step lib S_join_event n w =
    (if event_thread n = None \<or> event_thread n = Some E_done
     then Some (stop_returns True (n\<lparr>event_thread := None, current_mode := Mode_unknown\<rparr>), w) else None)"
| "stop_step lib S_close_client n w = Some (close_context lib S_join_client n w)"
| "stop_step lib S_join_client n w =
    (if worker_thread n = None \<or> worker_thread n = Some W_done
     then Some (stop_returns True (n\<lparr>worker_thread := None, current_mode := Mode_unknown\<rparr>), w) else None)"

text \<open>
  What is left of \<open>~SRTNet\<close> after its call of \<open>stop\<close>: the members are destroyed, and destroying a
  thread that is still joinable ends the process.
\<close>

definition SRTNet_delete :: "'c srt_net \<Rightarrow> unit option" where
  "SRTNet_delete n = (if worker_thread n = None \<and> event_thread n = None then Some () else None)"

section \<open>Interleavings\<close>

text \<open>
  One step of the whole: a call of the application or a step of a thread.  The calls that take
  \<open>net_mtx_\<close> wait while \<open>stop\<close> holds it.  \<open>sendData\<close>, \<open>getStatistics\<close> and a reader's
  \<open>getActiveClients\<close> change nothing of the object.
\<close>

datatype ('c, 'w) outcome = Next "'c srt_net" 'w | Blocked | Fault

datatype 'c action = Start_server string u16 int int int int string "'c option"
  | Start_client string u16 int int int "'c option" int string | Stop | Stop_step | Worker | Event

fun net_step :: "('c, 'w) srt_lib \<Rightarrow> 'c action \<Rightarrow> 'c srt_net \<Rightarrow> 'w \<Rightarrow> ('c, 'w) outcome" where
  "net_step lib (Start_server ip port reorder latency overhead mtu psk ctx) n w =
    (if stopping n \<noteq> S_idle then Blocked
     else let (_, n, w) = startServer lib ip port reorder latency overhead mtu psk ctx n w in Next n w)"
| "net_step lib (Start_client host port reorder latency overhead ctx mtu psk) n w =
    (if stopping n \<noteq> S_idle then Blocked
     else let (_, n, w) = startClient lib host port reorder latency overhead ctx mtu psk n w in Next n w)"
| "net_step lib Stop n w = (if stopping n \<noteq> S_idle then Blocked else Next (stop_call n) w)"
| "net_step lib Stop_step n w = (case stop_step lib (stopping n) n w of None \<Rightarrow> Blocked | Some (n, w) \<Rightarrow> Next n w)"
| "net_step lib Worker n w =
    (case worker_thread n of
       None \<Rightarrow> Blocked
     | Some pc \<Rightarrow> if pc = W_done then Blocked else (case worker_step lib pc n w of
         None \<Rightarrow> Fault
       | Some (pc, n, w) \<Rightarrow> Next (n\<lparr>worker_thread := Some pc\<rparr>) w))"
| "net_step lib Event n w =
    (case event_thread n of
       None \<Rightarrow> Blocked
     | Some pc \<Rightarrow> if pc = E_done then Blocked else (case serverEventHandler_step lib pc n w of
         None \<Rightarrow> Fault
       | Some (pc, n, w) \<Rightarrow> Next (n\<lparr>event_thread := Some pc\<rparr>) w))"

text \<open>A schedule, stopping at the first action that cannot be taken.\<close>

fun net_run :: "('c, 'w) srt_lib \<Rightarrow> 'c action list \<Rightarrow> 'c srt_net \<Rightarrow> 'w \<Rightarrow> ('c, 'w) outcome" where
  "net_run lib [] n w = Next n w"
| "net_run lib (a # as) n w = (case net_step lib a n w of Next n w \<Rightarrow> net_run lib as n w | r \<Rightarrow> r)"

end
