(* ===== verification/SrtNetInv.thy ===== *)
theory SrtNetInv
  imports SrtNetThreads
begin

text \<open>
  The invariants of \<open>SRTNet\<close> under all interleavings: which threads run in which mode, that the
  client list is a map, and that every client's books balance.
\<close>

section \<open>Reachable states\<close>

text \<open>
  SRT gives an accepted connection a socket of its own, one that no connected client has.
\<close>

definition accept_fresh :: "('c, 'w) srt_lib \<Rightarrow> 'c srt_net \<Rightarrow> 'w \<Rightarrow> bool" where
  "accept_fresh lib n w \<longleftrightarrow> (worker_thread n = Some W_accept \<longrightarrow>
     fst (fst (srt_accept lib (net_context n) w)) \<notin> fst ` set (client_list n))"

inductive net_reach :: "('c, 'w) srt_lib \<Rightarrow> 'c srt_net \<Rightarrow> 'w \<Rightarrow> bool" for lib where
  constructed: "net_reach lib SRTNet_new w"
| step: "net_reach lib n w \<Longrightarrow> accept_fresh lib n w \<Longrightarrow> net_step lib a n w = Next n' w' \<Longrightarrow> net_reach lib n' w'"
| outside: "net_reach lib n w \<Longrightarrow> net_reach lib n w'"

section \<open>The invariants\<close>

fun threads_ok :: "Mode \<Rightarrow> bool \<Rightarrow> bool \<Rightarrow> 'c worker_pc option \<Rightarrow> event_pc option \<Rightarrow> stop_pc \<Rightarrow> bool" where
  "threads_ok Mode_unknown sa ca wt et st \<longleftrightarrow> wt = None \<and> et = None \<and> st = S_idle \<and> \<not> sa \<and> \<not> ca"
| "threads_ok Mode_server sa ca wt et st \<longleftrightarrow> \<not> ca \<and> st \<notin> {S_close_client, S_join_client} \<and> (st \<noteq> S_idle \<longrightarrow> \<not> sa)
     \<and> (case wt of
          None \<Rightarrow> st = S_join_event \<and> et \<noteq> None
        | Some pc \<Rightarrow> pc \<notin> {C_loop, C_recv, C_exit} \<and> st \<noteq> S_join_event \<and> (et = None \<longleftrightarrow> pc = W_start))"
| "threads_ok Mode_client sa ca wt et st \<longleftrightarrow> \<not> sa \<and> et = None \<and> st \<in> {S_idle, S_close_client, S_join_client}
     \<and> (st \<noteq> S_idle \<longrightarrow> \<not> ca) \<and> (\<exists>pc. wt = Some pc \<and> pc \<in> {C_loop, C_recv, C_exit, W_done})"

definition thread_inv :: "'c srt_net \<Rightarrow> bool" where
  "thread_inv n \<longleftrightarrow> threads_ok (current_mode n) (server_active n) (client_active n) (worker_thread n) (event_thread n) (stopping n)"

definition is_map :: "('a :: linorder \<times> 'b) list \<Rightarrow> bool" where
  "is_map cs \<longleftrightarrow> sorted_wrt (<) (map fst cs)"

text \<open>The socket the accepting thread holds and has not yet registered.\<close>

fun in_hand :: "'c worker_pc option \<Rightarrow> SRTSOCKET option" where
  "in_hand (Some (W_connected s _)) = Some s"
| "in_hand (Some (W_add s _)) = Some s"
| "in_hand _ = None"

text \<open>
  Every registration of a client is matched by one closing of its socket, except for the clients
  in the list; and every closing comes with one call of \<open>clientDisconnected\<close>, if that is set.
\<close>

definition balanced :: "('c, 'w) srt_lib \<Rightarrow> net_event list \<Rightarrow> SRTSOCKET set \<Rightarrow> SRTSOCKET \<Rightarrow> bool" where
  "balanced lib h ks s \<longleftrightarrow> count_list h (Registered s) = count_list h (Client_closed s) + (if s \<in> ks then 1 else 0)
     \<and> count_list h (Disconnected s) = (if clientDisconnected lib = None then 0 else count_list h (Client_closed s))"

definition books_balance :: "('c, 'w) srt_lib \<Rightarrow> 'c srt_net \<Rightarrow> bool" where
  "books_balance lib n \<longleftrightarrow> (\<forall>s. balanced lib (history n) (fst ` set (client_list n)) s)"

definition net_inv :: "('c, 'w) srt_lib \<Rightarrow> 'c srt_net \<Rightarrow> bool" where
  "net_inv lib n \<longleftrightarrow> thread_inv n \<and> is_map (client_list n) \<and> books_balance lib n
     \<and> (\<forall>s. in_hand (worker_thread n) = Some s \<longrightarrow> s \<notin> fst ` set (client_list n))"

section \<open>The map of clients\<close>

lemma keys_assign [simp]: "fst ` set (clients_assign s c cs) = insert s (fst ` set cs)"
  by (induction s c cs rule: clients_assign.induct) auto

lemma keys_erase [simp]: "fst ` set (clients_erase s cs) = fst ` set cs - {s}"
  by (auto simp: clients_erase_def)

lemma is_map_assign [simp]: "is_map cs \<Longrightarrow> is_map (clients_assign s c cs)"
  unfolding is_map_def
proof (induction s c cs rule: clients_assign.induct)
  case (2 s c s' c' cs)
  have keys: "set (map fst (clients_assign s c cs)) = insert s (set (map fst cs))"
    using keys_assign [of s c cs] by simp
  show ?case using 2 keys by (auto simp del: set_map)
qed simp

lemma is_map_erase [simp]: "is_map cs \<Longrightarrow> is_map (clients_erase s cs)"
  unfolding is_map_def clients_erase_def by (induction cs) auto

lemma is_map_Nil [simp]: "is_map []"
  by (simp add: is_map_def)

lemma map_of_assign: "is_map cs \<Longrightarrow> map_of (clients_assign s c cs) = (map_of cs)(s \<mapsto> c)"
  unfolding is_map_def by (induction s c cs rule: clients_assign.induct) (auto simp: fun_eq_iff)

lemma is_map_distinct: "is_map cs \<Longrightarrow> distinct (map fst cs)"
  unfolding is_map_def by (metis strict_sorted_iff)

section \<open>What the operations leave alone\<close>

lemma happens_simps [simp]:
  "server_active (happens e n) = server_active n" "client_active (happens e n) = client_active n"
  "worker_thread (happens e n) = worker_thread n" "event_thread (happens e n) = event_thread n"
  "net_context (happens e n) = net_context n" "poll_id (happens e n) = poll_id n"
  "current_mode (happens e n) = current_mode n" "client_list (happens e n) = client_list n"
  "client_context (happens e n) = client_context n" "connection_context (happens e n) = connection_context n"
  "stopping (happens e n) = stopping n" "stop_result (happens e n) = stop_result n"
  "history (happens e n) = history n @ [e]"
  by (simp_all add: happens_def)

text \<open>The history of closing a list of clients.\<close>

definition closings :: "('c, 'w) srt_lib \<Rightarrow> SRTSOCKET list \<Rightarrow> net_event list" where
  "closings lib ss = concat (map (\<lambda>s. if clientDisconnected lib = None then [Client_closed s] else [Client_closed s, Disconnected s]) ss)"

lemma close_clients_result: "fst (close_clients lib cs n w) = n\<lparr>history := history n @ closings lib (map fst cs)\<rparr>"
proof (induction lib cs n w rule: close_clients.induct)
  case (1 lib n w)
  then show ?case by (simp add: closings_def)
next
  case (2 lib socket ctx cs n w)
  then show ?case by (cases "clientDisconnected lib") (auto simp: closings_def happens_def split: prod.splits)
qed

lemma closeAll_result:
  "fst (closeAllClientSockets lib n w) = n\<lparr>history := history n @ closings lib (map fst (client_list n)), client_list := []\<rparr>"
  using close_clients_result [of lib "client_list n" n w] by (auto simp: closeAllClientSockets_def split: prod.splits)

lemma closeAll_eq:
  "closeAllClientSockets lib n w =
    (n\<lparr>history := history n @ closings lib (map fst (client_list n)), client_list := []\<rparr>, snd (closeAllClientSockets lib n w))"
  using closeAll_result [of lib n w] by (metis prod.collapse)

lemma count_closings [simp]:
  "count_list (closings lib ss) (Client_closed s) = count_list ss s"
  "count_list (closings lib ss) (Disconnected s) = (if clientDisconnected lib = None then 0 else count_list ss s)"
  "count_list (closings lib ss) (Registered s) = 0"
  by (induction ss) (auto simp: closings_def)

text \<open>Starting: only sockets of its own, and the threads only on success.\<close>

definition context_events :: "net_event list \<Rightarrow> bool" where
  "context_events h \<longleftrightarrow> set h \<subseteq> range Created \<union> range Context_closed"

lemma count_context_events [simp]:
  assumes "context_events h"
  shows "count_list h (Registered s) = 0" "count_list h (Client_closed s) = 0" "count_list h (Disconnected s) = 0"
  using assms by (auto simp: context_events_def count_list_0_iff)

text \<open>The four ways a start can end, given the state \<open>m\<close> when it has asked for a socket.\<close>

definition start_ends :: "'c srt_net \<Rightarrow> 'c srt_net \<Rightarrow> bool \<Rightarrow> 'c srt_net \<Rightarrow> bool" where
  "start_ends m started b n' \<longleftrightarrow> (\<exists>sock. \<not> b \<and> n' \<in> {m\<lparr>net_context := sock\<rparr>, happens (Created sock) (m\<lparr>net_context := sock\<rparr>),
       happens (Context_closed sock) (happens (Created sock) (m\<lparr>net_context := sock\<rparr>))}
     \<or> b \<and> n' = happens (Created sock) (started\<lparr>net_context := sock\<rparr>))"

lemma startServer_result:
  assumes "startServer lib ip port reorder latency overhead mtu psk ctx n w = (b, n', w')"
  shows "n' = n \<and> \<not> b \<or> current_mode n = Mode_unknown \<and> start_ends (n\<lparr>connection_context := ctx\<rparr>)
    (n\<lparr>connection_context := ctx, server_active := True, current_mode := Mode_server, worker_thread := Some W_start\<rparr>) b n'"
proof (cases "current_mode n \<noteq> Mode_unknown \<or> clientConnected lib = None")
  case True
  then have "startServer lib ip port reorder latency overhead mtu psk ctx n w = (False, n, w)"
    unfolding startServer_def Let_def by (elim disjE) simp_all
  with assms show ?thesis by simp
next
  case False
  obtain sock w1 where sock: "srt_create_socket lib w = (sock, w1)" by fastforce
  have "start_ends (n\<lparr>connection_context := ctx\<rparr>)
    (n\<lparr>connection_context := ctx, server_active := True, current_mode := Mode_server, worker_thread := Some W_start\<rparr>) b n'"
    using assms False unfolding startServer_def Let_def start_ends_def
    by (intro exI [of _ sock]) (auto simp: sock happens_def split: if_splits option.splits prod.splits)
  with False show ?thesis by simp
qed

lemma startClient_result:
  assumes "startClient lib host port reorder latency overhead ctx mtu psk n w = (b, n', w')"
  shows "n' = n \<and> \<not> b \<or> current_mode n = Mode_unknown \<and> start_ends (n\<lparr>client_context := ctx\<rparr>)
    (n\<lparr>client_context := ctx, client_active := True, current_mode := Mode_client, worker_thread := Some C_loop\<rparr>) b n'"
proof (cases "current_mode n \<noteq> Mode_unknown")
  case True
  then have "startClient lib host port reorder latency overhead ctx mtu psk n w = (False, n, w)"
    unfolding startClient_def Let_def by simp
  with assms show ?thesis by simp
next
  case False
  obtain sock w1 where sock: "srt_create_socket lib w = (sock, w1)" by fastforce
  have "start_ends (n\<lparr>client_context := ctx\<rparr>)
    (n\<lparr>client_context := ctx, client_active := True, current_mode := Mode_client, worker_thread := Some C_loop\<rparr>) b n'"
    using assms False unfolding startClient_def Let_def start_ends_def
    by (intro exI [of _ sock]) (auto simp: sock happens_def split: if_splits option.splits prod.splits)
  with False show ?thesis by simp
qed

section \<open>Preservation\<close>

text \<open>The part of the invariant that the clients make up, and its changes.\<close>

lemma books_event [simp]:
  "books_balance lib (happens (Created s) n) = books_balance lib n"
  "books_balance lib (happens (Context_closed s) n) = books_balance lib n"
  "books_balance lib (happens (Turned_away s) n) = books_balance lib n"
  "books_balance lib (happens Server_lost n) = books_balance lib n"
  by (simp_all add: books_balance_def balanced_def)

lemma books_upd [simp]:
  "books_balance lib (n\<lparr>event_thread := e\<rparr>) = books_balance lib n" "books_balance lib (n\<lparr>worker_thread := t\<rparr>) = books_balance lib n"
  "books_balance lib (n\<lparr>server_active := f\<rparr>) = books_balance lib n" "books_balance lib (n\<lparr>client_active := f\<rparr>) = books_balance lib n"
  "books_balance lib (n\<lparr>net_context := s\<rparr>) = books_balance lib n" "books_balance lib (n\<lparr>poll_id := p\<rparr>) = books_balance lib n"
  "books_balance lib (n\<lparr>current_mode := m\<rparr>) = books_balance lib n" "books_balance lib (n\<lparr>stopping := q\<rparr>) = books_balance lib n"
  "books_balance lib (n\<lparr>client_context := c\<rparr>) = books_balance lib n" "books_balance lib (n\<lparr>connection_context := c\<rparr>) = books_balance lib n"
  "books_balance lib (n\<lparr>stop_result := r\<rparr>) = books_balance lib n"
  by (simp_all add: books_balance_def)

lemma count_map_key: "is_map cs \<Longrightarrow> count_list (map fst cs) s = (if s \<in> fst ` set cs then 1 else 0)"
proof (induction cs)
  case (Cons c cs)
  then show ?case by (auto simp: is_map_def)
qed simp

lemma books_closeAll:
  assumes "is_map (client_list n)" and "books_balance lib n"
  shows "books_balance lib (n\<lparr>history := history n @ closings lib (map fst (client_list n)), client_list := []\<rparr>)"
  using assms(2) unfolding books_balance_def balanced_def by (simp add: count_map_key [OF assms(1)] del: not_None_eq)

lemma balanced_register: "s \<notin> ks \<Longrightarrow> balanced lib h ks t \<Longrightarrow> balanced lib (h @ [Registered s]) (insert s ks) t"
  by (auto simp: balanced_def simp del: not_None_eq)

lemma balanced_remove: "s \<in> ks \<Longrightarrow> balanced lib h ks t \<Longrightarrow> balanced lib (h @ closings lib [s]) (ks - {s}) t"
  by (auto simp: balanced_def simp del: not_None_eq)

lemma books_register:
  assumes "s \<notin> fst ` set (client_list n)" and "books_balance lib n"
  shows "books_balance lib (happens (Registered s) (n\<lparr>client_list := clients_assign s c (client_list n)\<rparr>))"
  using assms(2) balanced_register [OF assms(1)] unfolding books_balance_def by simp blast

text \<open>A client is removed: its socket is closed, and the application told if it wants to be.\<close>

definition removed :: "('c, 'w) srt_lib \<Rightarrow> SRTSOCKET \<Rightarrow> 'c srt_net \<Rightarrow> 'c srt_net" where
  "removed lib s n = n\<lparr>client_list := clients_erase s (client_list n), history := history n @ closings lib [s]\<rparr>"

lemma books_removed:
  assumes "s \<in> fst ` set (client_list n)" and "books_balance lib n"
  shows "books_balance lib (removed lib s n)"
  using assms(2) balanced_remove [OF assms(1)] unfolding books_balance_def removed_def by simp blast

lemma received_cases:
  assumes "received lib s result msg n w = Some (n', w')"
  obtains "n' = n"
    | "n' = removed lib s n" and "s \<in> fst ` set (client_list n)"
    | ctx where "n' = n\<lparr>client_list := clients_assign s ctx (client_list n)\<rparr>" and "s \<in> fst ` set (client_list n)"
proof -
  have key: "s \<in> fst ` set (client_list n)" if "map_of (client_list n) s = Some c" for c
    using map_of_SomeD [OF that] by force
  consider (err) c where "result = SRT_ERROR" "map_of (client_list n) s = Some c"
    | (data) c where "result \<noteq> SRT_ERROR" "result > 0" "receivedData lib \<noteq> None \<or> receivedDataNoCopy lib \<noteq> None" "map_of (client_list n) s = Some c"
    | (none) "n' = n"
    using assms unfolding received_def Let_def by (force split: if_splits option.splits)
  then show ?thesis
  proof cases
    case (err c)
    then have "n' = removed lib s n"
      using assms unfolding received_def Let_def removed_def closings_def
      by (cases "clientDisconnected lib") (auto simp: happens_def case_prod_beta)
    then show ?thesis using key [OF err(2)] that(2) by simp
  next
    case (data c)
    then obtain ctx where "n' = n\<lparr>client_list := clients_assign s ctx (client_list n)\<rparr>"
      using assms unfolding received_def Let_def by (auto simp: case_prod_beta)
    then show ?thesis using key [OF data(4)] that(3) by simp
  next
    case none
    then show ?thesis by (rule that(1))
  qed
qed

section \<open>The threads\<close>

text \<open>
  For the threads' part of the invariant a step of the event handler is invisible, and so is one
  of the accepting thread after its first.
\<close>

lemma thread_inv_event: "thread_inv n \<Longrightarrow> event_thread n \<noteq> None \<Longrightarrow> thread_inv (n\<lparr>event_thread := Some pc\<rparr>)"
  unfolding thread_inv_def by (cases "current_mode n") (auto split: option.splits)

lemma received_inv:
  assumes "received lib s result msg n w = Some (n', w')" and "net_inv lib n"
  shows "net_inv lib n'"
  using assms(1)
proof (cases rule: received_cases)
  case 1
  with assms(2) show ?thesis by simp
next
  case 2
  have "thread_inv n'" using assms(2) unfolding 2(1) removed_def net_inv_def thread_inv_def by simp
  moreover have "books_balance lib n'" unfolding 2(1) by (rule books_removed [OF 2(2)]) (use assms(2) in \<open>simp add: net_inv_def\<close>)
  moreover have "client_list n' = clients_erase s (client_list n)" "worker_thread n' = worker_thread n" using 2(1) by (simp_all add: removed_def)
  ultimately show ?thesis using assms(2) unfolding net_inv_def by simp
next
  case (3 ctx)
  have "thread_inv n'" using assms(2) unfolding 3(1) net_inv_def thread_inv_def by simp
  moreover have "books_balance lib n'"
    using assms(2) 3 by (simp add: net_inv_def books_balance_def insert_absorb)
  moreover have "fst ` set (client_list n') = fst ` set (client_list n)" "worker_thread n' = worker_thread n" "is_map (client_list n')"
    using 3 assms(2) by (auto simp: net_inv_def)
  ultimately show ?thesis using assms(2) unfolding net_inv_def by simp
qed

lemma net_inv_event: "net_inv lib n \<Longrightarrow> event_thread n \<noteq> None \<Longrightarrow> net_inv lib (n\<lparr>event_thread := Some pc\<rparr>)"
  unfolding net_inv_def by (simp add: thread_inv_event)

lemma received_event_thread: "received lib s result msg n w = Some (n', w') \<Longrightarrow> event_thread n' = event_thread n"
  by (erule received_cases) (simp_all add: removed_def)

lemma event_step_inv:
  assumes "net_inv lib n" and "event_thread n = Some pc" and "serverEventHandler_step lib pc n w = Some (pc', n', w')"
  shows "net_inv lib (n'\<lparr>event_thread := Some pc'\<rparr>)"
proof -
  have "net_inv lib n' \<and> event_thread n' \<noteq> None"
  proof (cases pc)
    case (E_got ready ret i s result msg)
    then obtain n1 w1 where "received lib s result msg n w = Some (n1, w1)" "n' = n1"
      using assms(3) by (auto simp: bind_eq_Some_conv)
    with assms(1,2) show ?thesis by (auto simp: received_event_thread intro: received_inv)
  next
    case (E_recv ready ret i)
    then have "n' = n"
      using assms(3) by (auto simp: bind_eq_Some_conv Let_def case_prod_beta split: if_splits)
    with assms(1,2) show ?thesis by simp
  qed (use assms in \<open>auto simp: Let_def bind_eq_Some_conv split: if_splits prod.splits\<close>)
  then show ?thesis by (auto intro: net_inv_event)
qed


lemma worker_step_inv:
  assumes "net_inv lib n" and "accept_fresh lib n w" and "worker_thread n = Some pc" and "pc \<noteq> W_done"
    and "worker_step lib pc n w = Some (pc', n', w')"
  shows "net_inv lib (n'\<lparr>worker_thread := Some pc'\<rparr>)"
proof (cases pc)
  case W_start
  then obtain p where "n' = n\<lparr>poll_id := p, event_thread := Some (E_loop blank_ready)\<rparr>" "pc' = W_closeAll"
    using assms(5) by (auto simp: worker_step_def case_prod_beta)
  with assms(1,3) W_start show ?thesis
    by (cases "current_mode n") (auto simp: net_inv_def thread_inv_def)
next
  case W_closeAll
  then have "n' = n\<lparr>history := history n @ closings lib (map fst (client_list n)), client_list := []\<rparr>" "pc' = W_loop"
    using assms(5) closeAll_result [of lib n w] by (auto simp: worker_step_def case_prod_beta)
  with assms(1,3) W_closeAll show ?thesis
    using books_closeAll [of n lib] by (cases "current_mode n") (auto simp: net_inv_def thread_inv_def)
next
  case W_loop
  then have "n' = n" "pc' = W_accept \<or> pc' = W_done"
    using assms(5) by (auto simp: worker_step_def split: if_splits)
  with assms(1,3) W_loop show ?thesis
    by (cases "current_mode n") (auto simp: net_inv_def thread_inv_def)
next
  case W_accept
  then have "n' = n" "pc' = W_loop \<or> (\<exists>a. pc' = W_connected (fst (fst (srt_accept lib (net_context n) w))) a)"
    using assms(5) by (auto simp: worker_step_def case_prod_beta Let_def split: if_splits)
  with assms(1,2,3) W_accept show ?thesis
    by (cases "current_mode n") (auto simp: net_inv_def thread_inv_def accept_fresh_def image_iff)
next
  case (W_connected s a)
  then obtain cctx where "n' = n\<lparr>connection_context := cctx\<rparr> \<and> (\<exists>c. pc' = W_add s c)
      \<or> n' = happens (Turned_away s) (n\<lparr>connection_context := cctx\<rparr>) \<and> pc' = W_loop"
    using assms(5) by (auto simp: worker_step_def case_prod_beta Let_def split: if_splits option.splits)
  with assms(1,3) W_connected show ?thesis
    by (cases "current_mode n") (force simp: net_inv_def thread_inv_def)+
next
  case (W_add s c)
  then have "n' = happens (Registered s) (n\<lparr>client_list := clients_assign s c (client_list n)\<rparr>)" "pc' = W_loop"
    using assms(5) by (auto simp: worker_step_def case_prod_beta Let_def)
  with assms(1,3) W_add show ?thesis
    using books_register [of s n lib c] by (cases "current_mode n") (auto simp: net_inv_def thread_inv_def)
next
  case C_loop
  then have "n' = n" "pc' = C_recv \<or> pc' = C_exit"
    using assms(5) by (auto simp: worker_step_def split: if_splits)
  with assms(1,3) C_loop show ?thesis
    by (cases "current_mode n") (auto simp: net_inv_def thread_inv_def)
next
  case C_recv
  then obtain c where "n' = n \<or> n' = n\<lparr>client_context := c\<rparr> \<or> n' = happens Server_lost (n\<lparr>client_context := c\<rparr>)"
    "pc' = C_loop \<or> pc' = C_exit"
    using assms(5) by (auto simp: worker_step_def case_prod_beta Let_def split: if_splits option.splits)
  with assms(1,3) C_recv show ?thesis
    by (cases "current_mode n") (auto simp: net_inv_def thread_inv_def)
next
  case C_exit
  then have "n' = n\<lparr>client_active := False\<rparr>" "pc' = W_done"
    using assms(5) by (auto simp: worker_step_def)
  with assms(1,3) C_exit show ?thesis
    by (cases "current_mode n") (auto simp: net_inv_def thread_inv_def)
next
  case W_done
  with assms(4) show ?thesis by simp
qed


section \<open>All steps\<close>

lemma start_ends_inv:
  assumes "net_inv lib n" and "current_mode n = Mode_unknown" and "start_ends m started b n'"
    and "books_balance lib m = books_balance lib n" and "client_list m = client_list n" and "thread_inv m"
    and "books_balance lib started = books_balance lib n" and "client_list started = client_list n"
    and "thread_inv started" and "in_hand (worker_thread m) = None" and "in_hand (worker_thread started) = None"
  shows "net_inv lib n'"
  using assms unfolding start_ends_def net_inv_def thread_inv_def by (elim exE disjE conjE) auto

lemma close_context_inv:
  assumes "net_inv lib n" and "stopping n = S_close_server \<and> next = S_closeAll \<or> stopping n = S_close_client \<and> next = S_join_client"
  shows "net_inv lib (fst (close_context lib next n w))"
proof -
  have "thread_inv (n\<lparr>stopping := next\<rparr>)" "thread_inv (n\<lparr>stopping := S_idle\<rparr>)"
    using assms unfolding net_inv_def thread_inv_def by (cases "current_mode n"; auto split: option.splits)+
  then show ?thesis
    using assms(1) unfolding close_context_def Let_def stop_returns_def net_inv_def thread_inv_def by (auto simp: case_prod_beta)
qed

lemma stop_step_inv:
  assumes "net_inv lib n" and "stop_step lib (stopping n) n w = Some (n', w')"
  shows "net_inv lib n'"
proof (cases "stopping n")
  case S_closeAll
  then have "n' = n\<lparr>history := history n @ closings lib (map fst (client_list n)), client_list := [], stopping := S_join_worker\<rparr>"
    using assms(2) closeAll_result [of lib n w] by (auto simp: case_prod_beta)
  with assms(1) S_closeAll show ?thesis
    using books_closeAll [of n lib] by (cases "current_mode n") (auto simp: net_inv_def thread_inv_def split: option.splits)
next
  case S_close_server
  then show ?thesis using assms close_context_inv [OF assms(1), of S_closeAll w] by simp
next
  case S_close_client
  then show ?thesis using assms close_context_inv [OF assms(1), of S_join_client w] by simp
qed (use assms in \<open>cases "current_mode n"; auto simp: net_inv_def thread_inv_def stop_returns_def split: if_splits option.splits\<close>)+

lemma stop_call_inv: "net_inv lib n \<Longrightarrow> stopping n = S_idle \<Longrightarrow> net_inv lib (stop_call n)"
  unfolding net_inv_def stop_call_def stop_returns_def thread_inv_def
  by (cases "current_mode n") (auto split: option.splits)

lemma worker_step_next:
  assumes "worker_thread n = Some pc" and "pc \<noteq> W_done"
  shows "net_step lib Worker n w = (case worker_step lib pc n w of None \<Rightarrow> Fault | Some (pc, n, w) \<Rightarrow> Next (n\<lparr>worker_thread := Some pc\<rparr>) w)"
  using assms by simp

lemma worker_next:
  assumes "net_step lib Worker n w = Next n' w'"
  obtains pc pc' n1 where "worker_thread n = Some pc" "pc \<noteq> W_done" "worker_step lib pc n w = Some (pc', n1, w')"
    "n' = n1\<lparr>worker_thread := Some pc'\<rparr>"
proof -
  obtain pc where pc: "worker_thread n = Some pc" "pc \<noteq> W_done" using assms by (cases "worker_thread n") (auto split: if_splits)
  then show ?thesis using assms that worker_step_next [OF pc, of lib w] by (auto split: option.splits)
qed

lemma event_step_next:
  assumes "event_thread n = Some pc" and "pc \<noteq> E_done"
  shows "net_step lib Event n w = (case serverEventHandler_step lib pc n w of None \<Rightarrow> Fault | Some (pc, n, w) \<Rightarrow> Next (n\<lparr>event_thread := Some pc\<rparr>) w)"
  using assms by simp

lemma event_next:
  assumes "net_step lib Event n w = Next n' w'"
  obtains pc pc' n1 where "event_thread n = Some pc" "pc \<noteq> E_done" "serverEventHandler_step lib pc n w = Some (pc', n1, w')"
    "n' = n1\<lparr>event_thread := Some pc'\<rparr>"
proof -
  obtain pc where pc: "event_thread n = Some pc" "pc \<noteq> E_done" using assms by (cases "event_thread n") (auto split: if_splits)
  then show ?thesis using assms that event_step_next [OF pc, of lib w] by (auto split: option.splits)
qed

lemma net_step_inv:
  assumes "net_inv lib n" and "accept_fresh lib n w" and "net_step lib a n w = Next n' w'"
  shows "net_inv lib n'"
proof (cases a)
  case (Start_server ip port reorder latency overhead mtu psk ctx)
  then obtain b where "startServer lib ip port reorder latency overhead mtu psk ctx n w = (b, n', w')"
    using assms(3) by (auto split: if_splits prod.splits)
  from startServer_result [OF this] show ?thesis
  proof (elim disjE conjE)
    assume "current_mode n = Mode_unknown" "start_ends (n\<lparr>connection_context := ctx\<rparr>)
      (n\<lparr>connection_context := ctx, server_active := True, current_mode := Mode_server, worker_thread := Some W_start\<rparr>) b n'"
    then show ?thesis
      using assms(1) by (elim start_ends_inv [OF assms(1), rotated 1]) (simp_all add: net_inv_def thread_inv_def)
  qed (use assms(1) in simp)
next
  case (Start_client host port reorder latency overhead ctx mtu psk)
  then obtain b where "startClient lib host port reorder latency overhead ctx mtu psk n w = (b, n', w')"
    using assms(3) by (auto split: if_splits prod.splits)
  from startClient_result [OF this] show ?thesis
  proof (elim disjE conjE)
    assume "current_mode n = Mode_unknown" "start_ends (n\<lparr>client_context := ctx\<rparr>)
      (n\<lparr>client_context := ctx, client_active := True, current_mode := Mode_client, worker_thread := Some C_loop\<rparr>) b n'"
    then show ?thesis
      using assms(1) by (elim start_ends_inv [OF assms(1), rotated 1]) (simp_all add: net_inv_def thread_inv_def)
  qed (use assms(1) in simp)
next
  case Stop
  then show ?thesis using assms by (auto intro: stop_call_inv split: if_splits)
next
  case Stop_step
  then show ?thesis using assms by (auto intro: stop_step_inv split: option.splits)
next
  case Worker
  from assms(3) [unfolded this] obtain pc pc' n1 where "worker_thread n = Some pc" "pc \<noteq> W_done" "worker_step lib pc n w = Some (pc', n1, w')"
    "n' = n1\<lparr>worker_thread := Some pc'\<rparr>" by (rule worker_next)
  then show ?thesis using worker_step_inv [OF assms(1,2)] by simp
next
  case Event
  from assms(3) [unfolded this] obtain pc pc' n1 where "event_thread n = Some pc" "serverEventHandler_step lib pc n w = Some (pc', n1, w')"
    "n' = n1\<lparr>event_thread := Some pc'\<rparr>" by (rule event_next)
  then show ?thesis using event_step_inv [OF assms(1)] by simp
qed

theorem net_reach_inv: "net_reach lib n w \<Longrightarrow> net_inv lib n"
proof (induction rule: net_reach.induct)
  case (constructed w)
  show ?case by (simp add: net_inv_def thread_inv_def SRTNet_new_def books_balance_def balanced_def)
next
  case (step n w a n' w')
  show ?case by (rule net_step_inv) (fact step)+
qed

end
