(* ===== verification/SrtNetProps.thy ===== *)
theory SrtNetProps
  imports SrtNetInv
begin

text \<open>
  The properties of \<open>SRTNet\<close>: what every interleaving keeps, that \<open>stop\<close> comes to an end and
  leaves no thread behind, what starting does on every path, and the three races and
  overruns that the model shows.
\<close>

section \<open>A library to run on\<close>

text \<open>
  The world is the number of connections accepted so far.  Every call succeeds, the listener
  gets socket 3, the clients 100, 101 and so on, and whenever the server waits for events the
  first \<open>k\<close> clients are ready, each with a message of three bytes.
\<close>

definition sample_srt :: "nat \<Rightarrow> (nat, nat) srt_lib" where
  "sample_srt k = \<lparr>srt_create_socket = (\<lambda>w. (3, w)), srt_setsockflag = (\<lambda>s opt v w. (0, w)), srt_bind = (\<lambda>s a w. (0, w)),
     srt_listen = (\<lambda>s b w. (0, w)), srt_accept = (\<lambda>s w. ((100 + int w, Sockaddr AF_INET [127, 0, 0, 1] 9000), w + 1)),
     srt_connect = (\<lambda>s a w. (0, w)), srt_close = (\<lambda>s w. (0, w)), srt_recvmsg2 = (\<lambda>s len w. ((3, [1, 2, 3]), w)),
     srt_sendmsg2 = (\<lambda>s d w. (int (length d), w)), srt_bistats = (\<lambda>s c i w. (0, w)), srt_epoll_create = (\<lambda>w. (1, w)),
     srt_epoll_set = (\<lambda>p w. (0, w)), srt_epoll_add_usock = (\<lambda>p s w. (0, w)), srt_epoll_remove_usock = (\<lambda>p s w. (0, w)),
     srt_epoll_uwait = (\<lambda>p sz w. (map_prod int id (uwait_scan (map (\<lambda>i. 100 + int i) [0..<k]) sz 0), w)), srt_epoll_release = (\<lambda>p w. (0, w)),
     inet_pton = (\<lambda>f s. (if f = AF_INET then 1 else 0, [127, 0, 0, 1])),
     getaddrinfo = (\<lambda>h p w. ((0, [Sockaddr AF_INET [127, 0, 0, 1] p]), w)), sys_close = (\<lambda>s w. (0, w)),
     clientConnected = Some (\<lambda>a s c w. (Some 1, c, w)), receivedData = Some (\<lambda>d c s w. (c, w)),
     receivedDataNoCopy = None, clientDisconnected = Some (\<lambda>c s w. (c, w))\<rparr>"

abbreviation (input) sample_start :: "nat action" where
  "sample_start \<equiv> Start_server ''127.0.0.1'' 9000 0 100 25 1456 '''' None"

text \<open>The server up and one client registered: six steps of the accepting thread.\<close>

abbreviation (input) one_client :: "nat action list" where
  "one_client \<equiv> sample_start # replicate 6 Worker"

text \<open>A schedule on which every accepted socket is new leads to a reachable state.\<close>

fun fresh_run :: "('c, 'w) srt_lib \<Rightarrow> 'c action list \<Rightarrow> 'c srt_net \<Rightarrow> 'w \<Rightarrow> bool" where
  "fresh_run lib [] n w = True"
| "fresh_run lib (a # as) n w = (accept_fresh lib n w \<and> (case net_step lib a n w of Next n w \<Rightarrow> fresh_run lib as n w | _ \<Rightarrow> True))"

lemma net_run_reach:
  "net_reach lib n w \<Longrightarrow> fresh_run lib as n w \<Longrightarrow> net_run lib as n w = Next n' w' \<Longrightarrow> net_reach lib n' w'"
  by (induction as arbitrary: n w) (auto split: outcome.splits intro: net_reach.step)

lemma sample_one_client:
  obtains n w where "net_run (sample_srt 1) one_client SRTNet_new 0 = Next n w" and "net_reach (sample_srt 1) n w"
    and "client_list n = [(100, Some 1)]" and "history n = [Created 3, Registered 100]" and "worker_thread n = Some W_loop"
    and "event_thread n = Some (E_loop blank_ready)" and "current_mode n = Mode_server" and "stopping n = S_idle" and "server_active n"
proof -
  have f: "fresh_run (sample_srt 1) one_client SRTNet_new 0" by code_simp
  obtain n w where r: "net_run (sample_srt 1) one_client SRTNet_new 0 = Next n w" and
    "client_list n = [(100, Some 1)]" "history n = [Created 3, Registered 100]" "worker_thread n = Some W_loop"
    "event_thread n = Some (E_loop blank_ready)" "current_mode n = Mode_server" "stopping n = S_idle" "server_active n"
  proof -
    let ?n = "\<lparr>server_active = True, client_active = False, worker_thread = Some W_loop, event_thread = Some (E_loop blank_ready),
      net_context = 3, poll_id = 1, current_mode = Mode_server, client_list = [(100, Some 1)], client_context = None,
      connection_context = None, stopping = S_idle, stop_result = None, history = [Created 3, Registered 100]\<rparr>"
    have "net_run (sample_srt 1) one_client SRTNet_new 0 = Next ?n 1" by code_simp
    then show thesis by (rule that) simp_all
  qed
  with net_run_reach [OF net_reach.constructed f r] show thesis by (intro that)
qed

section \<open>What every interleaving keeps\<close>

text \<open>
  C29: whatever the order in which the threads and the application take their steps, the client
  list stays a map in the order of its keys, and the books balance: a client that was
  registered is either in the list or was closed, once, and if the application asked to be told,
  it was told, once.
\<close>

theorem clients_accounted:
  assumes "net_reach lib n w"
  shows "sorted_wrt (<) (map fst (client_list n))
    \<and> count_list (history n) (Registered s) = count_list (history n) (Client_closed s) + (if s \<in> fst ` set (client_list n) then 1 else 0)
    \<and> count_list (history n) (Disconnected s) = (if clientDisconnected lib = None then 0 else count_list (history n) (Client_closed s))"
  using net_reach_inv [OF assms] unfolding net_inv_def is_map_def books_balance_def balanced_def by blast

theorem clients_accounted_witness:
  "\<exists>n w. net_run (sample_srt 1) one_client SRTNet_new 0 = Next n w
    \<and> count_list (history n) (Registered 100) = count_list (history n) (Client_closed 100) + 1"
proof -
  obtain n w where r: "net_run (sample_srt 1) one_client SRTNet_new 0 = Next n w" "net_reach (sample_srt 1) n w"
    and l: "client_list n = [(100, Some 1)]" by (rule sample_one_client)
  with clients_accounted [OF r(2), of 100] show ?thesis by auto
qed

section \<open>stop\<close>

text \<open>
  C30: when \<open>stop\<close> returns true, both threads have ended and been joined, no flag says that the
  object is active, and it can be started again in either mode.
\<close>

theorem stop_joins_threads:
  assumes "net_reach lib n w" and "accept_fresh lib n w" and "stopping n \<noteq> S_idle"
    and "net_step lib Stop_step n w = Next n' w'" and "stopping n' = S_idle" and "stop_result n' = Some True"
  shows "worker_thread n' = None \<and> event_thread n' = None \<and> current_mode n' = Mode_unknown
    \<and> \<not> server_active n' \<and> \<not> client_active n'"
proof -
  have "net_inv lib n'" using net_step_inv [OF net_reach_inv [OF assms(1)] assms(2,4)] .
  moreover have "current_mode n' = Mode_unknown"
  proof -
    have "stop_step lib (stopping n) n w = Some (n', w')"
      using assms(4) by (auto split: option.splits)
    with assms(3,5,6) show ?thesis
      by (cases "stopping n") (auto simp: stop_returns_def close_context_def Let_def split: if_splits prod.splits)
  qed
  ultimately show ?thesis by (simp add: net_inv_def thread_inv_def)
qed

text \<open>
  The schedule of the witness: the client is registered, \<open>stop\<close> is called, both threads see the
  flag and end, and \<open>stop\<close> is about to join the second of them.
\<close>

lemma sample_stopping:
  obtains n w where "net_run (sample_srt 1) (one_client @ [Stop, Stop_step, Stop_step, Worker, Event, Stop_step]) SRTNet_new 0 = Next n w"
    and "net_reach (sample_srt 1) n w" and "stopping n = S_join_event" and "worker_thread n = None" and "event_thread n = Some E_done"
proof -
  have f: "fresh_run (sample_srt 1) (one_client @ [Stop, Stop_step, Stop_step, Worker, Event, Stop_step]) SRTNet_new 0" by code_simp
  let ?n = "\<lparr>server_active = False, client_active = False, worker_thread = None, event_thread = Some E_done,
      net_context = 3, poll_id = 1, current_mode = Mode_server, client_list = [], client_context = None,
      connection_context = None, stopping = S_join_event, stop_result = None,
      history = [Created 3, Registered 100, Context_closed 3, Client_closed 100, Disconnected 100]\<rparr>"
  have r: "net_run (sample_srt 1) (one_client @ [Stop, Stop_step, Stop_step, Worker, Event, Stop_step]) SRTNet_new 0 = Next ?n 1"
    by code_simp
  show thesis by (rule that [OF r net_run_reach [OF net_reach.constructed f r]]) simp_all
qed

theorem stop_joins_threads_witness:
  "\<exists>n w n' w'. net_run (sample_srt 1) (one_client @ [Stop, Stop_step, Stop_step, Worker, Event, Stop_step]) SRTNet_new 0 = Next n w
    \<and> net_step (sample_srt 1) Stop_step n w = Next n' w' \<and> stop_result n' = Some True
    \<and> worker_thread n' = None \<and> event_thread n' = None \<and> current_mode n' = Mode_unknown"
proof -
  obtain n w where r: "net_run (sample_srt 1) (one_client @ [Stop, Stop_step, Stop_step, Worker, Event, Stop_step]) SRTNet_new 0 = Next n w"
    "net_reach (sample_srt 1) n w" "stopping n = S_join_event" "worker_thread n = None" "event_thread n = Some E_done"
    by (rule sample_stopping)
  let ?n = "stop_returns True (n\<lparr>event_thread := None, current_mode := Mode_unknown\<rparr>)"
  have s: "net_step (sample_srt 1) Stop_step n w = Next ?n w" using r by simp
  have "accept_fresh (sample_srt 1) n w" "stopping n \<noteq> S_idle" "stopping ?n = S_idle" "stop_result ?n = Some True"
    using r by (simp_all add: accept_fresh_def stop_returns_def)
  with stop_joins_threads [OF r(2) _ _ s] r(1) s show ?thesis by blast
qed

text \<open>
  How much is left to do: of the accepting or client thread, of the event handler, and of
  \<open>stop\<close> itself.
\<close>

fun worker_left :: "'c worker_pc option \<Rightarrow> nat" where
  "worker_left None = 0"
| "worker_left (Some pc) = (case pc of W_start \<Rightarrow> 4 | W_closeAll \<Rightarrow> 2 | W_loop \<Rightarrow> 1 | W_accept \<Rightarrow> 4 | W_connected _ _ \<Rightarrow> 3
    | W_add _ _ \<Rightarrow> 2 | C_loop \<Rightarrow> 2 | C_recv \<Rightarrow> 3 | C_exit \<Rightarrow> 1 | W_done \<Rightarrow> 0)"

fun event_left :: "event_pc option \<Rightarrow> nat" where
  "event_left None = 0"
| "event_left (Some pc) = (case pc of E_loop _ \<Rightarrow> 1 | E_wait _ \<Rightarrow> 15 | E_recv _ ret i \<Rightarrow> 2 * (ret - i) + 2
    | E_got _ ret i _ _ _ \<Rightarrow> 2 * (ret - Suc i) + 3 | E_done \<Rightarrow> 0)"

fun stop_left :: "stop_pc \<Rightarrow> nat" where
  "stop_left S_idle = 0" | "stop_left S_close_server = 4" | "stop_left S_closeAll = 3" | "stop_left S_join_worker = 2"
| "stop_left S_join_event = 1" | "stop_left S_close_client = 2" | "stop_left S_join_client = 1"

definition work_left :: "'c srt_net \<Rightarrow> nat" where
  "work_left n = worker_left (worker_thread n) + event_left (event_thread n) + stop_left (stopping n)"

text \<open>The bound that the SRT library keeps on the number of events it reports.\<close>

definition uwait_bounded :: "('c, 'w) srt_lib \<Rightarrow> bool" where
  "uwait_bounded lib \<longleftrightarrow> (\<forall>p w. fst (fst (srt_epoll_uwait lib p 5 w)) \<le> 6)"

lemma worker_progress:
  assumes "net_inv lib n" and "stopping n \<noteq> S_idle" and "net_step lib Worker n w = Next n' w'"
  shows "work_left n' < work_left n"
proof -
  from assms(3) obtain pc pc' n1 where pc: "worker_thread n = Some pc" "pc \<noteq> W_done" "worker_step lib pc n w = Some (pc', n1, w')"
    "n' = n1\<lparr>worker_thread := Some pc'\<rparr>" by (rule worker_next)
  have inactive: "\<not> server_active n" "\<not> client_active n"
    using assms(1,2) by (cases "current_mode n"; simp add: net_inv_def thread_inv_def)+
  have et: "pc = W_start \<Longrightarrow> event_thread n = None"
    using assms(1) pc(1) by (cases "current_mode n") (simp_all add: net_inv_def thread_inv_def)
  show ?thesis
    using pc inactive et
    by (cases pc) (auto simp: worker_step_def work_left_def Let_def case_prod_beta closeAll_result split: if_splits option.splits)
qed

lemma received_pcs:
  "received lib s result msg n w = Some (n', w') \<Longrightarrow> worker_thread n' = worker_thread n \<and> stopping n' = stopping n"
  by (erule received_cases) (simp_all add: removed_def)

lemma event_progress:
  assumes "net_inv lib n" and "stopping n \<noteq> S_idle" and "uwait_bounded lib" and "net_step lib Event n w = Next n' w'"
  shows "work_left n' < work_left n"
proof -
  from assms(4) obtain pc pc' n1 where pc: "event_thread n = Some pc" "pc \<noteq> E_done" "serverEventHandler_step lib pc n w = Some (pc', n1, w')"
    "n' = n1\<lparr>event_thread := Some pc'\<rparr>" by (rule event_next)
  have inactive: "\<not> server_active n"
    using assms(1,2) by (cases "current_mode n"; simp add: net_inv_def thread_inv_def)+
  have "event_left (Some pc') < event_left (Some pc) \<and> worker_thread n1 = worker_thread n \<and> stopping n1 = stopping n"
  proof (cases pc)
    case (E_loop ready)
    then show ?thesis using pc inactive by simp
  next
    case (E_wait ready)
    have "fst (fst (srt_epoll_uwait lib (poll_id n) 5 w)) \<le> 6" using assms(3) by (simp add: uwait_bounded_def)
    then show ?thesis
      using pc(3) unfolding E_wait by (auto simp: Let_def case_prod_beta split: if_splits)
  next
    case (E_recv ready ret i)
    then show ?thesis
      using pc(3) by (auto simp: bind_eq_Some_conv Let_def case_prod_beta split: if_splits)
  next
    case (E_got ready ret i s result msg)
    then show ?thesis
      using pc(3) by (auto simp: bind_eq_Some_conv dest!: received_pcs)
  qed (use pc(2) in simp)
  then show ?thesis using pc(1,4) by (simp add: work_left_def)
qed

lemma stop_progress:
  assumes "stopping n \<noteq> S_idle" and "net_step lib Stop_step n w = Next n' w'"
  shows "work_left n' < work_left n"
proof -
  have "stop_step lib (stopping n) n w = Some (n', w')" using assms(2) by (auto split: option.splits)
  with assms(1) show ?thesis
    by (cases "stopping n")
      (auto simp: work_left_def stop_returns_def close_context_def Let_def case_prod_beta closeAll_result split: if_splits)
qed

text \<open>While \<open>stop\<close> runs somebody can go on.\<close>

lemma stop_not_stuck:
  assumes "net_inv lib n" and "stopping n \<noteq> S_idle"
  shows "\<exists>a \<in> {Stop_step, Worker, Event}. net_step lib a n w \<noteq> Blocked"
proof (cases "net_step lib Stop_step n w = Blocked")
  case True
  then have "stop_step lib (stopping n) n w = None" by (auto split: option.splits)
  then have "(\<exists>pc. worker_thread n = Some pc \<and> pc \<noteq> W_done) \<or> (\<exists>pc. event_thread n = Some pc \<and> pc \<noteq> E_done)"
    using assms(2) by (cases "stopping n") (auto split: if_splits prod.splits)
  then show ?thesis
  proof (elim disjE exE conjE)
    fix pc assume "worker_thread n = Some pc" "pc \<noteq> W_done"
    then have "net_step lib Worker n w \<noteq> Blocked" by (auto simp: worker_step_next split: option.splits)
    then show ?thesis by blast
  next
    fix pc assume "event_thread n = Some pc" "pc \<noteq> E_done"
    then have "net_step lib Event n w \<noteq> Blocked" by (auto simp: event_step_next split: option.splits)
    then show ?thesis by blast
  qed
qed blast

text \<open>
  C31: \<open>stop\<close> comes to an end.  While it runs, some thread can take a step (a blocking call of the
  library returning counts as one), and every step that is taken, by whichever thread, makes the
  work that is left smaller; nobody can start anything new before \<open>stop\<close> has returned.
\<close>

theorem stop_terminates:
  assumes "net_reach lib n w" and "stopping n \<noteq> S_idle" and "uwait_bounded lib"
  shows "(\<exists>a \<in> {Stop_step, Worker, Event}. net_step lib a n w \<noteq> Blocked)
    \<and> (\<forall>a n' w'. net_step lib a n w = Next n' w' \<longrightarrow> work_left n' < work_left n)"
proof (intro conjI allI impI)
  note inv = net_reach_inv [OF assms(1)]
  show "\<exists>a \<in> {Stop_step, Worker, Event}. net_step lib a n w \<noteq> Blocked" by (rule stop_not_stuck [OF inv assms(2)])
  fix a n' w'
  assume "net_step lib a n w = Next n' w'"
  then show "work_left n' < work_left n"
    using assms(2,3) worker_progress [OF inv assms(2)] event_progress [OF inv assms(2,3)] stop_progress [OF assms(2)]
    by (cases a) (auto simp del: net_step.simps simp: net_step.simps(1-3))
qed

theorem stop_terminates_witness:
  "\<exists>n w n' w'. net_run (sample_srt 1) (one_client @ [Stop, Stop_step, Stop_step, Worker, Event, Stop_step]) SRTNet_new 0 = Next n w
    \<and> net_step (sample_srt 1) Stop_step n w = Next n' w' \<and> work_left n' < work_left n"
proof -
  obtain n w where r: "net_run (sample_srt 1) (one_client @ [Stop, Stop_step, Stop_step, Worker, Event, Stop_step]) SRTNet_new 0 = Next n w"
    "net_reach (sample_srt 1) n w" "stopping n = S_join_event" "worker_thread n = None" "event_thread n = Some E_done"
    by (rule sample_stopping)
  have u: "uwait_bounded (sample_srt 1)" by (simp add: uwait_bounded_def sample_srt_def)
  have s: "net_step (sample_srt 1) Stop_step n w = Next (stop_returns True (n\<lparr>event_thread := None, current_mode := Mode_unknown\<rparr>)) w"
    using r by simp
  have "stopping n \<noteq> S_idle" using r(3) by simp
  from stop_terminates [OF r(2) this u] s have "work_left (stop_returns True (n\<lparr>event_thread := None, current_mode := Mode_unknown\<rparr>)) < work_left n"
    by blast
  with r(1) s show ?thesis by blast
qed

section \<open>Starting a server\<close>

definition server_flags :: "int \<Rightarrow> int \<Rightarrow> int \<Rightarrow> int \<Rightarrow> string \<Rightarrow> (sockopt \<times> optval) list" where
  "server_flags reorder latency overhead mtu psk = [(SRTO_RCVSYN, Int32 1), (SRTO_LATENCY, Int32 latency), (SRTO_LOSSMAXTTL, Int32 reorder),
     (SRTO_OHEADBW, Int32 overhead), (SRTO_PAYLOADSIZE, Int32 mtu)] @ psk_flags psk"

definition server_address :: "('c, 'w) srt_lib \<Rightarrow> string \<Rightarrow> u16 \<Rightarrow> sockaddr option" where
  "server_address lib ip port = address_of lib (if isIPv4 lib ip \<or> \<not> isIPv6 lib ip then AF_INET else AF_INET6) ip port"

text \<open>
  C32: what \<open>startServer\<close> does on every path.  It returns true exactly if the object is in no mode, has the
  \<open>clientConnected\<close> callback, gets a socket, can read the address, and SRT accepts every option, the binding and the
  listening, in this order; the server is then active, in server mode and with its thread started.  Otherwise it
  returns false and is as idle as before; on the two early returns the object is untouched.  A socket it
  created is closed again on every failure but one: when SRT refuses an option it is left open, and the next start
  forgets it.
\<close>

theorem server_start_outcome:
  assumes "startServer lib ip port reorder latency overhead mtu psk ctx n w = (b, n', w')"
    and "srt_create_socket lib w = (sock, w1)" and "set_flags lib sock (server_flags reorder latency overhead mtu psk) w1 = (opts, w2)"
  shows "b = (current_mode n = Mode_unknown \<and> clientConnected lib \<noteq> None \<and> sock \<noteq> SRT_ERROR \<and> (\<exists>sa w3.
        server_address lib ip port = Some sa \<and> opts \<and> fst (srt_bind lib sock sa w2) \<noteq> SRT_ERROR
        \<and> w3 = snd (srt_bind lib sock sa w2) \<and> fst (srt_listen lib sock 2 w3) \<noteq> SRT_ERROR))
    \<and> client_list n' = client_list n
    \<and> (if b then server_active n' \<and> current_mode n' = Mode_server \<and> worker_thread n' = Some W_start
         else server_active n' = server_active n \<and> current_mode n' = current_mode n \<and> worker_thread n' = worker_thread n)
    \<and> (if current_mode n \<noteq> Mode_unknown \<or> clientConnected lib = None then n' = n \<and> w' = w
         else net_context n' = sock \<and> history n' = history n @
           (if sock = SRT_ERROR then [] else [Created sock] @
             (if b \<or> (server_address lib ip port \<noteq> None \<and> \<not> opts) then [] else [Context_closed sock])))"
proof -
  have fam: "(if isIPv4 lib ip then AF_INET else if isIPv6 lib ip then AF_INET6 else AF_INET)
    = (if isIPv4 lib ip \<or> \<not> isIPv6 lib ip then AF_INET else AF_INET6)" by simp
  show ?thesis
    using assms unfolding startServer_def Let_def fam server_flags_def [symmetric] server_address_def [symmetric]
    by (cases "server_address lib ip port")
      (auto simp: case_prod_beta simp del: not_None_eq split: if_splits)
qed

text \<open>The library of the witness refuses the payload size, as SRT does for one that is too large.\<close>

definition refusing_srt :: "(nat, nat) srt_lib" where
  "refusing_srt = (sample_srt 0)\<lparr>srt_setsockflag := (\<lambda>s opt v w. (if opt = SRTO_PAYLOADSIZE then SRT_ERROR else 0, w))\<rparr>"

theorem server_start_outcome_witness:
  "\<exists>n'. startServer refusing_srt ''127.0.0.1'' 9000 0 100 25 9999 '''' None SRTNet_new 0 = (False, n', 0)
    \<and> history n' = [Created 3] \<and> current_mode n' = Mode_unknown"
proof -
  obtain n' where r: "startServer refusing_srt ''127.0.0.1'' 9000 0 100 25 9999 '''' None SRTNet_new 0 = (False, n', 0)"
  proof
    show "startServer refusing_srt ''127.0.0.1'' 9000 0 100 25 9999 '''' None SRTNet_new 0 =
      (False, happens (Created 3) (SRTNet_new\<lparr>connection_context := None, net_context := 3\<rparr>), 0)" by code_simp
  qed
  have h: "current_mode (SRTNet_new :: nat srt_net) = Mode_unknown" "clientConnected refusing_srt \<noteq> None"
    "srt_create_socket refusing_srt 0 = (3, 0)" "history (SRTNet_new :: nat srt_net) = []"
    by (simp_all add: SRTNet_new_def refusing_srt_def sample_srt_def)
  have a: "server_address refusing_srt ''127.0.0.1'' 9000 \<noteq> None"
    "set_flags refusing_srt 3 (server_flags 0 100 25 9999 '''') 0 = (False, 0)" by code_simp+
  from server_start_outcome [OF r h(3) a(2)] h(1,2,4) a(1) r show ?thesis by simp
qed

section \<open>Races and overruns\<close>

lemma uwait_scan_result:
  "tot \<le> sz \<Longrightarrow> uwait_scan notices sz tot = (min (tot + length notices) (sz + 1), take (sz - tot) notices)"
proof (induction notices sz tot rule: uwait_scan.induct)
  case (2 i "is" sz tot)
  then show ?case by (cases "sz = tot") (auto simp: Let_def take_Cons' split: prod.splits)
qed simp

text \<open>
  C33: the handler asks \<open>srt_epoll_uwait\<close> for five events, which SRT answers with 6 when more sockets
  are ready; only the value 21 is corrected.  So with six sockets ready the handler goes on to
  the sixth element of its array, which nothing has ever written.
\<close>

theorem sixth_event_slot_unset:
  assumes "length ready = MAX_WORKERS" and "\<forall>i. 5 \<le> i \<and> i < MAX_WORKERS \<longrightarrow> ready ! i = None" and "6 \<le> length notices"
    and "srt_epoll_uwait lib (poll_id n) 5 w = (map_prod int id (uwait_scan notices 5 0), w1)"
  shows "\<exists>ready'. serverEventHandler_step lib (E_wait ready) n w = Some (E_recv ready' 6 0, n, w1)
    \<and> (\<forall>n' w'. serverEventHandler_step lib (E_recv ready' 6 5) n' w' = None)"
proof (intro exI conjI allI)
  let ?ready = "fill ready (take 5 notices)"
  show "serverEventHandler_step lib (E_wait ready) n w = Some (E_recv ?ready 6 0, n, w1)"
    using assms(3,4) by (simp add: uwait_scan_result)
  have "?ready ! 5 = None" "length ?ready = MAX_WORKERS"
    using assms(1,3) assms(2) [rule_format, of 5] by (simp_all add: fill_def nth_append)
  then show "serverEventHandler_step lib (E_recv ?ready 6 5) n' w' = None" for n' w'
    by (simp add: rd_def)
qed

theorem sixth_event_slot_unset_witness:
  "\<exists>ready'. serverEventHandler_step (sample_srt 6) (E_wait blank_ready) SRTNet_new 0 = Some (E_recv ready' 6 0, SRTNet_new, 0)
    \<and> serverEventHandler_step (sample_srt 6) (E_recv ready' 6 5) SRTNet_new 0 = None"
proof -
  have "length blank_ready = MAX_WORKERS" "\<forall>i. 5 \<le> i \<and> i < MAX_WORKERS \<longrightarrow> blank_ready ! i = None"
    by (simp_all add: blank_ready_def)
  moreover have "srt_epoll_uwait (sample_srt 6) (poll_id (SRTNet_new :: nat srt_net)) 5 0 =
    (map_prod int id (uwait_scan (map (\<lambda>i. 100 + int i) [0..<6]) 5 0), 0)" by (simp add: sample_srt_def)
  ultimately show ?thesis
    using sixth_event_slot_unset [of blank_ready "map (\<lambda>i. 100 + int i) [0..<6]" "sample_srt 6" SRTNet_new 0 0] by fastforce
qed

text \<open>
  C34: a server that is stopped while its handler has just received a message from a client: \<open>stop\<close> clears the
  client list before the handler gets the lock, the handler then looks the client up, finds
  nothing, and dereferences the end iterator all the same.
\<close>

theorem stop_during_delivery_faults:
  assumes "current_mode n = Mode_server" and "stopping n = S_idle"
    and "event_thread n = Some (E_got ready ret i s result msg)" and "result > 0"
    and "receivedData lib \<noteq> None \<or> receivedDataNoCopy lib \<noteq> None"
    and "net_context n = 0 \<or> fst (srt_close lib (net_context n) w) \<noteq> SRT_ERROR"
  shows "net_run lib [Stop, Stop_step, Stop_step, Event] n w = Fault"
proof -
  let ?n1 = "n\<lparr>server_active := False, stopping := S_close_server\<rparr>"
  obtain n2 w2 where 2: "close_context lib S_closeAll ?n1 w = (n2, w2)" by fastforce
  then have n2: "stopping n2 = S_closeAll" "event_thread n2 = Some (E_got ready ret i s result msg)"
    using assms(3,6) by (auto simp: close_context_def Let_def case_prod_beta split: if_splits)
  obtain n3 w3 where 3: "closeAllClientSockets lib n2 w2 = (n3, w3)" by fastforce
  then have n3: "client_list n3 = []" "event_thread n3 = Some (E_got ready ret i s result msg)"
    using closeAll_result [of lib n2 w2] n2(2) by simp_all
  then have "received lib s result msg (n3\<lparr>stopping := S_join_worker\<rparr>) w3 = None"
    using assms(4,5) by (simp add: received_def Let_def del: not_None_eq)
  then show ?thesis
    using assms(1,2) 2 3 n2(1) n3(2) by (simp add: stop_call_def)
qed

text \<open>In the witness the client's message has been read in the third step of the handler.\<close>

theorem stop_during_delivery_faults_witness:
  "\<exists>n w. net_run (sample_srt 1) (one_client @ [Event, Event, Event]) SRTNet_new 0 = Next n w
    \<and> net_run (sample_srt 1) [Stop, Stop_step, Stop_step, Event] n w = Fault"
proof -
  let ?n = "\<lparr>server_active = True, client_active = False, worker_thread = Some W_loop,
      event_thread = Some (E_got (Some 100 # replicate 19 None) 1 0 100 3 [1, 2, 3]),
      net_context = 3, poll_id = 1, current_mode = Mode_server, client_list = [(100, Some 1)], client_context = None,
      connection_context = None, stopping = S_idle, stop_result = None, history = [Created 3, Registered 100]\<rparr>"
  have r: "net_run (sample_srt 1) (one_client @ [Event, Event, Event]) SRTNet_new 0 = Next ?n 1" by code_simp
  have "net_run (sample_srt 1) [Stop, Stop_step, Stop_step, Event] ?n 1 = Fault"
    by (rule stop_during_delivery_faults [where result = 3]) (simp_all add: sample_srt_def)
  with r show ?thesis by blast
qed

text \<open>
  C35: a client that is accepted while \<open>stop\<close> is under way is registered after \<open>stop\<close> has closed all
  clients: \<open>stop\<close> then returns true, and the list still has the client, whose socket nobody has
  closed.
\<close>

theorem late_client_survives_stop:
  assumes "net_reach lib n w" and "stopping n = S_join_worker" and "worker_thread n = Some (W_add s c)"
    and "event_thread n = Some E_done"
  shows "\<exists>n' w'. net_run lib [Worker, Worker, Stop_step, Stop_step] n w = Next n' w' \<and> stop_result n' = Some True
    \<and> current_mode n' = Mode_unknown \<and> s \<in> fst ` set (client_list n')
    \<and> count_list (history n') (Client_closed s) < count_list (history n') (Registered s)"
proof -
  have inv: "net_inv lib n" by (rule net_reach_inv [OF assms(1)])
  then have sa: "\<not> server_active n" and fresh: "s \<notin> fst ` set (client_list n)"
    using assms(2,3) by (cases "current_mode n"; simp add: net_inv_def thread_inv_def)+
  have "count_list (history n) (Registered s) = count_list (history n) (Client_closed s)"
    using inv fresh by (simp add: net_inv_def books_balance_def balanced_def)
  then show ?thesis
    using assms(2-4) sa by (simp add: worker_step_def Let_def stop_returns_def)
qed

theorem late_client_survives_stop_witness:
  "\<exists>n w n' w'. net_run (sample_srt 1) (one_client @ [Worker, Worker, Worker, Stop, Stop_step, Stop_step, Event]) SRTNet_new 0 = Next n w
    \<and> net_run (sample_srt 1) [Worker, Worker, Stop_step, Stop_step] n w = Next n' w'
    \<and> stop_result n' = Some True \<and> 101 \<in> fst ` set (client_list n')"
proof -
  have f: "fresh_run (sample_srt 1) (one_client @ [Worker, Worker, Worker, Stop, Stop_step, Stop_step, Event]) SRTNet_new 0" by code_simp
  let ?n = "\<lparr>server_active = False, client_active = False, worker_thread = Some (W_add 101 (Some 1)), event_thread = Some E_done,
      net_context = 3, poll_id = 1, current_mode = Mode_server, client_list = [], client_context = None,
      connection_context = None, stopping = S_join_worker, stop_result = None,
      history = [Created 3, Registered 100, Context_closed 3, Client_closed 100, Disconnected 100]\<rparr>"
  have r: "net_run (sample_srt 1) (one_client @ [Worker, Worker, Worker, Stop, Stop_step, Stop_step, Event]) SRTNet_new 0 = Next ?n 2"
    by code_simp
  from late_client_survives_stop [OF net_run_reach [OF net_reach.constructed f r], of 101 "Some 1"] r show ?thesis by auto
qed

end
