(* ===== verification/Binary64.thy ===== *)
theory Binary64
  imports Complex_Main "HOL-Library.Log_Nat"
begin

text \<open>
  The arithmetic of \<open>double\<close>: rational numbers, rounded after every operation to 53 significant
  bits, to the nearest and to even on a tie.  Overflow and subnormal numbers do not occur with the
  magnitudes of the code that uses it and are not modelled.  The conversions to integer types
  truncate and are defined only in range.
\<close>

section \<open>Rounding\<close>

definition rne :: "rat \<Rightarrow> int" where
  "rne x = (let f = \<lfloor>x\<rfloor>; d = x - of_int f in
     if d < 1 / 2 then f else if d > 1 / 2 then f + 1 else if even f then f else f + 1)"

definition binexp :: "rat \<Rightarrow> int" where
  "binexp q = (let (a, b) = quotient_of q; k = bitlen a - bitlen b
     in if 2 powi k * of_int b \<le> (of_int a :: rat) then k else k - 1)"

definition rnd :: "rat \<Rightarrow> rat" where
  "rnd q = (if q = 0 then 0 else let e = binexp \<bar>q\<bar> - 52 in of_int (rne (q * 2 powi (- e))) * 2 powi e)"

definition dmul :: "rat \<Rightarrow> rat \<Rightarrow> rat" where "dmul x y = rnd (x * y)"
definition ddiv :: "rat \<Rightarrow> rat \<Rightarrow> rat" where "ddiv x y = rnd (x / y)"
definition dsub :: "rat \<Rightarrow> rat \<Rightarrow> rat" where "dsub x y = rnd (x - y)"

definition trunc :: "rat \<Rightarrow> int" where
  "trunc x = (if 0 \<le> x then \<lfloor>x\<rfloor> else \<lceil>x\<rceil>)"

definition to_range :: "int \<Rightarrow> int \<Rightarrow> rat \<Rightarrow> int option" where
  "to_range lo hi x = (if lo \<le> trunc x \<and> trunc x \<le> hi then Some (trunc x) else None)"

abbreviation (input) to_int64 :: "rat \<Rightarrow> int option" where "to_int64 \<equiv> to_range (- (2 ^ 63)) (2 ^ 63 - 1)"
abbreviation (input) to_int32 :: "rat \<Rightarrow> int option" where "to_int32 \<equiv> to_range (- (2 ^ 31)) (2 ^ 31 - 1)"
abbreviation (input) to_uint64 :: "rat \<Rightarrow> int option" where "to_uint64 \<equiv> to_range 0 (2 ^ 64 - 1)"

section \<open>Its error\<close>

lemma rne_error: "\<bar>of_int (rne x) - x\<bar> \<le> 1 / 2"
proof -
  have "of_int \<lfloor>x\<rfloor> \<le> x" "x < of_int \<lfloor>x\<rfloor> + 1" by linarith+
  then show ?thesis unfolding rne_def Let_def by (auto simp: abs_le_iff)
qed

lemma rne_int [simp]: "rne (of_int n) = n"
  by (simp add: rne_def)

lemma bitlen_int_bounds:
  assumes "0 < a"
  shows "2 powi (bitlen a - 1) \<le> (of_int a :: rat)" "(of_int a :: rat) < 2 powi bitlen a"
proof -
  obtain k where k: "bitlen a = 1 + int k"
    using bitlen_nonneg [of a] bitlen_eq_zero_iff [of a] assms by (intro that [of "nat (bitlen a - 1)"]) simp
  have b: "2 ^ nat (bitlen a - 1) \<le> a" "a < 2 ^ nat (bitlen a)" using bitlen_bounds [OF assms] by auto
  have n: "nat (bitlen a - 1) = k" "nat (bitlen a) = Suc k" using k by auto
  have "(2 ^ k :: rat) \<le> of_int a" using b(1) unfolding n by (metis of_int_le_iff of_int_numeral of_int_power)
  moreover have "of_int a < (2 ^ Suc k :: rat)" using b(2) unfolding n by (metis of_int_less_iff of_int_numeral of_int_power)
  ultimately show "2 powi (bitlen a - 1) \<le> (of_int a :: rat)" "(of_int a :: rat) < 2 powi bitlen a"
    using k by (simp_all add: power_int_def nat_add_distrib)
qed

lemma binexp_bounds:
  assumes "0 < q"
  shows "2 powi binexp q \<le> q" and "q < 2 powi (binexp q + 1)"
proof -
  obtain a b where ab: "quotient_of q = (a, b)" by fastforce
  then have b: "0 < b" and q: "q = of_int a / of_int b" by (auto simp: quotient_of_denom_pos quotient_of_div)
  with assms have a: "0 < a" by (simp add: zero_less_divide_iff)
  define k where "k = bitlen a - bitlen b"
  have 2: "(2 :: rat) powi x > 0" for x by simp
  have add: "(2 :: rat) powi (x + y) = 2 powi x * 2 powi y" for x y by (simp add: power_int_add)
  note A = bitlen_int_bounds [OF a] and B = bitlen_int_bounds [OF b]
  have hi: "of_int a < 2 powi (k + 1) * (of_int b :: rat)"
  proof -
    have "of_int a < (2 powi bitlen a :: rat)" by (rule A(2))
    also have "bitlen a = (k + 1) + (bitlen b - 1)" by (simp add: k_def)
    also have "(2 powi \<dots> :: rat) = 2 powi (k + 1) * 2 powi (bitlen b - 1)" by (rule add)
    also have "\<dots> \<le> 2 powi (k + 1) * of_int b" using B(1) by (intro mult_left_mono) simp_all
    finally show ?thesis .
  qed
  have lo: "2 powi (k - 1) * (of_int b :: rat) \<le> of_int a"
  proof -
    have "2 powi (k - 1) * (of_int b :: rat) \<le> 2 powi (k - 1) * 2 powi bitlen b" using B(2) by (intro mult_left_mono) simp_all
    also have "\<dots> = 2 powi (bitlen a - 1)" unfolding add [symmetric] by (simp add: k_def)
    also have "\<dots> \<le> of_int a" by (rule A(1))
    finally show ?thesis .
  qed
  have bp: "(0 :: rat) < of_int b" using b by simp
  have e: "binexp q = (if 2 powi k * of_int b \<le> (of_int a :: rat) then k else k - 1)" by (simp add: binexp_def ab k_def)
  have "2 powi binexp q * of_int b \<le> (of_int a :: rat)" unfolding e using lo by simp
  then show "2 powi binexp q \<le> q" using bp by (simp add: q pos_le_divide_eq)
  have "(of_int a :: rat) < 2 powi (binexp q + 1) * of_int b" unfolding e using hi by simp
  then show "q < 2 powi (binexp q + 1)" using bp by (simp add: q pos_divide_less_eq)
qed

lemma rnd_error: "\<bar>rnd q - q\<bar> \<le> \<bar>q\<bar> / 2 ^ 53"
proof (cases "q = 0")
  case False
  define e where "e = binexp \<bar>q\<bar> - 52"
  define x where "x = q * 2 powi (- e)"
  have inv: "x * 2 powi e = q" by (simp add: x_def power_int_minus)
  have "rnd q - q = (of_int (rne x) - x) * 2 powi e"
    using False inv by (simp add: rnd_def Let_def e_def x_def algebra_simps)
  then have "\<bar>rnd q - q\<bar> \<le> 1 / 2 * 2 powi e"
    using mult_right_mono [OF rne_error [of x], of "2 powi e"] by (simp add: abs_mult)
  also have "\<dots> = 2 powi binexp \<bar>q\<bar> / 2 ^ 53"
  proof -
    have "(2 :: rat) powi (e + 52) = 2 powi e * 2 powi 52" by (simp add: power_int_add)
    then have "(2 :: rat) powi binexp \<bar>q\<bar> = 2 powi e * 2 ^ 52" by (simp add: e_def power_int_def)
    then show ?thesis by simp
  qed
  also have "\<dots> \<le> \<bar>q\<bar> / 2 ^ 53" using binexp_bounds(1) [of "\<bar>q\<bar>"] False by (simp add: divide_right_mono)
  finally show ?thesis .
qed (simp add: rnd_def)

lemma rnd_int [simp]:
  assumes "\<bar>n\<bar> < 2 ^ 53"
  shows "rnd (of_int n) = of_int n"
proof (cases "n = 0")
  case False
  define e where "e = binexp \<bar>of_int n\<bar> - 52"
  have "2 powi binexp \<bar>of_int n :: rat\<bar> \<le> \<bar>of_int n :: rat\<bar>" using False by (intro binexp_bounds(1)) simp
  also have "\<bar>of_int n :: rat\<bar> < 2 powi 53"
    using assms by (simp add: power_int_def flip: of_int_abs)
  finally have l: "(2 :: rat) powi binexp \<bar>of_int n :: rat\<bar> < 2 powi 53" .
  have "binexp \<bar>of_int n :: rat\<bar> < 53"
  proof (rule ccontr)
    assume "\<not> binexp \<bar>of_int n :: rat\<bar> < 53"
    then have "(2 :: rat) powi 53 \<le> 2 powi binexp \<bar>of_int n :: rat\<bar>" by (intro power_int_increasing) simp_all
    with l show False by simp
  qed
  then have p: "(2 :: rat) powi (- e) = of_int (2 ^ nat (- e))" by (simp add: e_def power_int_def)
  have "rnd (of_int n) = of_int (rne (of_int (n * 2 ^ nat (- e)))) * 2 powi e"
    using False unfolding rnd_def Let_def by (simp add: e_def [symmetric] p)
  also have "\<dots> = of_int n * (2 powi (- e) * 2 powi e)" unfolding rne_int p by simp
  also have "2 powi (- e) * 2 powi e = (1 :: rat)" by (simp add: power_int_minus)
  finally show ?thesis by simp
qed (simp add: rnd_def)

lemma rnd_pos:
  assumes "0 \<le> q"
  shows "0 \<le> rnd q" and "rnd q \<le> q * (1 + 1 / 2 ^ 53)"
proof -
  define u :: rat where "u = 1 / 2 ^ 53"
  have u: "0 \<le> u" "u \<le> 1" by (simp_all add: u_def)
  have e: "\<bar>rnd q - q\<bar> \<le> q * u" using rnd_error [of q] assms by (simp add: u_def)
  have "q * u \<le> q" using assms u by (simp add: mult_left_le)
  with e show "0 \<le> rnd q" by linarith
  show "rnd q \<le> q * (1 + 1 / 2 ^ 53)" unfolding u_def [symmetric] distrib_left using e by linarith
qed

end
