(* ===== verification/SrtCC.thy ===== *)
theory SrtCC
  imports RunTask Binary64
begin

text \<open>
  \<open>SrtCongestionCtrl\<close> of \<open>srt_net/srt_cc.cpp\<close>: an estimate of the path from the statistics of an SRT
  socket, and the encoder bitrate that follows it.  \<open>int64_t\<close> and \<open>int\<close> are integers with
  an explicit check wherever the code computes with them, \<open>uint64_t\<close> is a 64-bit word,
  \<open>double\<close> is \<^theory_text>\<open>Binary64\<close>.  The result \<^term>\<open>None\<close> stands for undefined behaviour: a signed
  overflow, or a conversion of a \<open>double\<close> that is out of range.  \<open>srt_bstats\<close> is an argument:
  the statistics it delivers, or \<^term>\<open>None\<close> when it fails.
\<close>

section \<open>The object\<close>

datatype cc_state = STATE_INCR | STATE_DECR | STATE_KEEP

abbreviation (input) RTT_LIST_MAX :: nat where "RTT_LIST_MAX \<equiv> 6"
abbreviation (input) BW_LIST_MAX :: nat where "BW_LIST_MAX \<equiv> 6"
abbreviation (input) STATE_LIST_MAX :: nat where "STATE_LIST_MAX \<equiv> 6"
abbreviation (input) RTT_INIT :: int where "RTT_INIT \<equiv> 100"
abbreviation (input) RTT_MIN :: int where "RTT_MIN \<equiv> 35"
abbreviation (input) ms :: "int \<Rightarrow> int" where "ms n \<equiv> n * 1000000"

record srt_cc =
  rtt_array :: "int list"
  rtt_min :: int
  rtt_ready :: bool
  bw_array :: "u64 list"
  bw_max :: u64
  avg_bw :: u64
  bw_ready :: bool
  state_array :: "int list"
  state_ready :: bool
  cwnd_gain :: rat
  congestion_state :: cc_state
  update_vencode_bitrate_task :: run_task
  srt_congestion_ctrl_task :: run_task

definition SrtCongestionCtrl_new :: srt_cc where
  "SrtCongestionCtrl_new = \<lparr>rtt_array = [], rtt_min = RTT_INIT, rtt_ready = False, bw_array = [], bw_max = 0, avg_bw = 0,
     bw_ready = False, state_array = [], state_ready = False, cwnd_gain = rnd (13 / 10), congestion_state = STATE_KEEP,
     update_vencode_bitrate_task = RunTask_time (ms 500) 1, srt_congestion_ctrl_task = RunTask_time (ms 300) 1\<rparr>"

text \<open>A signed result of \<open>w\<close> bits.\<close>

definition signed_ok :: "nat \<Rightarrow> int \<Rightarrow> int option" where
  "signed_ok w x = (if - (2 ^ (w - 1)) \<le> x \<and> x < 2 ^ (w - 1) then Some x else None)"

section \<open>The estimate\<close>

definition updateRTT :: "int \<Rightarrow> srt_cc \<Rightarrow> srt_cc" where
  "updateRTT rtt c =
    (let rtt = max rtt RTT_MIN; c = c\<lparr>rtt_array := rtt_array c @ [rtt]\<rparr>;
         c = c\<lparr>rtt_ready := RTT_LIST_MAX \<le> length (rtt_array c)\<rparr>
     in if rtt_ready c then c\<lparr>rtt_min := Min (set (rtt_array c)), rtt_array := []\<rparr> else c)"

text \<open>
  \<open>std::accumulate(begin, end, 0)\<close>: the accumulator has the type of the \<open>0\<close>, an \<open>int\<close>, so that every
  partial sum is cut to 32 bits; the division is on \<open>size_t\<close> again.
\<close>

definition accumulate_int :: "u64 list \<Rightarrow> u32" where
  "accumulate_int bws = fold (\<lambda>bw acc. ucast (scast acc + bw)) bws 0"

definition updateMaxBW :: "u64 \<Rightarrow> srt_cc \<Rightarrow> srt_cc option" where
  "updateMaxBW maxbw c =
    (let c = c\<lparr>bw_array := bw_array c @ [maxbw]\<rparr>; c = c\<lparr>bw_ready := BW_LIST_MAX \<le> length (bw_array c)\<rparr>
     in if bw_ready c then do {
          let avg = scast (accumulate_int (bw_array c)) div word_of_nat (length (bw_array c));
          let mx = Max (set (bw_array c));
          new \<leftarrow> to_uint64 (ddiv (dmul (rnd (of_int (uint (mx + avg)))) (rnd (12 / 10))) 2);
          Some (c\<lparr>avg_bw := avg, bw_max := word_of_int new, bw_array := []\<rparr>) }
        else Some c)"

text \<open>\<open>std::accumulate(begin, end, 0l)\<close>: in 64 bits.\<close>

fun accumulate_long :: "int list \<Rightarrow> int \<Rightarrow> int option" where
  "accumulate_long [] acc = Some acc"
| "accumulate_long (x # xs) acc = do { acc \<leftarrow> signed_ok 64 (acc + x); accumulate_long xs acc }"

definition srtBitrateGetState :: "int \<Rightarrow> srt_cc \<Rightarrow> (cc_state \<times> srt_cc) option" where
  "srtBitrateGetState inflight c =
    (if \<not> rtt_ready c \<or> \<not> bw_ready c then Some (STATE_KEEP, c)
     else do {
       let bdp = rnd (of_int (uint (bw_max c * word_of_int (rtt_min c) div 1000)));
       inflight \<leftarrow> signed_ok 32 (inflight * 8);
       current_state \<leftarrow> to_int64 (dsub (dmul (cwnd_gain c) bdp) (of_int inflight));
       let c = c\<lparr>state_array := state_array c @ [current_state]\<rparr>;
       let c = c\<lparr>state_ready := STATE_LIST_MAX \<le> length (state_array c)\<rparr>;
       if \<not> state_ready c then Some (STATE_KEEP, c)
       else do {
         final_state \<leftarrow> accumulate_long (state_array c) 0;
         Some (if final_state > 1316 * 8 * 3 then STATE_INCR
               else if final_state < - 1316 * 8 * 6 - 1 then STATE_DECR else STATE_KEEP, c) } })"

section \<open>The two tasks\<close>

record bstats =
  pktFlightSize :: int
  mbpsSendRate :: rat
  msRTT :: rat

text \<open>The callback of \<open>congestionCtrl\<close>.\<close>

definition take_sample :: "bstats option \<Rightarrow> srt_cc \<Rightarrow> srt_cc option" where
  "take_sample perf c = (case perf of
      None \<Rightarrow> Some c
    | Some perf \<Rightarrow> do {
        f \<leftarrow> signed_ok 32 (pktFlightSize perf * 188);
        inflight \<leftarrow> signed_ok 32 (f * 7);
        bw_bitrate \<leftarrow> to_int64 (dmul (dmul (mbpsSendRate perf) 1000) 1000);
        r \<leftarrow> to_int32 (msRTT perf);
        let rtt = max r RTT_MIN;
        c \<leftarrow> updateMaxBW (word_of_int bw_bitrate) (updateRTT rtt c);
        (st, c) \<leftarrow> srtBitrateGetState inflight c;
        Some (c\<lparr>congestion_state := st\<rparr>) })"

text \<open>The clock is read up to twice by the task, see \<^theory_text>\<open>RunTask\<close>.\<close>

definition congestionCtrl :: "int \<Rightarrow> int \<Rightarrow> bstats option \<Rightarrow> srt_cc \<Rightarrow> srt_cc option" where
  "congestionCtrl now1 now2 perf c = do {
     let (fired, task, c') = doByTimeAndCount now1 now2 (\<lambda>c. Option.bind c (take_sample perf)) (srt_congestion_ctrl_task c) (Some c);
     c \<leftarrow> c';
     Some (c\<lparr>srt_congestion_ctrl_task := (if fired then reset task else task)\<rparr>) }"

text \<open>The new bitrate that the callback of \<open>updateVideoEncodeBitate\<close> computes.\<close>

definition next_bitrate :: "cc_state \<Rightarrow> int \<Rightarrow> int \<Rightarrow> int option" where
  "next_bitrate st current video =
    (case st of
       STATE_INCR \<Rightarrow> if rnd (of_int current) < dmul (rnd (of_int video)) (rnd (13 / 10))
                     then to_int64 (dmul (rnd (of_int current)) (rnd (108 / 100))) else Some current
     | STATE_DECR \<Rightarrow> if rnd (of_int current) > dmul (rnd (of_int video)) (rnd (4 / 10))
                     then to_int64 (dmul (rnd (of_int current)) (rnd (85 / 100))) else Some current
     | STATE_KEEP \<Rightarrow> Some current)"

text \<open>The value returned, the new \<open>current_vencode_bitrate\<close> and the object.\<close>

definition updateVideoEncodeBitate :: "int \<Rightarrow> int \<Rightarrow> int \<Rightarrow> int \<Rightarrow> srt_cc \<Rightarrow> (bool \<times> int \<times> srt_cc) option" where
  "updateVideoEncodeBitate now1 now2 current video c = do {
     let (fired, task, tmp') = doByTimeAndCount now1 now2 (\<lambda>t. Option.bind t (\<lambda>_. next_bitrate (congestion_state c) current video))
           (update_vencode_bitrate_task c) (Some current);
     tmp \<leftarrow> tmp';
     if fired then
       let c = c\<lparr>update_vencode_bitrate_task := reset task\<rparr>
       in Some (if tmp \<noteq> current then (True, tmp, c) else (False, current, c))
     else Some (False, current, c\<lparr>update_vencode_bitrate_task := task\<rparr>) }"

end
