(* ===== verification/SrtCCProps.thy ===== *)
theory SrtCCProps
  imports SrtCC
begin

text \<open>
  The properties of the congestion estimator: the windows it averages over, the bandwidth estimate,
  and the band in which it keeps the encoder's bitrate.
\<close>

section \<open>Rounding of the constants\<close>

lemma dmul_const_error:
  assumes "0 \<le> x" and "x \<le> 2 ^ 41" and "0 \<le> c" and "c \<le> 2"
  shows "\<bar>dmul (rnd (of_int x)) (rnd c) - of_int x * c\<bar> \<le> 1 / 500"
proof -
  have x: "rnd (of_int x) = of_int x" using assms(1,2) by (intro rnd_int) simp
  have X: "0 \<le> (of_int x :: rat)" "(of_int x :: rat) \<le> 2 ^ 41"
    using assms(1,2) by simp_all
  have 1: "\<bar>rnd c - c\<bar> \<le> 2 / 2 ^ 53" using rnd_error [of c] assms(3,4) by (simp add: divide_right_mono order_trans)
  moreover have "(2 :: rat) / 2 ^ 53 \<le> 1" by simp
  ultimately have c2: "\<bar>rnd c\<bar> \<le> 3" using assms(3,4) by linarith
  have 2: "\<bar>of_int x * rnd c - of_int x * c\<bar> \<le> 2 ^ 41 * (2 / 2 ^ 53)"
  proof -
    have "\<bar>of_int x * rnd c - of_int x * c\<bar> = of_int x * \<bar>rnd c - c\<bar>"
      using X(1) by (simp add: abs_mult flip: right_diff_distrib)
    also have "\<dots> \<le> 2 ^ 41 * (2 / 2 ^ 53)" using X 1 by (intro mult_mono) simp_all
    finally show ?thesis .
  qed
  have 3: "\<bar>rnd (of_int x * rnd c) - of_int x * rnd c\<bar> \<le> 2 ^ 41 * 3 / 2 ^ 53"
  proof -
    have "\<bar>of_int x * rnd c\<bar> \<le> 2 ^ 41 * 3" unfolding abs_mult using X c2 by (intro mult_mono) simp_all
    then show ?thesis using rnd_error [of "of_int x * rnd c"] by (simp add: divide_right_mono order_trans)
  qed
  have "\<bar>dmul (rnd (of_int x)) (rnd c) - of_int x * c\<bar> \<le> 2 ^ 41 * 3 / 2 ^ 53 + 2 ^ 41 * (2 / 2 ^ 53)"
    unfolding dmul_def x using 2 3 by linarith
  then show ?thesis by simp
qed

section \<open>The encoder's bitrate\<close>

lemma to_int64_near:
  assumes "\<bar>y - of_int x * c\<bar> \<le> 1 / 500" and "0 \<le> x" and "x \<le> 2 ^ 41" and "0 < c" and "c \<le> 2"
  shows "\<exists>new. to_int64 y = Some new \<and> of_int x * c - 1 - 1 / 500 < of_int new \<and> of_int new \<le> of_int x * c + 1 / 500 \<and> 0 \<le> new"
proof -
  have X: "0 \<le> (of_int x :: rat)" "(of_int x :: rat) \<le> 2 ^ 41" using assms(2,3) by simp_all
  have xc: "0 \<le> of_int x * c" "of_int x * c \<le> 2 ^ 41 * 2"
    using X assms(4,5) mult_mono [OF X(2) assms(5)] by simp_all
  have y: "- 1 < y" using assms(1) xc by linarith
  have t: "of_int (trunc y) \<le> of_int x * c + 1 / 500" "of_int x * c - 1 - 1 / 500 < of_int (trunc y)" "0 \<le> trunc y"
  proof -
    show "of_int x * c - 1 - 1 / 500 < of_int (trunc y)" unfolding trunc_def using assms(1) by (cases "0 \<le> y") (simp_all only: if_True if_False, linarith+)
    show "0 \<le> trunc y" unfolding trunc_def using y by (simp add: le_ceiling_iff)
    show "of_int (trunc y) \<le> of_int x * c + 1 / 500"
    proof (cases "0 \<le> y")
      case False
      then have "(of_int (trunc y) :: rat) \<le> 0" by (simp add: trunc_def)
      then show ?thesis using xc(1) by linarith
    qed (use assms(1) in \<open>simp add: trunc_def; linarith\<close>)
  qed
  have "(of_int (trunc y) :: rat) < of_int (2 ^ 63 - 1)" using t(1) xc(2) by simp
  then have "trunc y < 2 ^ 63 - 1" by (simp only: of_int_less_iff)
  with t show ?thesis by (simp add: to_range_def)
qed

text \<open>
  C37: the encoder's bitrate follows the estimate within a band around the stream's own: from any
  bitrate between 0.34 and 1.404 times that of the stream, one step of the controller, in
  whatever state, is defined and ends in the band again (up to the rounding to whole bits
  per second).
\<close>

theorem bitrate_stays_in_band:
  assumes "0 \<le> video" and "video \<le> 2 ^ 40" and "0 \<le> current"
    and "340 * video - 1003 \<le> 1000 * current" and "1000 * current \<le> 1404 * video + 5"
  shows "\<exists>new. next_bitrate st current video = Some new \<and> 0 \<le> new
    \<and> 340 * video - 1003 \<le> 1000 * new \<and> 1000 * new \<le> 1404 * video + 5"
proof -
  have cur: "current \<le> 2 ^ 41" using assms(2,5) by simp
  have rc: "rnd (of_int current) = of_int current" using assms(3) cur by (intro rnd_int) simp
  have e: "\<bar>dmul (rnd (of_int video)) (rnd k) - of_int video * k\<bar> \<le> 1 / 500" if "0 \<le> k" "k \<le> 2" for k
    using assms(1,2) that by (intro dmul_const_error) simp_all
  have s: "\<exists>new. to_int64 (dmul (rnd (of_int current)) (rnd k)) = Some new \<and> of_int current * k - 1 - 1 / 500 < of_int new
      \<and> of_int new \<le> of_int current * k + 1 / 500 \<and> 0 \<le> new" if "0 < k" "k \<le> 2" for k
    using assms(3) cur that by (intro to_int64_near dmul_const_error) simp_all
  have lift: "a \<le> b" if "(of_int a :: rat) < of_int b + 1" for a b
    using that by linarith
  show ?thesis
  proof (cases st)
    case STATE_KEEP
    then show ?thesis using assms by (simp add: next_bitrate_def)
  next
    case STATE_INCR
    show ?thesis
    proof (cases "rnd (of_int current) < dmul (rnd (of_int video)) (rnd (13 / 10))")
      case True
      obtain new where new: "to_int64 (dmul (rnd (of_int current)) (rnd (108 / 100))) = Some new"
        "of_int current * (108 / 100) - 1 - 1 / 500 < (of_int new :: rat)" "of_int new \<le> (of_int current * (108 / 100) + 1 / 500 :: rat)" "0 \<le> new"
        using s [of "108 / 100"] by auto
      have "(of_int current :: rat) \<le> of_int video * (13 / 10) + 1 / 500" using True e [of "13 / 10"] unfolding rc by linarith
      then have "1000 * new \<le> 1404 * video + 5" using new(3) by (intro lift) simp
      moreover have "current \<le> new"
      proof (cases "current = 0")
        case False
        then have "(1 :: rat) \<le> of_int current" using assms(3) by simp
        then show ?thesis using new(2) by (intro lift) simp
      qed (use new(4) in simp)
      ultimately show ?thesis using STATE_INCR True new(1,4) assms(4) by (simp add: next_bitrate_def)
    qed (use STATE_INCR assms in \<open>simp add: next_bitrate_def\<close>)
  next
    case STATE_DECR
    show ?thesis
    proof (cases "rnd (of_int current) > dmul (rnd (of_int video)) (rnd (4 / 10))")
      case True
      obtain new where new: "to_int64 (dmul (rnd (of_int current)) (rnd (85 / 100))) = Some new"
        "of_int current * (85 / 100) - 1 - 1 / 500 < (of_int new :: rat)" "of_int new \<le> (of_int current * (85 / 100) + 1 / 500 :: rat)" "0 \<le> new"
        using s [of "85 / 100"] by auto
      have "of_int video * (4 / 10) - 1 / 500 \<le> (of_int current :: rat)" using True e [of "4 / 10"] unfolding rc by linarith
      then have "340 * video - 1003 \<le> 1000 * new" using new(2) by (intro lift) simp
      moreover have "new \<le> current" using new(3) assms(3) by (intro lift) simp
      ultimately show ?thesis using STATE_DECR True new(1,4) assms(5) by (simp add: next_bitrate_def)
    qed (use STATE_DECR assms in \<open>simp add: next_bitrate_def\<close>)
  qed
qed

text \<open>A stream of 2 Mbit/s with the encoder at 2 Mbit/s, once in each direction.\<close>

theorem bitrate_stays_in_band_witness:
  "(\<exists>new. next_bitrate STATE_INCR 2000000 2000000 = Some new \<and> 1000 * new \<le> 1404 * 2000000 + 5)
   \<and> (\<exists>new. next_bitrate STATE_DECR 2000000 2000000 = Some new \<and> 340 * 2000000 - 1003 \<le> 1000 * new)"
  using bitrate_stays_in_band [of 2000000 2000000 STATE_INCR] bitrate_stays_in_band [of 2000000 2000000 STATE_DECR] by auto

section \<open>The bandwidth\<close>

lemma take_bit_32_64: "take_bit 32 (take_bit 64 x + take_bit 64 y) = take_bit 32 (x + y)" for x y :: int
proof -
  have t: "take_bit 32 (take_bit 64 z) = take_bit 32 z" for z :: int by (simp add: take_bit_take_bit)
  have "take_bit 32 (take_bit 64 x + take_bit 64 y) = take_bit 32 (take_bit 32 (take_bit 64 x) + take_bit 32 (take_bit 64 y))"
    by (rule take_bit_add [symmetric])
  also have "\<dots> = take_bit 32 (x + y)" unfolding t by (rule take_bit_add)
  finally show ?thesis .
qed

lemma accumulate_step: "(ucast (scast (acc :: u32) + (bw :: u64)) :: u32) = acc + ucast bw"
proof -
  have "(ucast (scast acc + bw) :: u32) = ucast (scast acc :: u64) + ucast bw"
    by transfer (simp add: take_bit_32_64)
  moreover have "(ucast (scast acc :: u64) :: u32) = acc" by (rule bit_word_eqI) (auto simp: bit_simps)
  ultimately show ?thesis by simp
qed

lemma accumulate_int_sum: "accumulate_int bws = word_of_nat (sum_list (map unat bws))"
proof -
  have "fold (\<lambda>bw acc. acc + ucast bw) bws a = (a :: u32) + word_of_nat (sum_list (map unat bws))" for a
  proof (induction bws arbitrary: a)
    case (Cons b bws)
    then show ?case by simp
  qed simp
  then show ?thesis by (simp add: accumulate_int_def accumulate_step)
qed


lemma length_mod_6: "length (xs @ [x]) \<le> 6 \<Longrightarrow> 6 \<le> length (xs @ [x]) \<longleftrightarrow> length xs = 5"
  by auto

text \<open>The estimate is defined whatever the samples are: 0.6 times a 64-bit number fits.\<close>

lemma new_bw_max:
  assumes "0 \<le> x" and "x < 2 ^ 64"
  shows "\<exists>new. to_uint64 (ddiv (dmul (rnd (of_int x)) (rnd (12 / 10))) 2) = Some new \<and> 0 \<le> new \<and> of_int new \<le> of_int x * (7 / 10 :: rat)"
proof -
  have X: "0 \<le> (of_int x :: rat)" using assms(1) by simp
  have X2: "(of_int x :: rat) < 2 ^ 64" using assms(2) by (metis of_int_less_iff of_int_numeral of_int_power)
  define a where "a = rnd (of_int x)"
  define b where "b = dmul a (rnd (12 / 10))"
  define d where "d = ddiv b 2"
  have a: "0 \<le> a" "a \<le> of_int x * (1 + 1 / 2 ^ 53)" using rnd_pos [OF X] by (simp_all only: a_def)
  have c: "0 \<le> rnd (12 / 10)" "rnd (12 / 10) \<le> 12 / 10 * (1 + 1 / 2 ^ 53)" using rnd_pos [of "12 / 10"] by simp_all
  have "0 \<le> a * rnd (12 / 10)" using a(1) c(1) by simp
  note b = rnd_pos [OF this, folded dmul_def, folded b_def]
  have "0 \<le> b / 2" using b(1) by simp
  note d = rnd_pos [OF this, folded ddiv_def, folded d_def]
  have "a * rnd (12 / 10) \<le> of_int x * (1 + 1 / 2 ^ 53) * (12 / 10 * (1 + 1 / 2 ^ 53))"
    using a c X by (intro mult_mono) simp_all
  then have "b \<le> of_int x * (13 / 10)" using b(2) X by (simp add: field_simps)
  then have "d \<le> of_int x * (7 / 10)" using d(2) X by (simp add: field_simps)
  moreover have "trunc d = \<lfloor>d\<rfloor>" "0 \<le> \<lfloor>d\<rfloor>" using d(1) by (simp_all add: trunc_def)
  ultimately have t: "0 \<le> trunc d" "of_int (trunc d) \<le> of_int x * (7 / 10 :: rat)" by linarith+
  have "trunc d \<le> 2 ^ 64 - 1"
  proof -
    have "(of_int (trunc d) :: rat) \<le> of_int (2 ^ 64 - 1)" using t(2) X X2 by simp
    then show ?thesis by (simp only: of_int_le_iff)
  qed
  with t show ?thesis unfolding to_range_def d_def b_def a_def by simp
qed

lemma updateMaxBW_full:
  assumes "length (bw_array c) = 5"
  shows "\<exists>new. updateMaxBW b c = Some (c\<lparr>avg_bw := scast (accumulate_int (bw_array c @ [b])) div 6, bw_max := word_of_int new,
      bw_array := [], bw_ready := True\<rparr>)
    \<and> 0 \<le> new \<and> of_int new \<le> of_int (uint (Max (set (bw_array c @ [b])) + scast (accumulate_int (bw_array c @ [b])) div 6)) * (7 / 10 :: rat)"
proof -
  let ?x = "Max (set (bw_array c @ [b])) + scast (accumulate_int (bw_array c @ [b])) div 6"
  obtain new where "to_uint64 (ddiv (dmul (rnd (of_int (uint ?x))) (rnd (12 / 10))) 2) = Some new" "0 \<le> new"
    "of_int new \<le> of_int (uint ?x) * (7 / 10 :: rat)"
    using new_bw_max [of "uint ?x"] uint_lt2p [of ?x] by auto
  then show ?thesis using assms by (intro exI [of _ new]) (simp add: updateMaxBW_def Let_def)
qed

lemma scast_small: "(scast (word_of_nat s :: u32) :: u64) = word_of_nat s" if "s < 2 ^ 31"
proof -
  have "signed_take_bit 31 (int s) = int s" using that by (simp add: signed_take_bit_int_eq_self)
  then show ?thesis by transfer simp
qed

lemma scast_negative: "unat (scast (word_of_nat s :: u32) :: u64) = 2 ^ 64 - 2 ^ 32 + s" if "2 ^ 31 \<le> s" "s < 2 ^ 32"
proof -
  have "int s div 2147483648 = 1" using that by simp
  then have "signed_take_bit 31 (int s) = int s - 2 ^ 32"
    using that by (simp add: signed_take_bit_eq_take_bit_minus take_bit_int_eq_self bit_iff_odd)
  then have w: "(scast (word_of_nat s :: u32) :: u64) = word_of_int (int s - 2 ^ 32)"
    by transfer simp
  have u: "unat (word_of_int x :: u64) = nat (x mod 2 ^ 64)" for x by (simp add: unsigned_of_int take_bit_eq_mod)
  have "(int s - 2 ^ 32) mod 2 ^ 64 = (int s - 2 ^ 32 + 2 ^ 64) mod 2 ^ 64" by (rule mod_add_self2 [symmetric])
  also have "\<dots> = int s - 2 ^ 32 + 2 ^ 64" using that by (intro mod_pos_pos_trivial) simp_all
  finally show ?thesis unfolding w u by simp
qed

lemma unat_div_6: "unat (w div 6 :: u64) = unat w div 6"
  by (simp add: unat_div)

lemma average_small:
  assumes "sum_list (map unat bs) < 2 ^ 31"
  shows "unat (scast (accumulate_int bs) div 6 :: u64) = sum_list (map unat bs) div 6"
proof -
  define S where "S = sum_list (map unat bs)"
  show ?thesis
    using assms unfolding accumulate_int_sum S_def [symmetric] unat_div_6
    by (simp add: scast_small unat_of_nat take_bit_eq_mod)
qed

text \<open>
  C38: the average bandwidth.  At the sixth sample of a window it is the mean of the six, rounded down, as long as their
  sum is below \<open>2 ^ 31\<close>.  Only the low 32 bits of the sum are kept: where they are below \<open>2 ^ 31\<close> the average is a sixth of
  them (too small for a sum of \<open>2 ^ 32\<close> or more); otherwise they are a negative \<open>int\<close>, for example for any sum from
  \<open>2 ^ 31\<close> up to \<open>2 ^ 32\<close> (six samples of 358 Mbit/s), and the average comes out around \<open>3 * 10 ^ 18\<close>.
\<close>

theorem bandwidth_average:
  fixes c b
  defines "S \<equiv> sum_list (map unat (bw_array c @ [b]))"
  assumes "length (bw_array c) = 5"
  shows "\<exists>c'. updateMaxBW b c = Some c' \<and> bw_ready c' \<and> bw_array c' = []
    \<and> unat (avg_bw c') = (if S mod 2 ^ 32 < 2 ^ 31 then S mod 2 ^ 32 div 6 else (2 ^ 64 - 2 ^ 32 + S mod 2 ^ 32) div 6)
    \<and> (S < 2 ^ 31 \<longrightarrow> unat (avg_bw c') = S div 6)"
proof -
  define S' where "S' = S mod 2 ^ 32"
  have S': "S' < 2 ^ 32" unfolding S'_def by (rule mod_less_divisor) simp
  obtain new where c': "updateMaxBW b c = Some (c\<lparr>avg_bw := scast (accumulate_int (bw_array c @ [b])) div 6, bw_max := word_of_int new,
      bw_array := [], bw_ready := True\<rparr>)" using updateMaxBW_full [OF assms(2)] by blast
  have acc: "accumulate_int (bw_array c @ [b]) = word_of_nat S'"
    unfolding accumulate_int_sum S_def [symmetric] S'_def by (simp add: word_of_nat_eq_iff take_bit_eq_mod)
  have "unat (scast (word_of_nat S' :: u32) div 6 :: u64) = (if S' < 2 ^ 31 then S' div 6 else (2 ^ 64 - 2 ^ 32 + S') div 6)"
  proof (cases "S' < 2 ^ 31")
    case True
    then show ?thesis using S' by (simp add: unat_div_6 scast_small unat_of_nat take_bit_eq_mod)
  next
    case False
    then have "2 ^ 31 \<le> S'" by simp
    from scast_negative [OF this S'] False show ?thesis unfolding unat_div_6 by simp
  qed
  moreover have "S' = S" if "S < 2 ^ 31" using that by (simp add: S'_def)
  ultimately show ?thesis using c' unfolding acc S'_def [symmetric] by auto
qed

text \<open>Six samples of 400 Mbit/s, and of 1 Gbit/s.\<close>

theorem bandwidth_average_witness:
  "(\<exists>c'. updateMaxBW 400000000 (SrtCongestionCtrl_new\<lparr>bw_array := [400000000, 400000000, 400000000, 400000000, 400000000]\<rparr>) = Some c'
      \<and> unat (avg_bw c') = 3074457345302430720)
   \<and> (\<exists>c'. updateMaxBW 1000000000 (SrtCongestionCtrl_new\<lparr>bw_array := [1000000000, 1000000000, 1000000000, 1000000000, 1000000000]\<rparr>) = Some c'
      \<and> unat (avg_bw c') = 284172117)"
proof -
  let ?c = "SrtCongestionCtrl_new\<lparr>bw_array := [400000000, 400000000, 400000000, 400000000, 400000000]\<rparr>"
  let ?d = "SrtCongestionCtrl_new\<lparr>bw_array := [1000000000, 1000000000, 1000000000, 1000000000, 1000000000]\<rparr>"
  have S: "sum_list (map unat (bw_array ?c @ [400000000])) = 2400000000" "sum_list (map unat (bw_array ?d @ [1000000000])) = 6000000000"
    by simp_all
  show ?thesis
    using bandwidth_average [of ?c 400000000] bandwidth_average [of ?d 1000000000] unfolding S by auto
qed

section \<open>The windows\<close>

fun samples :: "bstats list \<Rightarrow> srt_cc \<Rightarrow> srt_cc option" where
  "samples [] c = Some c"
| "samples (p # ps) c = do { c \<leftarrow> take_sample (Some p) c; samples ps c }"

text \<open>Statistics of a path up to 350 Mbit/s, with at most 200000 packets in flight and an RTT of at most 100 s.\<close>

definition stats_ok :: "bstats \<Rightarrow> bool" where
  "stats_ok p \<longleftrightarrow> 0 \<le> pktFlightSize p \<and> pktFlightSize p \<le> 200000 \<and> 0 \<le> mbpsSendRate p \<and> mbpsSendRate p \<le> 350
     \<and> 0 \<le> msRTT p \<and> msRTT p \<le> 100000"

text \<open>The object after \<open>k\<close> samples.\<close>

definition cc_ok :: "nat \<Rightarrow> srt_cc \<Rightarrow> bool" where
  "cc_ok k c \<longleftrightarrow> length (rtt_array c) = k mod 6 \<and> length (bw_array c) = k mod 6
     \<and> (rtt_ready c \<longleftrightarrow> 0 < k \<and> k mod 6 = 0) \<and> (bw_ready c \<longleftrightarrow> 0 < k \<and> k mod 6 = 0)
     \<and> length (state_array c) = k div 6 \<and> (congestion_state c \<noteq> STATE_KEEP \<longrightarrow> k mod 6 = 0 \<and> 36 \<le> k)
     \<and> (\<forall>r \<in> set (rtt_array c). RTT_MIN \<le> r \<and> r \<le> 100000) \<and> RTT_MIN \<le> rtt_min c \<and> rtt_min c \<le> 100000
     \<and> (\<forall>b \<in> set (bw_array c). unat b \<le> 350000001) \<and> unat (bw_max c) \<le> 2 ^ 29
     \<and> (\<forall>x \<in> set (state_array c). \<bar>x\<bar> \<le> 2 ^ 37) \<and> cwnd_gain c = rnd (13 / 10)"

lemma Suc_mod_6: "Suc k mod 6 = (if k mod 6 = 5 then 0 else Suc (k mod 6))" "Suc k div 6 = (if k mod 6 = 5 then Suc (k div 6) else k div 6)"
  by (simp_all add: mod_Suc div_Suc)

text \<open>Reading the statistics.\<close>

lemma stats_converted:
  assumes "stats_ok p"
  shows "\<exists>bw. to_int64 (dmul (dmul (mbpsSendRate p) 1000) 1000) = Some bw \<and> 0 \<le> bw \<and> bw \<le> 350000001"
    and "\<exists>r. to_int32 (msRTT p) = Some r \<and> max r RTT_MIN \<le> 100000"
    and "signed_ok 32 (pktFlightSize p * 188) = Some (pktFlightSize p * 188)"
    and "signed_ok 32 (pktFlightSize p * 188 * 7) = Some (pktFlightSize p * 188 * 7)"
proof -
  have m: "0 \<le> mbpsSendRate p" "mbpsSendRate p \<le> 350" using assms by (simp_all add: stats_ok_def)
  define a where "a = dmul (mbpsSendRate p) 1000"
  have "0 \<le> mbpsSendRate p * 1000" using m by simp
  note a = rnd_pos [OF this, folded dmul_def, folded a_def]
  define b where "b = dmul a 1000"
  have "0 \<le> a * 1000" using a(1) by simp
  note b = rnd_pos [OF this, folded dmul_def, folded b_def]
  have "b < 350000001" using a(2) b(2) m by simp
  then have "trunc b \<le> 350000001" "0 \<le> trunc b" using b(1) by (simp_all add: trunc_def)
  then show "\<exists>bw. to_int64 (dmul (dmul (mbpsSendRate p) 1000) 1000) = Some bw \<and> 0 \<le> bw \<and> bw \<le> 350000001"
    unfolding a_def [symmetric] b_def [symmetric] by (simp add: to_range_def)
  have "0 \<le> trunc (msRTT p)" "trunc (msRTT p) \<le> 100000"
    using assms by (simp_all add: stats_ok_def trunc_def floor_le_iff)
  then show "\<exists>r. to_int32 (msRTT p) = Some r \<and> max r RTT_MIN \<le> 100000" by (simp add: to_range_def)
qed (use assms in \<open>simp_all add: stats_ok_def signed_ok_def\<close>)

text \<open>The product of bandwidth and delay, and the state that comes of it.\<close>

lemma state_bound:
  assumes "unat bw \<le> 2 ^ 29" and "0 \<le> rtt" and "rtt \<le> 100000" and "0 \<le> i" and "i < 2 ^ 31"
  shows "\<exists>x. to_int64 (dsub (dmul (rnd (13 / 10)) (rnd (of_int (uint (bw * word_of_int rtt div 1000 :: u64))))) (of_int i)) = Some x \<and> \<bar>x\<bar> \<le> 2 ^ 37"
proof -
  define q where "q = uint (bw * word_of_int rtt div 1000 :: u64)"
  have q: "0 \<le> q" "q \<le> 2 ^ 36"
  proof -
    show "0 \<le> q" by (simp add: q_def)
    have "unat (bw * word_of_int rtt) \<le> unat bw * unat (word_of_int rtt :: u64)"
      by (simp add: unat_word_ariths)
    also have "unat (word_of_int rtt :: u64) = nat rtt"
      using assms(2,3) by (simp add: unsigned_of_int take_bit_eq_mod nat_mod_distrib)
    also have "unat bw * nat rtt \<le> 2 ^ 29 * 100000" using assms(1,3) by (intro mult_mono) simp_all
    finally have "unat (bw * word_of_int rtt div 1000 :: u64) \<le> 2 ^ 29 * 100000 div 1000"
      unfolding unat_div by (simp add: div_le_mono)
    then have "unat (bw * word_of_int rtt div 1000 :: u64) \<le> 2 ^ 36" by simp
    then show "q \<le> 2 ^ 36" unfolding q_def by (metis of_nat_le_iff of_nat_numeral of_nat_power uint_nat)
  qed
  define y where "y = dmul (rnd (13 / 10)) (rnd (of_int q))"
  have "\<bar>y - of_int q * (13 / 10)\<bar> \<le> 1 / 500"
    using dmul_const_error [of q "13 / 10"] q unfolding y_def by (simp add: dmul_def mult.commute)
  moreover have "(of_int q :: rat) \<le> 68719476736" "0 \<le> (of_int q :: rat)" using q by simp_all
  moreover have "(of_int i :: rat) < 2147483648" "0 \<le> (of_int i :: rat)" using assms(4,5) by simp_all
  ultimately have z: "\<bar>y - of_int i\<bar> \<le> 128849018880" by linarith
  define d where "d = dsub y (of_int i)"
  have "\<bar>d - (y - of_int i)\<bar> \<le> \<bar>y - of_int i\<bar> / 2 ^ 53" unfolding d_def dsub_def by (rule rnd_error)
  moreover have "\<bar>y - of_int i\<bar> / 2 ^ 53 \<le> 1" using z by simp
  ultimately have "\<bar>d\<bar> \<le> 137438953472" using z by linarith
  then have d: "\<bar>d\<bar> \<le> 2 ^ 37" by simp
  have "\<bar>trunc d\<bar> \<le> 2 ^ 37"
    using d unfolding trunc_def by (cases "0 \<le> d") (auto simp: abs_le_iff floor_le_iff, linarith)
  then show ?thesis unfolding q_def [symmetric] y_def [symmetric] d_def [symmetric] by (auto simp: to_range_def abs_le_iff)
qed

lemma accumulate_long_ok:
  assumes "\<forall>x \<in> set xs. \<bar>x\<bar> \<le> 2 ^ 37" and "\<bar>acc\<bar> + int (length xs) * 2 ^ 37 < 2 ^ 63"
  shows "accumulate_long xs acc = Some (acc + sum_list xs)"
  using assms
proof (induction xs arbitrary: acc)
  case (Cons x xs)
  then have "\<bar>acc + x\<bar> + int (length xs) * 2 ^ 37 < 2 ^ 63" "signed_ok 64 (acc + x) = Some (acc + x)"
    by (auto simp: signed_ok_def)
  then show ?case using Cons by simp
qed simp

text \<open>One more sample: the two windows together, then the state.\<close>

lemma windows_step:
  assumes "cc_ok k c" and "RTT_MIN \<le> r" and "r \<le> 100000" and "unat b \<le> 350000001"
  shows "\<exists>c1. updateMaxBW b (updateRTT r c) = Some c1 \<and> state_array c1 = state_array c \<and> cwnd_gain c1 = rnd (13 / 10)
    \<and> length (rtt_array c1) = Suc k mod 6 \<and> length (bw_array c1) = Suc k mod 6
    \<and> (rtt_ready c1 \<longleftrightarrow> Suc k mod 6 = 0) \<and> (bw_ready c1 \<longleftrightarrow> Suc k mod 6 = 0)
    \<and> (\<forall>r \<in> set (rtt_array c1). RTT_MIN \<le> r \<and> r \<le> 100000) \<and> RTT_MIN \<le> rtt_min c1 \<and> rtt_min c1 \<le> 100000
    \<and> (\<forall>b \<in> set (bw_array c1). unat b \<le> 350000001) \<and> unat (bw_max c1) \<le> 2 ^ 29"
proof (cases "k mod 6 = 5")
  case True
  have len: "length (rtt_array c) = 5" "length (bw_array c) = 5" using assms(1) True by (simp_all add: cc_ok_def)
  have r: "updateRTT r c = c\<lparr>rtt_array := [], rtt_ready := True, rtt_min := Min (set (rtt_array c @ [r]))\<rparr>"
    using len assms(2) by (simp add: updateRTT_def Let_def max_absorb1)
  have rm: "Min (set (rtt_array c @ [r])) \<in> set (rtt_array c @ [r])" by (rule Min_in) simp_all
  then have rb: "RTT_MIN \<le> Min (set (rtt_array c @ [r]))" "Min (set (rtt_array c @ [r])) \<le> 100000"
    using assms(1-3) by (auto simp: cc_ok_def)
  let ?bs = "bw_array c @ [b]" let ?avg = "scast (accumulate_int (bw_array c @ [b])) div 6 :: u64"
  obtain new where new: "updateMaxBW b (updateRTT r c) = Some ((updateRTT r c)\<lparr>avg_bw := ?avg, bw_max := word_of_int new,
      bw_array := [], bw_ready := True\<rparr>)" "0 \<le> new" "of_int new \<le> of_int (uint (Max (set ?bs) + ?avg)) * (7 / 10 :: rat)"
    using updateMaxBW_full [of "updateRTT r c" b] len(2) unfolding r by auto
  have small: "\<forall>b \<in> set ?bs. unat b \<le> 350000001" using assms(1,4) by (auto simp: cc_ok_def)
  have "sum_list (map unat ?bs) \<le> sum_list (map (\<lambda>_. 350000001) ?bs)" using small by (intro sum_list_mono) blast
  then have S: "sum_list (map unat ?bs) \<le> 2100000006" unfolding sum_list_triv using len(2) by simp
  then have "sum_list (map unat ?bs) < 2 ^ 31" by simp
  from average_small [OF this] have "unat ?avg = sum_list (map unat ?bs) div 6" .
  then have avg: "unat ?avg \<le> 350000001" using S by simp
  have "Max (set ?bs) \<in> set ?bs" by (rule Max_in) simp_all
  then have "unat (Max (set ?bs)) \<le> 350000001" using small by blast
  then have "unat (Max (set ?bs) + ?avg) \<le> 700000002"
    using avg by (simp add: unat_word_ariths)
  then have "uint (Max (set ?bs) + ?avg) \<le> 700000002" by (simp only: uint_nat)
  then have "of_int (uint (Max (set ?bs) + ?avg)) \<le> (700000002 :: rat)" by (metis of_int_le_iff of_int_numeral)
  then have "(of_int new :: rat) \<le> of_int (2 ^ 29)" using new(3) by simp
  then have "new \<le> 2 ^ 29" by (simp only: of_int_le_iff)
  then have "unat (word_of_int new :: u64) \<le> 2 ^ 29"
    using new(2) by (simp add: unsigned_of_int take_bit_eq_mod nat_le_iff)
  then show ?thesis using new(1) rb assms(1) True len by (simp add: r cc_ok_def mod_Suc)
next
  case False
  have len: "length (rtt_array c) < 5" "length (bw_array c) < 5"
    using assms(1) False mod_less_divisor [of 6 k] by (simp_all add: cc_ok_def)
  have r: "updateRTT r c = c\<lparr>rtt_array := rtt_array c @ [r], rtt_ready := False\<rparr>"
    using len assms(2) by (simp add: updateRTT_def Let_def max_absorb1)
  have "updateMaxBW b (updateRTT r c) = Some ((updateRTT r c)\<lparr>bw_array := bw_array c @ [b], bw_ready := False\<rparr>)"
    using len unfolding r by (simp add: updateMaxBW_def Let_def)
  then show ?thesis using assms False unfolding r by (auto simp: cc_ok_def mod_Suc)
qed

text \<open>The decision: \<open>STATE_KEEP\<close> until the windows are full for the sixth time.\<close>

lemma state_step:
  assumes "rtt_ready c = bw_ready c" and "RTT_MIN \<le> rtt_min c" and "rtt_min c \<le> 100000" and "unat (bw_max c) \<le> 2 ^ 29"
    and "\<forall>x \<in> set (state_array c). \<bar>x\<bar> \<le> 2 ^ 37" and "cwnd_gain c = rnd (13 / 10)" and "length (state_array c) < 2 ^ 25"
    and "0 \<le> inflight" and "inflight * 8 < 2 ^ 31"
  shows "\<exists>x st c'. srtBitrateGetState inflight c = Some (st, c') \<and> (st \<noteq> STATE_KEEP \<longrightarrow> rtt_ready c \<and> 5 \<le> length (state_array c))
    \<and> c' = (if rtt_ready c then c\<lparr>state_array := state_array c @ [x], state_ready := 5 \<le> length (state_array c)\<rparr> else c) \<and> \<bar>x\<bar> \<le> 2 ^ 37"
proof (cases "rtt_ready c")
  case True
  obtain x where x: "to_int64 (dsub (dmul (rnd (13 / 10)) (rnd (of_int (uint (bw_max c * word_of_int (rtt_min c) div 1000 :: u64))))) (of_int (inflight * 8))) = Some x"
    "\<bar>x\<bar> \<le> 2 ^ 37" using state_bound [of "bw_max c" "rtt_min c" "inflight * 8"] assms by auto
  have i: "signed_ok 32 (inflight * 8) = Some (inflight * 8)" using assms(8,9) by (simp add: signed_ok_def)
  have acc: "accumulate_long (state_array c @ [x]) 0 = Some (0 + sum_list (state_array c @ [x]))"
    using assms(5,7) x(2) by (intro accumulate_long_ok) auto
  show ?thesis
    using True assms(1) x i acc unfolding srtBitrateGetState_def Let_def assms(6) by (intro exI [of _ x]) simp
next
  case False
  then show ?thesis by (intro exI [of _ 0]) (simp add: srtBitrateGetState_def)
qed

lemma sample_step:
  assumes "cc_ok k c" and "stats_ok p" and "k < 6 * 2 ^ 25"
  shows "\<exists>c'. take_sample (Some p) c = Some c' \<and> cc_ok (Suc k) c'"
proof -
  obtain bw r where conv: "to_int64 (dmul (dmul (mbpsSendRate p) 1000) 1000) = Some bw" "0 \<le> bw" "bw \<le> 350000001"
    "to_int32 (msRTT p) = Some r" "max r RTT_MIN \<le> 100000" using stats_converted(1,2) [OF assms(2)] by blast
  have b: "unat (word_of_int bw :: u64) \<le> 350000001"
    using conv(2,3) by (simp add: unsigned_of_int take_bit_eq_mod nat_le_iff)
  obtain c1 where c1: "updateMaxBW (word_of_int bw) (updateRTT (max r RTT_MIN) c) = Some c1" "state_array c1 = state_array c" "cwnd_gain c1 = rnd (13 / 10)"
    "length (rtt_array c1) = Suc k mod 6" "length (bw_array c1) = Suc k mod 6"
    "rtt_ready c1 \<longleftrightarrow> Suc k mod 6 = 0" "bw_ready c1 \<longleftrightarrow> Suc k mod 6 = 0"
    "\<forall>r \<in> set (rtt_array c1). RTT_MIN \<le> r \<and> r \<le> 100000" "RTT_MIN \<le> rtt_min c1" "rtt_min c1 \<le> 100000"
    "\<forall>b \<in> set (bw_array c1). unat b \<le> 350000001" "unat (bw_max c1) \<le> 2 ^ 29"
    using windows_step [OF assms(1) max.cobounded2 conv(5) b] by (elim exE conjE) (rule that)
  have st: "length (state_array c1) = k div 6" "\<forall>x \<in> set (state_array c1). \<bar>x\<bar> \<le> 2 ^ 37"
    using assms(1) c1(2) by (simp_all add: cc_ok_def)
  have infl: "0 \<le> pktFlightSize p * 188 * 7" "pktFlightSize p * 188 * 7 * 8 < 2 ^ 31" using assms(2) by (simp_all add: stats_ok_def)
  have "length (state_array c1) < 2 ^ 25" "rtt_ready c1 = bw_ready c1" using assms(3) st(1) c1(6,7) by simp_all
  from state_step [OF this(2) c1(9,10,12) st(2) c1(3) this(1) infl]
  obtain d x c2 where c2: "srtBitrateGetState (pktFlightSize p * 188 * 7) c1 = Some (d, c2)"
    "d \<noteq> STATE_KEEP \<longrightarrow> rtt_ready c1 \<and> 5 \<le> length (state_array c1)"
    "c2 = (if rtt_ready c1 then c1\<lparr>state_array := state_array c1 @ [x], state_ready := 5 \<le> length (state_array c1)\<rparr> else c1)" "\<bar>x\<bar> \<le> 2 ^ 37"
    by (elim exE conjE) (rule that)
  have "take_sample (Some p) c = Some (c2\<lparr>congestion_state := d\<rparr>)"
    using stats_converted(3,4) [OF assms(2)] conv(1,4) c1(1) c2(1) by (simp add: take_sample_def)
  moreover have "cc_ok (Suc k) (c2\<lparr>congestion_state := d\<rparr>)"
  proof -
    have k: "Suc k mod 6 = 0 \<Longrightarrow> Suc k div 6 = Suc (k div 6)" "Suc k mod 6 \<noteq> 0 \<Longrightarrow> Suc k div 6 = k div 6"
      by (auto simp: mod_Suc div_Suc split: if_splits)
    have "36 \<le> Suc k" if "Suc k mod 6 = 0" "5 \<le> k div 6" using that by presburger
    then show ?thesis using c1 c2(2-4) st k by (auto simp: cc_ok_def)
  qed
  ultimately show ?thesis by blast
qed

text \<open>
  C36: the estimator on a sequence of samples: it never runs into undefined behaviour (for the two
  years that the bound on the number of samples stands for, at one sample per 300 ms), the two windows are
  in step and start anew at every sixth sample, and the state it reports is \<open>STATE_KEEP\<close> except
  at every sixth sample from the 36th on.  The list of states is never cleared: it has one entry
  per window, and the decision sums up all of them.
\<close>

theorem sample_windows:
  assumes "\<forall>p \<in> set ps. stats_ok p" and "length ps \<le> 6 * 2 ^ 25"
  shows "\<exists>c. samples ps SrtCongestionCtrl_new = Some c
    \<and> length (rtt_array c) = length ps mod 6 \<and> length (bw_array c) = length ps mod 6
    \<and> (rtt_ready c \<longleftrightarrow> ps \<noteq> [] \<and> length ps mod 6 = 0) \<and> RTT_MIN \<le> rtt_min c
    \<and> length (state_array c) = length ps div 6
    \<and> (congestion_state c \<noteq> STATE_KEEP \<longrightarrow> length ps mod 6 = 0 \<and> 36 \<le> length ps)"
proof -
  have run: "\<exists>c'. samples qs c = Some c' \<and> cc_ok (k + length qs) c'"
    if "cc_ok k c" "\<forall>p \<in> set qs. stats_ok p" "k + length qs \<le> 6 * 2 ^ 25" for k c qs
    using that
  proof (induction qs arbitrary: k c)
    case (Cons q qs)
    then obtain c1 where "take_sample (Some q) c = Some c1" "cc_ok (Suc k) c1" using sample_step [of k c q] by auto
    then show ?case using Cons.IH [of "Suc k" c1] Cons.prems by simp
  qed simp
  have "cc_ok 0 SrtCongestionCtrl_new" by (simp add: cc_ok_def SrtCongestionCtrl_new_def)
  from run [OF this assms(1)] assms(2) show ?thesis by (auto simp: cc_ok_def)
qed

theorem sample_windows_witness:
  "\<exists>c. samples (replicate 36 \<lparr>pktFlightSize = 50, mbpsSendRate = 4, msRTT = 60\<rparr>) SrtCongestionCtrl_new = Some c
    \<and> length (state_array c) = 6 \<and> rtt_ready c"
  using sample_windows [of "replicate 36 \<lparr>pktFlightSize = 50, mbpsSendRate = 4, msRTT = 60\<rparr>"]
  by (auto simp: stats_ok_def simp del: replicate.simps)

section \<open>How often it samples\<close>

text \<open>A run of calls, each with the two readings of the clock and what SRT returned for statistics.\<close>

fun congestion_calls :: "(int \<times> int \<times> bstats option) list \<Rightarrow> srt_cc \<Rightarrow> srt_cc option" where
  "congestion_calls [] c = Some c"
| "congestion_calls ((now1, now2, perf) # cs) c = do { c \<leftarrow> congestionCtrl now1 now2 perf c; congestion_calls cs c }"

abbreviation (input) with_task :: "run_task \<Rightarrow> srt_cc \<Rightarrow> srt_cc" where
  "with_task t c \<equiv> c\<lparr>srt_congestion_ctrl_task := t\<rparr>"

lemma estimate_with_task:
  "updateRTT r (with_task t c) = with_task t (updateRTT r c)"
  "updateMaxBW b (with_task t c) = map_option (with_task t) (updateMaxBW b c)"
  "srtBitrateGetState n (with_task t c) = map_option (map_prod id (with_task t)) (srtBitrateGetState n c)"
  subgoal by (simp add: updateRTT_def Let_def)
  subgoal by (auto simp: updateMaxBW_def Let_def map_option_bind intro!: Option.bind_cong)
  subgoal by (auto simp: srtBitrateGetState_def Let_def map_option_bind intro!: Option.bind_cong)
  done

lemma take_sample_with_task: "take_sample perf (with_task t c) = map_option (with_task t) (take_sample perf c)"
  by (cases perf) (auto simp: take_sample_def estimate_with_task map_option_bind bind_map_option intro!: Option.bind_cong)

lemma samples_with_task: "map_option (with_task x) (samples ps (with_task t c)) = map_option (with_task x) (samples ps c)"
proof (induction ps arbitrary: c)
  case (Cons p ps)
  then show ?case by (cases "take_sample (Some p) c") (simp_all add: take_sample_with_task)
qed simp

text \<open>One call, once the clock of the task runs from \<open>t0\<close>.\<close>

lemma congestionCtrl_started:
  assumes "started (ms 300) 1 t0 k (srt_congestion_ctrl_task c)" and "0 \<le> k"
    and "\<not> (checkCountDone (srt_congestion_ctrl_task c) \<and> checkTimeDone (srt_congestion_ctrl_task c))"
  shows "\<exists>t' k'. congestionCtrl now1 now2 perf c =
      map_option (with_task t') (if ms 300 \<le> now2 - t0 then take_sample perf c else Some c)
    \<and> started (ms 300) 1 t0 k' t' \<and> 0 \<le> k' \<and> \<not> (checkCountDone t' \<and> checkTimeDone t')"
proof -
  let ?yet = "\<lambda>c. Option.bind c (take_sample perf)"
  have fire: "1 \<le> k + 1 \<and> ms 300 \<le> now2 - t0 \<longleftrightarrow> ms 300 \<le> now2 - t0" using assms(2) by simp
  obtain t where t: "doByTimeAndCount now1 now2 ?yet (srt_congestion_ctrl_task c) (Some c) =
        (ms 300 \<le> now2 - t0, t, if ms 300 \<le> now2 - t0 then take_sample perf c else Some c)"
      "started (ms 300) 1 t0 (k + 1) t" "checkCountDone t \<and> checkTimeDone t \<longleftrightarrow> ms 300 \<le> now2 - t0"
    using doByTimeAndCount_timed [OF assms(1,3), of now1 now2 ?yet "Some c", unfolded fire bind.bind_lunit] by (elim exE conjE) (rule that)
  have p: "0 < ms 300" by simp
  show ?thesis
  proof (cases "ms 300 \<le> now2 - t0")
    case True
    then show ?thesis using t started_reset [OF t(2) p]
      by (intro exI [of _ "reset t"] exI [of _ 0])
        (simp add: congestionCtrl_def map_conv_bind_option comp_def)
  next
    case False
    then show ?thesis using t assms(2) by (intro exI [of _ t] exI [of _ "k + 1"]) (simp add: congestionCtrl_def)
  qed
qed

lemma congestion_calls_started:
  assumes "started (ms 300) 1 t0 k (srt_congestion_ctrl_task c)" and "0 \<le> k"
    and "\<not> (checkCountDone (srt_congestion_ctrl_task c) \<and> checkTimeDone (srt_congestion_ctrl_task c))"
  shows "map_option (with_task x) (congestion_calls cs c) =
    map_option (with_task x) (samples (List.map_filter (\<lambda>(_, now, perf). if ms 300 \<le> now - t0 then perf else None) cs) c)"
  using assms
proof (induction cs arbitrary: c k)
  case (Cons a cs)
  let ?f = "List.map_filter (\<lambda>(_, now, perf). if ms 300 \<le> now - t0 then perf else None)"
  obtain now1 now2 perf where a: "a = (now1, now2, perf)" by (cases a)
  obtain t' k' where call: "congestionCtrl now1 now2 perf c =
        map_option (with_task t') (if ms 300 \<le> now2 - t0 then take_sample perf c else Some c)"
      "started (ms 300) 1 t0 k' t'" "0 \<le> k'" "\<not> (checkCountDone t' \<and> checkTimeDone t')"
    using congestionCtrl_started [OF Cons.prems] by blast
  have rest: "map_option (with_task x) (congestion_calls cs (with_task t' d)) = map_option (with_task x) (samples (?f cs) d)" for d
    using Cons.IH [of k' "with_task t' d"] call(2-4) by (simp add: samples_with_task)
  show ?case
  proof (cases "ms 300 \<le> now2 - t0 \<and> perf \<noteq> None")
    case True
    then obtain p where p: "perf = Some p" by auto
    show ?thesis using True call(1) rest
      by (cases "take_sample perf c") (simp_all add: a p List.map_filter_simps)
  next
    case False
    then show ?thesis using call(1) rest
      by (auto simp: a List.map_filter_simps take_sample_def)
  qed
qed simp

text \<open>
  C39: the estimator is meant to sample once in 300 ms.  Its task is reset after each round, but the reset leaves the clock
  of the first round running.  So for any run of calls on a new object, the samples it takes are the statistics
  of exactly the calls whose clock reading is 300 ms or more after the first call (those for which SRT gave any): none
  before, and from then on every single call, however close together.
\<close>

theorem estimator_not_throttled:
  "map_option (\<lambda>c. c\<lparr>srt_congestion_ctrl_task := t\<rparr>) (congestion_calls ((t0, u0, perf0) # calls) SrtCongestionCtrl_new) =
   map_option (\<lambda>c. c\<lparr>srt_congestion_ctrl_task := t\<rparr>)
     (samples (List.map_filter (\<lambda>(_, now, perf). if now - t0 \<ge> ms 300 then perf else None) ((t0, u0, perf0) # calls)) SrtCongestionCtrl_new)"
proof -
  let ?task = "(RunTask_time (ms 300) 1)\<lparr>start_run_time_point := Some t0\<rparr>"
  let ?c = "with_task ?task SrtCongestionCtrl_new"
  have task: "srt_congestion_ctrl_task SrtCongestionCtrl_new = RunTask_time (ms 300) 1" by (simp add: SrtCongestionCtrl_new_def)
  have nd: "\<not> (checkCountDone (RunTask_time (ms 300) 1) \<and> checkTimeDone (RunTask_time (ms 300) 1))"
    and nd': "\<not> (checkCountDone ?task \<and> checkTimeDone ?task)" and st: "started (ms 300) 1 t0 0 ?task"
    by (simp_all add: run_task_defs started_def)
  have "run_max_time (RunTask_time (ms 300) 1) = Some (ms 300)" "start_run_time_point (RunTask_time (ms 300) 1) = None"
    by (simp_all add: RunTask_time_def)
  note start = doByTimeAndCount_start [OF this nd]
  have first: "congestionCtrl t0 u0 perf0 SrtCongestionCtrl_new = congestionCtrl t0 u0 perf0 ?c"
    unfolding congestionCtrl_def task start
    by (cases "take_sample perf0 SrtCongestionCtrl_new") (simp_all add: doByTimeAndCount_def take_sample_with_task Let_def)
  have "started (ms 300) 1 t0 0 (srt_congestion_ctrl_task ?c)"
    "\<not> (checkCountDone (srt_congestion_ctrl_task ?c) \<and> checkTimeDone (srt_congestion_ctrl_task ?c))" using st nd' by simp_all
  note run = congestion_calls_started [OF this(1) order.refl this(2), of t "(t0, u0, perf0) # calls", unfolded samples_with_task]
  have "congestion_calls ((t0, u0, perf0) # calls) SrtCongestionCtrl_new = congestion_calls ((t0, u0, perf0) # calls) ?c"
    by (simp only: congestion_calls.simps first)
  then show ?thesis by (simp only: run)
qed

end
