(* ===== verification/KeyWrap.thy ===== *)
theory KeyWrap
  imports Prelude
begin

text \<open>
  AES key wrap, \<open>crypto/modes/wrap128.c\<close> of OpenSSL (RFC 3394 and RFC 5649) for any 128-bit block
  cipher, with the loops as the code has them.  A buffer and its length are one byte list;
  \<open>block\<close> is the block function with its key.  The functions return the value the C
  function returns and what it leaves in \<open>out\<close>; \<open>None\<close> for the buffer means that it was
  not written.
\<close>

definition default_iv :: bytes where
  "default_iv = [0xA6, 0xA6, 0xA6, 0xA6, 0xA6, 0xA6, 0xA6, 0xA6]"

definition default_aiv :: bytes where
  "default_aiv = [0xA6, 0x59, 0x59, 0xA6]"

abbreviation (input) CRYPTO128_WRAP_MAX :: nat where "CRYPTO128_WRAP_MAX \<equiv> 2 ^ 31"

section \<open>The two loops\<close>

text \<open>\<open>A[7] ^= t & 0xff\<close> and, for large \<open>t\<close>, the next three bytes.\<close>

definition xor_t :: "'w::len word \<Rightarrow> bytes \<Rightarrow> bytes" where
  "xor_t t A = (let A = A[7 := A ! 7 XOR ucast (t AND 0xff)] in
     if t > 0xff then
       A[6 := A ! 6 XOR ucast (drop_bit 8 t AND 0xff),
         5 := A ! 5 XOR ucast (drop_bit 16 t AND 0xff),
         4 := A ! 4 XOR ucast (drop_bit 24 t AND 0xff)]
     else A)"

definition wrap_step :: "(bytes \<Rightarrow> bytes) \<Rightarrow> nat \<Rightarrow> 'w::len word \<Rightarrow> bytes \<times> bytes \<Rightarrow> bytes \<times> bytes" where
  "wrap_step block i t = (\<lambda>(A, R).
     let B = block (A @ take 8 (drop i R))
     in (xor_t t (take 8 B), take i R @ drop 8 B @ drop (i + 8) R))"

definition unwrap_step :: "(bytes \<Rightarrow> bytes) \<Rightarrow> nat \<Rightarrow> 'w::len word \<Rightarrow> bytes \<times> bytes \<Rightarrow> bytes \<times> bytes" where
  "unwrap_step block i t = (\<lambda>(A, R).
     let B = block (xor_t t A @ take 8 (drop i R))
     in (take 8 B, take i R @ drop 8 B @ drop (i + 8) R))"

text \<open>\<open>for (i = 0; i < inlen; i += 8, t++, R += 8)\<close>\<close>

function wrap_inner :: "(bytes \<Rightarrow> bytes) \<Rightarrow> nat \<Rightarrow> nat \<Rightarrow> 'w::len word \<Rightarrow> bytes \<times> bytes
    \<Rightarrow> 'w word \<times> bytes \<times> bytes" where
  "wrap_inner block inlen i t s =
    (if i < inlen then wrap_inner block inlen (i + 8) (t + 1) (wrap_step block i t s)
     else (t, s))"
  by pat_completeness auto
termination
  by (relation "measure (\<lambda>(block, inlen, i, t, s). inlen - i)") auto

text \<open>\<open>for (i = 0; i < inlen; i += 8, t--, R -= 8)\<close>, with \<open>R\<close> starting at \<open>out + inlen - 8\<close>\<close>

function unwrap_inner :: "(bytes \<Rightarrow> bytes) \<Rightarrow> nat \<Rightarrow> nat \<Rightarrow> 'w::len word \<Rightarrow> bytes \<times> bytes
    \<Rightarrow> 'w word \<times> bytes \<times> bytes" where
  "unwrap_inner block inlen i t s =
    (if i < inlen then unwrap_inner block inlen (i + 8) (t - 1) (unwrap_step block (inlen - 8 - i) t s)
     else (t, s))"
  by pat_completeness auto
termination
  by (relation "measure (\<lambda>(block, inlen, i, t, s). inlen - i)") auto

declare wrap_inner.simps [simp del] unwrap_inner.simps [simp del]

text \<open>\<open>for (j = 0; j < 6; j++)\<close>\<close>

fun wrap_outer :: "(bytes \<Rightarrow> bytes) \<Rightarrow> nat \<Rightarrow> nat \<Rightarrow> 'w::len word \<Rightarrow> bytes \<times> bytes \<Rightarrow> bytes \<times> bytes" where
  "wrap_outer block inlen 0 t s = s"
| "wrap_outer block inlen (Suc j) t s =
    (let (t', s') = wrap_inner block inlen 0 t s in wrap_outer block inlen j t' s')"

fun unwrap_outer :: "(bytes \<Rightarrow> bytes) \<Rightarrow> nat \<Rightarrow> nat \<Rightarrow> 'w::len word \<Rightarrow> bytes \<times> bytes \<Rightarrow> bytes \<times> bytes" where
  "unwrap_outer block inlen 0 t s = s"
| "unwrap_outer block inlen (Suc j) t s =
    (let (t', s') = unwrap_inner block inlen 0 t s in unwrap_outer block inlen j t' s')"

section \<open>The functions of wrap128.c\<close>

definition CRYPTO_128_wrap :: "(bytes \<Rightarrow> bytes) \<Rightarrow> bytes option \<Rightarrow> bytes \<Rightarrow> nat \<times> bytes option" where
  "CRYPTO_128_wrap block iv inp =
    (let inlen = length inp in
     if inlen mod 8 \<noteq> 0 \<or> inlen < 16 \<or> inlen > CRYPTO128_WRAP_MAX then (0, None)
     else let A = (case iv of None \<Rightarrow> default_iv | Some v \<Rightarrow> v);
              (A', R) = wrap_outer block inlen 6 (1 :: u64) (A, inp)
          in (inlen + 8, Some (A' @ R)))"

definition crypto_128_unwrap_raw :: "(bytes \<Rightarrow> bytes) \<Rightarrow> bytes \<Rightarrow> nat \<times> (bytes \<times> bytes) option" where
  "crypto_128_unwrap_raw block inp =
    (let inlen = size_sub (length inp) 8 in
     if inlen mod 8 \<noteq> 0 \<or> inlen < 16 \<or> inlen > CRYPTO128_WRAP_MAX then (0, None)
     else let t = 6 * (inlen div 8);
              (A, R) = unwrap_outer block inlen 6 (word_of_nat t :: u64) (take 8 inp, drop 8 inp)
          in (inlen, Some (A, R)))"

definition CRYPTO_128_unwrap :: "(bytes \<Rightarrow> bytes) \<Rightarrow> bytes option \<Rightarrow> bytes \<Rightarrow> nat \<times> bytes option" where
  "CRYPTO_128_unwrap block iv inp =
    (case crypto_128_unwrap_raw block inp of
       (ret, None) \<Rightarrow> (0, None)
     | (ret, Some (got_iv, out)) \<Rightarrow>
         if ret = 0 then (0, Some out)
         else if got_iv \<noteq> (case iv of None \<Rightarrow> default_iv | Some v \<Rightarrow> v)
              then (0, Some (replicate ret 0))
              else (ret, Some out))"

text \<open>RFC 5649: the length of the plain text is kept in the last four bytes of the IV.\<close>

definition aiv_of :: "bytes option \<Rightarrow> nat \<Rightarrow> bytes" where
  "aiv_of icv inlen = (case icv of None \<Rightarrow> default_aiv | Some v \<Rightarrow> v) @
     [word_of_nat (inlen div 2 ^ 24 mod 256), word_of_nat (inlen div 2 ^ 16 mod 256),
      word_of_nat (inlen div 2 ^ 8 mod 256), word_of_nat (inlen mod 256)]"

text \<open>\<open>int ret\<close>, which holds a \<open>size_t\<close> on its way through the function.\<close>

definition through_int :: "nat \<Rightarrow> nat" where
  "through_int n = nat (as_int n mod 2 ^ 64)"

lemma through_int_small: "n < 2147483648 \<Longrightarrow> through_int n = n"
  by (simp add: through_int_def)

definition CRYPTO_128_wrap_pad :: "(bytes \<Rightarrow> bytes) \<Rightarrow> bytes option \<Rightarrow> bytes \<Rightarrow> nat \<times> bytes option" where
  "CRYPTO_128_wrap_pad block icv inp =
    (let inlen = length inp;
         blocks_padded = (inlen + 7) div 8;
         padded_len = blocks_padded * 8;
         padding_len = padded_len - inlen in
     if inlen = 0 \<or> inlen \<ge> CRYPTO128_WRAP_MAX then (0, None)
     else let aiv = aiv_of icv inlen in
       if padded_len = 8 then (16, Some (block (aiv @ inp @ replicate padding_len 0)))
       else let (ret, out) = CRYPTO_128_wrap block (Some aiv) (inp @ replicate padding_len 0) in (through_int ret, out))"

definition ptext_len_of :: "bytes \<Rightarrow> nat" where
  "ptext_len_of aiv = unat (aiv ! 4) * 2 ^ 24 + unat (aiv ! 5) * 2 ^ 16
     + unat (aiv ! 6) * 2 ^ 8 + unat (aiv ! 7)"

definition CRYPTO_128_unwrap_pad :: "(bytes \<Rightarrow> bytes) \<Rightarrow> bytes option \<Rightarrow> bytes \<Rightarrow> nat \<times> bytes option" where
  "CRYPTO_128_unwrap_pad block icv inp =
    (let inlen = length inp; n = inlen div 8 - 1 in
     if inlen mod 8 \<noteq> 0 \<or> inlen < 16 \<or> inlen \<ge> CRYPTO128_WRAP_MAX then (0, None)
     else
       let first = (if inlen = 16 then (let buff = block inp in Some (8, take 8 buff, drop 8 buff))
                    else (case crypto_128_unwrap_raw block inp of
                            (ret, Some (aiv, out)) \<Rightarrow>
                              if inlen - 8 \<noteq> ret then None else Some (inlen - 8, aiv, out)
                          | (_, None) \<Rightarrow> None)) in
       case first of
         None \<Rightarrow> (0, Some (replicate inlen 0))
       | Some (padded_len, aiv, out) \<Rightarrow>
           if take 4 aiv \<noteq> (case icv of None \<Rightarrow> default_aiv | Some v \<Rightarrow> v)
           then (0, Some (replicate inlen 0))
           else let ptext_len = ptext_len_of aiv in
             if 8 * (n - 1) \<ge> ptext_len \<or> ptext_len > 8 * n
             then (0, Some (replicate inlen 0))
             else let padding_len = padded_len - ptext_len in
               if take padding_len (drop ptext_len out) \<noteq> replicate padding_len 0
               then (0, Some (replicate inlen 0))
               else (ptext_len, Some out))"

text \<open>The interface of a 128-bit block cipher under one key.\<close>

locale block_cipher =
  fixes enc dec :: "bytes \<Rightarrow> bytes"
  assumes length_enc: "length B = 16 \<Longrightarrow> length (enc B) = 16"
    and length_dec: "length B = 16 \<Longrightarrow> length (dec B) = 16"
    and dec_enc: "length B = 16 \<Longrightarrow> dec (enc B) = B"
    and enc_dec: "length B = 16 \<Longrightarrow> enc (dec B) = B"

section \<open>The loops as folds over the schedule of blocks and counters\<close>

lemma wrap_inner_fold:
  "k \<le> n \<Longrightarrow> wrap_inner block (8 * n) (8 * k) t s =
     (t + word_of_nat (n - k),
      fold (\<lambda>j. wrap_step block (8 * j) (t + word_of_nat (j - k))) [k..<n] s)"
proof (induction "n - k" arbitrary: k t s)
  case 0
  then show ?case by (simp add: wrap_inner.simps)
next
  case (Suc d)
  have lt: "k < n" using Suc.hyps(2) by simp
  have ih: "wrap_inner block (8 * n) (8 * Suc k) (t + 1) s' =
     (t + 1 + word_of_nat (n - Suc k),
      fold (\<lambda>j. wrap_step block (8 * j) (t + 1 + word_of_nat (j - Suc k))) [Suc k..<n] s')" for s'
    using Suc.hyps(2) lt by (intro Suc.hyps(1)) simp_all
  have t: "t + 1 + word_of_nat (j - Suc k) = t + word_of_nat (j - k)" if "k < j" for j
  proof -
    have "j - k = Suc (j - Suc k)" using that by simp
    then show ?thesis by simp
  qed
  have f: "fold (\<lambda>j. wrap_step block (8 * j) (t + 1 + word_of_nat (j - Suc k))) [Suc k..<n] s'
      = fold (\<lambda>j. wrap_step block (8 * j) (t + word_of_nat (j - k))) [Suc k..<n] s'" for s'
    by (rule fold_cong) (auto simp: t)
  have "8 * k + 8 = 8 * Suc k" by simp
  with ih lt show ?case
    by (subst wrap_inner.simps) (simp add: f t upt_conv_Cons del: mult_Suc_right)
qed

lemma unwrap_inner_fold:
  "k \<le> n \<Longrightarrow> unwrap_inner block (8 * n) (8 * k) t s =
     (t - word_of_nat (n - k),
      fold (\<lambda>j. unwrap_step block (8 * j) (t + 1 + word_of_nat j - word_of_nat (n - k))) (rev [0..<n - k]) s)"
proof (induction "n - k" arbitrary: k t s)
  case 0
  then show ?case by (simp add: unwrap_inner.simps)
next
  case (Suc d)
  have lt: "k < n" using Suc.hyps(2) by simp
  have d: "n - k = Suc (n - Suc k)" using lt by simp
  have i: "8 * n - 8 - 8 * k = 8 * (n - Suc k)" by simp
  have ih: "unwrap_inner block (8 * n) (8 * Suc k) (t - 1) s' =
     (t - 1 - word_of_nat (n - Suc k),
      fold (\<lambda>j. unwrap_step block (8 * j) (t - 1 + 1 + word_of_nat j - word_of_nat (n - Suc k)))
        (rev [0..<n - Suc k]) s')" for s'
    using Suc.hyps(2) lt by (intro Suc.hyps(1)) simp_all
  have "8 * k + 8 = 8 * Suc k" by simp
  with ih lt show ?case
    by (subst unwrap_inner.simps) (simp add: d i algebra_simps del: mult_Suc_right)
qed

definition wrap_pass :: "(bytes \<Rightarrow> bytes) \<Rightarrow> nat \<Rightarrow> 'w::len word \<Rightarrow> bytes \<times> bytes \<Rightarrow> bytes \<times> bytes" where
  "wrap_pass block n t = fold (\<lambda>j. wrap_step block (8 * j) (t + word_of_nat j)) [0..<n]"

definition unwrap_pass :: "(bytes \<Rightarrow> bytes) \<Rightarrow> nat \<Rightarrow> 'w::len word \<Rightarrow> bytes \<times> bytes \<Rightarrow> bytes \<times> bytes" where
  "unwrap_pass block n t = fold (\<lambda>j. unwrap_step block (8 * j) (t + word_of_nat j)) (rev [0..<n])"

lemma wrap_inner_pass:
  "wrap_inner block (8 * n) 0 t s = (t + word_of_nat n, wrap_pass block n t s)"
  using wrap_inner_fold [of 0 n block t s] by (simp add: wrap_pass_def)

lemma unwrap_inner_pass:
  "unwrap_inner block (8 * n) 0 (t + word_of_nat n - 1) s = (t - 1, unwrap_pass block n t s)"
  using unwrap_inner_fold [of 0 n block "t + word_of_nat n - 1" s]
  by (simp add: unwrap_pass_def algebra_simps)

lemma wrap_outer_snoc:
  "wrap_outer block (8 * n) (Suc j) t s =
     wrap_pass block n (t + word_of_nat (j * n)) (wrap_outer block (8 * n) j t s)"
proof (induction j arbitrary: t s)
  case 0
  show ?case by (simp add: wrap_inner_pass)
next
  case (Suc j)
  have "wrap_outer block (8 * n) (Suc (Suc j)) t s
      = wrap_outer block (8 * n) (Suc j) (t + word_of_nat n) (wrap_pass block n t s)"
    by (simp add: wrap_inner_pass)
  also have "\<dots> = wrap_pass block n (t + word_of_nat n + word_of_nat (j * n))
      (wrap_outer block (8 * n) j (t + word_of_nat n) (wrap_pass block n t s))"
    by (rule Suc.IH)
  also have "wrap_outer block (8 * n) j (t + word_of_nat n) (wrap_pass block n t s)
      = wrap_outer block (8 * n) (Suc j) t s"
    by (simp add: wrap_inner_pass)
  finally show ?case by (simp add: add.assoc)
qed

lemma unwrap_outer_Suc:
  "unwrap_outer block (8 * n) (Suc j) (t + word_of_nat (Suc j * n) - 1) s =
     unwrap_outer block (8 * n) j (t + word_of_nat (j * n) - 1)
       (unwrap_pass block n (t + word_of_nat (j * n)) s)"
proof -
  have "t + word_of_nat (Suc j * n) - 1 = (t + word_of_nat (j * n)) + word_of_nat n - 1"
    by (simp add: algebra_simps)
  then show ?thesis by (simp only: unwrap_outer.simps unwrap_inner_pass) (simp add: Let_def)
qed

section \<open>Every step is undone by its counterpart\<close>

definition wrap_shape :: "nat \<Rightarrow> bytes \<times> bytes \<Rightarrow> bool" where
  "wrap_shape n s \<longleftrightarrow> length (fst s) = 8 \<and> length (snd s) = 8 * n"

lemma length_xor_t [simp]: "length (xor_t t A) = length A"
  by (simp add: xor_t_def Let_def)

lemma xor_t_twice [simp]: "length A = 8 \<Longrightarrow> xor_t t (xor_t t A) = A"
  by (auto simp: xor_t_def Let_def list_eq_iff_nth_eq nth_list_update xor.assoc)

lemma fold_inverse:
  assumes "\<And>x s. x \<in> set xs \<Longrightarrow> P s \<Longrightarrow> P (f x s) \<and> g x (f x s) = s" and "P s"
  shows "P (fold f xs s) \<and> fold g (rev xs) (fold f xs s) = s"
  using assms by (induction xs arbitrary: s) auto

lemma fold_inverse_rev:
  assumes "\<And>x s. x \<in> set xs \<Longrightarrow> P s \<Longrightarrow> P (g x s) \<and> f x (g x s) = s" and "P s"
  shows "P (fold g (rev xs) s) \<and> fold f xs (fold g (rev xs) s) = s"
  using fold_inverse [of "rev xs" P g f s] assms by simp

lemma split_block:
  assumes "length R = 8 * n" and "j < n"
  obtains P M Q where "R = P @ M @ Q" and "length P = 8 * j" and "length M = 8"
    and "8 * j + 8 + length Q = 8 * n"
proof
  let ?P = "take (8 * j) R" and ?M = "take 8 (drop (8 * j) R)" and ?Q = "drop (8 * j + 8) R"
  have "drop (8 * j) R = ?M @ ?Q"
    by (metis append_take_drop_id drop_drop add.commute)
  then show "R = ?P @ ?M @ ?Q" by (metis append_take_drop_id)
  show "length ?P = 8 * j" "length ?M = 8" "8 * j + 8 + length ?Q = 8 * n"
    using assms by simp_all
qed

lemma wrap_step_split:
  assumes "length P = 8 * j" and "length M = 8"
  shows "wrap_step block (8 * j) t (A, P @ M @ Q) =
      (xor_t t (take 8 (block (A @ M))), P @ drop 8 (block (A @ M)) @ Q)"
    and "unwrap_step block (8 * j) t (A, P @ M @ Q) =
      (take 8 (block (xor_t t A @ M)), P @ drop 8 (block (xor_t t A @ M)) @ Q)"
  using assms by (simp_all add: wrap_step_def unwrap_step_def Let_def)

lemma wrap_iv:
  "CRYPTO_128_wrap block iv inp =
     CRYPTO_128_wrap block (Some (case iv of None \<Rightarrow> default_iv | Some v \<Rightarrow> v)) inp"
  by (cases iv) (simp_all add: CRYPTO_128_wrap_def Let_def)

context block_cipher
begin

lemma unwrap_step_wrap_step:
  assumes "j < n" and "wrap_shape n s"
  shows "wrap_shape n (wrap_step enc (8 * j) t s)
    \<and> unwrap_step dec (8 * j) t (wrap_step enc (8 * j) t s) = s"
proof (cases s)
  case (Pair A R)
  then have A: "length A = 8" and R: "length R = 8 * n" using assms by (simp_all add: wrap_shape_def)
  obtain P M Q where R_eq: "R = P @ M @ Q" and P: "length P = 8 * j" and M: "length M = 8"
      and Q: "8 * j + 8 + length Q = 8 * n"
    using split_block [OF R assms(1)] by metis
  have B: "length (enc (A @ M)) = 16" using A M by (intro length_enc) simp
  show ?thesis unfolding Pair R_eq wrap_step_split(1) [OF P M]
    using A M P Q B by (simp add: wrap_step_split(2) [OF P] wrap_shape_def dec_enc)
qed

lemma wrap_step_unwrap_step:
  assumes "j < n" and "wrap_shape n s"
  shows "wrap_shape n (unwrap_step dec (8 * j) t s)
    \<and> wrap_step enc (8 * j) t (unwrap_step dec (8 * j) t s) = s"
proof (cases s)
  case (Pair A R)
  then have A: "length A = 8" and R: "length R = 8 * n" using assms by (simp_all add: wrap_shape_def)
  obtain P M Q where R_eq: "R = P @ M @ Q" and P: "length P = 8 * j" and M: "length M = 8"
      and Q: "8 * j + 8 + length Q = 8 * n"
    using split_block [OF R assms(1)] by metis
  have B: "length (dec (xor_t t A @ M)) = 16" using A M by (intro length_dec) simp
  show ?thesis unfolding Pair R_eq wrap_step_split(2) [OF P M]
    using A M P Q B by (simp add: wrap_step_split(1) [OF P] wrap_shape_def enc_dec)
qed

lemma unwrap_pass_wrap_pass:
  assumes "wrap_shape n s"
  shows "wrap_shape n (wrap_pass enc n t s) \<and> unwrap_pass dec n t (wrap_pass enc n t s) = s"
  unfolding wrap_pass_def unwrap_pass_def
  using assms by (intro fold_inverse unwrap_step_wrap_step) auto

lemma wrap_pass_unwrap_pass:
  assumes "wrap_shape n s"
  shows "wrap_shape n (unwrap_pass dec n t s) \<and> wrap_pass enc n t (unwrap_pass dec n t s) = s"
  unfolding wrap_pass_def unwrap_pass_def
  using assms by (intro fold_inverse_rev wrap_step_unwrap_step) auto

lemma unwrap_outer_wrap_outer:
  assumes "wrap_shape n s"
  shows "wrap_shape n (wrap_outer enc (8 * n) j t s) \<and>
    unwrap_outer dec (8 * n) j (t + word_of_nat (j * n) - 1) (wrap_outer enc (8 * n) j t s) = s"
proof (induction j)
  case 0
  then show ?case using assms by simp
next
  case (Suc j)
  then show ?case
    unfolding wrap_outer_snoc unwrap_outer_Suc
    using unwrap_pass_wrap_pass [of n "wrap_outer enc (8 * n) j t s" "t + word_of_nat (j * n)"]
    by simp
qed

lemma wrap_outer_unwrap_outer:
  assumes "wrap_shape n s"
  shows "wrap_shape n (unwrap_outer dec (8 * n) j (t + word_of_nat (j * n) - 1) s) \<and>
    wrap_outer enc (8 * n) j t (unwrap_outer dec (8 * n) j (t + word_of_nat (j * n) - 1) s) = s"
  using assms
proof (induction j arbitrary: s)
  case 0
  then show ?case by simp
next
  case (Suc j)
  let ?u = "t + word_of_nat (j * n)"
  have "wrap_shape n (unwrap_pass dec n ?u s)" and "wrap_pass enc n ?u (unwrap_pass dec n ?u s) = s"
    using wrap_pass_unwrap_pass [OF Suc.prems] by auto
  with Suc.IH [of "unwrap_pass dec n ?u s"] show ?case
    unfolding wrap_outer_snoc unwrap_outer_Suc by simp
qed

lemma unwrap_raw_wrap:
  assumes "length inp = 8 * n" and "2 \<le> n" and "8 * n \<le> CRYPTO128_WRAP_MAX" and "length v = 8"
  shows "\<exists>out. CRYPTO_128_wrap enc (Some v) inp = (8 * n + 8, Some out) \<and> length out = 8 * n + 8
    \<and> crypto_128_unwrap_raw dec out = (8 * n, Some (v, inp))"
proof -
  obtain A R where w: "wrap_outer enc (8 * n) 6 (1 :: u64) (v, inp) = (A, R)"
    by (meson surj_pair)
  have "wrap_shape n (v, inp)" using assms by (simp add: wrap_shape_def)
  from unwrap_outer_wrap_outer [OF this, of 6 "1 :: u64"]
  have A: "length A = 8" and R: "length R = 8 * n"
    and u: "unwrap_outer dec (8 * n) 6 (word_of_nat (6 * n) :: u64) (A, R) = (v, inp)"
    using w by (simp_all add: wrap_shape_def)
  have "8 * n + 8 < 2 ^ 64" using assms(3) by simp
  then have len: "size_sub (8 * n + 8) 8 = 8 * n" by simp
  have t: "6 * (8 * n div 8) = 6 * n" by simp
  have "CRYPTO_128_wrap enc (Some v) inp = (8 * n + 8, Some (A @ R))"
    using assms by (simp add: CRYPTO_128_wrap_def w)
  moreover have "crypto_128_unwrap_raw dec (A @ R) = (8 * n, Some (v, inp))"
    using assms A R u by (simp add: crypto_128_unwrap_raw_def Let_def len)
  ultimately show ?thesis using A R by (intro exI [of _ "A @ R"]) (simp add: add.commute)
qed

lemma wrap_unwrap_raw:
  assumes "crypto_128_unwrap_raw dec inp = (r, Some (A, R))" and "length inp < 2 ^ 64"
  shows "length A = 8 \<and> length R = r \<and> length inp = r + 8
    \<and> CRYPTO_128_wrap enc (Some A) R = (r + 8, Some inp)"
proof -
  have bounds: "size_sub (length inp) 8 mod 8 = 0" "16 \<le> size_sub (length inp) 8"
      "size_sub (length inp) 8 \<le> CRYPTO128_WRAP_MAX" and r: "r = size_sub (length inp) 8"
    using assms(1) by (auto simp: crypto_128_unwrap_raw_def Let_def split: if_splits prod.splits)
  have l8: "8 \<le> length inp"
  proof (rule ccontr)
    assume "\<not> 8 \<le> length inp"
    then have "size_sub (length inp) 8 = length inp + 2 ^ 64 - 8" by (intro size_sub_wraps) simp_all
    then show False using bounds(3) by simp
  qed
  then have r': "r = length inp - 8" using r assms(2) by simp
  obtain n where n: "r = 8 * n" using bounds(1) r by auto
  have len: "size_sub (length inp) 8 = 8 * n" using r n by simp
  have u: "unwrap_outer dec (8 * n) 6 (word_of_nat (6 * n) :: u64) (take 8 inp, drop 8 inp) = (A, R)"
    using assms(1) bounds unfolding crypto_128_unwrap_raw_def Let_def len by (auto split: prod.splits)
  have shape: "wrap_shape n (take 8 inp, drop 8 inp)"
    using l8 r' n by (simp add: wrap_shape_def)
  from wrap_outer_unwrap_outer [OF this, of 6 "1 :: u64"]
  have "wrap_shape n (A, R)" and w: "wrap_outer enc (8 * n) 6 (1 :: u64) (A, R) = (take 8 inp, drop 8 inp)"
    using u by simp_all
  then have "length A = 8" and R: "length R = 8 * n" by (simp_all add: wrap_shape_def)
  moreover have "2 \<le> n" "8 * n \<le> CRYPTO128_WRAP_MAX" using bounds unfolding len by simp_all
  ultimately have "CRYPTO_128_wrap enc (Some A) R = (8 * n + 8, Some inp)"
    using w by (simp add: CRYPTO_128_wrap_def)
  moreover have "length inp = r + 8" using r' l8 by simp
  ultimately show ?thesis using \<open>length A = 8\<close> R n by simp
qed

text \<open>The two directions for the functions of the library.\<close>

lemma unwrap_wrap:
  assumes "length inp mod 8 = 0" and "16 \<le> length inp" and "length inp \<le> CRYPTO128_WRAP_MAX"
    and "case iv of None \<Rightarrow> True | Some v \<Rightarrow> length v = 8"
  shows "\<exists>out. CRYPTO_128_wrap enc iv inp = (length inp + 8, Some out) \<and> length out = length inp + 8
    \<and> CRYPTO_128_unwrap dec iv out = (length inp, Some inp)"
proof -
  define v where "v = (case iv of None \<Rightarrow> default_iv | Some v \<Rightarrow> v)"
  obtain n where n: "length inp = 8 * n" using assms(1) by auto
  have "length v = 8" using assms(4) by (simp add: v_def default_iv_def split: option.splits)
  moreover have "2 \<le> n" "8 * n \<le> CRYPTO128_WRAP_MAX" using assms n by simp_all
  ultimately obtain out where out: "CRYPTO_128_wrap enc (Some v) inp = (8 * n + 8, Some out)"
      "length out = 8 * n + 8" and u: "crypto_128_unwrap_raw dec out = (8 * n, Some (v, inp))"
    using unwrap_raw_wrap [OF n] by blast
  have "CRYPTO_128_wrap enc iv inp = CRYPTO_128_wrap enc (Some v) inp"
    unfolding v_def by (rule wrap_iv)
  moreover have "CRYPTO_128_unwrap dec iv out = (8 * n, Some inp)"
    using u \<open>2 \<le> n\<close> by (simp add: CRYPTO_128_unwrap_def v_def)
  ultimately show ?thesis using out n by auto
qed

lemma unwrap_only_wrapped:
  assumes "CRYPTO_128_unwrap dec iv inp = (r, Some out)" and "r \<noteq> 0" and "length inp < 2 ^ 64"
  shows "length out = r \<and> CRYPTO_128_wrap enc iv out = (length inp, Some inp)"
proof -
  obtain A where raw: "crypto_128_unwrap_raw dec inp = (r, Some (A, out))"
    and A: "A = (case iv of None \<Rightarrow> default_iv | Some v \<Rightarrow> v)"
    using assms(1,2) unfolding CRYPTO_128_unwrap_def
    by (auto split: prod.splits option.splits if_splits)
  have "length out = r" and w: "CRYPTO_128_wrap enc (Some A) out = (r + 8, Some inp)"
    and "length inp = r + 8"
    using wrap_unwrap_raw [OF raw assms(3)] by simp_all
  then show ?thesis unfolding wrap_iv [of enc iv] A [symmetric] by simp
qed

end

section \<open>The padded variant\<close>

lemma digits_256:
  fixes x :: nat
  assumes "x < 2 ^ 32"
  shows "x div 2 ^ 24 mod 256 * 2 ^ 24 + x div 2 ^ 16 mod 256 * 2 ^ 16 + x div 2 ^ 8 mod 256 * 2 ^ 8
    + x mod 256 = x"
proof -
  have d: "x div 2 ^ 8 = x div 256" "x div 2 ^ 16 = x div 256 div 256" "x div 2 ^ 24 = x div 256 div 256 div 256"
    by (simp_all add: div_mult2_eq [symmetric])
  have "x div 256 div 256 div 256 < 256" using assms by (simp add: div_mult2_eq [symmetric] less_mult_imp_div_less)
  then have top: "x div 256 div 256 div 256 mod 256 = x div 256 div 256 div 256" by simp
  have eq: "q3 * 2 ^ 24 + r2 * 2 ^ 16 + r1 * 2 ^ 8 + r0 = y"
    if "q1 * 256 + r0 = y" "q2 * 256 + r1 = q1" "q3 * 256 + r2 = q2" for y q1 q2 q3 r0 r1 r2 :: nat
    using that by simp
  show ?thesis unfolding d top by (rule eq [OF div_mult_mod_eq div_mult_mod_eq div_mult_mod_eq])
qed

lemma ptext_len_of_append:
  "length p = 4 \<Longrightarrow> ptext_len_of (p @ [a, b, c, d]) =
     unat a * 2 ^ 24 + unat b * 2 ^ 16 + unat c * 2 ^ 8 + unat d"
  by (simp add: ptext_len_of_def nth_append)

lemma unat_word_of_nat_mod_256 [simp]: "unat (word_of_nat (x mod 256) :: u8) = x mod 256"
  by (simp add: unat_of_nat take_bit_eq_mod)

lemma ptext_len_aiv_of:
  assumes "x < 2 ^ 32" and "case icv of None \<Rightarrow> True | Some v \<Rightarrow> length v = 4"
  shows "ptext_len_of (aiv_of icv x) = x" and "length (aiv_of icv x) = 8"
    and "take 4 (aiv_of icv x) = (case icv of None \<Rightarrow> default_aiv | Some v \<Rightarrow> v)"
proof -
  define p where "p = (case icv of None \<Rightarrow> default_aiv | Some v \<Rightarrow> v)"
  have p: "length p = 4" using assms(2) by (simp add: p_def default_aiv_def split: option.splits)
  have a: "aiv_of icv x = p @ [word_of_nat (x div 2 ^ 24 mod 256), word_of_nat (x div 2 ^ 16 mod 256),
      word_of_nat (x div 2 ^ 8 mod 256), word_of_nat (x mod 256)]"
    by (simp add: aiv_of_def p_def)
  show "length (aiv_of icv x) = 8" "take 4 (aiv_of icv x) = (case icv of None \<Rightarrow> default_aiv | Some v \<Rightarrow> v)"
    unfolding a p_def [symmetric] using p by simp_all
  show "ptext_len_of (aiv_of icv x) = x"
    unfolding a ptext_len_of_append [OF p] unat_word_of_nat_mod_256 by (rule digits_256 [OF assms(1)])
qed

lemma padded_blocks:
  assumes "0 < (m :: nat)" and "n = (m + 7) div 8"
  shows "1 \<le> n" and "8 * (n - 1) < m" and "m \<le> 8 * n"
  using assms by linarith+

context block_cipher
begin

text \<open>What the padded plain text is taken apart into, whichever branch was used to wrap it.\<close>

lemma unwrap_pad_finish:
  assumes "m = length inp" and "0 < m" and "m < 2 ^ 32" and "n = (m + 7) div 8"
    and "case icv of None \<Rightarrow> True | Some v \<Rightarrow> length v = 4"
    and "length out = 8 * n + 8" and "8 * n + 8 < CRYPTO128_WRAP_MAX"
    and "n = 1 \<Longrightarrow> dec out = aiv_of icv m @ inp @ replicate (8 * n - m) 0"
    and "n \<noteq> 1 \<Longrightarrow> crypto_128_unwrap_raw dec out =
      (8 * n, Some (aiv_of icv m, inp @ replicate (8 * n - m) 0))"
  shows "CRYPTO_128_unwrap_pad dec icv out = (m, Some (inp @ replicate (8 * n - m) 0))"
proof -
  note aiv = ptext_len_aiv_of [OF assms(3,5)]
  note n = padded_blocks [OF assms(2,4)]
  have nn: "(8 * n + 8) div 8 - 1 = n" by simp
  let ?first = "if length out = 16 then (let buff = dec out in Some (8, take 8 buff, drop 8 buff))
     else (case crypto_128_unwrap_raw dec out of
             (ret, Some (aiv, o')) \<Rightarrow>
               if length out - 8 \<noteq> ret then None else Some (length out - 8, aiv, o')
           | (_, None) \<Rightarrow> None)"
  have first: "?first = Some (8 * n, aiv_of icv m, inp @ replicate (8 * n - m) 0)"
  proof (cases "n = 1")
    case True
    then show ?thesis using assms(6) assms(8) [OF True] aiv(2) by (simp add: Let_def)
  next
    case False
    then show ?thesis using assms(6) assms(9) [OF False] by simp
  qed
  have g: "\<not> (length out mod 8 \<noteq> 0 \<or> length out < 16 \<or> length out \<ge> CRYPTO128_WRAP_MAX)"
    using assms(6,7) n(1) by simp
  have lt: "\<not> (8 * (n - 1) \<ge> m \<or> m > 8 * n)" using n by linarith
  have pad: "take (8 * n - m) (drop m (inp @ replicate (8 * n - m) 0)) = replicate (8 * n - m) 0"
    using assms(1) by simp
  show ?thesis
    unfolding CRYPTO_128_unwrap_pad_def Let_def [where s = "length out"] if_not_P [OF g]
    unfolding Let_def [where s = "?first"] first
    unfolding assms(6) nn option.case prod.case aiv Let_def if_not_P [OF lt] pad
    by simp
qed

lemma unwrap_pad_wrap_pad:
  assumes "0 < length inp" and "length inp + 15 < CRYPTO128_WRAP_MAX"
    and "case icv of None \<Rightarrow> True | Some v \<Rightarrow> length v = 4"
  shows "\<exists>r out plain. CRYPTO_128_wrap_pad enc icv inp = (r, Some out) \<and> length out = r
    \<and> CRYPTO_128_unwrap_pad dec icv out = (length inp, Some plain) \<and> take (length inp) plain = inp"
proof -
  define m where "m = length inp"
  define n where "n = (m + 7) div 8"
  have m: "0 < m" "m < 2 ^ 32" using assms m_def by simp_all
  note n = padded_blocks [OF m(1) n_def]
  note aiv = ptext_len_aiv_of [OF m(2) assms(3)]
  have pad: "length (inp @ replicate (8 * n - m) 0) = 8 * n" using n(3) m_def by simp
  have small: "8 * n + 8 < CRYPTO128_WRAP_MAX" using n(1,2) assms(2) m_def by simp
  have w: "CRYPTO_128_wrap_pad enc icv inp =
      (if n = 1 then (16, Some (enc (aiv_of icv m @ inp @ replicate (8 * n - m) 0)))
       else (case CRYPTO_128_wrap enc (Some (aiv_of icv m)) (inp @ replicate (8 * n - m) 0) of (ret, out) \<Rightarrow> (through_int ret, out)))"
    using m(1) assms(2) by (simp add: CRYPTO_128_wrap_pad_def Let_def n_def m_def mult.commute)
  obtain out where out: "CRYPTO_128_wrap_pad enc icv inp = (8 * n + 8, Some out)"
    and l: "length out = 8 * n + 8"
    and d: "n = 1 \<Longrightarrow> dec out = aiv_of icv m @ inp @ replicate (8 * n - m) 0"
      "n \<noteq> 1 \<Longrightarrow> crypto_128_unwrap_raw dec out =
        (8 * n, Some (aiv_of icv m, inp @ replicate (8 * n - m) 0))"
  proof (cases "n = 1")
    case True
    have "length (aiv_of icv m @ inp @ replicate (8 * n - m) 0) = 16" using pad aiv(2) True by simp
    with True w that show ?thesis by (simp add: length_enc dec_enc)
  next
    case False
    then have "2 \<le> n" using n(1) by simp
    from unwrap_raw_wrap [OF pad this _ aiv(2)] small False w that show ?thesis by (auto simp: through_int_small)
  qed
  show ?thesis
    using unwrap_pad_finish [OF m_def m n_def assms(3) l small d] out l m_def by auto
qed

end

section \<open>Lengths\<close>

text \<open>With any block function on 16 bytes the loops keep the lengths of both parts.\<close>

lemma wrap_step_shape:
  assumes "\<And>B. length B = 16 \<Longrightarrow> length (block B) = 16" and "wrap_shape n s" and "j < n"
  shows "wrap_shape n (wrap_step block (8 * j) t s)" and "wrap_shape n (unwrap_step block (8 * j) t s)"
proof -
  obtain A R where s: "s = (A, R)" by (cases s)
  then have len: "length A = 8" "length R = 8 * n" using assms(2) by (simp_all add: wrap_shape_def)
  obtain P M Q where R: "R = P @ M @ Q" "length P = 8 * j" "length M = 8" "8 * j + 8 + length Q = 8 * n"
    using split_block [OF len(2) assms(3)] .
  have "length (block (A @ M)) = 16" "length (block (xor_t t A @ M)) = 16" using assms(1) len R by simp_all
  then show "wrap_shape n (wrap_step block (8 * j) t s)" "wrap_shape n (unwrap_step block (8 * j) t s)"
    unfolding s R(1) wrap_step_split [OF R(2,3)] using R by (simp_all add: wrap_shape_def)
qed

lemma fold_keeps:
  assumes "\<And>x s. x \<in> set xs \<Longrightarrow> P s \<Longrightarrow> P (f x s)" and "P s"
  shows "P (fold f xs s)"
  using assms by (induction xs arbitrary: s) auto

lemma wrap_outer_shape:
  assumes "\<And>B. length B = 16 \<Longrightarrow> length (block B) = 16" and "wrap_shape n s"
  shows "wrap_shape n (wrap_outer block (8 * n) j t s)"
proof (induction j)
  case (Suc j)
  show ?case unfolding wrap_outer_snoc wrap_pass_def
    by (rule fold_keeps [where P = "wrap_shape n"]) (simp_all add: Suc wrap_step_shape(1) [of block, OF assms(1)])
qed (use assms in simp)

lemma unwrap_outer_shape:
  assumes "\<And>B. length B = 16 \<Longrightarrow> length (block B) = 16" and "wrap_shape n s"
  shows "wrap_shape n (unwrap_outer block (8 * n) j t s)"
  using assms(2)
proof (induction j arbitrary: t s)
  case (Suc j)
  have "unwrap_outer block (8 * n) (Suc j) t s =
      unwrap_outer block (8 * n) j (t - word_of_nat n) (unwrap_pass block n (t - word_of_nat n + 1) s)"
    using unwrap_inner_pass [of block n "t - word_of_nat n + 1" s] by simp
  moreover have "wrap_shape n (unwrap_pass block n (t - word_of_nat n + 1) s)"
    unfolding unwrap_pass_def
    by (rule fold_keeps [where P = "wrap_shape n"]) (simp_all add: Suc.prems wrap_step_shape(2) [of block, OF assms(1)])
  ultimately show ?case using Suc.IH by simp
qed simp

text \<open>The loops apply the block function to blocks of 16 bytes only.\<close>

lemma fold_agree:
  assumes "\<And>x s. x \<in> set xs \<Longrightarrow> P s \<Longrightarrow> P (g x s) \<and> f x s = g x s" and "P s"
  shows "fold f xs s = fold g xs s \<and> P (fold g xs s)"
  using assms by (induction xs arbitrary: s) auto

lemma step_block_cong:
  assumes "\<And>B. length B = 16 \<Longrightarrow> f B = g B" and "wrap_shape n s" and "j < n"
  shows "wrap_step f (8 * j) t s = wrap_step g (8 * j) t s"
    and "unwrap_step f (8 * j) t s = unwrap_step g (8 * j) t s"
  using assms by (auto simp: wrap_shape_def wrap_step_def unwrap_step_def split: prod.splits)

lemma wrap_outer_block_cong:
  assumes "\<And>B. length B = 16 \<Longrightarrow> f B = g B" and len: "\<And>B. length B = 16 \<Longrightarrow> length (g B) = 16" and "wrap_shape n s"
  shows "wrap_outer f (8 * n) j t s = wrap_outer g (8 * n) j t s"
proof (induction j)
  case (Suc j)
  have "wrap_pass f n t s' = wrap_pass g n t s'" if "wrap_shape n s'" for t s'
    unfolding wrap_pass_def
    by (rule fold_agree [where P = "wrap_shape n", THEN conjunct1])
      (use that step_block_cong(1) [of f g] wrap_step_shape(1) [of g] assms(1) len in auto)
  with wrap_outer_shape [of g, OF len assms(3)] show ?case unfolding wrap_outer_snoc Suc by blast
qed simp

lemma unwrap_outer_block_cong:
  assumes "\<And>B. length B = 16 \<Longrightarrow> f B = g B" and len: "\<And>B. length B = 16 \<Longrightarrow> length (g B) = 16" and "wrap_shape n s"
  shows "unwrap_outer f (8 * n) j t s = unwrap_outer g (8 * n) j t s"
  using assms(3)
proof (induction j arbitrary: t s)
  case (Suc j)
  have step: "unwrap_outer b (8 * n) (Suc j) t s =
      unwrap_outer b (8 * n) j (t - word_of_nat n) (unwrap_pass b n (t - word_of_nat n + 1) s)" for b
    using unwrap_inner_pass [of b n "t - word_of_nat n + 1" s] by simp
  let ?t = "t - word_of_nat n + 1"
  have "unwrap_pass f n ?t s = unwrap_pass g n ?t s \<and> wrap_shape n (unwrap_pass g n ?t s)"
    unfolding unwrap_pass_def
    by (rule fold_agree [where P = "wrap_shape n"])
      (use Suc.prems step_block_cong(2) [of f g] wrap_step_shape(2) [of g] assms(1) len in auto)
  then show ?case unfolding step using Suc.IH by auto
qed simp

lemma length_default_iv [simp]: "length default_iv = 8"
  by (simp add: default_iv_def)

lemma CRYPTO_128_wrap_length:
  assumes "\<And>B. length B = 16 \<Longrightarrow> length (block B) = 16" and "case iv of None \<Rightarrow> True | Some v \<Rightarrow> length v = 8"
    and "CRYPTO_128_wrap block iv inp = (r, Some out)"
  shows "length out = length inp + 8"
proof -
  let ?A = "case iv of None \<Rightarrow> default_iv | Some v \<Rightarrow> v"
  have m: "length inp mod 8 = 0" and out: "out = (let (A, R) = wrap_outer block (length inp) 6 (1 :: u64) (?A, inp) in A @ R)"
    using assms(3) by (auto simp: CRYPTO_128_wrap_def Let_def split: if_splits prod.splits)
  from m obtain n where n: "length inp = 8 * n" by auto
  have "length ?A = 8" using assms(2) by (auto simp: default_iv_def split: option.splits)
  then have "wrap_shape n (wrap_outer block (8 * n) 6 (1 :: u64) (?A, inp))"
    using n by (intro wrap_outer_shape assms(1)) (simp_all add: wrap_shape_def)
  then show ?thesis using out n by (auto simp: wrap_shape_def split: prod.splits)
qed

lemma CRYPTO_128_unwrap_length:
  assumes "\<And>B. length B = 16 \<Longrightarrow> length (block B) = 16" and "24 \<le> length inp" and "length inp < 2 ^ 64"
    and "CRYPTO_128_unwrap block iv inp = (r, Some out)"
  shows "length out = length inp - 8"
proof -
  have sub: "size_sub (length inp) 8 = length inp - 8" using assms(2,3) by (intro size_sub_le) simp_all
  obtain A R where raw: "crypto_128_unwrap_raw block inp = (length inp - 8, Some (A, R))"
    and m: "(length inp - 8) mod 8 = 0"
    and AR: "unwrap_outer block (length inp - 8) 6 (word_of_nat (6 * ((length inp - 8) div 8)) :: u64)
      (take 8 inp, drop 8 inp) = (A, R)"
    using assms(4) by (auto simp: CRYPTO_128_unwrap_def crypto_128_unwrap_raw_def sub Let_def split: prod.splits if_splits)
  from m obtain n where n: "length inp - 8 = 8 * n" by auto
  have "wrap_shape n (take 8 inp, drop 8 inp)" using n assms(2) by (simp add: wrap_shape_def)
  from unwrap_outer_shape [of block, OF assms(1) this] have "length R = 8 * n"
    using AR unfolding n by (metis snd_conv wrap_shape_def)
  then show ?thesis
    using assms(4) raw n by (auto simp: CRYPTO_128_unwrap_def split: if_splits)
qed

section \<open>The width of the counter\<close>

text \<open>
  The counter \<open>t\<close> is a \<open>size_t\<close> in OpenSSL and an \<open>unsigned int\<close> in HaiCrypt's fallback; as long
  as it does not overflow the smaller type, both give the same bytes.
\<close>

lemma xor_t_width: "xor_t (ucast (t :: u32) :: u64) A = xor_t t A"
proof -
  have mask: "(0xff :: u64) = mask 8" "(0xff :: u32) = mask 8" by (simp_all add: mask_eq_exp_minus_1)
  have byte: "(ucast (drop_bit k (ucast t :: u64) AND 0xff) :: u8) = ucast (drop_bit k t AND 0xff)" for k
    unfolding mask by (rule bit_word_eqI) (auto simp: bit_simps dest: bit_imp_le_length)
  have "unat (ucast t :: u64) = unat t"
    using unsigned_less [of t, where 'a=nat] by (simp add: unsigned_ucast_eq take_bit_eq_mod)
  then have "((ucast t :: u64) > 0xff) = (t > 0xff)" by (simp add: word_less_nat_alt)
  with byte [of 0] byte [of 8] byte [of 16] byte [of 24] show ?thesis unfolding xor_t_def Let_def by (simp cong: if_cong)
qed

lemma step_width:
  "wrap_step block i (ucast (t :: u32) :: u64) = wrap_step block i t"
  "unwrap_step block i (ucast (t :: u32) :: u64) = unwrap_step block i t"
  by (simp_all add: wrap_step_def unwrap_step_def xor_t_width)

lemma ucast_of_nat_u64: "m < 2 ^ 32 \<Longrightarrow> (word_of_nat m :: u64) = ucast (word_of_nat m :: u32)"
proof -
  assume "m < 2 ^ 32"
  then have "unat (word_of_nat m :: u64) = unat (ucast (word_of_nat m :: u32) :: u64)"
    by (simp add: unsigned_ucast_eq unat_of_nat take_bit_eq_mod)
  then show ?thesis by (rule unsigned_word_eqI)
qed

lemma wrap_pass_width:
  assumes "m + n \<le> 2 ^ 32"
  shows "wrap_pass block n (word_of_nat m :: u64) s = wrap_pass block n (word_of_nat m :: u32) s"
    and "unwrap_pass block n (word_of_nat m :: u64) s = unwrap_pass block n (word_of_nat m :: u32) s"
proof -
  have t: "(word_of_nat m + word_of_nat j :: u64) = ucast (word_of_nat m + word_of_nat j :: u32)" if "j < n" for j
    using ucast_of_nat_u64 [of "m + j"] that assms by simp
  show "wrap_pass block n (word_of_nat m :: u64) s = wrap_pass block n (word_of_nat m :: u32) s"
    "unwrap_pass block n (word_of_nat m :: u64) s = unwrap_pass block n (word_of_nat m :: u32) s"
    unfolding wrap_pass_def unwrap_pass_def by (rule fold_cong; simp add: t step_width)+
qed

lemma wrap_outer_width:
  assumes "Suc j * n + 1 \<le> 2 ^ 32"
  shows "wrap_outer block (8 * n) j (1 :: u64) s = wrap_outer block (8 * n) j (1 :: u32) s"
  using assms
proof (induction j)
  case (Suc j)
  have one: "1 + word_of_nat k = (word_of_nat (Suc k) :: u64)" "1 + word_of_nat k = (word_of_nat (Suc k) :: u32)" for k
    by simp_all
  show ?case
    unfolding wrap_outer_snoc one using Suc
    by (subst wrap_pass_width) (simp_all add: algebra_simps)
qed simp

lemma unwrap_outer_width:
  assumes "j * n + 1 \<le> 2 ^ 32"
  shows "unwrap_outer block (8 * n) j (word_of_nat (j * n) :: u64) s = unwrap_outer block (8 * n) j (word_of_nat (j * n) :: u32) s"
  using assms
proof (induction j arbitrary: s)
  case (Suc j)
  have one: "1 + word_of_nat k = (word_of_nat (Suc k) :: u64)" "1 + word_of_nat k = (word_of_nat (Suc k) :: u32)" for k
    by simp_all
  have u64: "unwrap_outer block (8 * n) (Suc j) (word_of_nat (Suc j * n) :: u64) s =
      unwrap_outer block (8 * n) j (word_of_nat (j * n) :: u64) (unwrap_pass block n (1 + word_of_nat (j * n) :: u64) s)"
    using unwrap_outer_Suc [of block n j "1 :: u64" s] by (simp only: add_diff_cancel_left')
  have u32: "unwrap_outer block (8 * n) (Suc j) (word_of_nat (Suc j * n) :: u32) s =
      unwrap_outer block (8 * n) j (word_of_nat (j * n) :: u32) (unwrap_pass block n (1 + word_of_nat (j * n) :: u32) s)"
    using unwrap_outer_Suc [of block n j "1 :: u32" s] by (simp only: add_diff_cancel_left')
  have le: "Suc (j * n) + n \<le> 2 ^ 32" using Suc.prems by simp
  show ?case unfolding u64 u32 one wrap_pass_width(2) [OF le] by (rule Suc.IH) (use Suc.prems in simp)
qed simp

end
