(* ===== verification/AesCorrect.thy ===== *)
theory AesCorrect
  imports AesCore
begin

text \<open>
  AES against FIPS 197.  The tables of \<open>aes_core.c\<close> are compared, entry by entry, with the
  products of the S-box and the MixColumns coefficients; the rounds are then rounds of the
  standard, and the decryption schedule makes \<open>AES_decrypt\<close> the inverse of \<open>AES_encrypt\<close>.
\<close>

section \<open>Bytes of a word\<close>

definition b3 :: "u32 \<Rightarrow> u8" where "b3 w = ucast (drop_bit 24 w)"
definition b2 :: "u32 \<Rightarrow> u8" where "b2 w = ucast (drop_bit 16 w)"
definition b1 :: "u32 \<Rightarrow> u8" where "b1 w = ucast (drop_bit 8 w)"
definition b0 :: "u32 \<Rightarrow> u8" where "b0 w = ucast w"

lemmas byte_defs = b3_def b2_def b1_def b0_def

lemma byte_be32 [simp]:
  "b3 (be32 a b c d) = a" "b2 (be32 a b c d) = b" "b1 (be32 a b c d) = c" "b0 (be32 a b c d) = d"
  unfolding byte_defs be32_def by (auto intro!: bit_word_eqI simp: bit_simps)

lemma be32_bytes [simp]: "be32 (b3 w) (b2 w) (b1 w) (b0 w) = w"
proof (rule bit_word_eqI)
  fix n assume "n < LENGTH(32)"
  then consider "n < 8" | "8 \<le> n" "n < 16" | "16 \<le> n" "n < 24" | "24 \<le> n" "n < 32"
    by force
  then show "bit (be32 (b3 w) (b2 w) (b1 w) (b0 w)) n = bit w n"
    by cases (auto simp: be32_def byte_defs bit_simps)
qed

lemma be32_inject [simp]: "be32 a b c d = be32 a' b' c' d' \<longleftrightarrow> a = a' \<and> b = b' \<and> c = c' \<and> d = d'"
  by (metis byte_be32)

lemma be32_eqI: "b3 v = b3 w \<Longrightarrow> b2 v = b2 w \<Longrightarrow> b1 v = b1 w \<Longrightarrow> b0 v = b0 w \<Longrightarrow> v = w"
  by (metis be32_bytes)

lemma byte_xor [simp]:
  "b3 (v XOR w) = b3 v XOR b3 w" "b2 (v XOR w) = b2 v XOR b2 w"
  "b1 (v XOR w) = b1 v XOR b1 w" "b0 (v XOR w) = b0 v XOR b0 w"
  unfolding byte_defs by (auto intro!: bit_word_eqI simp: bit_simps)

lemma be32_xor [simp]:
  "be32 a b c d XOR be32 a' b' c' d' = be32 (a XOR a') (b XOR b') (c XOR c') (d XOR d')"
  by (rule be32_eqI) simp_all

lemma byte_and [simp]:
  "b3 (v AND w) = b3 v AND b3 w" "b2 (v AND w) = b2 v AND b2 w"
  "b1 (v AND w) = b1 v AND b1 w" "b0 (v AND w) = b0 v AND b0 w"
  unfolding byte_defs by (auto intro!: bit_word_eqI simp: bit_simps)

lemma u8_and_255 [simp]: "(a :: u8) AND 0xff = a"
proof -
  have "(0xff :: u8) = - 1" by simp
  then show ?thesis by (simp only: and.right_neutral)
qed

lemma be32_mask:
  "be32 a b c d AND 0xff000000 = be32 a 0 0 0" "be32 a b c d AND 0x00ff0000 = be32 0 b 0 0"
  "be32 a b c d AND 0x0000ff00 = be32 0 0 c 0" "be32 a b c d AND 0x000000ff = be32 0 0 0 d"
proof -
  have m: "0xff000000 = be32 0xff 0 0 0" "0x00ff0000 = be32 0 0xff 0 0"
    "0x0000ff00 = be32 0 0 0xff 0" "0x000000ff = be32 0 0 0 0xff"
    by (simp_all add: be32_def push_bit_eq_mult)
  show "be32 a b c d AND 0xff000000 = be32 a 0 0 0" "be32 a b c d AND 0x00ff0000 = be32 0 b 0 0"
    "be32 a b c d AND 0x0000ff00 = be32 0 0 c 0" "be32 a b c d AND 0x000000ff = be32 0 0 0 d"
    unfolding m by (rule be32_eqI; simp)+
qed

lemma b0_drop_bit [simp]: "b0 (drop_bit 16 w) = b2 w" "b0 (drop_bit 8 w) = b1 w"
  by (simp_all add: byte_defs)

lemma unat_byte_index:
  "unat (drop_bit 24 w) = unat (b3 w)" "unat (drop_bit 16 w AND 0xff) = unat (b2 w)"
  "unat (drop_bit 8 w AND 0xff) = unat (b1 w)" "unat (w AND 0xff) = unat (b0 w)"
proof -
  have *: "v AND 0xff = ucast (ucast v :: u8)" for v :: u32
  proof -
    have m: "(0xff :: u32) = mask 8" by (simp add: mask_eq_exp_minus_1)
    show ?thesis unfolding m by (auto intro!: bit_word_eqI simp: bit_simps)
  qed
  have "drop_bit 24 w = ucast (b3 w)" unfolding b3_def
    by (rule bit_word_eqI) (auto simp: bit_simps dest: bit_imp_le_length)
  then show "unat (drop_bit 24 w) = unat (b3 w)" by simp
  show "unat (drop_bit 16 w AND 0xff) = unat (b2 w)"
    "unat (drop_bit 8 w AND 0xff) = unat (b1 w)" "unat (w AND 0xff) = unat (b0 w)"
    unfolding * byte_defs by simp_all
qed

lemma GETU32_PUTU32:
  "GETU32 (PUTU32 w) 0 = w"
proof -
  have "PUTU32 w = [b3 w, b2 w, b1 w, b0 w]" by (simp add: PUTU32_def byte_defs)
  then show ?thesis by (simp add: GETU32_def)
qed

section \<open>The transformations of FIPS 197\<close>

definition xtime :: "u8 \<Rightarrow> u8" where
  "xtime b = push_bit 1 b XOR (if bit b 7 then 0x1b else 0)"

definition mul3 :: "u8 \<Rightarrow> u8" where "mul3 b = xtime b XOR b"
definition mul9 :: "u8 \<Rightarrow> u8" where "mul9 b = xtime (xtime (xtime b)) XOR b"
definition mul11 :: "u8 \<Rightarrow> u8" where "mul11 b = xtime (xtime (xtime b)) XOR xtime b XOR b"
definition mul13 :: "u8 \<Rightarrow> u8" where "mul13 b = xtime (xtime (xtime b)) XOR xtime (xtime b) XOR b"
definition mul14 :: "u8 \<Rightarrow> u8" where "mul14 b = xtime (xtime (xtime b)) XOR xtime (xtime b) XOR xtime b"

lemmas mul_defs = mul3_def mul9_def mul11_def mul13_def mul14_def

definition MixColumn :: "u32 \<Rightarrow> u32" where
  "MixColumn w = (let a = b3 w; b = b2 w; c = b1 w; d = b0 w in
     be32 (xtime a XOR mul3 b XOR c XOR d) (a XOR xtime b XOR mul3 c XOR d)
          (a XOR b XOR xtime c XOR mul3 d) (mul3 a XOR b XOR c XOR xtime d))"

definition InvMixColumn :: "u32 \<Rightarrow> u32" where
  "InvMixColumn w = (let a = b3 w; b = b2 w; c = b1 w; d = b0 w in
     be32 (mul14 a XOR mul11 b XOR mul13 c XOR mul9 d) (mul9 a XOR mul14 b XOR mul11 c XOR mul13 d)
          (mul13 a XOR mul9 b XOR mul14 c XOR mul11 d) (mul11 a XOR mul13 b XOR mul9 c XOR mul14 d))"

definition SBox :: "u8 \<Rightarrow> u8" where "SBox x = b0 (Te1 ! unat x)"
definition InvSBox :: "u8 \<Rightarrow> u8" where "InvSBox x = Td4 ! unat x"

text \<open>SubBytes and ShiftRows on the four columns of the state.\<close>

definition SubShift :: "aes_state \<Rightarrow> aes_state" where
  "SubShift = (\<lambda>(s0, s1, s2, s3).
    (be32 (SBox (b3 s0)) (SBox (b2 s1)) (SBox (b1 s2)) (SBox (b0 s3)),
     be32 (SBox (b3 s1)) (SBox (b2 s2)) (SBox (b1 s3)) (SBox (b0 s0)),
     be32 (SBox (b3 s2)) (SBox (b2 s3)) (SBox (b1 s0)) (SBox (b0 s1)),
     be32 (SBox (b3 s3)) (SBox (b2 s0)) (SBox (b1 s1)) (SBox (b0 s2))))"

definition InvSubShift :: "aes_state \<Rightarrow> aes_state" where
  "InvSubShift = (\<lambda>(s0, s1, s2, s3).
    (be32 (InvSBox (b3 s0)) (InvSBox (b2 s3)) (InvSBox (b1 s2)) (InvSBox (b0 s1)),
     be32 (InvSBox (b3 s1)) (InvSBox (b2 s0)) (InvSBox (b1 s3)) (InvSBox (b0 s2)),
     be32 (InvSBox (b3 s2)) (InvSBox (b2 s1)) (InvSBox (b1 s0)) (InvSBox (b0 s3)),
     be32 (InvSBox (b3 s3)) (InvSBox (b2 s2)) (InvSBox (b1 s1)) (InvSBox (b0 s0))))"

definition map_state :: "(u32 \<Rightarrow> u32) \<Rightarrow> aes_state \<Rightarrow> aes_state" where
  "map_state f = (\<lambda>(s0, s1, s2, s3). (f s0, f s1, f s2, f s3))"

definition AddRoundKey :: "u32 list \<Rightarrow> nat \<Rightarrow> aes_state \<Rightarrow> aes_state" where
  "AddRoundKey rk ofs = (\<lambda>(s0, s1, s2, s3).
     (s0 XOR rk ! ofs, s1 XOR rk ! (ofs + 1), s2 XOR rk ! (ofs + 2), s3 XOR rk ! (ofs + 3)))"

section \<open>The tables\<close>

lemma length_tables [simp]: "length Te1 = 256" "length Td4 = 256"
  by (simp_all add: Te1_def Td4_def)

lemma Te0_table: "Te0 = map (\<lambda>w. let s = b0 w in be32 (xtime s) s s (mul3 s)) Te1" by code_simp
lemma Te1_table: "Te1 = map (\<lambda>w. let s = b0 w in be32 (mul3 s) (xtime s) s s) Te1" by code_simp
lemma Te2_table: "Te2 = map (\<lambda>w. let s = b0 w in be32 s (mul3 s) (xtime s) s) Te1" by code_simp
lemma Te3_table: "Te3 = map (\<lambda>w. let s = b0 w in be32 s s (mul3 s) (xtime s)) Te1" by code_simp
lemma Td0_table: "Td0 = map (\<lambda>s. be32 (mul14 s) (mul9 s) (mul13 s) (mul11 s)) Td4" by code_simp
lemma Td1_table: "Td1 = map (\<lambda>s. be32 (mul11 s) (mul14 s) (mul9 s) (mul13 s)) Td4" by code_simp
lemma Td2_table: "Td2 = map (\<lambda>s. be32 (mul13 s) (mul11 s) (mul14 s) (mul9 s)) Td4" by code_simp
lemma Td3_table: "Td3 = map (\<lambda>s. be32 (mul9 s) (mul13 s) (mul11 s) (mul14 s)) Td4" by code_simp

lemma inverse_table: "map (\<lambda>w. Td4 ! unat (b0 w)) Te1 = map word_of_nat [0..<256]" by code_simp

lemma SBox_tables:
  "Te0 ! unat x = be32 (xtime (SBox x)) (SBox x) (SBox x) (mul3 (SBox x))"
  "Te1 ! unat x = be32 (mul3 (SBox x)) (xtime (SBox x)) (SBox x) (SBox x)"
  "Te2 ! unat x = be32 (SBox x) (mul3 (SBox x)) (xtime (SBox x)) (SBox x)"
  "Te3 ! unat x = be32 (SBox x) (SBox x) (mul3 (SBox x)) (xtime (SBox x))"
proof -
  have x: "unat x < 256" using unsigned_less [of x, where 'a=nat] by simp
  show "Te0 ! unat x = be32 (xtime (SBox x)) (SBox x) (SBox x) (mul3 (SBox x))"
    "Te2 ! unat x = be32 (SBox x) (mul3 (SBox x)) (xtime (SBox x)) (SBox x)"
    "Te3 ! unat x = be32 (SBox x) (SBox x) (mul3 (SBox x)) (xtime (SBox x))"
    unfolding Te0_table Te2_table Te3_table SBox_def using x by (simp_all add: Let_def)
  have "Te1 ! unat x = map (\<lambda>w. let s = b0 w in be32 (mul3 s) (xtime s) s s) Te1 ! unat x"
    using Te1_table by (rule arg_cong)
  then show "Te1 ! unat x = be32 (mul3 (SBox x)) (xtime (SBox x)) (SBox x) (SBox x)"
    using x by (simp add: Let_def SBox_def)
qed

lemma InvSBox_tables:
  "Td0 ! unat x = be32 (mul14 (InvSBox x)) (mul9 (InvSBox x)) (mul13 (InvSBox x)) (mul11 (InvSBox x))"
  "Td1 ! unat x = be32 (mul11 (InvSBox x)) (mul14 (InvSBox x)) (mul9 (InvSBox x)) (mul13 (InvSBox x))"
  "Td2 ! unat x = be32 (mul13 (InvSBox x)) (mul11 (InvSBox x)) (mul14 (InvSBox x)) (mul9 (InvSBox x))"
  "Td3 ! unat x = be32 (mul9 (InvSBox x)) (mul13 (InvSBox x)) (mul11 (InvSBox x)) (mul14 (InvSBox x))"
proof -
  have x: "unat x < 256" using unsigned_less [of x, where 'a=nat] by simp
  show "Td0 ! unat x = be32 (mul14 (InvSBox x)) (mul9 (InvSBox x)) (mul13 (InvSBox x)) (mul11 (InvSBox x))"
    "Td1 ! unat x = be32 (mul11 (InvSBox x)) (mul14 (InvSBox x)) (mul9 (InvSBox x)) (mul13 (InvSBox x))"
    "Td2 ! unat x = be32 (mul13 (InvSBox x)) (mul11 (InvSBox x)) (mul14 (InvSBox x)) (mul9 (InvSBox x))"
    "Td3 ! unat x = be32 (mul9 (InvSBox x)) (mul13 (InvSBox x)) (mul11 (InvSBox x)) (mul14 (InvSBox x))"
    unfolding Td0_table Td1_table Td2_table Td3_table InvSBox_def using x by simp_all
qed

lemma InvSBox_SBox [simp]: "InvSBox (SBox x) = x"
proof -
  have x: "unat x < 256" using unsigned_less [of x, where 'a=nat] by simp
  have "map (\<lambda>w. Td4 ! unat (b0 w)) Te1 ! unat x = map word_of_nat [0..<256] ! unat x"
    by (simp only: inverse_table)
  then show ?thesis using x by (simp add: InvSBox_def SBox_def)
qed

section \<open>The field\<close>

lemma xor_cancel [simp]: "(x :: 'a::len word) XOR (x XOR y) = y"
  by (simp add: xor.assoc [symmetric])

lemmas xor_ac = xor.assoc xor.commute xor.left_commute

lemma xtime_xor [simp]: "xtime (x XOR y) = xtime x XOR xtime y"
proof -
  have "push_bit 1 (x XOR y) = push_bit 1 x XOR push_bit 1 y" by (rule push_bit_xor)
  then show ?thesis by (auto simp: xtime_def bit_simps xor_ac)
qed

lemma InvMixColumn_xor: "InvMixColumn (v XOR w) = InvMixColumn v XOR InvMixColumn w"
  by (simp add: InvMixColumn_def Let_def mul_defs xor_ac)

lemma InvMixColumn_MixColumn [simp]: "InvMixColumn (MixColumn w) = w"
  by (rule be32_eqI) (simp_all add: InvMixColumn_def MixColumn_def Let_def mul_defs xor_ac)

section \<open>Rounds\<close>

lemma be32_0 [simp]: "be32 0 0 0 0 = 0"
  by (simp add: be32_def)

lemma Te_round_FIPS: "Te_round rk ofs s = AddRoundKey rk ofs (map_state MixColumn (SubShift s))"
proof -
  have "Te0 ! unat a XOR Te1 ! unat b XOR Te2 ! unat c XOR Te3 ! unat d XOR k =
      MixColumn (be32 (SBox a) (SBox b) (SBox c) (SBox d)) XOR k" for a b c d k
    unfolding SBox_tables xor.assoc [symmetric] be32_xor by (simp add: MixColumn_def Let_def xor.assoc)
  then show ?thesis
    by (simp add: Te_round_def AddRoundKey_def map_state_def SubShift_def unat_byte_index
        split: prod.splits)
qed

lemma Te_last_FIPS: "Te_last rk ofs s = AddRoundKey rk ofs (SubShift s)"
proof -
  have "(Te2 ! unat a AND 0xff000000) XOR (Te3 ! unat b AND 0x00ff0000) XOR
      (Te0 ! unat c AND 0x0000ff00) XOR (Te1 ! unat d AND 0x000000ff) XOR k =
      be32 (SBox a) (SBox b) (SBox c) (SBox d) XOR k" for a b c d k
    unfolding SBox_tables be32_mask xor.assoc [symmetric] be32_xor by simp
  then show ?thesis
    by (simp add: Te_last_def AddRoundKey_def SubShift_def unat_byte_index split: prod.splits)
qed

lemma Td_round_FIPS: "Td_round rk ofs s = AddRoundKey rk ofs (map_state InvMixColumn (InvSubShift s))"
proof -
  have "Td0 ! unat a XOR Td1 ! unat b XOR Td2 ! unat c XOR Td3 ! unat d XOR k =
      InvMixColumn (be32 (InvSBox a) (InvSBox b) (InvSBox c) (InvSBox d)) XOR k" for a b c d k
    unfolding InvSBox_tables xor.assoc [symmetric] be32_xor by (simp add: InvMixColumn_def Let_def xor.assoc)
  then show ?thesis
    by (simp add: Td_round_def AddRoundKey_def map_state_def InvSubShift_def unat_byte_index
        split: prod.splits)
qed

lemma Td_last_FIPS: "Td_last rk ofs s = AddRoundKey rk ofs (InvSubShift s)"
proof -
  have "push_bit 24 (ucast (Td4 ! unat a)) XOR push_bit 16 (ucast (Td4 ! unat b)) XOR
      push_bit 8 (ucast (Td4 ! unat c)) XOR ucast (Td4 ! unat d) XOR k =
      be32 (InvSBox a) (InvSBox b) (InvSBox c) (InvSBox d) XOR k" for a b c d k
    by (simp add: be32_def InvSBox_def xor.assoc)
  then show ?thesis
    by (simp add: Td_last_def AddRoundKey_def InvSubShift_def unat_byte_index split: prod.splits)
qed

lemma InvSubShift_SubShift [simp]: "InvSubShift (SubShift s) = s"
  by (simp add: InvSubShift_def SubShift_def split: prod.splits)

lemma AddRoundKey_twice [simp]: "AddRoundKey rk ofs (AddRoundKey rk ofs s) = s"
  by (simp add: AddRoundKey_def xor.assoc split: prod.splits)

text \<open>The loops apply the rounds one after the other.\<close>

lemma two_rounds: "[1..<2 * Suc (Suc r)] = 1 # 2 # map (\<lambda>i. i + 2) [1..<2 * Suc r]"
proof -
  have "[1..<n] = 1 # 2 # [1 + 2..<n]" if "3 \<le> n" for n
    using that by (simp add: upt_conv_Cons numeral_eq_Suc)
  moreover have "[a + 2..<b + 2] = map (\<lambda>i. i + 2) [a..<b]" for a b :: nat
    by (induction b) auto
  moreover have "2 * Suc (Suc r) = 2 * Suc r + 2" and "3 \<le> 2 * Suc r + 2" by simp_all
  ultimately show ?thesis by (simp only:)
qed

lemma encrypt_rounds_fold:
  "encrypt_rounds (Suc r) rk ofs s =
     (ofs + 8 * Suc r, fold (\<lambda>i. Te_round rk (ofs + 4 * i)) [1..<2 * Suc r] s)"
proof (induction r arbitrary: ofs s)
  case 0
  show ?case by (simp add: numeral_2_eq_2)
next
  case (Suc r)
  note two_rounds [of r]
  then have "fold (\<lambda>i. Te_round rk (ofs + 4 * i)) [1..<2 * Suc (Suc r)] s =
      fold (\<lambda>i. Te_round rk (ofs + 8 + 4 * i)) [1..<2 * Suc r] (Te_round rk (ofs + 8) (Te_round rk (ofs + 4) s))"
    by (simp add: fold_map comp_def algebra_simps)
  then show ?case using Suc.IH [of "ofs + 8"] by (simp add: Let_def)
qed

lemma decrypt_rounds_fold:
  "decrypt_rounds (Suc r) rk ofs s =
     (ofs + 8 * Suc r, fold (\<lambda>i. Td_round rk (ofs + 4 * i)) [1..<2 * Suc r] s)"
proof (induction r arbitrary: ofs s)
  case 0
  show ?case by (simp add: numeral_2_eq_2)
next
  case (Suc r)
  note two_rounds [of r]
  then have "fold (\<lambda>i. Td_round rk (ofs + 4 * i)) [1..<2 * Suc (Suc r)] s =
      fold (\<lambda>i. Td_round rk (ofs + 8 + 4 * i)) [1..<2 * Suc r] (Td_round rk (ofs + 8) (Td_round rk (ofs + 4) s))"
    by (simp add: fold_map comp_def algebra_simps)
  then show ?case using Suc.IH [of "ofs + 8"] by (simp add: Let_def)
qed

lemma first_round_AddRoundKey:
  "first_round rk inp = AddRoundKey rk 0 (GETU32 inp 0, GETU32 inp 4, GETU32 inp 8, GETU32 inp 12)"
  by (simp add: first_round_def AddRoundKey_def numeral_2_eq_2 numeral_3_eq_3)

lemma put_get_state:
  assumes "length B = 16"
  shows "put_state (GETU32 B 0, GETU32 B 4, GETU32 B 8, GETU32 B 12) = B"
proof -
  have "PUTU32 (be32 a b c d) = [a, b, c, d]" for a b c d
    unfolding PUTU32_def using byte_be32 [of a b c d] by (simp add: byte_defs)
  moreover have "[B ! 0, B ! 1, B ! 2, B ! 3, B ! 4, B ! 5, B ! 6, B ! 7, B ! 8, B ! 9, B ! 10,
      B ! 11, B ! 12, B ! 13, B ! 14, B ! 15] = B"
    using assms by (intro nth_equalityI) (auto simp: less_Suc_eq numeral_eq_Suc)
  ultimately show ?thesis by (simp add: put_state_def GETU32_def numeral_2_eq_2)
qed

lemma get_put_state:
  "first_round rk (put_state s) = AddRoundKey rk 0 s"
proof (cases s)
  case (fields s0 s1 s2 s3)
  have "PUTU32 w = [b3 w, b2 w, b1 w, b0 w]" for w by (simp add: PUTU32_def byte_defs)
  then show ?thesis
    by (simp add: fields put_state_def first_round_AddRoundKey GETU32_def)
qed

lemma length_put_state [simp]: "length (put_state s) = 16"
  by (simp add: put_state_def PUTU32_def split: prod.splits)

section \<open>The inverse cipher\<close>

text \<open>
  The decryption schedule belongs to an encryption schedule: the round keys in reverse order,
  with the inverse MixColumns applied to all but the first and the last.
\<close>

definition inverse_schedule :: "nat \<Rightarrow> u32 list \<Rightarrow> u32 list \<Rightarrow> bool" where
  "inverse_schedule nr ek dk \<longleftrightarrow> (\<forall>r c. r \<le> nr \<longrightarrow> c < 4 \<longrightarrow>
     dk ! (4 * r + c) = (if r = 0 \<or> r = nr then ek ! (4 * (nr - r) + c)
                         else InvMixColumn (ek ! (4 * (nr - r) + c))))"

lemma inverse_scheduleD:
  assumes "inverse_schedule nr ek dk" and "r \<le> nr"
  shows "dk ! (4 * r) = (if r = 0 \<or> r = nr then ek ! (4 * (nr - r)) else InvMixColumn (ek ! (4 * (nr - r))))"
    and "c < 4 \<Longrightarrow> dk ! (4 * r + c) = (if r = 0 \<or> r = nr then ek ! (4 * (nr - r) + c)
      else InvMixColumn (ek ! (4 * (nr - r) + c)))"
  using assms unfolding inverse_schedule_def
  by (metis add.right_neutral zero_less_numeral, metis)

lemma AddRoundKey_inverse:
  assumes "inverse_schedule nr ek dk" and "r \<le> nr"
  shows "r = 0 \<or> r = nr \<Longrightarrow> AddRoundKey dk (4 * r) s = AddRoundKey ek (4 * (nr - r)) s"
    and "r \<noteq> 0 \<and> r \<noteq> nr \<Longrightarrow> AddRoundKey dk (4 * r) (map_state InvMixColumn s) =
      map_state InvMixColumn (AddRoundKey ek (4 * (nr - r)) s)"
proof -
  note w0 = inverse_scheduleD(1) [OF assms] and w = inverse_scheduleD(2) [OF assms]
  have c: "(1 :: nat) < 4" "(2 :: nat) < 4" "(3 :: nat) < 4" by simp_all
  note words = w0 w [OF c(1)] w [OF c(2)] w [OF c(3)]
  obtain s0 s1 s2 s3 where s: "s = (s0, s1, s2, s3)" by (cases s)
  show "AddRoundKey dk (4 * r) s = AddRoundKey ek (4 * (nr - r)) s" if "r = 0 \<or> r = nr"
    unfolding s AddRoundKey_def prod.case words if_P [OF that] ..
  assume "r \<noteq> 0 \<and> r \<noteq> nr"
  then have that: "\<not> (r = 0 \<or> r = nr)" by simp
  show "AddRoundKey dk (4 * r) (map_state InvMixColumn s) =
      map_state InvMixColumn (AddRoundKey ek (4 * (nr - r)) s)"
    unfolding s AddRoundKey_def map_state_def prod.case words if_not_P [OF that] InvMixColumn_xor ..
qed

lemma map_state_inverse [simp]: "map_state InvMixColumn (map_state MixColumn s) = s"
  by (simp add: map_state_def split: prod.splits)

definition enc_states :: "u32 list \<Rightarrow> nat \<Rightarrow> aes_state \<Rightarrow> aes_state" where
  "enc_states ek n s = fold (\<lambda>i. Te_round ek (4 * i)) [1..<Suc n] (AddRoundKey ek 0 s)"

definition dec_states :: "u32 list \<Rightarrow> nat \<Rightarrow> aes_state \<Rightarrow> aes_state" where
  "dec_states dk n s = fold (\<lambda>i. Td_round dk (4 * i)) [1..<Suc n] (AddRoundKey dk 0 s)"

lemma enc_states_Suc: "enc_states ek (Suc n) s =
    AddRoundKey ek (4 * Suc n) (map_state MixColumn (SubShift (enc_states ek n s)))"
  by (simp add: enc_states_def Te_round_FIPS)

lemma dec_states_Suc: "dec_states dk (Suc n) s =
    AddRoundKey dk (4 * Suc n) (map_state InvMixColumn (InvSubShift (dec_states dk n s)))"
  by (simp add: dec_states_def Td_round_FIPS)

text \<open>
  After \<open>j\<close> rounds of decryption the state is the one the encryption had before MixColumns
  of round \<open>nr - j\<close>.
\<close>

lemma dec_states_enc_states:
  assumes "inverse_schedule nr ek dk" and "j < nr"
  shows "dec_states dk j (AddRoundKey ek (4 * nr) (SubShift (enc_states ek (nr - 1) s))) =
    SubShift (enc_states ek (nr - 1 - j) s)"
  using assms(2)
proof (induction j)
  case 0
  have "AddRoundKey dk (4 * 0) x = AddRoundKey ek (4 * nr) x" for x
    using AddRoundKey_inverse(1) [OF assms(1), of 0] by simp
  then show ?case by (simp add: dec_states_def)
next
  case (Suc j)
  let ?e = "enc_states ek (nr - 1 - Suc j) s"
  have step: "enc_states ek (nr - 1 - j) s =
      AddRoundKey ek (4 * (nr - Suc j)) (map_state MixColumn (SubShift ?e))"
    using enc_states_Suc [of ek "nr - 1 - Suc j" s] Suc.prems
    by (simp add: Suc_diff_Suc del: mult_Suc_right)
  have key: "AddRoundKey dk (4 * Suc j) (map_state InvMixColumn x) =
      map_state InvMixColumn (AddRoundKey ek (4 * (nr - Suc j)) x)" for x
    using AddRoundKey_inverse(2) [OF assms(1), of "Suc j"] Suc.prems by simp
  show ?case
    unfolding dec_states_Suc key Suc.IH [OF Suc_lessD [OF Suc.prems]] InvSubShift_SubShift step
    by simp
qed

definition aes_schedules :: "AES_KEY \<Rightarrow> AES_KEY \<Rightarrow> bool" where
  "aes_schedules ek dk \<longleftrightarrow> rounds ek \<in> {10, 12, 14} \<and> rounds dk = rounds ek
     \<and> inverse_schedule (rounds ek) (rd_key ek) (rd_key dk)"

lemma AES_encrypt_states:
  assumes "nr \<in> {10, 12, 14}" and "rounds key = nr"
  shows "AES_encrypt key inp = put_state (AddRoundKey (rd_key key) (4 * nr) (SubShift
    (enc_states (rd_key key) (nr - 1) (GETU32 inp 0, GETU32 inp 4, GETU32 inp 8, GETU32 inp 12))))"
proof -
  obtain r where r: "nr = 2 * Suc r" using assms(1) by (auto intro: that [of 4] that [of 5] that [of 6])
  have d: "nr div 2 = Suc r" and n: "Suc (nr - 1) = 2 * Suc r" and m: "0 + 8 * Suc r = 4 * nr" using r by simp_all
  show ?thesis
    unfolding AES_encrypt_def Let_def assms(2) d encrypt_rounds_fold enc_states_def n m
    by (simp add: first_round_AddRoundKey Te_last_FIPS)
qed

lemma AES_decrypt_states:
  assumes "nr \<in> {10, 12, 14}" and "rounds key = nr"
  shows "AES_decrypt key (put_state s) = put_state (AddRoundKey (rd_key key) (4 * nr) (InvSubShift
    (dec_states (rd_key key) (nr - 1) s)))"
proof -
  obtain r where r: "nr = 2 * Suc r" using assms(1) by (auto intro: that [of 4] that [of 5] that [of 6])
  have d: "nr div 2 = Suc r" and n: "Suc (nr - 1) = 2 * Suc r" and m: "0 + 8 * Suc r = 4 * nr" using r by simp_all
  show ?thesis
    unfolding AES_decrypt_def Let_def assms(2) d decrypt_rounds_fold dec_states_def n m
    by (simp add: get_put_state Td_last_FIPS)
qed

lemma AES_decrypt_encrypt:
  assumes "aes_schedules ek dk" and "length B = 16"
  shows "AES_decrypt dk (AES_encrypt ek B) = B"
proof -
  define nr where "nr = rounds ek"
  have nr: "nr \<in> {10, 12, 14}" and dk: "rounds dk = nr"
    and inv: "inverse_schedule nr (rd_key ek) (rd_key dk)"
    using assms(1) by (auto simp: aes_schedules_def nr_def)
  then have pos: "nr - 1 < nr" by auto
  let ?s = "(GETU32 B 0, GETU32 B 4, GETU32 B 8, GETU32 B 12)"
  have "AES_decrypt dk (AES_encrypt ek B) =
      put_state (AddRoundKey (rd_key dk) (4 * nr) (enc_states (rd_key ek) 0 ?s))"
    unfolding AES_encrypt_states [OF nr nr_def [symmetric]] AES_decrypt_states [OF nr dk]
      dec_states_enc_states [OF inv pos] by simp
  also have "AddRoundKey (rd_key dk) (4 * nr) x = AddRoundKey (rd_key ek) 0 x" for x
    using AddRoundKey_inverse(1) [OF inv, of nr] by simp
  finally show ?thesis using put_get_state [OF assms(2)] by (simp add: enc_states_def)
qed

section \<open>The key schedules\<close>

lemma upd_in [buf_simps]: "i < length xs \<Longrightarrow> upd xs i v = Some (xs[i := v])"
  by (simp add: upd_def)

lemma xor_words_in:
  "i < length rk \<Longrightarrow> j < length rk \<Longrightarrow> k < length rk \<Longrightarrow>
     xor_words rk i j k = Some (rk[i := rk ! j XOR rk ! k])"
  by (simp add: xor_words_def buf_simps)

lemma length_rcon [simp]: "length rcon = 10"
  by (simp add: rcon_def)

lemma expand_128_total:
  "ofs + 4 + 4 * n \<le> length rk \<Longrightarrow> i + n \<le> 10 \<Longrightarrow>
     \<exists>rk'. expand_128 n i ofs rk = Some rk' \<and> length rk' = length rk"
proof (induction n arbitrary: i ofs rk)
  case (Suc n)
  have ih: "\<exists>rk''. expand_128 n (Suc i) (ofs + 4) rk' = Some rk'' \<and> length rk'' = length rk"
    if "length rk' = length rk" for rk'
    using Suc.IH [of "ofs + 4" rk' "Suc i"] Suc.prems that by simp
  show ?case using Suc.prems by (auto simp: rd_in upd_in xor_words_in intro!: ih)
qed simp

lemma expand_192_total:
  "ofs + 4 + 6 * n \<le> length rk \<Longrightarrow> i + n \<le> 10 \<Longrightarrow> 
     \<exists>rk'. expand_192 n i ofs rk = Some rk' \<and> length rk' = length rk"
proof (induction n arbitrary: i ofs rk)
  case (Suc n)
  have ih: "\<exists>rk''. expand_192 n (Suc i) (ofs + 6) rk' = Some rk'' \<and> length rk'' = length rk"
    if "length rk' = length rk" for rk'
    using Suc.IH [of "ofs + 6" rk' "Suc i"] Suc.prems that by simp
  show ?case using Suc.prems by (auto simp: rd_in upd_in xor_words_in intro!: ih)
qed simp

lemma expand_256_total:
  "ofs + 4 + 8 * n \<le> length rk \<Longrightarrow> i + n \<le> 10 \<Longrightarrow> 
     \<exists>rk'. expand_256 n i ofs rk = Some rk' \<and> length rk' = length rk"
proof (induction n arbitrary: i ofs rk)
  case (Suc n)
  have ih: "\<exists>rk''. expand_256 n (Suc i) (ofs + 8) rk' = Some rk'' \<and> length rk'' = length rk"
    if "length rk' = length rk" for rk'
    using Suc.IH [of "ofs + 8" rk' "Suc i"] Suc.prems that by simp
  show ?case using Suc.prems by (auto simp: rd_in upd_in xor_words_in intro!: ih)
qed simp

lemma load_word_in:
  "4 * i + 4 \<le> length userKey \<Longrightarrow> i < length rk \<Longrightarrow>
     load_word userKey i rk = Some (rk[i := GETU32 (take 4 (drop (4 * i) userKey)) 0])"
  by (simp add: load_word_def buf_simps)

lemma AES_set_encrypt_key_ok:
  assumes "bits \<in> {128, 192, 256}" and "bits \<le> 8 * int (length userKey)" and "length (rd_key k) = 60"
  shows "\<exists>ek. AES_set_encrypt_key (Some userKey) bits (Some k) = Some (0, Some ek)
    \<and> length (rd_key ek) = 60 \<and> rounds ek = (if bits = 128 then 10 else if bits = 192 then 12 else 14)"
proof -
  let ?w = "\<lambda>i. GETU32 (take 4 (drop (4 * i) userKey)) 0"
  let ?rk = "(rd_key k)[0 := ?w 0, 1 := ?w 1, 2 := ?w 2, 3 := ?w 3]"
  have l: "16 \<le> length userKey" and len: "length ?rk = 60" using assms by auto
  have lw: "load_word userKey i rk = Some (rk[i := ?w i])" if "4 * i + 4 \<le> length userKey" "length rk = 60" "i < 60" for i rk
    using that by (intro load_word_in) simp_all
  consider "bits = 128" | "bits = 192" | "bits = 256" using assms(1) by blast
  then show ?thesis
  proof cases
    case 1
    then show ?thesis
      using assms l expand_128_total [of 0 10 ?rk 0] by (auto simp: AES_set_encrypt_key_def lw)
  next
    case 2
    then have "24 \<le> length userKey" using assms(2) by simp
    with 2 show ?thesis
      using assms l expand_192_total [of 0 8 "?rk[4 := ?w 4, 5 := ?w 5]" 0]
      by (auto simp: AES_set_encrypt_key_def lw)
  next
    case 3
    then have "32 \<le> length userKey" using assms(2) by simp
    with 3 show ?thesis
      using assms l expand_256_total [of 0 7 "?rk[4 := ?w 4, 5 := ?w 5, 6 := ?w 6, 7 := ?w 7]" 0]
      by (auto simp: AES_set_encrypt_key_def lw)
  qed
qed

text \<open>Indices into \<open>rd_key\<close> by round and column.\<close>

lemma word_index [simp]:
  fixes r a c d :: nat
  assumes "c < 4" and "d < 4"
  shows "4 * r + c = 4 * a + d \<longleftrightarrow> r = a \<and> c = d"
proof
  assume eq: "4 * r + c = 4 * a + d"
  then have "(4 * r + c) mod 4 = (4 * a + d) mod 4" "(4 * r + c) div 4 = (4 * a + d) div 4" by simp_all
  then show "r = a \<and> c = d" using assms by simp
qed simp

lemma swap_words_nth:
  assumes "4 * a + 4 \<le> length rk" and "4 * b + 4 \<le> length rk" and "d < 4"
  shows "\<exists>rk'. swap_words rk (4 * a + d) (4 * b + d) = Some rk' \<and> length rk' = length rk \<and>
    (\<forall>r c. c < 4 \<longrightarrow> rk' ! (4 * r + c) =
      (if c = d then if r = b then rk ! (4 * a + c) else if r = a then rk ! (4 * b + c) else rk ! (4 * r + c)
       else rk ! (4 * r + c)))"
proof -
  have "4 * a + d < length rk" "4 * b + d < length rk" using assms by simp_all
  then have "swap_words rk (4 * a + d) (4 * b + d) =
      Some (rk[4 * a + d := rk ! (4 * b + d), 4 * b + d := rk ! (4 * a + d)])"
    by (simp add: swap_words_def rd_in upd_in)
  with assms show ?thesis by (auto simp: nth_list_update)
qed

lemma swap_four:
  assumes "4 * a + 4 \<le> length rk" and "4 * b + 4 \<le> length rk"
  shows "\<exists>rk'. do { rk \<leftarrow> swap_words rk (4 * a) (4 * b); rk \<leftarrow> swap_words rk (4 * a + 1) (4 * b + 1);
       rk \<leftarrow> swap_words rk (4 * a + 2) (4 * b + 2); swap_words rk (4 * a + 3) (4 * b + 3) } = Some rk'
     \<and> length rk' = length rk \<and>
    (\<forall>r c. c < 4 \<longrightarrow> rk' ! (4 * r + c) =
      (if r = b then rk ! (4 * a + c) else if r = a then rk ! (4 * b + c) else rk ! (4 * r + c)))"
proof -
  obtain k0 where 0: "swap_words rk (4 * a) (4 * b) = Some k0" "length k0 = length rk"
    "\<And>r c. c < 4 \<Longrightarrow> k0 ! (4 * r + c) = (if c = 0 then if r = b then rk ! (4 * a + c) else if r = a then rk ! (4 * b + c) else rk ! (4 * r + c) else rk ! (4 * r + c))"
    using swap_words_nth [OF assms, of 0] by auto
  obtain k1 where 1: "swap_words k0 (4 * a + 1) (4 * b + 1) = Some k1" "length k1 = length rk"
    "\<And>r c. c < 4 \<Longrightarrow> k1 ! (4 * r + c) = (if c = 1 then if r = b then k0 ! (4 * a + c) else if r = a then k0 ! (4 * b + c) else k0 ! (4 * r + c) else k0 ! (4 * r + c))"
    using swap_words_nth [of a k0 b 1] assms 0(2) by auto
  obtain k2 where 2: "swap_words k1 (4 * a + 2) (4 * b + 2) = Some k2" "length k2 = length rk"
    "\<And>r c. c < 4 \<Longrightarrow> k2 ! (4 * r + c) = (if c = 2 then if r = b then k1 ! (4 * a + c) else if r = a then k1 ! (4 * b + c) else k1 ! (4 * r + c) else k1 ! (4 * r + c))"
    using swap_words_nth [of a k1 b 2] assms 1(2) by auto
  obtain k3 where 3: "swap_words k2 (4 * a + 3) (4 * b + 3) = Some k3" "length k3 = length rk"
    "\<And>r c. c < 4 \<Longrightarrow> k3 ! (4 * r + c) = (if c = 3 then if r = b then k2 ! (4 * a + c) else if r = a then k2 ! (4 * b + c) else k2 ! (4 * r + c) else k2 ! (4 * r + c))"
    using swap_words_nth [of a k2 b 3] assms 2(2) by auto
  have "k3 ! (4 * r + c) = (if r = b then rk ! (4 * a + c) else if r = a then rk ! (4 * b + c) else rk ! (4 * r + c))"
    if c: "c < 4" for r c
    using that 0(3) [OF c] 1(3) [OF c] 2(3) [OF c] 3(3) [OF c] by auto
  then show ?thesis using 0(1) 1(1) 2(1) 3(1,2) by auto
qed

lemma swap_loop_nth:
  "a \<le> b + 1 \<Longrightarrow> 4 * b + 4 \<le> length rk \<Longrightarrow>
   \<exists>rk'. swap_loop (4 * a) (4 * b) rk = Some rk' \<and> length rk' = length rk \<and>
    (\<forall>r c. c < 4 \<longrightarrow> rk' ! (4 * r + c) =
      (if a \<le> r \<and> r \<le> b then rk ! (4 * (a + b - r) + c) else rk ! (4 * r + c)))"
proof (induction "b - a" arbitrary: a b rk rule: less_induct)
  case less
  show ?case
  proof (cases "a < b")
    case False
    then have "a + b - r = r" if "a \<le> r" "r \<le> b" for r using that by simp
    with False show ?thesis by (auto simp: swap_loop.simps [of "4 * a"])
  next
    case True
    then have "4 * a + 4 \<le> length rk" using less.prems by simp
    from swap_four [OF this less.prems(2)] obtain rk1 where
      four: "do { rk \<leftarrow> swap_words rk (4 * a) (4 * b); rk \<leftarrow> swap_words rk (4 * a + 1) (4 * b + 1);
        rk \<leftarrow> swap_words rk (4 * a + 2) (4 * b + 2); swap_words rk (4 * a + 3) (4 * b + 3) } = Some rk1"
      and len1: "length rk1 = length rk"
      and nth1: "\<And>r c. c < 4 \<Longrightarrow> rk1 ! (4 * r + c) =
        (if r = b then rk ! (4 * a + c) else if r = a then rk ! (4 * b + c) else rk ! (4 * r + c))"
      by blast
    have "b - 1 - Suc a < b - a" "Suc a \<le> b - 1 + 1" "4 * (b - 1) + 4 \<le> length rk1"
      using True less.prems len1 by simp_all
    from less.hyps [OF this] obtain rk2 where
      loop: "swap_loop (4 * Suc a) (4 * (b - 1)) rk1 = Some rk2" and len2: "length rk2 = length rk1"
      and nth2: "\<And>r c. c < 4 \<Longrightarrow> rk2 ! (4 * r + c) = (if Suc a \<le> r \<and> r \<le> b - 1
        then rk1 ! (4 * (Suc a + (b - 1) - r) + c) else rk1 ! (4 * r + c))"
      by blast
    have "swap_loop (4 * a) (4 * b) rk = Some rk2"
      using True four loop
      by (simp add: swap_loop.simps [of "4 * a"] bind_eq_Some_conv right_diff_distrib') (metis add.commute)
    moreover have "rk2 ! (4 * r + c) = (if a \<le> r \<and> r \<le> b then rk ! (4 * (a + b - r) + c) else rk ! (4 * r + c))"
      if c: "c < 4" for r c
    proof -
      have mid: "Suc a + (b - 1) - r = a + b - r" "a + b - r \<noteq> a" "a + b - r \<noteq> b" if "Suc a \<le> r" "r \<le> b - 1"
        using True that by auto
      consider "r = a" | "r = b" "r \<noteq> a" | "Suc a \<le> r" "r \<le> b - 1" | "r < a \<or> b < r" by linarith
      then show ?thesis
        by cases (use True mid in \<open>auto simp: nth2 [OF c] nth1 [OF c]\<close>)
    qed
    ultimately show ?thesis using len1 len2 by auto
  qed
qed

lemma inv_mix_word_FIPS: "inv_mix_word w = InvMixColumn w"
proof -
  have "unat (Te1 ! unat x AND 0xff) = unat (SBox x)" for x
    by (simp only: unat_byte_index SBox_def)
  then show ?thesis
    unfolding inv_mix_word_def unat_byte_index InvMixColumn_def Let_def
    by (simp add: SBox_def [symmetric] InvSBox_tables xor.assoc)
qed

lemma mix_four_nth:
  fixes f :: "u32 \<Rightarrow> u32" and a :: nat and rk :: "u32 list"
  defines "m \<equiv> \<lambda>xs i. xs[i := f (xs ! i)]"
  assumes "4 * a + 4 \<le> length rk" and "c < 4"
  shows "m (m (m (m rk (4 * a + 0)) (4 * a + 1)) (4 * a + 2)) (4 * a + 3) ! (4 * r + c) =
    (if r = a then f (rk ! (4 * r + c)) else rk ! (4 * r + c))"
proof -
  have m: "m xs (4 * a + d) ! (4 * r + c) = (if r = a \<and> c = d then f (xs ! (4 * r + c)) else xs ! (4 * r + c))"
    if "d < 4" "length xs = length rk" for d xs
    using that assms(2,3) by (simp add: m_def nth_list_update)
  have l: "length (m xs i) = length xs" for xs i by (simp add: m_def)
  have d: "(0 :: nat) < 4" "(1 :: nat) < 4" "(2 :: nat) < 4" "(3 :: nat) < 4" by simp_all
  have "c = 0 \<or> c = 1 \<or> c = 2 \<or> c = 3" using assms(3) by auto
  moreover define x1 x2 x3 where x: "x1 = m rk (4 * a + 0)" "x2 = m x1 (4 * a + 1)" "x3 = m x2 (4 * a + 2)"
  then have lens: "length x1 = length rk" "length x2 = length rk" "length x3 = length rk"
    by (simp_all add: l)
  have "m x3 (4 * a + 3) ! (4 * r + c) = (if r = a \<and> c = 3 then f (x3 ! (4 * r + c)) else x3 ! (4 * r + c))"
    "x3 ! (4 * r + c) = (if r = a \<and> c = 2 then f (x2 ! (4 * r + c)) else x2 ! (4 * r + c))"
    "x2 ! (4 * r + c) = (if r = a \<and> c = 1 then f (x1 ! (4 * r + c)) else x1 ! (4 * r + c))"
    "x1 ! (4 * r + c) = (if r = a \<and> c = 0 then f (rk ! (4 * r + c)) else rk ! (4 * r + c))"
    unfolding x(1) x(2) [unfolded x(1)] x(3) [unfolded x(2) x(1)]
    using m d lens unfolding x by blast+
  ultimately show ?thesis unfolding x [symmetric] by auto
qed

lemma inv_mix_loop_nth:
  "4 * (k + n) + 4 \<le> length rk \<Longrightarrow>
   \<exists>rk'. inv_mix_loop n (4 * k) rk = Some rk' \<and> length rk' = length rk \<and>
    (\<forall>r c. c < 4 \<longrightarrow> rk' ! (4 * r + c) =
      (if k < r \<and> r \<le> k + n then InvMixColumn (rk ! (4 * r + c)) else rk ! (4 * r + c)))"
proof (induction n arbitrary: k rk)
  case 0
  then show ?case by auto
next
  case (Suc n)
  let ?m = "\<lambda>rk i. rk[i := InvMixColumn (rk ! i)]"
  define rk1 where "rk1 = ?m (?m (?m (?m rk (4 * Suc k + 0)) (4 * Suc k + 1)) (4 * Suc k + 2)) (4 * Suc k + 3)"
  have len: "length rk1 = length rk" by (simp add: rk1_def)
  have one: "inv_mix_at xs i = Some (?m xs i)" if "i < length xs" for xs i
    using that by (simp add: inv_mix_at_def rd_in upd_in inv_mix_word_FIPS)
  have nth1: "rk1 ! (4 * r + c) = (if r = Suc k then InvMixColumn (rk ! (4 * r + c)) else rk ! (4 * r + c))"
    if "c < 4" for r c
    unfolding rk1_def using Suc.prems that by (intro mix_four_nth) simp_all
  have "inv_mix_loop (Suc n) (4 * k) rk = inv_mix_loop n (4 * Suc k) rk1"
    using Suc.prems by (simp add: one rk1_def add.commute)
  moreover have "4 * (Suc k + n) + 4 \<le> length rk1" using Suc.prems len by simp
  from Suc.IH [OF this] obtain rk2 where "inv_mix_loop n (4 * Suc k) rk1 = Some rk2" "length rk2 = length rk1"
    and nth2: "\<And>r c. c < 4 \<Longrightarrow> rk2 ! (4 * r + c) =
      (if Suc k < r \<and> r \<le> Suc k + n then InvMixColumn (rk1 ! (4 * r + c)) else rk1 ! (4 * r + c))"
    by blast
  moreover have "rk2 ! (4 * r + c) = (if k < r \<and> r \<le> k + Suc n then InvMixColumn (rk ! (4 * r + c)) else rk ! (4 * r + c))"
    if "c < 4" for r c
    unfolding nth2 [OF that] nth1 [OF that] by auto
  ultimately show ?case using len by auto
qed

lemma AES_set_decrypt_key_inverse:
  assumes ek: "AES_set_encrypt_key uk bits (Some k) = Some (0, Some ek)"
    and nr: "rounds ek \<in> {10, 12, 14}" and len: "length (rd_key ek) = 60"
  shows "\<exists>dk. AES_set_decrypt_key uk bits (Some k) = Some (0, Some dk) \<and> aes_schedules ek dk
    \<and> length (rd_key dk) = 60"
proof -
  define n where "n = rounds ek"
  have n: "2 \<le> n" "n \<le> 14" using nr by (auto simp: n_def)
  have "0 \<le> n + 1" "4 * n + 4 \<le> length (rd_key ek)" using n len by simp_all
  from swap_loop_nth [OF this] obtain rk1 where
    swap: "swap_loop 0 (4 * n) (rd_key ek) = Some rk1" and len1: "length rk1 = 60"
    and nth1: "\<And>r c. c < 4 \<Longrightarrow> r \<le> n \<Longrightarrow> rk1 ! (4 * r + c) = rd_key ek ! (4 * (n - r) + c)"
    using len by auto
  have "4 * (0 + (n - 1)) + 4 \<le> length rk1" using n len1 by simp
  from inv_mix_loop_nth [OF this] obtain rk2 where
    mix: "inv_mix_loop (n - 1) 0 rk1 = Some rk2" and len2: "length rk2 = 60"
    and nth2: "\<And>r c. c < 4 \<Longrightarrow> rk2 ! (4 * r + c) =
      (if 0 < r \<and> r \<le> n - 1 then InvMixColumn (rk1 ! (4 * r + c)) else rk1 ! (4 * r + c))"
    using len1 by auto
  have "AES_set_decrypt_key uk bits (Some k) = Some (0, Some (ek\<lparr>rd_key := rk2\<rparr>))"
    using swap mix by (simp add: AES_set_decrypt_key_def ek n_def)
  moreover have "inverse_schedule n (rd_key ek) rk2"
    unfolding inverse_schedule_def using n nth1 [of _ 0] by (auto simp: nth1 nth2)
  ultimately show ?thesis using nr n_def len2 by (auto simp: aes_schedules_def)
qed

lemma AES_keys:
  assumes "bits \<in> {128, 192, 256}" and "bits \<le> 8 * int (length userKey)" and "length (rd_key k) = 60"
  shows "\<exists>ek dk. AES_set_encrypt_key (Some userKey) bits (Some k) = Some (0, Some ek)
    \<and> AES_set_decrypt_key (Some userKey) bits (Some k) = Some (0, Some dk) \<and> aes_schedules ek dk"
proof -
  obtain ek where ek: "AES_set_encrypt_key (Some userKey) bits (Some k) = Some (0, Some ek)"
      "length (rd_key ek) = 60" "rounds ek = (if bits = 128 then 10 else if bits = 192 then 12 else 14)"
    using AES_set_encrypt_key_ok [OF assms] by blast
  then have "rounds ek \<in> {10, 12, 14}" by simp
  from AES_set_decrypt_key_inverse [OF ek(1) this ek(2)] ek(1) show ?thesis by blast
qed

section \<open>AES is a block cipher\<close>

lemma length_AES_encrypt [simp]: "length (AES_encrypt key B) = 16"
  by (simp add: AES_encrypt_def Let_def split: prod.splits)

lemma length_AES_decrypt [simp]: "length (AES_decrypt key B) = 16"
  by (simp add: AES_decrypt_def Let_def split: prod.splits)

lemma finite_blocks: "finite {B :: bytes. length B = n}"
  using finite_lists_length_eq [of "UNIV :: u8 set" n] by simp

text \<open>An injective map of the finite set of blocks into itself is onto.\<close>

lemma AES_encrypt_decrypt:
  assumes "aes_schedules ek dk" and "length B = 16"
  shows "AES_encrypt ek (AES_decrypt dk B) = B"
proof -
  let ?S = "{B :: bytes. length B = 16}"
  have "inj_on (AES_encrypt ek) ?S"
    by (rule inj_on_inverseI [where g = "AES_decrypt dk"]) (simp add: AES_decrypt_encrypt [OF assms(1)])
  moreover have "AES_encrypt ek ` ?S \<subseteq> ?S" by auto
  ultimately have "AES_encrypt ek ` ?S = ?S" by (intro endo_inj_surj finite_blocks)
  then obtain A where A: "length A = 16" "B = AES_encrypt ek A" using assms(2) by auto
  then show ?thesis using AES_decrypt_encrypt [OF assms(1)] by simp
qed

lemma AES_block_cipher:
  assumes "aes_schedules ek dk"
  shows "block_cipher (AES_encrypt ek) (AES_decrypt dk)"
  by unfold_locales (simp_all add: AES_decrypt_encrypt [OF assms] AES_encrypt_decrypt [OF assms])

text \<open>
  A user key of one of the three lengths, and the two schedules the library makes of it.
\<close>

typedef user_key = "{k :: bytes. length k \<in> {16, 24, 32}}"
  morphisms key_bytes User_Key
  by (rule exI [of _ "replicate 16 0"]) simp

definition blank_key :: AES_KEY where
  "blank_key = \<lparr>rd_key = replicate 60 0, rounds = 0\<rparr>"

definition key_of :: "(int \<times> AES_KEY option) option \<Rightarrow> AES_KEY" where
  "key_of r = (case r of Some (st, Some k) \<Rightarrow> k | _ \<Rightarrow> blank_key)"

definition enc_key_of :: "bytes \<Rightarrow> AES_KEY" where
  "enc_key_of uk = key_of (AES_set_encrypt_key (Some uk) (8 * int (length uk)) (Some blank_key))"

definition dec_key_of :: "bytes \<Rightarrow> AES_KEY" where
  "dec_key_of uk = key_of (AES_set_decrypt_key (Some uk) (8 * int (length uk)) (Some blank_key))"

lemma key_of_schedules:
  assumes "length uk \<in> {16, 24, 32}"
  shows "aes_schedules (enc_key_of uk) (dec_key_of uk)"
proof -
  have "8 * int (length uk) \<in> {128, 192, 256}" "length (rd_key blank_key) = 60"
    using assms by (auto simp: blank_key_def)
  then obtain ek dk where "AES_set_encrypt_key (Some uk) (8 * int (length uk)) (Some blank_key) = Some (0, Some ek)"
    "AES_set_decrypt_key (Some uk) (8 * int (length uk)) (Some blank_key) = Some (0, Some dk)"
    and "aes_schedules ek dk"
    using AES_keys [of "8 * int (length uk)" uk blank_key] by auto
  then show ?thesis by (simp add: enc_key_of_def dec_key_of_def key_of_def)
qed

interpretation aes: block_cipher "AES_encrypt (enc_key_of (key_bytes uk))" "AES_decrypt (dec_key_of (key_bytes uk))"
  for uk
  by (rule AES_block_cipher, rule key_of_schedules) (use key_bytes [of uk] in simp)

end
