(* ===== verification/AesKeys.thy ===== *)
theory AesKeys
  imports AesCore
begin

text \<open>
  The key schedule of \<open>AES_set_encrypt_key\<close> depends on the user key alone: the loops write every
  word that is read later, so that whatever the key structure held before does not matter.
\<close>

section \<open>Arrays that agree on a prefix\<close>

definition agree :: "nat \<Rightarrow> 'a list \<Rightarrow> 'a list \<Rightarrow> bool" where
  "agree m xs ys \<longleftrightarrow> length xs = length ys \<and> (\<forall>i < m. i < length xs \<longrightarrow> xs ! i = ys ! i)"

lemma agree_bind:
  assumes "rel_option (agree m) p q" and "\<And>x y. agree m x y \<Longrightarrow> rel_option (agree m') (f x) (g y)"
  shows "rel_option (agree m') (do { x \<leftarrow> p; f x }) (do { y \<leftarrow> q; g y })"
  using assms by (cases p; cases q) auto

lemma agree_bind_rd:
  assumes "agree m xs ys" and "i < m" and "\<And>v. rel_option (agree m') (f v) (g v)"
  shows "rel_option (agree m') (do { v \<leftarrow> rd xs i; f v }) (do { v \<leftarrow> rd ys i; g v })"
  using assms by (auto simp: agree_def rd_def)

lemma agree_bind_same:
  assumes "\<And>v. rel_option (agree m') (f v) (g v)"
  shows "rel_option (agree m') (do { v \<leftarrow> p; f v }) (do { v \<leftarrow> p; g v })"
  using assms by (cases p) auto

lemma agree_upd: "agree m xs ys \<Longrightarrow> rel_option (agree (Suc m)) (upd xs m v) (upd ys m v)"
  by (auto simp: agree_def upd_def nth_list_update less_Suc_eq)

lemma agree_xor_words:
  assumes "agree m xs ys" and "j < m" and "k < m"
  shows "rel_option (agree (Suc m)) (xor_words xs m j k) (xor_words ys m j k)"
  unfolding xor_words_def
  by (intro agree_bind_rd [OF assms(1)] agree_upd assms)

lemma agree_load_word:
  assumes "agree m xs ys"
  shows "rel_option (agree (Suc m)) (load_word uk m xs) (load_word uk m ys)"
  unfolding load_word_def by (intro agree_bind_same agree_upd assms)

text \<open>One assignment of the loops, followed by the rest.\<close>

lemma agree_upd_bind:
  assumes "agree m xs ys" and "m = i" and "\<And>x y. agree (Suc i) x y \<Longrightarrow> rel_option (agree m') (f x) (g y)"
  shows "rel_option (agree m') (do { x \<leftarrow> upd xs i v; f x }) (do { y \<leftarrow> upd ys i v; g y })"
  by (rule agree_bind [OF agree_upd [OF assms(1) [unfolded assms(2)]] assms(3)])

lemma agree_xor_bind:
  assumes "agree m xs ys" and "m = i" and "j < i" and "k < i"
    and "\<And>x y. agree (Suc i) x y \<Longrightarrow> rel_option (agree m') (f x) (g y)"
  shows "rel_option (agree m') (do { x \<leftarrow> xor_words xs i j k; f x }) (do { y \<leftarrow> xor_words ys i j k; g y })"
  by (rule agree_bind [OF agree_xor_words [OF assms(1) [unfolded assms(2)] assms(3,4)] assms(5)])

lemma agree_load_bind:
  assumes "agree m xs ys" and "m = i" and "\<And>x y. agree (Suc i) x y \<Longrightarrow> rel_option (agree m') (f x) (g y)"
  shows "rel_option (agree m') (do { x \<leftarrow> load_word uk i xs; f x }) (do { y \<leftarrow> load_word uk i ys; g y })"
  by (rule agree_bind [OF agree_load_word [OF assms(1) [unfolded assms(2)]] assms(3)])

section \<open>The schedules\<close>

lemma agree_expand_128:
  assumes "agree (ofs + 4) xs ys"
  shows "rel_option (agree (ofs + 4 + 4 * n)) (expand_128 n i ofs xs) (expand_128 n i ofs ys)"
  using assms
proof (induction n arbitrary: i ofs xs ys)
  case (Suc n)
  have last: "rel_option (agree (ofs + 4 + 4 * Suc n))
      (if n = 0 then Some x else expand_128 n (i + 1) (ofs + 4) x)
      (if n = 0 then Some y else expand_128 n (i + 1) (ofs + 4) y)" if "agree (Suc (ofs + 7)) x y" for x y
    using Suc.IH [of "ofs + 4" x y "i + 1"] that by (auto simp: ac_simps)
  show ?case
    unfolding expand_128.simps
    by (rule agree_bind_rd [OF Suc.prems], simp, rule agree_bind_rd [OF Suc.prems], simp, rule agree_bind_same,
        rule agree_upd_bind [OF Suc.prems], simp,
        (rule agree_xor_bind, assumption, simp, simp, simp)+, rule last)
qed simp

lemma agree_expand_192:
  assumes "agree (ofs + 6) xs ys" and "0 < n"
  shows "rel_option (agree (ofs + 4 + 6 * n)) (expand_192 n i ofs xs) (expand_192 n i ofs ys)"
  using assms
proof (induction n arbitrary: i ofs xs ys)
  case (Suc n)
  have rest: "rel_option (agree (ofs + 4 + 6 * Suc n)) (expand_192 n (i + 1) (ofs + 6) x) (expand_192 n (i + 1) (ofs + 6) y)"
    if "agree (Suc (ofs + 11)) x y" "n \<noteq> 0" for x y
    using Suc.IH [of "ofs + 6" x y "i + 1"] that by (auto simp: ac_simps)
  have last: "rel_option (agree (ofs + 4 + 6 * Suc n))
      (if n = 0 then Some x else do {
        x \<leftarrow> xor_words x (ofs + 10) (ofs + 4) (ofs + 9);
        x \<leftarrow> xor_words x (ofs + 11) (ofs + 5) (ofs + 10);
        expand_192 n (i + 1) (ofs + 6) x })
      (if n = 0 then Some y else do {
        y \<leftarrow> xor_words y (ofs + 10) (ofs + 4) (ofs + 9);
        y \<leftarrow> xor_words y (ofs + 11) (ofs + 5) (ofs + 10);
        expand_192 n (i + 1) (ofs + 6) y })" if "agree (Suc (ofs + 9)) x y" for x y
  proof (cases "n = 0")
    case False
    show ?thesis unfolding if_not_P [OF False]
      by (rule agree_xor_bind [OF that], simp, simp, simp, rule agree_xor_bind, assumption, simp, simp, simp,
          rule rest [OF _ False])
  qed (use that in \<open>simp add: ac_simps\<close>)
  show ?case
    unfolding expand_192.simps
    by (rule agree_bind_rd [OF Suc.prems(1)], simp, rule agree_bind_rd [OF Suc.prems(1)], simp, rule agree_bind_same,
        rule agree_upd_bind [OF Suc.prems(1)], simp,
        (rule agree_xor_bind, assumption, simp, simp, simp)+, rule last)
qed simp

lemma agree_expand_256:
  assumes "agree (ofs + 8) xs ys" and "0 < n"
  shows "rel_option (agree (ofs + 4 + 8 * n)) (expand_256 n i ofs xs) (expand_256 n i ofs ys)"
  using assms
proof (induction n arbitrary: i ofs xs ys)
  case (Suc n)
  have rest: "rel_option (agree (ofs + 4 + 8 * Suc n)) (expand_256 n (i + 1) (ofs + 8) x) (expand_256 n (i + 1) (ofs + 8) y)"
    if "agree (Suc (ofs + 15)) x y" "n \<noteq> 0" for x y
    using Suc.IH [of "ofs + 8" x y "i + 1"] that by (auto simp: ac_simps)
  have last: "rel_option (agree (ofs + 4 + 8 * Suc n))
      (if n = 0 then Some x else do {
        temp \<leftarrow> rd x (ofs + 11); w \<leftarrow> rd x (ofs + 4);
        x \<leftarrow> upd x (ofs + 12) (w XOR sub_word temp);
        x \<leftarrow> xor_words x (ofs + 13) (ofs + 5) (ofs + 12);
        x \<leftarrow> xor_words x (ofs + 14) (ofs + 6) (ofs + 13);
        x \<leftarrow> xor_words x (ofs + 15) (ofs + 7) (ofs + 14);
        expand_256 n (i + 1) (ofs + 8) x })
      (if n = 0 then Some y else do {
        temp \<leftarrow> rd y (ofs + 11); w \<leftarrow> rd y (ofs + 4);
        y \<leftarrow> upd y (ofs + 12) (w XOR sub_word temp);
        y \<leftarrow> xor_words y (ofs + 13) (ofs + 5) (ofs + 12);
        y \<leftarrow> xor_words y (ofs + 14) (ofs + 6) (ofs + 13);
        y \<leftarrow> xor_words y (ofs + 15) (ofs + 7) (ofs + 14);
        expand_256 n (i + 1) (ofs + 8) y })" if "agree (Suc (ofs + 11)) x y" for x y
  proof (cases "n = 0")
    case False
    show ?thesis unfolding if_not_P [OF False]
      by (rule agree_bind_rd [OF that], simp, rule agree_bind_rd [OF that], simp, rule agree_upd_bind [OF that], simp,
          (rule agree_xor_bind, assumption, simp, simp, simp)+, rule rest [OF _ False])
  qed (use that in \<open>simp add: ac_simps\<close>)
  show ?case
    unfolding expand_256.simps
    by (rule agree_bind_rd [OF Suc.prems(1)], simp, rule agree_bind_rd [OF Suc.prems(1)], simp, rule agree_bind_same,
        rule agree_upd_bind [OF Suc.prems(1)], simp,
        (rule agree_xor_bind, assumption, simp, simp, simp)+, rule last)
qed simp

text \<open>Two runs on the same user key give the same round keys, whatever the structures held.\<close>

lemma set_encrypt_key_agree:
  assumes len: "length (rd_key k) = length (rd_key k')"
    and 1: "AES_set_encrypt_key (Some uk) bits (Some k) = Some (0, Some ek)"
    and 2: "AES_set_encrypt_key (Some uk) bits (Some k') = Some (0, Some ek')"
  shows "rounds ek = rounds ek'" and "agree (4 * rounds ek + 4) (rd_key ek) (rd_key ek')"
proof -
  define sched where "sched = (\<lambda>rk. do {
     rk \<leftarrow> load_word uk 0 rk; rk \<leftarrow> load_word uk 1 rk; rk \<leftarrow> load_word uk 2 rk; rk \<leftarrow> load_word uk 3 rk;
     if bits = 128 then expand_128 10 0 0 rk
     else do { rk \<leftarrow> load_word uk 4 rk; rk \<leftarrow> load_word uk 5 rk;
       if bits = 192 then expand_192 8 0 0 rk
       else do { rk \<leftarrow> load_word uk 6 rk; rk \<leftarrow> load_word uk 7 rk; expand_256 7 0 0 rk } } })"
  have bits: "bits = 128 \<or> bits = 192 \<or> bits = 256"
    using 1 by (auto simp: AES_set_encrypt_key_def split: if_splits)
  define nr :: nat where "nr = (if bits = 128 then 10 else if bits = 192 then 12 else 14)"
  have run: "\<exists>rk. sched (rd_key k) = Some rk \<and> ek = \<lparr>rd_key = rk, rounds = nr\<rparr>"
    if "AES_set_encrypt_key (Some uk) bits (Some k) = Some (0, Some ek)" for k ek
    using that bits by (auto simp: AES_set_encrypt_key_def sched_def nr_def bind_eq_Some_conv split: if_splits)
  have start: "agree 0 (rd_key k) (rd_key k')" using len by (simp add: agree_def)
  have "rel_option (agree (4 * nr + 4)) (sched (rd_key k)) (sched (rd_key k'))"
  proof -
    consider "bits = 128" | "bits \<noteq> 128" "bits = 192" | "bits \<noteq> 128" "bits \<noteq> 192" "bits = 256" using bits by auto
    then show ?thesis
    proof cases
      case 1
      have e: "rel_option (agree (4 * nr + 4)) (expand_128 10 0 0 x) (expand_128 10 0 0 y)" if "agree (Suc 3) x y" for x y
        using agree_expand_128 [of 0 x y 10 0] that 1 by (simp add: nr_def numeral_eq_Suc)
      show ?thesis unfolding sched_def if_P [OF 1]
        by (rule agree_load_bind [OF start], simp, (rule agree_load_bind, assumption, simp)+, rule e)
    next
      case 2
      have e: "rel_option (agree (4 * nr + 4)) (expand_192 8 0 0 x) (expand_192 8 0 0 y)" if "agree (Suc 5) x y" for x y
        using agree_expand_192 [of 0 x y 8 0] that 2 by (simp add: nr_def numeral_eq_Suc)
      show ?thesis unfolding sched_def if_not_P [OF 2(1)] if_P [OF 2(2)]
        by (rule agree_load_bind [OF start], simp, (rule agree_load_bind, assumption, simp)+, rule e)
    next
      case 3
      have e: "rel_option (agree (4 * nr + 4)) (expand_256 7 0 0 x) (expand_256 7 0 0 y)" if "agree (Suc 7) x y" for x y
        using agree_expand_256 [of 0 x y 7 0] that 3 by (simp add: nr_def numeral_eq_Suc)
      show ?thesis unfolding sched_def if_not_P [OF 3(1)] if_not_P [OF 3(2)]
        by (rule agree_load_bind [OF start], simp, (rule agree_load_bind, assumption, simp)+, rule e)
    qed
  qed
  then show "rounds ek = rounds ek'" "agree (4 * rounds ek + 4) (rd_key ek) (rd_key ek')"
    using run [OF assms(2)] run [OF assms(3)] by auto
qed

end
