(* ===== verification/Ctr128.thy ===== *)
theory Ctr128
  imports Prelude
begin

text \<open>
  Counter mode, \<open>crypto/modes/ctr128.c\<close> of OpenSSL: the increment of the 128-bit
  big-endian counter, \<open>CRYPTO_ctr128_encrypt\<close> with the block-wise loops that a build without
  \<open>OPENSSL_SMALL_FOOTPRINT\<close> and \<open>STRICT_ALIGNMENT\<close> runs, and the byte-wise loop that the
  other builds run.  The lemmas show that the two agree and that the result is the input
  combined with the key stream of the encrypted counters.
\<close>

section \<open>The code\<close>

text \<open>\<open>do { --n; c += counter[n]; counter[n] = (u8)c; c >>= 8; } while (n);\<close>\<close>

fun ctr128_inc_loop :: "nat \<Rightarrow> u32 \<Rightarrow> bytes \<Rightarrow> bytes" where
  "ctr128_inc_loop 0 c counter = counter"
| "ctr128_inc_loop (Suc n) c counter =
    (let c = c + ucast (counter ! n)
     in ctr128_inc_loop n (drop_bit 8 c) (counter[n := ucast c]))"

definition ctr128_inc :: "bytes \<Rightarrow> bytes" where
  "ctr128_inc counter = ctr128_inc_loop 16 1 counter"

text \<open>\<open>while (n && len)\<close>: use up what is left of the encrypted counter.\<close>

fun ctr_head :: "bytes \<Rightarrow> nat \<Rightarrow> bytes \<Rightarrow> bytes \<times> bytes \<times> nat" where
  "ctr_head ecount n [] = ([], [], n)"
| "ctr_head ecount n (x # xs) =
    (if n = 0 then ([], x # xs, n)
     else let (out, rest, n') = ctr_head ecount ((n + 1) mod 16) xs
          in ((x XOR ecount ! n) # out, rest, n'))"

definition xor_bytes :: "bytes \<Rightarrow> bytes \<Rightarrow> bytes" where
  "xor_bytes xs ys = map2 (XOR) xs ys"

text \<open>\<open>while (len >= 16)\<close>: whole blocks.\<close>

function ctr_blocks :: "(bytes \<Rightarrow> bytes) \<Rightarrow> bytes \<Rightarrow> bytes \<Rightarrow> bytes \<Rightarrow> bytes \<times> bytes \<times> bytes \<times> bytes" where
  "ctr_blocks block ivec ecount xs =
    (if length xs < 16 then ([], xs, ivec, ecount)
     else let ecount = block ivec; ivec = ctr128_inc ivec;
              (out, rest, ivec, ecount') = ctr_blocks block ivec ecount (drop 16 xs)
          in (xor_bytes (take 16 xs) ecount @ out, rest, ivec, ecount'))"
  by pat_completeness auto
termination
  by (relation "measure (\<lambda>(block, ivec, ecount, xs). length xs)") auto

declare ctr_blocks.simps [simp del]

text \<open>
  The result is the output, the counter, the encrypted counter and \<open>*num\<close>.  When input is
  left after the whole blocks, \<open>n\<close> is 0.
\<close>

definition CRYPTO_ctr128_encrypt ::
    "(bytes \<Rightarrow> bytes) \<Rightarrow> bytes \<Rightarrow> bytes \<Rightarrow> bytes \<Rightarrow> nat \<Rightarrow> bytes \<times> bytes \<times> bytes \<times> nat" where
  "CRYPTO_ctr128_encrypt block inp ivec ecount num =
    (let (out1, rest1, n) = ctr_head ecount num inp;
         (out2, rest2, ivec, ecount) = ctr_blocks block ivec ecount rest1;
         n = (if length rest1 < 16 then n else 0)
     in if rest2 = [] then (out1 @ out2, ivec, ecount, n)
        else let ecount = block ivec; ivec = ctr128_inc ivec
             in (out1 @ out2 @ xor_bytes rest2 ecount, ivec, ecount, n + length rest2))"

text \<open>The loop of the other builds.\<close>

fun ctr128_bytewise :: "(bytes \<Rightarrow> bytes) \<Rightarrow> bytes \<Rightarrow> bytes \<Rightarrow> bytes \<Rightarrow> nat \<Rightarrow> bytes \<times> bytes \<times> bytes \<times> nat" where
  "ctr128_bytewise block [] ivec ecount n = ([], ivec, ecount, n)"
| "ctr128_bytewise block (x # xs) ivec ecount n =
    (let (ecount, ivec) = (if n = 0 then (block ivec, ctr128_inc ivec) else (ecount, ivec));
         (out, ivec', ecount', n') = ctr128_bytewise block xs ivec ecount ((n + 1) mod 16)
     in ((x XOR ecount ! n) # out, ivec', ecount', n'))"

section \<open>The counter\<close>

fun be_val :: "bytes \<Rightarrow> nat" where
  "be_val [] = 0"
| "be_val (b # bs) = unat b * 256 ^ length bs + be_val bs"

lemma be_val_append: "be_val (xs @ ys) = be_val xs * 256 ^ length ys + be_val ys"
  by (induction xs) (simp_all add: algebra_simps power_add)

lemma be_val_less: "be_val bs < 256 ^ length bs"
proof (induction bs)
  case (Cons b bs)
  have "unat b + 1 \<le> 256" using unsigned_less [of b, where 'a=nat] by simp
  then have "(unat b + 1) * 256 ^ length bs \<le> 256 * 256 ^ length bs" by (rule mult_le_mono1)
  then have "unat b * 256 ^ length bs + 256 ^ length bs \<le> 256 * 256 ^ length bs"
    by (simp only: add_mult_distrib mult_1)
  with Cons show ?case by (simp only: be_val.simps list.size power_Suc add_0_right add_Suc_right)
qed simp

lemma length_ctr128_inc_loop [simp]: "length (ctr128_inc_loop n c counter) = length counter"
  by (induction n c counter rule: ctr128_inc_loop.induct) (simp_all add: Let_def)

lemma length_ctr128_inc [simp]: "length (ctr128_inc counter) = length counter"
  by (simp add: ctr128_inc_def)

lemma carry_step:
  assumes "unat (c :: u32) \<le> 1"
  shows "unat (drop_bit 8 (c + ucast (b :: u8))) \<le> 1"
    and "unat (drop_bit 8 (c + ucast b)) * 256 + unat (ucast (c + ucast b) :: u8) = unat c + unat b"
proof -
  have b: "unat b < 256" using unsigned_less [of b, where 'a=nat] by simp
  have "unat c + unat (ucast b :: u32) < 2 ^ 32" using assms b by simp
  then have s: "unat (c + ucast b) = unat c + unat b"
    by (simp add: unat_word_ariths)
  have d: "unat (drop_bit 8 (c + ucast b)) = (unat c + unat b) div 256"
    by (simp add: drop_bit_eq_div unat_div s)
  have m: "unat (ucast (c + ucast b) :: u8) = (unat c + unat b) mod 256"
    by (simp add: unsigned_ucast_eq take_bit_eq_mod s)
  show "unat (drop_bit 8 (c + ucast b)) \<le> 1" unfolding d using assms b by linarith
  show "unat (drop_bit 8 (c + ucast b)) * 256 + unat (ucast (c + ucast b) :: u8) = unat c + unat b"
    unfolding d m by simp
qed

text \<open>The bytes from \<open>n\<close> on are left alone, those before it are incremented by the carry.\<close>

lemma ctr128_inc_loop_val:
  "n \<le> length counter \<Longrightarrow> unat c \<le> 1 \<Longrightarrow>
     drop n (ctr128_inc_loop n c counter) = drop n counter \<and>
     be_val (take n (ctr128_inc_loop n c counter)) = (be_val (take n counter) + unat c) mod 256 ^ n"
proof (induction n arbitrary: c counter)
  case 0
  then show ?case by simp
next
  case (Suc n)
  let ?b = "counter ! n"
  let ?c = "c + ucast ?b"
  let ?k = "counter[n := ucast ?c]"
  let ?r = "ctr128_inc_loop n (drop_bit 8 ?c) ?k"
  have n: "n < length counter" using Suc.prems by simp
  note cs = carry_step [OF Suc.prems(2), of ?b]
  have ih: "drop n ?r = drop n ?k" "be_val (take n ?r) = (be_val (take n ?k) + unat (drop_bit 8 ?c)) mod 256 ^ n"
    using Suc.IH [of ?k "drop_bit 8 ?c"] n cs(1) by simp_all
  have r: "ctr128_inc_loop (Suc n) c counter = ?r" by (simp add: Let_def)
  have rn: "?r ! n = ucast ?c"
    using ih(1) n by (metis hd_drop_conv_nth length_list_update length_ctr128_inc_loop nth_list_update_eq)
  have "drop (Suc n) ?r = drop (Suc n) ?k"
    using ih(1) by (metis drop_Suc tl_drop)
  then have "drop (Suc n) ?r = drop (Suc n) counter" using n by simp
  moreover have "be_val (take (Suc n) ?r) = (be_val (take (Suc n) counter) + unat c) mod 256 ^ Suc n"
  proof -
    let ?v = "be_val (take n counter)"
    let ?d = "unat (drop_bit 8 ?c)"
    have tn: "take (Suc n) ?r = take n ?r @ [ucast ?c]" "take (Suc n) counter = take n counter @ [?b]"
      using n rn by (simp_all add: take_Suc_conv_app_nth)
    have "be_val (take (Suc n) ?r) = (?v + ?d) mod 256 ^ n * 256 + unat (ucast ?c :: u8)"
      unfolding tn be_val_append using ih(2) n by simp
    also have "\<dots> = ((?v + ?d) * 256 + unat (ucast ?c :: u8)) mod 256 ^ Suc n"
    proof -
      have u: "unat (ucast ?c :: u8) < 256" using unsigned_less [of "ucast ?c :: u8", where 'a=nat] by simp
      have gen: "a mod p * 256 + u = (a * 256 + u) mod (p * 256)" if "u < 256" for a p u :: nat
        using that by (simp add: mod_mult2_eq mult.commute [of p])
      show ?thesis using gen [OF u, of "?v + ?d" "256 ^ n"] by (simp add: mult.commute)
    qed
    also have "(?v + ?d) * 256 + unat (ucast ?c :: u8) = be_val (take (Suc n) counter) + unat c"
      unfolding tn be_val_append using cs(2) by (simp add: algebra_simps)
    finally show ?thesis .
  qed
  ultimately show ?case unfolding r by simp
qed

lemma ctr128_inc_val:
  assumes "length counter = 16"
  shows "be_val (ctr128_inc counter) = (be_val counter + 1) mod 2 ^ 128"
proof -
  have "(256 :: nat) ^ 16 = 2 ^ 128" by simp
  then show ?thesis
    using ctr128_inc_loop_val [of 16 counter 1] assms by (simp add: ctr128_inc_def)
qed

section \<open>Block-wise and byte-wise\<close>

lemma length_xor_bytes [simp]: "length (xor_bytes xs ys) = min (length xs) (length ys)"
  by (simp add: xor_bytes_def)

lemma xor_bytes_Cons [simp]: "xor_bytes (x # xs) (y # ys) = (x XOR y) # xor_bytes xs ys"
  and xor_bytes_Nil [simp]: "xor_bytes [] ys = []"
  by (simp_all add: xor_bytes_def)

lemma xor_bytes_twice:
  "length xs \<le> length ys \<Longrightarrow> xor_bytes (xor_bytes xs ys) ys = xs"
  by (induction xs ys rule: list_induct2') (simp_all add: xor.assoc)

lemma xor_bytes_append:
  "length xs = length ys \<Longrightarrow> xor_bytes (xs @ xs') (ys @ ys') = xor_bytes xs ys @ xor_bytes xs' ys'"
  by (simp add: xor_bytes_def)

lemma xor_bytes_prefix: "length xs \<le> length ys \<Longrightarrow> xor_bytes xs (ys @ zs) = xor_bytes xs ys"
  by (simp add: xor_bytes_def zip_append2)

text \<open>What is left of the current encrypted counter is used up byte by byte.\<close>

lemma bytewise_head:
  assumes "0 < n" and "n < 16"
  shows "ctr128_bytewise block inp ivec ecount n =
    (let (out, rest, n') = ctr_head ecount n inp;
         (out', r) = ctr128_bytewise block rest ivec ecount n'
     in (out @ out', r))"
  using assms
proof (induction inp arbitrary: n)
  case Nil
  then show ?case by simp
next
  case (Cons x xs)
  show ?case
  proof (cases "n = 15")
    case True
    then show ?thesis
      by (cases xs) (simp_all add: Let_def split: prod.splits)
  next
    case False
    then have "0 < n + 1" "n + 1 < 16" "(n + 1) mod 16 = n + 1" using Cons.prems by simp_all
    with Cons.IH [of "n + 1"] Cons.prems show ?thesis
      by (simp add: Let_def split: prod.splits)
  qed
qed

lemma ctr_head_result:
  "n < 16 \<Longrightarrow> ctr_head ecount n inp = (out, rest, n') \<Longrightarrow> n' < 16 \<and> (rest = [] \<or> n' = 0)"
  by (induction ecount n inp arbitrary: out rest n' rule: ctr_head.induct)
    (auto simp: Let_def split: prod.splits if_splits)

text \<open>Part of a block, from offset \<open>n\<close>, without a fresh counter.\<close>

lemma bytewise_within:
  assumes "0 < n" and "n < 16" and "n + length xs \<le> 16" and "length ecount = 16"
  shows "ctr128_bytewise block (xs @ ys) ivec ecount n =
    (let (out, r) = ctr128_bytewise block ys ivec ecount ((n + length xs) mod 16)
     in (xor_bytes xs (drop n ecount) @ out, r))"
  using assms
proof (induction xs arbitrary: n)
  case Nil
  then show ?case by simp
next
  case (Cons x xs)
  have d: "drop n ecount = ecount ! n # drop (Suc n) ecount"
    using Cons.prems by (simp add: Cons_nth_drop_Suc)
  show ?case
  proof (cases "n = 15")
    case True
    then have "xs = []" using Cons.prems by simp
    with True Cons.prems show ?thesis unfolding d by (simp add: Let_def split: prod.splits)
  next
    case False
    then have "(n + 1) mod 16 = n + 1" using Cons.prems by simp
    moreover have "0 < n + 1" "n + 1 < 16" "n + 1 + length xs \<le> 16" using False Cons.prems by simp_all
    ultimately show ?thesis
      using Cons.IH [of "n + 1"] Cons.prems unfolding d by (simp add: Let_def split: prod.splits)
  qed
qed

lemma bytewise_block:
  assumes "0 < length xs" and "length xs \<le> 16" and "length (block ivec) = 16"
  shows "ctr128_bytewise block (xs @ ys) ivec ecount 0 =
    (let (out, r) = ctr128_bytewise block ys (ctr128_inc ivec) (block ivec) (length xs mod 16)
     in (xor_bytes xs (block ivec) @ out, r))"
proof -
  obtain x xs' where xs: "xs = x # xs'" using assms(1) by (cases xs) auto
  have d: "block ivec = block ivec ! 0 # drop 1 (block ivec)"
    using assms(3) by (metis Cons_nth_drop_Suc One_nat_def drop0 zero_less_numeral)
  have x: "xor_bytes (x # xs') (block ivec) = (x XOR block ivec ! 0) # xor_bytes xs' (drop 1 (block ivec))"
    by (subst d) simp
  show ?thesis
    using assms bytewise_within [of 1 xs' "block ivec" block ys "ctr128_inc ivec"]
    unfolding xs x by (simp add: Let_def split: prod.splits)
qed

lemma ctr_blocks_bytewise:
  assumes len: "\<And>iv. length iv = 16 \<Longrightarrow> length (block iv) = 16"
  shows "length ivec = 16 \<Longrightarrow> ctr_blocks block ivec ecount inp = (out, rest, ivec', ecount') \<Longrightarrow>
    length ivec' = 16 \<and> length rest < 16 \<and>
    ctr128_bytewise block inp ivec ecount 0 =
      (let (out', r) = ctr128_bytewise block rest ivec' ecount' 0 in (out @ out', r))"
proof (induction "length inp" arbitrary: inp ivec ecount out rest ivec' ecount' rule: less_induct)
  case less
  show ?case
  proof (cases "length inp < 16")
    case True
    then show ?thesis using less.prems by (simp add: ctr_blocks.simps)
  next
    case False
    obtain o1 r1 i1 e1 where rec: "ctr_blocks block (ctr128_inc ivec) (block ivec) (drop 16 inp) = (o1, r1, i1, e1)"
      by (metis prod_cases4)
    then have res: "out = xor_bytes (take 16 inp) (block ivec) @ o1" "rest = r1" "ivec' = i1" "ecount' = e1"
      using less.prems(2) False by (simp_all add: ctr_blocks.simps [of block ivec] Let_def)
    have ih: "length i1 = 16" "length r1 < 16"
      "ctr128_bytewise block (drop 16 inp) (ctr128_inc ivec) (block ivec) 0 =
        (let (out', r) = ctr128_bytewise block r1 i1 e1 0 in (o1 @ out', r))"
      using less.hyps [OF _ _ rec] False less.prems(1) by simp_all
    have "ctr128_bytewise block (take 16 inp @ drop 16 inp) ivec ecount 0 =
      (let (out, r) = ctr128_bytewise block (drop 16 inp) (ctr128_inc ivec) (block ivec) 0
       in (xor_bytes (take 16 inp) (block ivec) @ out, r))"
      using bytewise_block [of "take 16 inp" block ivec "drop 16 inp" ecount] False len [OF less.prems(1)]
      by simp
    then show ?thesis unfolding res append_take_drop_id ih(3)
      using ih(1,2) by (simp add: Let_def split: prod.splits)
  qed
qed

lemma ctr128_encrypt_bytewise:
  assumes len: "\<And>iv. length iv = 16 \<Longrightarrow> length (block iv) = 16"
    and "length ivec = 16" and "num < 16"
  shows "CRYPTO_ctr128_encrypt block inp ivec ecount num = ctr128_bytewise block inp ivec ecount num"
proof -
  obtain o1 r1 n where h: "ctr_head ecount num inp = (o1, r1, n)" by (metis prod_cases3)
  have n: "n < 16" "r1 = [] \<or> n = 0" using ctr_head_result [OF assms(3) h] by simp_all
  have head: "ctr128_bytewise block inp ivec ecount num =
      (let (out', r) = ctr128_bytewise block r1 ivec ecount n in (o1 @ out', r))"
  proof (cases "num = 0")
    case True
    then have "o1 = []" "r1 = inp" "n = 0" using h by (cases inp; simp)+
    with True show ?thesis by (simp add: Let_def split: prod.splits)
  next
    case False
    then show ?thesis using bytewise_head [of num block inp ivec ecount] assms(3) h by simp
  qed
  show ?thesis
  proof (cases "r1 = []")
    case True
    then show ?thesis using head h
      by (simp add: CRYPTO_ctr128_encrypt_def ctr_blocks.simps)
  next
    case False
    then have n0: "n = 0" using n by simp
    obtain o2 r2 i2 e2 where b: "ctr_blocks block ivec ecount r1 = (o2, r2, i2, e2)" by (metis prod_cases4)
    note bw = ctr_blocks_bytewise [OF len assms(2) b]
    have tail: "ctr128_bytewise block r2 i2 e2 0 = (xor_bytes r2 (block i2), ctr128_inc i2, block i2, length r2)"
      if "r2 \<noteq> []"
      using that bw len [of i2] bytewise_block [of r2 block i2 "[]" e2] by simp
    show ?thesis
      using head h b bw tail n0 by (cases "r2 = []") (auto simp: CRYPTO_ctr128_encrypt_def Let_def)
  qed
qed

section \<open>The key stream\<close>

definition ctr_keystream :: "(bytes \<Rightarrow> bytes) \<Rightarrow> bytes \<Rightarrow> nat \<Rightarrow> bytes" where
  "ctr_keystream block ivec n = concat (map (\<lambda>i. block ((ctr128_inc ^^ i) ivec)) [0..<n])"

lemma ctr_keystream_Suc:
  "ctr_keystream block ivec (Suc n) = block ivec @ ctr_keystream block (ctr128_inc ivec) n"
proof -
  have "[0..<Suc n] = 0 # map Suc [0..<n]" by (simp add: map_Suc_upt upt_conv_Cons)
  then show ?thesis by (simp add: ctr_keystream_def comp_def funpow_swap1)
qed

lemma length_funpow_inc [simp]: "length ((ctr128_inc ^^ i) ivec) = length ivec"
  by (induction i) simp_all

lemma length_ctr_keystream:
  assumes len: "\<And>iv. length iv = 16 \<Longrightarrow> length (block iv) = 16" and "length ivec = 16"
  shows "length (ctr_keystream block ivec n) = 16 * n"
  using assms(2) by (induction n arbitrary: ivec) (simp_all add: ctr_keystream_Suc len, simp add: ctr_keystream_def)

lemma bytewise_keystream:
  assumes len: "\<And>iv. length iv = 16 \<Longrightarrow> length (block iv) = 16"
  shows "length ivec = 16 \<Longrightarrow> length inp \<le> 16 * n \<Longrightarrow>
    fst (ctr128_bytewise block inp ivec ecount 0) = xor_bytes inp (ctr_keystream block ivec n)"
proof (induction n arbitrary: inp ivec ecount)
  case 0
  then show ?case by simp
next
  case (Suc n)
  show ?case
  proof (cases "length inp \<le> 16")
    case True
    have "xor_bytes inp (block ivec @ ys) = xor_bytes inp (block ivec)" for ys
      using True len [OF Suc.prems(1)] by (simp add: xor_bytes_prefix)
    then show ?thesis
      using bytewise_block [of inp block ivec "[]" ecount] True len [OF Suc.prems(1)]
      by (cases "inp = []") (simp_all add: ctr_keystream_Suc)
  next
    case False
    have ih: "fst (ctr128_bytewise block (drop 16 inp) (ctr128_inc ivec) (block ivec) 0) =
        xor_bytes (drop 16 inp) (ctr_keystream block (ctr128_inc ivec) n)"
      using Suc False by simp
    have "fst (ctr128_bytewise block (take 16 inp @ drop 16 inp) ivec ecount 0) =
      xor_bytes (take 16 inp) (block ivec) @ xor_bytes (drop 16 inp) (ctr_keystream block (ctr128_inc ivec) n)"
      using bytewise_block [of "take 16 inp" block ivec "drop 16 inp" ecount] False len [OF Suc.prems(1)] ih
      by (simp add: Let_def split: prod.splits)
    also have "\<dots> = xor_bytes (take 16 inp @ drop 16 inp) (block ivec @ ctr_keystream block (ctr128_inc ivec) n)"
      using False len [OF Suc.prems(1)] by (intro xor_bytes_append [symmetric]) simp
    finally show ?thesis by (simp add: ctr_keystream_Suc)
  qed
qed

text \<open>
  A whole message from a fresh counter: the input combined with the key stream.  Running the
  function again with the same counter gives the input back.
\<close>

definition ctr_crypt :: "(bytes \<Rightarrow> bytes) \<Rightarrow> bytes \<Rightarrow> bytes \<Rightarrow> bytes" where
  "ctr_crypt block ivec inp = fst (CRYPTO_ctr128_encrypt block inp ivec (replicate 16 0) 0)"

lemma ctr_crypt_keystream:
  assumes len: "\<And>iv. length iv = 16 \<Longrightarrow> length (block iv) = 16"
    and "length ivec = 16" and "length inp \<le> 16 * n"
  shows "ctr_crypt block ivec inp = xor_bytes inp (ctr_keystream block ivec n)"
proof -
  have "CRYPTO_ctr128_encrypt block inp ivec e 0 = ctr128_bytewise block inp ivec e 0" for e
    using len assms(2) by (intro ctr128_encrypt_bytewise) simp_all
  then show ?thesis unfolding ctr_crypt_def
    using bytewise_keystream [of block, OF len assms(2,3)] by simp
qed

text \<open>The contract the packet encryption relies on, met by any block function of 16 bytes.\<close>

locale ctr_stream =
  fixes crypt :: "bytes \<Rightarrow> bytes \<Rightarrow> bytes"
  assumes length_crypt: "length ivec = 16 \<Longrightarrow> length (crypt ivec inp) = length inp"
    and crypt_crypt: "length ivec = 16 \<Longrightarrow> crypt ivec (crypt ivec inp) = inp"

lemma ctr_crypt_stream:
  assumes len: "\<And>iv. length iv = 16 \<Longrightarrow> length (block iv) = 16"
  shows "ctr_stream (ctr_crypt block)"
proof
  fix ivec inp :: bytes assume iv: "length ivec = 16"
  have le: "length inp \<le> 16 * length inp" by simp
  let ?ks = "ctr_keystream block ivec (length inp)"
  have ks: "length inp \<le> length ?ks" using length_ctr_keystream [of block, OF len iv] by simp
  have c: "ctr_crypt block ivec inp = xor_bytes inp ?ks" using len iv le by (rule ctr_crypt_keystream)
  show l: "length (ctr_crypt block ivec inp) = length inp"
    unfolding c using ks by simp
  have "length (ctr_crypt block ivec inp) \<le> 16 * length inp" using l by simp
  from ctr_crypt_keystream [of block, OF len iv this]
  show "ctr_crypt block ivec (ctr_crypt block ivec inp) = inp"
    using xor_bytes_twice [OF ks] unfolding c by simp
qed

end
