(* ===== verification/Sha1.thy ===== *)
theory Sha1
  imports AesCore
begin

text \<open>
  SHA-1 of OpenSSL, \<open>crypto/sha/sha_local.h\<close> with \<open>include/crypto/md32_common.h\<close>.  The block function is
  written out in the source, one macro call per step with the registers renamed from call to
  call and a window of sixteen words \<open>X(0)\<close> to \<open>X(15)\<close> updated in place.  It is modelled the same
  way: the text of the function is the list \<open>sha1_text\<close> of its statements, call by call, and the
  macros are their meaning.  (The loads are those of the branch for little-endian machines.)
\<close>

section \<open>The digest\<close>

text \<open>The five words of a state, and the 20 bytes they are given out as.\<close>

type_synonym sha1_state = "u32 \<times> u32 \<times> u32 \<times> u32 \<times> u32"

abbreviation (input) SHA_DIGEST_LENGTH :: nat where "SHA_DIGEST_LENGTH \<equiv> 20"

definition digest_bytes :: "sha1_state \<Rightarrow> bytes" where
  "digest_bytes = (\<lambda>(a, b, c, d, e). PUTU32 a @ PUTU32 b @ PUTU32 c @ PUTU32 d @ PUTU32 e)"

lemma length_digest_bytes [simp]: "length (digest_bytes h) = 20"
  by (simp add: digest_bytes_def PUTU32_def split: prod.splits)

section \<open>Macros\<close>

definition ROTATE :: "u32 \<Rightarrow> nat \<Rightarrow> u32" where
  "ROTATE a n = push_bit n a OR drop_bit (32 - n) (a AND 0xffffffff)"

definition HOST_c2l :: "bytes \<Rightarrow> u32" where
  "HOST_c2l c = push_bit 24 (ucast (c ! 0)) OR push_bit 16 (ucast (c ! 1)) OR push_bit 8 (ucast (c ! 2)) OR ucast (c ! 3)"

definition HOST_l2c :: "u32 \<Rightarrow> bytes" where
  "HOST_l2c l = [ucast (drop_bit 24 l AND 0xff), ucast (drop_bit 16 l AND 0xff), ucast (drop_bit 8 l AND 0xff), ucast (l AND 0xff)]"

abbreviation (input) K_00_19 :: u32 where "K_00_19 \<equiv> 0x5a827999"
abbreviation (input) K_20_39 :: u32 where "K_20_39 \<equiv> 0x6ed9eba1"
abbreviation (input) K_40_59 :: u32 where "K_40_59 \<equiv> 0x8f1bbcdc"
abbreviation (input) K_60_79 :: u32 where "K_60_79 \<equiv> 0xca62c1d6"

definition F_00_19 :: "u32 \<Rightarrow> u32 \<Rightarrow> u32 \<Rightarrow> u32" where "F_00_19 b c d = ((c XOR d) AND b) XOR d"
definition F_20_39 :: "u32 \<Rightarrow> u32 \<Rightarrow> u32 \<Rightarrow> u32" where "F_20_39 b c d = b XOR c XOR d"
definition F_40_59 :: "u32 \<Rightarrow> u32 \<Rightarrow> u32 \<Rightarrow> u32" where "F_40_59 b c d = (b AND c) OR ((b OR c) AND d)"
definition F_60_79 :: "u32 \<Rightarrow> u32 \<Rightarrow> u32 \<Rightarrow> u32" where "F_60_79 b c d = F_20_39 b c d"

section \<open>The block function\<close>

text \<open>The registers \<open>A\<close> to \<open>E\<close> and \<open>T\<close>, the window, and the rest of the data.\<close>

record sha1_vars =
  sha1_R :: "u32 list"
  sha1_X :: "u32 list"
  sha1_data :: bytes

type_synonym sha1_regs = "nat \<times> nat \<times> nat \<times> nat \<times> nat \<times> nat"

datatype sha1_stmt = LOAD nat | BODY_00_15 sha1_regs nat
  | BODY_16_19 sha1_regs "nat \<times> nat \<times> nat \<times> nat \<times> nat" | BODY_20_31 sha1_regs "nat \<times> nat \<times> nat \<times> nat \<times> nat"
  | BODY_32_39 sha1_regs "nat \<times> nat \<times> nat \<times> nat" | BODY_40_59 sha1_regs "nat \<times> nat \<times> nat \<times> nat"
  | BODY_60_79 sha1_regs "nat \<times> nat \<times> nat \<times> nat"

definition Xupdate :: "nat \<Rightarrow> nat \<Rightarrow> nat \<Rightarrow> nat \<Rightarrow> nat \<Rightarrow> nat \<Rightarrow> sha1_vars \<Rightarrow> sha1_vars" where
  "Xupdate a ix ia ib ic idd v =
    (let x = sha1_X v ! ia XOR sha1_X v ! ib XOR sha1_X v ! ic XOR sha1_X v ! idd; x = ROTATE x 1
     in v\<lparr>sha1_R := (sha1_R v)[a := x], sha1_X := (sha1_X v)[ix := x]\<rparr>)"

text \<open>\<open>(f) += (e) + K + ROTATE((a),5) + F((b),(c),(d)); (b) = ROTATE((b),30)\<close>, with \<open>x\<close> the value of \<open>f\<close> before.\<close>

fun sha1_mix :: "sha1_regs \<Rightarrow> u32 \<Rightarrow> (u32 \<Rightarrow> u32 \<Rightarrow> u32 \<Rightarrow> u32) \<Rightarrow> u32 \<Rightarrow> sha1_vars \<Rightarrow> sha1_vars" where
  "sha1_mix (a, b, c, d, e, f) K F x v =
    (let R = sha1_R v; R = R[f := x + R ! e + K + ROTATE (R ! a) 5 + F (R ! b) (R ! c) (R ! d)]
     in v\<lparr>sha1_R := R[b := ROTATE (R ! b) 30]\<rparr>)"

fun sha1_exec :: "sha1_stmt \<Rightarrow> sha1_vars \<Rightarrow> sha1_vars" where
  "sha1_exec (LOAD i) v = v\<lparr>sha1_X := (sha1_X v)[i := HOST_c2l (sha1_data v)], sha1_data := drop 4 (sha1_data v)\<rparr>"
| "sha1_exec (BODY_00_15 r xi) v = sha1_mix r K_00_19 F_00_19 (sha1_X v ! xi) v"
| "sha1_exec (BODY_16_19 (a, b, c, d, e, f) (xi, xa, xb, xc, xd)) v =
    (let v = Xupdate f xi xa xb xc xd v in sha1_mix (a, b, c, d, e, f) K_00_19 F_00_19 (sha1_R v ! f) v)"
| "sha1_exec (BODY_20_31 (a, b, c, d, e, f) (xi, xa, xb, xc, xd)) v =
    (let v = Xupdate f xi xa xb xc xd v in sha1_mix (a, b, c, d, e, f) K_20_39 F_20_39 (sha1_R v ! f) v)"
| "sha1_exec (BODY_32_39 (a, b, c, d, e, f) (xa, xb, xc, xd)) v =
    (let v = Xupdate f xa xa xb xc xd v in sha1_mix (a, b, c, d, e, f) K_20_39 F_20_39 (sha1_R v ! f) v)"
| "sha1_exec (BODY_40_59 (a, b, c, d, e, f) (xa, xb, xc, xd)) v =
    (let v = Xupdate f xa xa xb xc xd v in sha1_mix (a, b, c, d, e, f) K_40_59 F_40_59 (sha1_R v ! f) v)"
| "sha1_exec (BODY_60_79 (a, b, c, d, e, f) (xa, xb, xc, xd)) v =
    (let v = Xupdate f xa xa xb xc xd v in sha1_mix (a, b, c, d, e, f) K_60_79 F_60_79 (sha1_X v ! xa) v)"

abbreviation (input) rA :: nat where "rA \<equiv> 0"
abbreviation (input) rB :: nat where "rB \<equiv> 1"
abbreviation (input) rC :: nat where "rC \<equiv> 2"
abbreviation (input) rD :: nat where "rD \<equiv> 3"
abbreviation (input) rE :: nat where "rE \<equiv> 4"
abbreviation (input) rT :: nat where "rT \<equiv> 5"

definition sha1_text :: "sha1_stmt list" where
  "sha1_text = [
   LOAD 0, LOAD 1,
   BODY_00_15 (rA, rB, rC, rD, rE, rT) 0, LOAD 2,
   BODY_00_15 (rT, rA, rB, rC, rD, rE) 1, LOAD 3,
   BODY_00_15 (rE, rT, rA, rB, rC, rD) 2, LOAD 4,
   BODY_00_15 (rD, rE, rT, rA, rB, rC) 3, LOAD 5,
   BODY_00_15 (rC, rD, rE, rT, rA, rB) 4, LOAD 6,
   BODY_00_15 (rB, rC, rD, rE, rT, rA) 5, LOAD 7,
   BODY_00_15 (rA, rB, rC, rD, rE, rT) 6, LOAD 8,
   BODY_00_15 (rT, rA, rB, rC, rD, rE) 7, LOAD 9,
   BODY_00_15 (rE, rT, rA, rB, rC, rD) 8, LOAD 10,
   BODY_00_15 (rD, rE, rT, rA, rB, rC) 9, LOAD 11,
   BODY_00_15 (rC, rD, rE, rT, rA, rB) 10, LOAD 12,
   BODY_00_15 (rB, rC, rD, rE, rT, rA) 11, LOAD 13,
   BODY_00_15 (rA, rB, rC, rD, rE, rT) 12, LOAD 14,
   BODY_00_15 (rT, rA, rB, rC, rD, rE) 13, LOAD 15,
   BODY_00_15 (rE, rT, rA, rB, rC, rD) 14, BODY_00_15 (rD, rE, rT, rA, rB, rC) 15,
   BODY_16_19 (rC, rD, rE, rT, rA, rB) (0, 0, 2, 8, 13), BODY_16_19 (rB, rC, rD, rE, rT, rA) (1, 1, 3, 9, 14),
   BODY_16_19 (rA, rB, rC, rD, rE, rT) (2, 2, 4, 10, 15), BODY_16_19 (rT, rA, rB, rC, rD, rE) (3, 3, 5, 11, 0),
   BODY_20_31 (rE, rT, rA, rB, rC, rD) (4, 4, 6, 12, 1), BODY_20_31 (rD, rE, rT, rA, rB, rC) (5, 5, 7, 13, 2),
   BODY_20_31 (rC, rD, rE, rT, rA, rB) (6, 6, 8, 14, 3), BODY_20_31 (rB, rC, rD, rE, rT, rA) (7, 7, 9, 15, 4),
   BODY_20_31 (rA, rB, rC, rD, rE, rT) (8, 8, 10, 0, 5), BODY_20_31 (rT, rA, rB, rC, rD, rE) (9, 9, 11, 1, 6),
   BODY_20_31 (rE, rT, rA, rB, rC, rD) (10, 10, 12, 2, 7), BODY_20_31 (rD, rE, rT, rA, rB, rC) (11, 11, 13, 3, 8),
   BODY_20_31 (rC, rD, rE, rT, rA, rB) (12, 12, 14, 4, 9), BODY_20_31 (rB, rC, rD, rE, rT, rA) (13, 13, 15, 5, 10),
   BODY_20_31 (rA, rB, rC, rD, rE, rT) (14, 14, 0, 6, 11), BODY_20_31 (rT, rA, rB, rC, rD, rE) (15, 15, 1, 7, 12),
   BODY_32_39 (rE, rT, rA, rB, rC, rD) (0, 2, 8, 13), BODY_32_39 (rD, rE, rT, rA, rB, rC) (1, 3, 9, 14),
   BODY_32_39 (rC, rD, rE, rT, rA, rB) (2, 4, 10, 15), BODY_32_39 (rB, rC, rD, rE, rT, rA) (3, 5, 11, 0),
   BODY_32_39 (rA, rB, rC, rD, rE, rT) (4, 6, 12, 1), BODY_32_39 (rT, rA, rB, rC, rD, rE) (5, 7, 13, 2),
   BODY_32_39 (rE, rT, rA, rB, rC, rD) (6, 8, 14, 3), BODY_32_39 (rD, rE, rT, rA, rB, rC) (7, 9, 15, 4),
   BODY_40_59 (rC, rD, rE, rT, rA, rB) (8, 10, 0, 5), BODY_40_59 (rB, rC, rD, rE, rT, rA) (9, 11, 1, 6),
   BODY_40_59 (rA, rB, rC, rD, rE, rT) (10, 12, 2, 7), BODY_40_59 (rT, rA, rB, rC, rD, rE) (11, 13, 3, 8),
   BODY_40_59 (rE, rT, rA, rB, rC, rD) (12, 14, 4, 9), BODY_40_59 (rD, rE, rT, rA, rB, rC) (13, 15, 5, 10),
   BODY_40_59 (rC, rD, rE, rT, rA, rB) (14, 0, 6, 11), BODY_40_59 (rB, rC, rD, rE, rT, rA) (15, 1, 7, 12),
   BODY_40_59 (rA, rB, rC, rD, rE, rT) (0, 2, 8, 13), BODY_40_59 (rT, rA, rB, rC, rD, rE) (1, 3, 9, 14),
   BODY_40_59 (rE, rT, rA, rB, rC, rD) (2, 4, 10, 15), BODY_40_59 (rD, rE, rT, rA, rB, rC) (3, 5, 11, 0),
   BODY_40_59 (rC, rD, rE, rT, rA, rB) (4, 6, 12, 1), BODY_40_59 (rB, rC, rD, rE, rT, rA) (5, 7, 13, 2),
   BODY_40_59 (rA, rB, rC, rD, rE, rT) (6, 8, 14, 3), BODY_40_59 (rT, rA, rB, rC, rD, rE) (7, 9, 15, 4),
   BODY_40_59 (rE, rT, rA, rB, rC, rD) (8, 10, 0, 5), BODY_40_59 (rD, rE, rT, rA, rB, rC) (9, 11, 1, 6),
   BODY_40_59 (rC, rD, rE, rT, rA, rB) (10, 12, 2, 7), BODY_40_59 (rB, rC, rD, rE, rT, rA) (11, 13, 3, 8),
   BODY_60_79 (rA, rB, rC, rD, rE, rT) (12, 14, 4, 9), BODY_60_79 (rT, rA, rB, rC, rD, rE) (13, 15, 5, 10),
   BODY_60_79 (rE, rT, rA, rB, rC, rD) (14, 0, 6, 11), BODY_60_79 (rD, rE, rT, rA, rB, rC) (15, 1, 7, 12),
   BODY_60_79 (rC, rD, rE, rT, rA, rB) (0, 2, 8, 13), BODY_60_79 (rB, rC, rD, rE, rT, rA) (1, 3, 9, 14),
   BODY_60_79 (rA, rB, rC, rD, rE, rT) (2, 4, 10, 15), BODY_60_79 (rT, rA, rB, rC, rD, rE) (3, 5, 11, 0),
   BODY_60_79 (rE, rT, rA, rB, rC, rD) (4, 6, 12, 1), BODY_60_79 (rD, rE, rT, rA, rB, rC) (5, 7, 13, 2),
   BODY_60_79 (rC, rD, rE, rT, rA, rB) (6, 8, 14, 3), BODY_60_79 (rB, rC, rD, rE, rT, rA) (7, 9, 15, 4),
   BODY_60_79 (rA, rB, rC, rD, rE, rT) (8, 10, 0, 5), BODY_60_79 (rT, rA, rB, rC, rD, rE) (9, 11, 1, 6),
   BODY_60_79 (rE, rT, rA, rB, rC, rD) (10, 12, 2, 7), BODY_60_79 (rD, rE, rT, rA, rB, rC) (11, 13, 3, 8),
   BODY_60_79 (rC, rD, rE, rT, rA, rB) (12, 14, 4, 9), BODY_60_79 (rB, rC, rD, rE, rT, rA) (13, 15, 5, 10),
   BODY_60_79 (rA, rB, rC, rD, rE, rT) (14, 0, 6, 11), BODY_60_79 (rT, rA, rB, rC, rD, rE) (15, 1, 7, 12)]"

text \<open>One block: the registers start from the hash value, \<open>T\<close> and the window with whatever they hold.\<close>

definition sha1_block :: "bytes \<Rightarrow> sha1_state \<Rightarrow> sha1_state" where
  "sha1_block blk = (\<lambda>(h0, h1, h2, h3, h4).
    let v = fold sha1_exec sha1_text \<lparr>sha1_R = [h0, h1, h2, h3, h4, 0], sha1_X = replicate 16 0, sha1_data = blk\<rparr>; R = sha1_R v
    in (h0 + R ! rE, h1 + R ! rT, h2 + R ! rA, h3 + R ! rB, h4 + R ! rC))"

text \<open>\<open>for (;;) ... if (--num == 0) break;\<close>, called with \<open>num > 0\<close>.\<close>

fun sha1_block_data_order :: "sha1_state \<Rightarrow> bytes \<Rightarrow> nat \<Rightarrow> sha1_state" where
  "sha1_block_data_order h p 0 = h"
| "sha1_block_data_order h p (Suc num) = sha1_block_data_order (sha1_block (take 64 p) h) (drop 64 p) num"

section \<open>The context\<close>

record SHA_CTX =
  sha_h :: sha1_state
  sha_Nl :: u32
  sha_Nh :: u32
  sha_data :: bytes
  sha_num :: nat

abbreviation (input) HASH_CBLOCK :: nat where "HASH_CBLOCK \<equiv> 64"

definition SHA1_Init :: SHA_CTX where
  "SHA1_Init = \<lparr>sha_h = (0x67452301, 0xefcdab89, 0x98badcfe, 0x10325476, 0xc3d2e1f0), sha_Nl = 0, sha_Nh = 0,
     sha_data = replicate 64 0, sha_num = 0\<rparr>"

text \<open>The rest of \<open>SHA1_Update\<close> once the buffer is empty.\<close>

definition SHA1_Update_whole :: "SHA_CTX \<Rightarrow> bytes \<Rightarrow> SHA_CTX option" where
  "SHA1_Update_whole c data = do {
     let n = length data div HASH_CBLOCK;
     let c = (if n > 0 then c\<lparr>sha_h := sha1_block_data_order (sha_h c) data n\<rparr> else c);
     let data = (if n > 0 then drop (n * HASH_CBLOCK) data else data);
     if length data \<noteq> 0 then do {
       p \<leftarrow> wr (sha_data c) 0 data;
       Some (c\<lparr>sha_num := length data, sha_data := p\<rparr>) }
     else Some c }"

definition SHA1_Update :: "SHA_CTX \<Rightarrow> bytes \<Rightarrow> SHA_CTX option" where
  "SHA1_Update c data =
    (let len = length data in
     if len = 0 then Some c
     else do {
       let l = sha_Nl c + push_bit 3 (word_of_nat len);
       let Nh = (if l < sha_Nl c then sha_Nh c + 1 else sha_Nh c) + word_of_nat (drop_bit 29 len);
       let c = c\<lparr>sha_Nl := l, sha_Nh := Nh\<rparr>;
       let n = sha_num c;
       if n \<noteq> 0 then
         if len \<ge> HASH_CBLOCK \<or> len + n \<ge> HASH_CBLOCK then do {
           p \<leftarrow> wr (sha_data c) n (take (HASH_CBLOCK - n) data);
           let c = c\<lparr>sha_h := sha1_block_data_order (sha_h c) p 1, sha_num := 0, sha_data := replicate HASH_CBLOCK 0\<rparr>;
           SHA1_Update_whole c (drop (HASH_CBLOCK - n) data) }
         else do {
           p \<leftarrow> wr (sha_data c) n data;
           Some (c\<lparr>sha_data := p, sha_num := n + len\<rparr>) }
       else SHA1_Update_whole c data })"

text \<open>The digest is the five words of the hash value, which \<open>HASH_MAKE_STRING\<close> writes out.\<close>

definition SHA1_Final :: "SHA_CTX \<Rightarrow> (sha1_state \<times> SHA_CTX) option" where
  "SHA1_Final c = do {
     let n = sha_num c;
     p \<leftarrow> wr (sha_data c) n [0x80];
     let n = n + 1;
     (p, n, h) \<leftarrow> (if n > HASH_CBLOCK - 8 then do {
         p \<leftarrow> wr p n (replicate (HASH_CBLOCK - n) 0);
         Some (p, 0, sha1_block_data_order (sha_h c) p 1) }
       else Some (p, n, sha_h c));
     p \<leftarrow> wr p n (replicate (HASH_CBLOCK - 8 - n) 0);
     p \<leftarrow> wr p (HASH_CBLOCK - 8) (HOST_l2c (sha_Nh c) @ HOST_l2c (sha_Nl c));
     let h = sha1_block_data_order h p 1;
     Some (h, c\<lparr>sha_h := h, sha_num := 0, sha_data := replicate HASH_CBLOCK 0\<rparr>) }"

definition HASH_MAKE_STRING :: "sha1_state \<Rightarrow> bytes" where
  "HASH_MAKE_STRING = (\<lambda>(h0, h1, h2, h3, h4). HOST_l2c h0 @ HOST_l2c h1 @ HOST_l2c h2 @ HOST_l2c h3 @ HOST_l2c h4)"

end
