(* ===== verification/Sha1Spec.thy ===== *)
theory Sha1Spec
  imports Sha1
begin

text \<open>
  The Secure Hash Standard, FIPS 180-4, for SHA-1, and the equivalence of OpenSSL's code with it: the
  unrolled block function, and the hash of a message handed over in pieces.
\<close>

section \<open>FIPS 180-4\<close>

definition fips_f :: "nat \<Rightarrow> u32 \<Rightarrow> u32 \<Rightarrow> u32 \<Rightarrow> u32" where
  "fips_f t x y z = (if t < 20 then (x AND y) XOR (NOT x AND z) else if t < 40 then x XOR y XOR z
     else if t < 60 then (x AND y) XOR (x AND z) XOR (y AND z) else x XOR y XOR z)"

definition fips_K :: "nat \<Rightarrow> u32" where
  "fips_K t = (if t < 20 then 0x5a827999 else if t < 40 then 0x6ed9eba1 else if t < 60 then 0x8f1bbcdc else 0xca62c1d6)"

fun fips_W :: "bytes \<Rightarrow> nat \<Rightarrow> u32" where
  "fips_W M t = (if t < 16 then GETU32 M (4 * t)
     else word_rotl 1 (fips_W M (t - 3) XOR fips_W M (t - 8) XOR fips_W M (t - 14) XOR fips_W M (t - 16)))"

declare fips_W.simps [simp del]

fun fips_step :: "bytes \<Rightarrow> nat \<Rightarrow> sha1_state \<Rightarrow> sha1_state" where
  "fips_step M t (a, b, c, d, e) = (word_rotl 5 a + fips_f t b c d + e + fips_K t + fips_W M t, a, word_rotl 30 b, c, d)"

fun add_state :: "sha1_state \<Rightarrow> sha1_state \<Rightarrow> sha1_state" where
  "add_state (a, b, c, d, e) (a', b', c', d', e') = (a + a', b + b', c + c', d + d', e + e')"

definition fips_block :: "bytes \<Rightarrow> sha1_state \<Rightarrow> sha1_state" where
  "fips_block M h = add_state h (fold (fips_step M) [0..<80] h)"

function fips_blocks :: "sha1_state \<Rightarrow> bytes \<Rightarrow> sha1_state" where
  "fips_blocks h p = (if length p < 64 then h else fips_blocks (fips_block (take 64 p) h) (drop 64 p))"
  by pat_completeness auto
termination by (relation "measure (\<lambda>(h, p). length p)") auto

declare fips_blocks.simps [simp del]

definition fips_length :: "nat \<Rightarrow> bytes" where
  "fips_length n = map (\<lambda>i. word_of_nat (n div 256 ^ (7 - i))) [0..<8]"

definition fips_pad :: "bytes \<Rightarrow> bytes" where
  "fips_pad m = m @ [0x80] @ replicate ((119 - length m mod 64) mod 64) 0 @ fips_length (8 * length m)"

definition fips_sha1 :: "bytes \<Rightarrow> sha1_state" where
  "fips_sha1 m = fips_blocks (0x67452301, 0xefcdab89, 0x98badcfe, 0x10325476, 0xc3d2e1f0) (fips_pad m)"

section \<open>The macros\<close>

lemma mod_32_wrap: "n \<le> m \<Longrightarrow> m < 32 \<Longrightarrow> n < 32 \<Longrightarrow> (m + 32 - n) mod 32 = m - n" for m n :: nat
proof -
  assume "n \<le> m" "m < 32" "n < 32"
  then have "m + 32 - n = (m - n) + 32" by simp
  with \<open>m < 32\<close> show ?thesis by (simp only: mod_add_self2) simp
qed

lemma ROTATE_rotl: "0 < n \<Longrightarrow> n < 32 \<Longrightarrow> ROTATE a n = word_rotl n a"
proof (rule bit_word_eqI)
  fix m assume "0 < n" "n < 32" "m < LENGTH(32)"
  then have *: "0 < n" "n < 32" "m < 32" by simp_all
  have mask: "a AND 0xffffffff = a"
    using take_bit_eq_mask [of 32 a] by (simp add: mask_eq_exp_minus_1 take_bit_word_eq_self)
  have rotl: "bit (word_rotl n a) m = bit a ((m + (32 - n)) mod 32)"
    using * by (simp add: bit_word_rotl_iff)
  have rot: "bit (ROTATE a n) m = (n \<le> m \<and> bit a (m - n) \<or> bit a (m + (32 - n)))"
    using * unfolding ROTATE_def mask by (simp add: bit_or_iff bit_push_bit_iff bit_drop_bit_eq add.commute)
  show "bit (ROTATE a n) m = bit (word_rotl n a) m"
  proof (cases "n \<le> m")
    case True
    then have "(m + (32 - n)) mod 32 = m - n" "\<not> bit a (m + (32 - n))"
      using mod_32_wrap [of n m] * by (auto intro!: impossible_bit)
    with True show ?thesis unfolding rotl rot by simp
  next
    case False
    then have "(m + (32 - n)) mod 32 = m + (32 - n)" using * by simp
    with False show ?thesis unfolding rotl rot by simp
  qed
qed

lemma F_fips: "F_00_19 b c d = (b AND c) XOR (NOT b AND d)" "F_40_59 b c d = (b AND c) XOR (b AND d) XOR (c AND d)"
  by (rule bit_word_eqI; auto simp: F_00_19_def F_40_59_def bit_simps)+

lemma c2l_GETU32: "HOST_c2l (drop i c) = GETU32 c i" if "i + 4 \<le> length c"
proof -
  have "push_bit 24 (ucast a) OR push_bit 16 (ucast b) OR push_bit 8 (ucast c) OR ucast d = be32 a b c d" for a b c d :: u8
    by (rule bit_word_eqI) (auto simp: be32_def bit_simps)
  then show ?thesis using that by (simp add: HOST_c2l_def GETU32_def)
qed

section \<open>The text of the block function\<close>

definition reg_at :: "nat \<Rightarrow> nat \<Rightarrow> nat" where
  "reg_at t j = (j + 5 * t) mod 6"

definition regs_at :: "nat \<Rightarrow> sha1_regs" where
  "regs_at t = (reg_at t 0, reg_at t 1, reg_at t 2, reg_at t 3, reg_at t 4, reg_at t 5)"

definition stmt_at :: "nat \<Rightarrow> sha1_stmt" where
  "stmt_at t = (let xa = t mod 16; xb = (t + 2) mod 16; xc = (t + 8) mod 16; xd = (t + 13) mod 16 in
     if t < 16 then BODY_00_15 (regs_at t) t else if t < 20 then BODY_16_19 (regs_at t) (xa, xa, xb, xc, xd)
     else if t < 32 then BODY_20_31 (regs_at t) (xa, xa, xb, xc, xd) else if t < 40 then BODY_32_39 (regs_at t) (xa, xb, xc, xd)
     else if t < 60 then BODY_40_59 (regs_at t) (xa, xb, xc, xd) else BODY_60_79 (regs_at t) (xa, xb, xc, xd))"

definition stmts_at :: "nat \<Rightarrow> sha1_stmt list" where
  "stmts_at t = (if t < 15 then [LOAD (t + 1)] else []) @ [stmt_at t]"

lemma sha1_text_generic: "sha1_text = LOAD 0 # concat (map stmts_at [0..<80])"
  by code_simp

section \<open>One step\<close>

definition regs_hold :: "nat \<Rightarrow> sha1_state \<Rightarrow> u32 list \<Rightarrow> bool" where
  "regs_hold t = (\<lambda>(a, b, c, d, e) R. length R = 6 \<and> R ! reg_at t 0 = a \<and> R ! reg_at t 1 = b \<and> R ! reg_at t 2 = c
     \<and> R ! reg_at t 3 = d \<and> R ! reg_at t 4 = e)"

definition window_holds :: "bytes \<Rightarrow> nat \<Rightarrow> u32 list \<Rightarrow> bool" where
  "window_holds M t X \<longleftrightarrow> length X = 16 \<and> (\<forall>s. t \<le> s + 16 \<longrightarrow> s < max t (min (t + 1) 16) \<longrightarrow> X ! (s mod 16) = fips_W M s)"

definition data_left :: "bytes \<Rightarrow> nat \<Rightarrow> bytes \<Rightarrow> bool" where
  "data_left M t p \<longleftrightarrow> p = drop (4 * min (t + 1) 16) M"

definition step_inv :: "bytes \<Rightarrow> nat \<Rightarrow> sha1_state \<Rightarrow> sha1_vars \<Rightarrow> bool" where
  "step_inv M t h v \<longleftrightarrow> regs_hold t h (sha1_R v) \<and> window_holds M t (sha1_X v) \<and> data_left M t (sha1_data v)"

lemma reg_at_less [simp]: "reg_at t j < 6"
  by (simp add: reg_at_def)

lemma reg_at_inj: "i < 6 \<Longrightarrow> j < 6 \<Longrightarrow> reg_at t i = reg_at t j \<longleftrightarrow> i = j"
proof -
  assume "i < 6" "j < 6"
  moreover have "i + 5 * t + t = i + 6 * t" "j + 5 * t + t = j + 6 * t" by simp_all
  ultimately show ?thesis using mod_add_cong [of "i + 5 * t" 6 "j + 5 * t" t t] unfolding reg_at_def
    by (metis mod_less mod_mult_self2)
qed

lemma reg_at_Suc: "reg_at (Suc t) 0 = reg_at t 5" "reg_at (Suc t) (Suc j) = reg_at t j"
proof -
  have "Suc j + 5 * Suc t = j + 5 * t + 6" by simp
  then show "reg_at (Suc t) (Suc j) = reg_at t j" by (simp only: reg_at_def mod_add_self2)
qed (simp add: reg_at_def add.commute)

lemma reg_at_next: "reg_at (Suc t) (Suc 0) = reg_at t 0" "reg_at (Suc t) 2 = reg_at t (Suc 0)" "reg_at (Suc t) 3 = reg_at t 2"
    "reg_at (Suc t) 4 = reg_at t 3" "reg_at (Suc t) 0 = reg_at t 5"
  using reg_at_Suc(2) [of t 0] reg_at_Suc(2) [of t 1] reg_at_Suc(2) [of t 2] reg_at_Suc(2) [of t 3] reg_at_Suc(1)
  by (simp_all add: numeral_eq_Suc)

lemma mix_regs:
  assumes "regs_hold t (a, b, c, d, e) (sha1_R v)"
  shows "regs_hold (Suc t) (x + e + K + ROTATE a 5 + F b c d, a, ROTATE b 30, c, d) (sha1_R (sha1_mix (regs_at t) K F x v))"
  using assms by (simp add: regs_hold_def regs_at_def Let_def reg_at_next reg_at_inj)

lemma mix_keeps [simp]: "sha1_X (sha1_mix r K F x v) = sha1_X v" "sha1_data (sha1_mix r K F x v) = sha1_data v"
  by (cases r; simp add: Let_def)+

lemma fips_W_unfold: "t < 16 \<Longrightarrow> fips_W M t = GETU32 M (4 * t)"
    "16 \<le> t \<Longrightarrow> fips_W M t = word_rotl 1 (fips_W M (t - 3) XOR fips_W M (t - 8) XOR fips_W M (t - 14) XOR fips_W M (t - 16))"
  by (simp_all add: fips_W.simps [of M t])

lemma window_load:
  assumes "length M = 64" "t < 15" "window_holds M t X"
  shows "window_holds M (Suc t) (X[Suc t := HOST_c2l (drop (4 * Suc t) M)])"
proof -
  have "HOST_c2l (drop (4 * Suc t) M) = fips_W M (Suc t)"
    using assms by (simp add: c2l_GETU32 fips_W_unfold)
  with assms show ?thesis by (auto simp: window_holds_def nth_list_update)
qed

lemma window_full: "window_holds M 15 X \<Longrightarrow> window_holds M 16 X"
  by (simp add: window_holds_def)

lemma window_update:
  assumes "16 \<le> t" "window_holds M t X"
  shows "window_holds M (Suc t) (X[t mod 16 := fips_W M t])"
proof -
  have "t mod 16 \<noteq> s mod 16" if "t \<le> 15 + s" "s < t" for s
    using that mod_eq_dvd_iff_nat [of s t 16] dvd_imp_le [of 16 "t - s"] by fastforce
  with assms show ?thesis by (auto simp: window_holds_def nth_list_update less_Suc_eq)
qed

lemma window_value:
  assumes "16 \<le> t" "window_holds M t X"
  shows "ROTATE (X ! (t mod 16) XOR X ! ((t + 2) mod 16) XOR X ! ((t + 8) mod 16) XOR X ! ((t + 13) mod 16)) 1 = fips_W M t"
proof -
  have "(t + k) mod 16 = (t - (16 - k)) mod 16" if "k \<le> 16" for k
    using assms(1) that mod_add_self2 [of "t - (16 - k)" 16] by simp
  from this [of 0] this [of 2] this [of 8] this [of 13]
  have "t mod 16 = (t - 16) mod 16" "(t + 2) mod 16 = (t - 14) mod 16" "(t + 8) mod 16 = (t - 8) mod 16"
      "(t + 13) mod 16 = (t - 3) mod 16" by simp_all
  with assms show ?thesis by (simp add: window_holds_def ROTATE_rotl fips_W_unfold(2) ac_simps)
qed

lemma step_early:
  assumes "length M = 64" "t < 16" "step_inv M t h v"
  shows "step_inv M (Suc t) (fips_step M t h) (fold sha1_exec (stmts_at t) v)"
proof -
  obtain a b c d e where h: "h = (a, b, c, d, e)" by (cases h)
  define v' where "v' = (if t < 15 then sha1_exec (LOAD (Suc t)) v else v)"
  have v': "sha1_R v' = sha1_R v" "window_holds M (Suc t) (sha1_X v')" "data_left M (Suc t) (sha1_data v')"
    using assms window_load [OF assms(1), of t] window_full [of M "sha1_X v"]
    by (auto simp: v'_def step_inv_def data_left_def less_Suc_eq numeral_eq_Suc)
  moreover have "sha1_X v' ! t = fips_W M t"
    using v'(2) assms(2) by (simp add: window_holds_def)
  moreover have "fold sha1_exec (stmts_at t) v = sha1_mix (regs_at t) K_00_19 F_00_19 (sha1_X v' ! t) v'"
    using assms(2) by (simp add: stmts_at_def stmt_at_def v'_def)
  moreover have "fips_step M t h = (fips_W M t + e + K_00_19 + ROTATE a 5 + F_00_19 b c d, a, ROTATE b 30, c, d)"
    using assms(2) by (simp add: h fips_K_def fips_f_def F_fips ROTATE_rotl ac_simps)
  ultimately show ?thesis
    using assms(3) mix_regs [of t a b c d e v' "fips_W M t" K_00_19 F_00_19] by (simp add: step_inv_def h del: fips_step.simps)
qed

definition sha1_K :: "nat \<Rightarrow> u32" where
  "sha1_K t = (if t < 20 then K_00_19 else if t < 40 then K_20_39 else if t < 60 then K_40_59 else K_60_79)"

definition sha1_F :: "nat \<Rightarrow> u32 \<Rightarrow> u32 \<Rightarrow> u32 \<Rightarrow> u32" where
  "sha1_F t = (if t < 20 then F_00_19 else if t < 40 then F_20_39 else if t < 60 then F_40_59 else F_60_79)"

lemma sha1_K_F: "sha1_K t = fips_K t" "sha1_F t b c d = fips_f t b c d"
  by (simp_all add: sha1_K_def fips_K_def sha1_F_def fips_f_def F_fips F_20_39_def F_60_79_def ac_simps)

lemma Xupdate_at:
  assumes "16 \<le> t" "window_holds M t (sha1_X v)" "length (sha1_R v) = 6"
  shows "Xupdate (reg_at t 5) (t mod 16) (t mod 16) ((t + 2) mod 16) ((t + 8) mod 16) ((t + 13) mod 16) v
    = v\<lparr>sha1_R := (sha1_R v)[reg_at t 5 := fips_W M t], sha1_X := (sha1_X v)[t mod 16 := fips_W M t]\<rparr>"
  using window_value [OF assms(1,2)] by (simp add: Xupdate_def Let_def)

lemma exec_late:
  assumes "16 \<le> t" "window_holds M t (sha1_X v)" "length (sha1_R v) = 6"
  shows "sha1_exec (stmt_at t) v = sha1_mix (regs_at t) (sha1_K t) (sha1_F t) (fips_W M t)
    (v\<lparr>sha1_R := (sha1_R v)[reg_at t 5 := fips_W M t], sha1_X := (sha1_X v)[t mod 16 := fips_W M t]\<rparr>)"
proof -
  have "t mod 16 < length (sha1_X v)" using assms(2) by (simp add: window_holds_def)
  with assms Xupdate_at [OF assms] show ?thesis
    by (simp add: stmt_at_def regs_at_def sha1_K_def sha1_F_def Let_def del: sha1_mix.simps)
qed

lemma step_late:
  assumes "16 \<le> t" "step_inv M t h v"
  shows "step_inv M (Suc t) (fips_step M t h) (fold sha1_exec (stmts_at t) v)"
proof -
  obtain a b c d e where h: "h = (a, b, c, d, e)" by (cases h)
  define v' where "v' = v\<lparr>sha1_R := (sha1_R v)[reg_at t 5 := fips_W M t], sha1_X := (sha1_X v)[t mod 16 := fips_W M t]\<rparr>"
  have i: "regs_hold t h (sha1_R v)" "window_holds M t (sha1_X v)" "data_left M t (sha1_data v)" "length (sha1_R v) = 6"
    using assms(2) by (auto simp: step_inv_def regs_hold_def h)
  then have "regs_hold t (a, b, c, d, e) (sha1_R v')"
    by (simp add: regs_hold_def v'_def h reg_at_inj)
  from mix_regs [OF this, of "fips_W M t" "sha1_K t" "sha1_F t"]
  have "regs_hold (Suc t) (fips_step M t h) (sha1_R (sha1_mix (regs_at t) (sha1_K t) (sha1_F t) (fips_W M t) v'))"
    by (simp add: h sha1_K_F ROTATE_rotl ac_simps)
  moreover have "fold sha1_exec (stmts_at t) v = sha1_mix (regs_at t) (sha1_K t) (sha1_F t) (fips_W M t) v'"
    using exec_late [OF assms(1) i(2,4)] assms(1) by (simp add: stmts_at_def v'_def)
  ultimately show ?thesis
    using window_update [OF assms(1) i(2)] i(3) assms(1) by (simp add: step_inv_def v'_def data_left_def)
qed

section \<open>The block function\<close>

lemma steps_inv:
  assumes "length M = 64" "step_inv M 0 h v"
  shows "step_inv M n (fold (fips_step M) [0..<n] h) (fold sha1_exec (concat (map stmts_at [0..<n])) v)"
proof (induction n)
  case (Suc n)
  then show ?case using step_early [OF assms(1)] step_late by (cases "n < 16") simp_all
qed (use assms(2) in simp)

lemma sha1_block_fips:
  assumes "length M = 64"
  shows "sha1_block M h = fips_block M h"
proof -
  obtain h0 h1 h2 h3 h4 where h: "h = (h0, h1, h2, h3, h4)" by (cases h)
  let ?v = "sha1_exec (LOAD 0) \<lparr>sha1_R = [h0, h1, h2, h3, h4, 0], sha1_X = replicate 16 0, sha1_data = M\<rparr>"
  have "HOST_c2l M = fips_W M 0" using assms c2l_GETU32 [of 0 M] by (simp add: fips_W_unfold)
  then have "step_inv M 0 h ?v"
    by (simp add: step_inv_def regs_hold_def h reg_at_def window_holds_def data_left_def)
  from steps_inv [OF assms this, of 80] obtain a b c d e where
    "fold (fips_step M) [0..<80] h = (a, b, c, d, e)" "regs_hold 80 (a, b, c, d, e) (sha1_R (fold sha1_exec sha1_text
       \<lparr>sha1_R = [h0, h1, h2, h3, h4, 0], sha1_X = replicate 16 0, sha1_data = M\<rparr>))"
    by (cases "fold (fips_step M) [0..<80] h") (auto simp only: step_inv_def sha1_text_generic fold.simps o_apply)
  then show ?thesis
    by (simp add: sha1_block_def fips_block_def h regs_hold_def reg_at_def Let_def)
qed

end
