(* ===== verification/Sha1Stream.thy ===== *)
theory Sha1Stream
  imports Sha1Spec
begin

text \<open>
  The streaming interface of SHA-1: the context after any sequence of \<open>SHA1_Update\<close> represents the
  concatenation of the pieces, and \<open>SHA1_Final\<close> pads it as FIPS 180-4 says.
\<close>

section \<open>Streams\<close>

text \<open>
  The interface of a digest that takes its message in pieces: \<open>represents m c\<close> relates a context to the bytes it
  was fed, and the digest of the fed bytes does not depend on where the pieces were cut.
\<close>

fun feed :: "('c \<Rightarrow> bytes \<Rightarrow> 'c option) \<Rightarrow> 'c \<Rightarrow> bytes list \<Rightarrow> 'c option" where
  "feed update c [] = Some c"
| "feed update c (d # ds) = Option.bind (update c d) (\<lambda>c. feed update c ds)"

locale streaming =
  fixes represents :: "bytes \<Rightarrow> 'c \<Rightarrow> bool"
    and init :: 'c
    and update :: "'c \<Rightarrow> bytes \<Rightarrow> 'c option"
    and final :: "'c \<Rightarrow> 'd option"
    and digest :: "bytes \<Rightarrow> 'd"
  assumes init_represents: "represents [] init"
    and update_represents: "represents m c \<Longrightarrow> \<exists>c'. update c d = Some c' \<and> represents (m @ d) c'"
    and final_digest: "represents m c \<Longrightarrow> final c = Some (digest m)"
begin

lemma feed_represents: "represents m c \<Longrightarrow> \<exists>c'. feed update c ds = Some c' \<and> represents (m @ concat ds) c'"
proof (induction ds arbitrary: m c)
  case (Cons d ds)
  from update_represents [OF Cons.prems] Cons.IH [of "m @ d"] show ?case by fastforce
qed simp

lemma stream_digest: "Option.bind (feed update init ds) final = Some (digest (concat ds))"
  using feed_represents [OF init_represents, of ds] by (auto simp: final_digest)

end

section \<open>Whole blocks\<close>

abbreviation sha1_IV :: sha1_state where
  "sha1_IV \<equiv> (0x67452301, 0xefcdab89, 0x98badcfe, 0x10325476, 0xc3d2e1f0)"

lemma fips_blocks_short [simp]: "length p < 64 \<Longrightarrow> fips_blocks h p = h"
  by (simp add: fips_blocks.simps)

lemma fips_blocks_one: "length p = 64 \<Longrightarrow> fips_blocks h (p @ q) = fips_blocks (fips_block p h) q"
  by (simp add: fips_blocks.simps [of h "p @ q"])

lemma fips_blocks_append: "length p = 64 * k \<Longrightarrow> fips_blocks h (p @ q) = fips_blocks (fips_blocks h p) q"
proof (induction k arbitrary: h p)
  case (Suc k)
  then have "length (drop 64 p) = 64 * k" "length (take 64 p) = 64" by simp_all
  then show ?case using Suc.IH fips_blocks_one [of "take 64 p" h "drop 64 p @ q"] fips_blocks_one [of "take 64 p" h "drop 64 p"]
    by (simp add: append_assoc [symmetric] del: append_assoc)
qed simp

lemma block_data_order_fips:
  "64 * n \<le> length p \<Longrightarrow> sha1_block_data_order h p n = fips_blocks h (take (64 * n) p)"
proof (induction n arbitrary: h p)
  case (Suc n)
  then have "take (64 * Suc n) p = take 64 p @ take (64 * n) (drop 64 p)" by (simp add: take_add)
  with Suc show ?case using fips_blocks_one [of "take 64 p"] by (simp add: sha1_block_fips)
qed simp

lemma fips_blocks_whole: "fips_blocks h (take (64 * (length p div 64)) p) = fips_blocks h p"
proof -
  let ?n = "64 * (length p div 64)"
  have "length (drop ?n p) < 64" by simp
  moreover have "length (take ?n p) = 64 * (length p div 64)" by simp
  ultimately show ?thesis using fips_blocks_append [of "take ?n p" _ h "drop ?n p"] by simp
qed

section \<open>The buffer\<close>

definition buffers :: "bytes \<Rightarrow> SHA_CTX \<Rightarrow> bool" where
  "buffers m c \<longleftrightarrow> sha_h c = fips_blocks sha1_IV m \<and> sha_num c = length m mod 64 \<and> length (sha_data c) = 64
     \<and> take (length m mod 64) (sha_data c) = drop (64 * (length m div 64)) m"

definition counts :: "bytes \<Rightarrow> SHA_CTX \<Rightarrow> bool" where
  "counts m c \<longleftrightarrow> 2 ^ 32 * unat (sha_Nh c) + unat (sha_Nl c) = 8 * length m mod 2 ^ 64"

definition represents :: "bytes \<Rightarrow> SHA_CTX \<Rightarrow> bool" where
  "represents m c \<longleftrightarrow> buffers m c \<and> counts m c"

lemma buffers_whole:
  assumes "buffers m c" "length m = 64 * k"
  obtains c' where "SHA1_Update_whole c data = Some c'" "buffers (m @ data) c'"
    "sha_Nl c' = sha_Nl c" "sha_Nh c' = sha_Nh c"
proof -
  let ?n = "length data div 64"
  let ?rest = "drop (64 * ?n) data"
  have h: "fips_blocks sha1_IV (m @ data) = fips_blocks (sha_h c) data"
    using assms by (simp add: fips_blocks_append [of m k] buffers_def)
  have hn: "sha1_block_data_order (sha_h c) data ?n = fips_blocks (sha_h c) data"
    by (simp add: block_data_order_fips fips_blocks_whole)
  have len: "length ?rest = length data mod 64" by (simp add: minus_mult_div_eq_mod)
  have "length (m @ data) div 64 = k + ?n" "length (m @ data) mod 64 = length data mod 64"
    using assms(2) by simp_all
  moreover have "length data mod 64 < 64" by simp
  moreover have "?n = 0 \<Longrightarrow> fips_blocks (sha_h c) data = sha_h c" by simp
  moreover define c' where "c' = c\<lparr>sha_h := fips_blocks (sha_h c) data, sha_num := length data mod 64,
     sha_data := ?rest @ drop (length ?rest) (sha_data c)\<rparr>"
  ultimately have "SHA1_Update_whole c data = Some c'" "buffers (m @ data) c'" "sha_Nl c' = sha_Nl c" "sha_Nh c' = sha_Nh c"
    using assms hn h len
    by (cases c; auto simp: SHA1_Update_whole_def buffers_def Let_def wr_in mult.commute [of _ 64])+
  then show thesis by (rule that)
qed

lemma fips_blocks_tail:
  "fips_blocks h (m @ q) = fips_blocks (fips_blocks h m) (drop (64 * (length m div 64)) m @ q)"
proof -
  let ?w = "64 * (length m div 64)"
  have "fips_blocks h (take ?w m @ drop ?w m @ q) = fips_blocks (fips_blocks h (take ?w m)) (drop ?w m @ q)"
    by (intro fips_blocks_append) simp
  then show ?thesis by (simp add: fips_blocks_whole append_assoc [symmetric] del: append_assoc)
qed

lemma one_block: "length p = 64 \<Longrightarrow> sha1_block_data_order h p 1 = fips_block p h"
  by (simp add: sha1_block_fips)

lemma fips_blocks_next:
  assumes "length p = 64"
  shows "fips_blocks h (p @ q) = fips_blocks (sha1_block_data_order h p 1) q" "fips_blocks h p = sha1_block_data_order h p 1"
  using fips_blocks_one [OF assms, of h q] fips_blocks_one [OF assms, of h "[]"] unfolding one_block [OF assms] by simp_all

lemma buffers_fill:
  assumes "buffers m c" "sha_num c + length d = 64" "sha_num c \<noteq> 0"
  obtains p where "wr (sha_data c) (sha_num c) d = Some p"
    "buffers (m @ d) (c\<lparr>sha_h := sha1_block_data_order (sha_h c) p 1, sha_num := 0, sha_data := replicate HASH_CBLOCK 0\<rparr>)"
    "length (m @ d) = 64 * Suc (length m div 64)"
proof -
  let ?w = "64 * (length m div 64)"
  let ?p = "drop ?w m @ d"
  have n: "sha_num c = length m mod 64" "length (sha_data c) = 64" "take (sha_num c) (sha_data c) = drop ?w m"
      "sha_h c = fips_blocks sha1_IV m"
    using assms(1) by (simp_all add: buffers_def)
  have len: "length (m @ d) = 64 * Suc (length m div 64)"
    using assms(2) n(1) mult_div_mod_eq [of 64 "length m"] by (simp only: length_append mult_Suc_right)
  have p: "wr (sha_data c) (sha_num c) d = Some ?p"
    using assms(2) n by (simp add: wr_def)
  have "length ?p = 64" using assms(2) n(1) by (simp add: minus_mult_div_eq_mod)
  then have "fips_blocks sha1_IV (m @ d) = sha1_block_data_order (sha_h c) ?p 1"
    by (simp only: fips_blocks_tail [of _ m d] n(4) fips_blocks_next(2))
  with len have "buffers (m @ d) (c\<lparr>sha_h := sha1_block_data_order (sha_h c) ?p 1, sha_num := 0, sha_data := replicate HASH_CBLOCK 0\<rparr>)"
    by (simp add: buffers_def)
  with p len show thesis by (intro that)
qed

lemma buffers_keep:
  assumes "buffers m c" "sha_num c + length d < 64"
  obtains p where "wr (sha_data c) (sha_num c) d = Some p"
    "buffers (m @ d) (c\<lparr>sha_data := p, sha_num := sha_num c + length d\<rparr>)"
proof -
  let ?w = "64 * (length m div 64)"
  let ?p = "drop ?w m @ d @ drop (sha_num c + length d) (sha_data c)"
  have n: "sha_num c = length m mod 64" "length (sha_data c) = 64" "take (sha_num c) (sha_data c) = drop ?w m"
      "sha_h c = fips_blocks sha1_IV m"
    using assms(1) by (simp_all add: buffers_def)
  have len: "length m + length d = 64 * (length m div 64) + (sha_num c + length d)"
    using n(1) mult_div_mod_eq [of 64 "length m"] by simp
  then have dm: "(length m + length d) div 64 = length m div 64" "(length m + length d) mod 64 = sha_num c + length d"
    using assms(2) unfolding len by simp_all
  have rest: "length (drop ?w m) = sha_num c" using n(1) by (simp add: minus_mult_div_eq_mod)
  then have "fips_blocks sha1_IV (m @ d) = sha_h c"
    using assms(2) fips_blocks_tail [of sha1_IV m d] n(4) by simp
  moreover have "length ?p = 64" using rest n(2) assms(2) by simp
  moreover have "take (sha_num c + length d) ?p = drop ?w (m @ d)" using rest by simp
  ultimately have "buffers (m @ d) (c\<lparr>sha_data := ?p, sha_num := sha_num c + length d\<rparr>)"
    using dm by (simp add: buffers_def)
  moreover have "wr (sha_data c) (sha_num c) d = Some ?p"
    using assms(2) n by (simp add: wr_def)
  ultimately show thesis by (intro that)
qed

section \<open>The counter\<close>

lemma u32_bound: "unat (w :: u32) < 4294967296"
proof -
  have "unat w < 2 ^ LENGTH(32)" by (rule unsigned_less)
  then show ?thesis by simp
qed

lemma counter_step:
  fixes Nh Nl :: u32
  assumes "l = Nl + push_bit 3 (word_of_nat len)"
    and "Nh' = (if l < Nl then Nh + 1 else Nh) + word_of_nat (drop_bit 29 len)"
  shows "2 ^ 32 * unat Nh' + unat l = (2 ^ 32 * unat Nh + unat Nl + 8 * len) mod 2 ^ 64"
proof -
  let ?b = "8 * len mod 4294967296" and ?q = "8 * len div 4294967296"
  let ?carry = "(unat Nl + ?b) div 4294967296"
  have b: "unat (push_bit 3 (word_of_nat len) :: u32) = ?b"
    by (simp add: push_bit_eq_mult unat_word_ariths unat_of_nat mod_mult_left_eq mult.commute [of 8 len])
  have l: "unat l = (unat Nl + ?b) mod 4294967296"
    by (simp add: assms(1) unat_word_ariths b)
  have lt: "unat Nl < 4294967296" "?b < 4294967296" using u32_bound [of Nl] by simp_all
  have q: "drop_bit 29 len = ?q"
    by (simp add: drop_bit_eq_div div_mult2_eq [of "8 * len" 8 536870912, simplified])
  have carry: "?carry = (if l < Nl then 1 else 0)"
  proof (cases "unat Nl + ?b < 4294967296")
    case True
    then show ?thesis using l by (simp add: word_less_nat_alt)
  next
    case False
    moreover have "unat Nl + ?b - 4294967296 < 4294967296" using lt by linarith
    ultimately have "?carry = 1" "(unat Nl + ?b) mod 4294967296 = unat Nl + ?b - 4294967296"
      by (simp_all add: le_div_geq le_mod_geq del: mod_mult_self4 div_mult_self4)
    moreover have "unat Nl + ?b - 4294967296 < unat Nl" using lt False by linarith
    ultimately show ?thesis using l by (simp add: word_less_nat_alt)
  qed
  have Nh': "unat Nh' = (unat Nh + ?carry + ?q) mod 4294967296"
    unfolding assms(2) q carry by (simp add: unat_word_ariths unat_of_nat mod_simps)
  let ?X = "4294967296 * (unat Nh + ?carry + ?q)"
  have X: "2 ^ 32 * unat Nh' = ?X mod 2 ^ 64"
    by (simp add: Nh' mult_mod_right)
  have sum: "?X + unat l = 2 ^ 32 * unat Nh + unat Nl + 8 * len"
    using l mult_div_mod_eq [of 4294967296 "unat Nl + ?b"] mult_div_mod_eq [of 4294967296 "8 * len"] by (simp add: algebra_simps)
  have "2 ^ 32 * unat Nh' + unat l < 2 ^ 64" using u32_bound [of Nh'] u32_bound [of l] by simp
  then have "2 ^ 32 * unat Nh' + unat l = (2 ^ 32 * unat Nh' + unat l) mod 2 ^ 64" by (simp only: mod_less)
  also have "\<dots> = (?X + unat l) mod 2 ^ 64" unfolding X by (rule mod_add_left_eq)
  finally show ?thesis unfolding sum .
qed

section \<open>Update\<close>

lemma SHA1_Init_represents: "represents [] SHA1_Init"
  by (simp add: represents_def buffers_def counts_def SHA1_Init_def)

lemma buffers_cong: "buffers m (c\<lparr>sha_Nl := l, sha_Nh := h\<rparr>) = buffers m c"
  by (simp add: buffers_def)

lemma SHA1_Update_represents:
  assumes "represents m c"
  obtains c' where "SHA1_Update c data = Some c'" "represents (m @ data) c'"
proof (cases "data = []")
  case True
  with assms that [of c] show thesis by (simp add: SHA1_Update_def)
next
  case False
  define l where "l = sha_Nl c + push_bit 3 (word_of_nat (length data))"
  define Nh where "Nh = (if l < sha_Nl c then sha_Nh c + 1 else sha_Nh c) + word_of_nat (drop_bit 29 (length data))"
  define c1 where "c1 = c\<lparr>sha_Nl := l, sha_Nh := Nh\<rparr>"
  let ?n = "sha_num c1"
  have b1: "buffers m c1" and n: "?n < 64"
    using assms by (simp_all add: c1_def buffers_cong represents_def buffers_def)
  have cnt: "counts (m @ data) c'" if "sha_Nl c' = sha_Nl c1" "sha_Nh c' = sha_Nh c1" for c'
    using counter_step [OF l_def Nh_def] assms that
    by (simp add: counts_def represents_def c1_def mod_add_left_eq add_mult_distrib2)
  have upd: "SHA1_Update c data = (if ?n \<noteq> 0 then if length data \<ge> HASH_CBLOCK \<or> length data + ?n \<ge> HASH_CBLOCK then do {
           p \<leftarrow> wr (sha_data c1) ?n (take (HASH_CBLOCK - ?n) data);
           SHA1_Update_whole (c1\<lparr>sha_h := sha1_block_data_order (sha_h c1) p 1, sha_num := 0, sha_data := replicate HASH_CBLOCK 0\<rparr>)
             (drop (HASH_CBLOCK - ?n) data) }
         else do {
           p \<leftarrow> wr (sha_data c1) ?n data;
           Some (c1\<lparr>sha_data := p, sha_num := ?n + length data\<rparr>) }
       else SHA1_Update_whole c1 data)"
    using False by (simp only: SHA1_Update_def Let_def length_0_conv if_False l_def Nh_def c1_def)
  consider "?n = 0" | "?n \<noteq> 0" "length data + ?n \<ge> 64" | "?n \<noteq> 0" "length data + ?n < 64" by linarith
  then show thesis
  proof cases
    case 1
    then have "length m = 64 * (length m div 64)" using b1 by (auto simp: buffers_def)
    from buffers_whole [OF b1 this, of data] 1 that cnt show thesis by (auto simp: upd represents_def)
  next
    case 2
    let ?d = "take (64 - ?n) data"
    have "?n + length ?d = 64" using 2 n by simp
    from buffers_fill [OF b1 this 2(1)] obtain p where p: "wr (sha_data c1) ?n ?d = Some p"
      "buffers (m @ ?d) (c1\<lparr>sha_h := sha1_block_data_order (sha_h c1) p 1, sha_num := 0, sha_data := replicate HASH_CBLOCK 0\<rparr>)"
      "length (m @ ?d) = 64 * Suc (length m div 64)" .
    from buffers_whole [OF p(2,3), of "drop (64 - ?n) data"] obtain c' where
      "SHA1_Update_whole (c1\<lparr>sha_h := sha1_block_data_order (sha_h c1) p 1, sha_num := 0, sha_data := replicate HASH_CBLOCK 0\<rparr>)
         (drop (64 - ?n) data) = Some c'" "buffers (m @ data) c'" "sha_Nl c' = sha_Nl c1" "sha_Nh c' = sha_Nh c1"
      by auto
    with 2 p(1) that [of c'] cnt show thesis by (simp add: upd represents_def)
  next
    case 3
    then have "?n + length data < 64" by simp
    from buffers_keep [OF b1 this] obtain p where "wr (sha_data c1) ?n data = Some p"
      "buffers (m @ data) (c1\<lparr>sha_data := p, sha_num := ?n + length data\<rparr>)" .
    with 3 that [of "c1\<lparr>sha_data := p, sha_num := ?n + length data\<rparr>"] cnt show thesis by (simp add: upd represents_def)
  qed
qed

section \<open>Final\<close>

lemma byte_of_nat:
  assumes "k \<le> 24"
  shows "word_of_nat ((2 ^ 32 * y + n) div 2 ^ k) = (word_of_nat (n div 2 ^ k) :: u8)"
proof -
  have eq: "(2 :: nat) ^ 32 = 2 ^ k * (2 ^ (24 - k) * 256)"
    using assms by (simp flip: power_add mult.assoc)
  have "2 ^ 32 * y + n = n + 2 ^ k * (256 * (2 ^ (24 - k) * y))" unfolding eq by (simp only: ac_simps)
  then have "(2 ^ 32 * y + n) div 2 ^ k = 256 * (2 ^ (24 - k) * y) + n div 2 ^ k" by (simp only: div_mult_self2) simp
  moreover have "(256 :: u8) = 0" by simp
  ultimately show ?thesis by (simp only: of_nat_add of_nat_mult of_nat_numeral) simp
qed

lemma ucast_and_255: "ucast (x AND 0xff) = (ucast x :: u8)" for x :: u32
proof -
  have "(0xff :: u32) = mask 8" by (simp add: mask_eq_exp_minus_1)
  then show ?thesis by (simp only: take_bit_eq_mask [symmetric] unsigned_take_bit_eq) (simp add: take_bit_word_eq_self)
qed

lemma byte_of_word: "ucast (drop_bit k l AND 0xff) = (word_of_nat (unat l div 2 ^ k) :: u8)" for l :: u32
proof -
  have "ucast (drop_bit k l AND 0xff) = (word_of_nat (unat (drop_bit k l)) :: u8)" by (simp add: ucast_and_255)
  also have "unat (drop_bit k l) = unat l div 2 ^ k" by (simp only: unat_drop_bit_eq) (rule drop_bit_eq_div)
  finally show ?thesis .
qed

lemma fips_length_counter:
  assumes "counts m c"
  shows "fips_length (8 * length m) = HOST_l2c (sha_Nh c) @ HOST_l2c (sha_Nl c)"
proof -
  let ?q = "8 * length m div 2 ^ 64"
  let ?y = "2 ^ 32 * ?q + unat (sha_Nh c)"
  have x: "8 * length m = 2 ^ 32 * ?y + unat (sha_Nl c)"
    using assms mult_div_mod_eq [of "2 ^ 64" "8 * length m"] by (simp add: counts_def)
  have low: "word_of_nat (8 * length m div 2 ^ k) = (word_of_nat (unat (sha_Nl c) div 2 ^ k) :: u8)" if "k \<le> 24" for k
    by (subst x) (rule byte_of_nat [OF that])
  have "8 * length m div 2 ^ 32 = ?y" using u32_bound [of "sha_Nl c"] by (subst x) simp
  then have high: "word_of_nat (8 * length m div 2 ^ (32 + k)) = (word_of_nat (unat (sha_Nh c) div 2 ^ k) :: u8)" if "k \<le> 24" for k
    unfolding power_add div_mult2_eq by (simp only: byte_of_nat [OF that])
  show ?thesis
    using low [of 24] low [of 16] low [of 8] low [of 0] high [of 24] high [of 16] high [of 8] high [of 0]
      byte_of_word [of 0] byte_of_word [of 8] byte_of_word [of 16] byte_of_word [of 24]
    by (simp add: fips_length_def HOST_l2c_def upt_rec)
qed

lemma length_HOST_l2c [simp]: "length (HOST_l2c l) = 4"
  by (simp add: HOST_l2c_def)

lemma wr_after: "length a = n \<Longrightarrow> length z \<le> length r \<Longrightarrow> wr (a @ r) n z = Some (a @ z @ drop (length z) r)"
  by (auto simp: wr_def)

lemma SHA1_Final_fips:
  assumes "represents m c"
  obtains c' where "SHA1_Final c = Some (fips_sha1 m, c')" "sha_num c' = 0"
proof -
  let ?n = "length m mod 64"
  let ?tail = "drop (64 * (length m div 64)) m"
  let ?cnt = "HOST_l2c (sha_Nh c) @ HOST_l2c (sha_Nl c)"
  have c: "sha_h c = fips_blocks sha1_IV m" "sha_num c = ?n" "length (sha_data c) = 64" "take ?n (sha_data c) = ?tail"
    and len: "fips_length (8 * length m) = ?cnt" and n: "?n < 64" and tail: "length ?tail = ?n"
    using assms by (simp_all add: represents_def buffers_def fips_length_counter minus_mult_div_eq_mod)
  have sha1: "fips_sha1 m = fips_blocks (sha_h c) (?tail @ [0x80] @ replicate ((119 - ?n) mod 64) 0 @ ?cnt)"
    unfolding fips_sha1_def fips_pad_def len fips_blocks_tail [of _ m] c(1) ..
  define r where "r = drop (?n + 1) (sha_data c)"
  have r: "length r = 63 - ?n" and w1: "wr (sha_data c) ?n [0x80] = Some ((?tail @ [0x80]) @ r)"
    using c n by (simp_all add: wr_def r_def)
  show thesis
  proof (cases "?n + 1 > 56")
    case True
    define h where "h = sha1_block_data_order (sha_h c) (?tail @ [0x80] @ replicate (63 - ?n) 0) 1"
    have "(119 - ?n) mod 64 = 63 - ?n + 56" using True n by simp
    then have "fips_sha1 m = fips_blocks (sha_h c) ((?tail @ [0x80] @ replicate (63 - ?n) 0) @ (replicate 56 0 @ ?cnt))"
      unfolding sha1 by (simp only: replicate_add append_assoc)
    also have "\<dots> = fips_blocks h (replicate 56 0 @ ?cnt)"
      unfolding h_def using tail n by (intro fips_blocks_next(1)) simp
    also have "\<dots> = sha1_block_data_order h (replicate 56 0 @ ?cnt) 1"
      by (intro fips_blocks_next(2)) simp
    finally have sha1: "fips_sha1 m = sha1_block_data_order h (replicate 56 0 @ ?cnt) 1" .
    let ?p = "?tail @ [0x80] @ replicate (63 - ?n) 0"
    have w2: "wr ((?tail @ [0x80]) @ r) (?n + 1) (replicate (64 - (?n + 1)) 0) = Some ?p"
      using tail r by (subst wr_after) simp_all
    have "wr p 0 (replicate (64 - 8 - 0) 0) = Some (replicate 56 0 @ drop 56 p)"
      "wr (replicate 56 0 @ drop 56 p) (64 - 8) ?cnt = Some (replicate 56 0 @ ?cnt)" if "length p = 64" for p
      using that by (simp_all add: wr_def)
    note w34 = this [of ?p]
    have "length ?p = 64" using tail n by simp
    note w3 = w34(1) [OF this] and w4 = w34(2) [OF this]
    have "64 - 8 < ?n + 1" using True by simp
    then have "SHA1_Final c = Some (fips_sha1 m, c\<lparr>sha_h := fips_sha1 m, sha_num := 0, sha_data := replicate 64 0\<rparr>)"
      by (simp only: SHA1_Final_def Let_def c(2) w1 bind.bind_lunit if_True w2 w3 w4 prod.case h_def [symmetric] sha1)
    then show thesis by (rule that) simp
  next
    case False
    then have "(119 - ?n) mod 64 = 55 - ?n" using n by (simp add: le_mod_geq)
    then have "fips_sha1 m = fips_blocks (sha_h c) (?tail @ [0x80] @ replicate (55 - ?n) 0 @ ?cnt)"
      unfolding sha1 by simp
    also have "\<dots> = sha1_block_data_order (sha_h c) (?tail @ [0x80] @ replicate (55 - ?n) 0 @ ?cnt) 1"
      using tail False by (intro fips_blocks_next(2)) simp
    finally have sha1: "fips_sha1 m = sha1_block_data_order (sha_h c) (?tail @ [0x80] @ replicate (55 - ?n) 0 @ ?cnt) 1" .
    let ?q = "(?tail @ [0x80] @ replicate (55 - ?n) 0) @ drop (55 - ?n) r"
    have w2: "wr ((?tail @ [0x80]) @ r) (?n + 1) (replicate (64 - 8 - (?n + 1)) 0) = Some ?q"
      using tail r False by (subst wr_after) (simp_all add: diff_le_mono)
    have w3: "wr ?q (64 - 8) ?cnt = Some (?tail @ [0x80] @ replicate (55 - ?n) 0 @ ?cnt)"
      using tail r n False by (subst wr_after) simp_all
    have "\<not> 64 - 8 < ?n + 1" using False by simp
    then have "SHA1_Final c = Some (fips_sha1 m, c\<lparr>sha_h := fips_sha1 m, sha_num := 0, sha_data := replicate 64 0\<rparr>)"
      by (simp only: SHA1_Final_def Let_def c(2) w1 bind.bind_lunit if_False w2 w3 prod.case sha1)
    then show thesis by (rule that) simp
  qed
qed

definition SHA1_Final_digest :: "SHA_CTX \<Rightarrow> sha1_state option" where
  "SHA1_Final_digest c = map_option fst (SHA1_Final c)"

interpretation sha1: streaming represents SHA1_Init SHA1_Update SHA1_Final_digest fips_sha1
proof
  fix m c d
  assume "represents m c"
  then show "\<exists>c'. SHA1_Update c d = Some c' \<and> represents (m @ d) c'" by (rule SHA1_Update_represents) blast
next
  fix m c
  assume "represents m c"
  then show "SHA1_Final_digest c = Some (fips_sha1 m)" by (rule SHA1_Final_fips) (simp add: SHA1_Final_digest_def)
qed (rule SHA1_Init_represents)

end
