(* ===== verification/Hmac.thy ===== *)
theory Hmac
  imports Sha1Stream
begin

text \<open>
  HMAC of OpenSSL, \<open>crypto/hmac/hmac.c\<close>, at the digest \<open>EVP_sha1()\<close>: \<open>HMAC_Init_ex\<close>, \<open>HMAC_Update\<close>,
  \<open>HMAC_Final\<close>, \<open>HMAC_CTX_copy\<close> and the one-shot \<open>HMAC\<close>, over the digest contexts of \<open>crypto/evp/digest.c\<close>
  with the methods of \<open>crypto/evp/m_sha1.c\<close>.  An operation gives its return value and the context, and
  \<^term>\<open>None\<close> where it would call a null method or write outside a buffer.  Memory is taken to be
  available and no engine to be registered for the digest.
\<close>

section \<open>Digest contexts\<close>

text \<open>\<open>EVP_MD_CTX\<close>: no digest set, or the digest \<open>EVP_sha1()\<close> with its \<open>md_data\<close>.\<close>

type_synonym EVP_MD_CTX = "SHA_CTX option"

definition EVP_DigestInit_ex :: "EVP_MD_CTX" where
  "EVP_DigestInit_ex = Some SHA1_Init"

definition EVP_DigestUpdate :: "EVP_MD_CTX \<Rightarrow> bytes \<Rightarrow> (int \<times> EVP_MD_CTX) option" where
  "EVP_DigestUpdate ctx data =
    (if length data = 0 then Some (1, ctx)
     else do { c \<leftarrow> ctx; c \<leftarrow> SHA1_Update c data; Some (1, Some c) })"

text \<open>The digest, and the context with its data wiped.\<close>

definition EVP_DigestFinal_ex :: "EVP_MD_CTX \<Rightarrow> (int \<times> sha1_state \<times> EVP_MD_CTX) option" where
  "EVP_DigestFinal_ex ctx = do {
     c \<leftarrow> ctx; (h, c) \<leftarrow> SHA1_Final c;
     Some (1, h, Some \<lparr>sha_h = (0, 0, 0, 0, 0), sha_Nl = 0, sha_Nh = 0, sha_data = replicate 64 0, sha_num = 0\<rparr>) }"

definition EVP_MD_CTX_copy_ex :: "EVP_MD_CTX \<Rightarrow> EVP_MD_CTX \<Rightarrow> int \<times> EVP_MD_CTX" where
  "EVP_MD_CTX_copy_ex out inn = (if inn = None then (0, out) else (1, inn))"

section \<open>HMAC\<close>

record HMAC_CTX =
  hmac_md :: bool
  hmac_md_ctx :: EVP_MD_CTX
  hmac_i_ctx :: EVP_MD_CTX
  hmac_o_ctx :: EVP_MD_CTX

definition HMAC_CTX_new :: HMAC_CTX where
  "HMAC_CTX_new = \<lparr>hmac_md = False, hmac_md_ctx = None, hmac_i_ctx = None, hmac_o_ctx = None\<rparr>"

abbreviation (input) HMAC_MAX_MD_CBLOCK_SIZE :: nat where "HMAC_MAX_MD_CBLOCK_SIZE \<equiv> 144"

text \<open>
  \<open>keytmp\<close> with its zeros: the digest of a key longer than a block, the key itself otherwise.  The
  value is the buffer, or nothing where the function returns 0, and the working context.
\<close>

definition hmac_keytmp :: "EVP_MD_CTX \<Rightarrow> bytes \<Rightarrow> int \<Rightarrow> (bytes option \<times> EVP_MD_CTX) option" where
  "hmac_keytmp md_ctx key len =
    (if 64 < len then do {
       k \<leftarrow> rd_slice key 0 (nat len);
       (_, md_ctx) \<leftarrow> EVP_DigestUpdate EVP_DigestInit_ex k;
       (_, h, md_ctx) \<leftarrow> EVP_DigestFinal_ex md_ctx;
       let keytmp = HASH_MAKE_STRING h;
       Some (Some (keytmp @ replicate (HMAC_MAX_MD_CBLOCK_SIZE - length keytmp) 0), md_ctx) }
     else if len < 0 \<or> len > int HMAC_MAX_MD_CBLOCK_SIZE then Some (None, md_ctx)
     else do {
       keytmp \<leftarrow> rd_slice key 0 (nat len);
       Some (Some (keytmp @ replicate (HMAC_MAX_MD_CBLOCK_SIZE - length keytmp) 0), md_ctx) })"

definition hmac_pad :: "u8 \<Rightarrow> bytes \<Rightarrow> EVP_MD_CTX option" where
  "hmac_pad x keytmp = do {
     (_, c) \<leftarrow> EVP_DigestUpdate EVP_DigestInit_ex (take 64 (map (\<lambda>b. x XOR b) keytmp));
     Some c }"

definition HMAC_Init_ex :: "HMAC_CTX \<Rightarrow> bytes option \<Rightarrow> int \<Rightarrow> bool \<Rightarrow> (int \<times> HMAC_CTX) option" where
  "HMAC_Init_ex ctx key len md =
    (if md \<and> \<not> hmac_md ctx \<and> (key = None \<or> len < 0) then Some (0, ctx)
     else if \<not> md \<and> \<not> hmac_md ctx then Some (0, ctx)
     else do {
       let ctx = ctx\<lparr>hmac_md := True\<rparr>;
       (ok, ctx) \<leftarrow> (case key of None \<Rightarrow> Some (True, ctx)
         | Some key \<Rightarrow> do {
             (keytmp, md_ctx) \<leftarrow> hmac_keytmp (hmac_md_ctx ctx) key len;
             let ctx = ctx\<lparr>hmac_md_ctx := md_ctx\<rparr>;
             case keytmp of None \<Rightarrow> Some (False, ctx)
             | Some keytmp \<Rightarrow> do {
                 i \<leftarrow> hmac_pad 0x36 keytmp;
                 o' \<leftarrow> hmac_pad 0x5c keytmp;
                 Some (True, ctx\<lparr>hmac_i_ctx := i, hmac_o_ctx := o'\<rparr>) } });
       if \<not> ok then Some (0, ctx)
       else do {
         let (r, c) = EVP_MD_CTX_copy_ex (hmac_md_ctx ctx) (hmac_i_ctx ctx);
         Some (if r = 0 then 0 else 1, ctx\<lparr>hmac_md_ctx := c\<rparr>) } })"

definition HMAC_Update :: "HMAC_CTX \<Rightarrow> bytes \<Rightarrow> (int \<times> HMAC_CTX) option" where
  "HMAC_Update ctx data =
    (if \<not> hmac_md ctx then Some (0, ctx)
     else do { (r, c) \<leftarrow> EVP_DigestUpdate (hmac_md_ctx ctx) data; Some (r, ctx\<lparr>hmac_md_ctx := c\<rparr>) })"

definition HMAC_Final :: "HMAC_CTX \<Rightarrow> (int \<times> sha1_state option \<times> HMAC_CTX) option" where
  "HMAC_Final ctx =
    (if \<not> hmac_md ctx then Some (0, None, ctx)
     else do {
       (_, buf, c) \<leftarrow> EVP_DigestFinal_ex (hmac_md_ctx ctx);
       let (r, c) = EVP_MD_CTX_copy_ex c (hmac_o_ctx ctx);
       if r = 0 then Some (0, None, ctx\<lparr>hmac_md_ctx := c\<rparr>)
       else do {
         (_, c) \<leftarrow> EVP_DigestUpdate c (HASH_MAKE_STRING buf);
         (_, h, c) \<leftarrow> EVP_DigestFinal_ex c;
         Some (1, Some h, ctx\<lparr>hmac_md_ctx := c\<rparr>) } })"

text \<open>\<open>hmac_ctx_cleanup\<close> and \<open>HMAC_CTX_copy\<close>: a context that is not set up cannot be copied.\<close>

definition HMAC_CTX_copy :: "HMAC_CTX \<Rightarrow> HMAC_CTX \<Rightarrow> int \<times> HMAC_CTX" where
  "HMAC_CTX_copy dctx sctx =
    (let (r1, i) = EVP_MD_CTX_copy_ex (hmac_i_ctx dctx) (hmac_i_ctx sctx);
         (r2, o') = EVP_MD_CTX_copy_ex (hmac_o_ctx dctx) (hmac_o_ctx sctx);
         (r3, m) = EVP_MD_CTX_copy_ex (hmac_md_ctx dctx) (hmac_md_ctx sctx)
     in if r1 = 0 \<or> r2 = 0 \<or> r3 = 0 then (0, HMAC_CTX_new)
        else (1, \<lparr>hmac_md = hmac_md sctx, hmac_md_ctx = m, hmac_i_ctx = i, hmac_o_ctx = o'\<rparr>))"

definition HMAC_oneshot :: "bytes option \<Rightarrow> int \<Rightarrow> bytes \<Rightarrow> sha1_state option option" where
  "HMAC_oneshot key key_len d =
    (let key = (if key = None \<and> key_len = 0 then Some [0] else key) in do {
       (r, c) \<leftarrow> HMAC_Init_ex HMAC_CTX_new key key_len True;
       if r = 0 then Some None
       else do {
         (r, c) \<leftarrow> HMAC_Update c d;
         if r = 0 then Some None
         else do { (r, h, c) \<leftarrow> HMAC_Final c; Some h } } })"

text \<open>
  The use \<open>PKCS5_PBKDF2_HMAC\<close> makes of it: a template keyed once, copied for every message, and the message
  fed in pieces.
\<close>

definition hmac_update :: "HMAC_CTX \<Rightarrow> bytes \<Rightarrow> HMAC_CTX option" where
  "hmac_update c d = do { (r, c) \<leftarrow> HMAC_Update c d; if r = 0 then None else Some c }"

definition hmac_final :: "HMAC_CTX \<Rightarrow> sha1_state option" where
  "hmac_final c = do { (r, h, c) \<leftarrow> HMAC_Final c; if r = 0 then None else h }"

definition hmac_template :: "bytes \<Rightarrow> HMAC_CTX option" where
  "hmac_template pass = do {
     (r, tpl) \<leftarrow> HMAC_Init_ex HMAC_CTX_new (Some pass) (int (length pass)) True;
     if r = 0 then None else Some tpl }"

definition hmac_pieces :: "bytes \<Rightarrow> bytes list \<Rightarrow> sha1_state option" where
  "hmac_pieces pass ds = do {
     tpl \<leftarrow> hmac_template pass;
     let (r, hctx) = HMAC_CTX_copy HMAC_CTX_new tpl;
     if r = 0 then None else do { hctx \<leftarrow> feed hmac_update hctx ds; hmac_final hctx } }"

section \<open>RFC 2104\<close>

definition rfc_key :: "bytes \<Rightarrow> bytes" where
  "rfc_key K = (let K = (if length K > 64 then digest_bytes (fips_sha1 K) else K) in K @ replicate (64 - length K) 0)"

definition rfc_HMAC :: "bytes \<Rightarrow> bytes \<Rightarrow> sha1_state" where
  "rfc_HMAC K msg = fips_sha1 (map ((XOR) 0x5c) (rfc_key K) @ digest_bytes (fips_sha1 (map ((XOR) 0x36) (rfc_key K) @ msg)))"


section \<open>Correctness\<close>

definition digests :: "bytes \<Rightarrow> EVP_MD_CTX \<Rightarrow> bool" where
  "digests m ctx \<longleftrightarrow> (\<exists>c. ctx = Some c \<and> represents m c)"

lemma DigestInit: "digests [] EVP_DigestInit_ex"
  by (simp add: digests_def EVP_DigestInit_ex_def SHA1_Init_represents)

lemma DigestUpdate: "digests m ctx \<Longrightarrow> \<exists>ctx'. EVP_DigestUpdate ctx d = Some (1, ctx') \<and> digests (m @ d) ctx'"
  using sha1.update_represents [of m _ d] by (fastforce simp: digests_def EVP_DigestUpdate_def)

lemma DigestFinal: "digests m ctx \<Longrightarrow> \<exists>ctx'. EVP_DigestFinal_ex ctx = Some (1, fips_sha1 m, ctx')"
  using sha1.final_digest [of m] by (fastforce simp: digests_def EVP_DigestFinal_ex_def SHA1_Final_digest_def)

lemma copy_digests: "digests m ctx \<Longrightarrow> EVP_MD_CTX_copy_ex out ctx = (1, ctx)"
  by (auto simp: digests_def EVP_MD_CTX_copy_ex_def)

lemma HASH_MAKE_STRING_digest: "HASH_MAKE_STRING h = digest_bytes h"
proof -
  have "HOST_l2c l = PUTU32 l" for l
    by (simp add: HOST_l2c_def PUTU32_def ucast_and_255)
  then show ?thesis by (simp add: HASH_MAKE_STRING_def digest_bytes_def)
qed

lemma length_rfc_key [simp]: "length (rfc_key K) = 64"
  by (simp add: rfc_key_def Let_def)

lemma keytmp_rfc: "\<exists>c'. hmac_keytmp c K (int (length K)) = Some (Some (rfc_key K @ replicate 80 0), c')"
proof (cases "length K > 64")
  case True
  from DigestUpdate [OF DigestInit, of K] obtain c1 where
    "EVP_DigestUpdate EVP_DigestInit_ex K = Some (1, c1)" "digests K c1" by auto
  moreover from DigestFinal [OF this(2)] obtain c2 where "EVP_DigestFinal_ex c1 = Some (1, fips_sha1 K, c2)" by blast
  ultimately show ?thesis using True replicate_add [of 44 80 "0 :: u8"]
    by (simp add: hmac_keytmp_def rd_slice_def rfc_key_def HASH_MAKE_STRING_digest)
next
  case False
  then show ?thesis using replicate_add [of "64 - length K" 80 "0 :: u8"]
    by (simp add: hmac_keytmp_def rd_slice_def rfc_key_def)
qed

lemma hmac_pad_digests: "length K = 64 \<Longrightarrow> \<exists>c. hmac_pad x (K @ r) = Some c \<and> digests (map ((XOR) x) K) c"
  using DigestUpdate [OF DigestInit, of "map ((XOR) x) K"] by (auto simp: hmac_pad_def)

definition hmac_ready :: "bytes \<Rightarrow> bytes \<Rightarrow> HMAC_CTX \<Rightarrow> bool" where
  "hmac_ready K m c \<longleftrightarrow> hmac_md c \<and> digests (map ((XOR) 0x36) (rfc_key K) @ m) (hmac_md_ctx c)
     \<and> digests (map ((XOR) 0x36) (rfc_key K)) (hmac_i_ctx c) \<and> digests (map ((XOR) 0x5c) (rfc_key K)) (hmac_o_ctx c)"

lemma HMAC_Init_ready: "\<exists>c'. HMAC_Init_ex c (Some K) (int (length K)) True = Some (1, c') \<and> hmac_ready K [] c'"
proof -
  obtain m where m: "hmac_keytmp (hmac_md_ctx c) K (int (length K)) = Some (Some (rfc_key K @ replicate 80 0), m)"
    using keytmp_rfc by blast
  obtain i o' where "hmac_pad 0x36 (rfc_key K @ replicate 80 0) = Some i" "digests (map ((XOR) 0x36) (rfc_key K)) i"
      "hmac_pad 0x5c (rfc_key K @ replicate 80 0) = Some o'" "digests (map ((XOR) 0x5c) (rfc_key K)) o'"
    using hmac_pad_digests [of "rfc_key K"] by (metis length_rfc_key)
  with m show ?thesis by (simp add: HMAC_Init_ex_def hmac_ready_def copy_digests)
qed

lemma HMAC_reinit_ready: "hmac_ready K m c \<Longrightarrow> \<exists>c'. HMAC_Init_ex c None len md = Some (1, c') \<and> hmac_ready K [] c'"
  by (auto simp: HMAC_Init_ex_def hmac_ready_def copy_digests)

lemma HMAC_Update_ready: "hmac_ready K m c \<Longrightarrow> \<exists>c'. HMAC_Update c d = Some (1, c') \<and> hmac_ready K (m @ d) c'"
  using DigestUpdate [of "map ((XOR) 0x36) (rfc_key K) @ m" "hmac_md_ctx c" d] by (auto simp: HMAC_Update_def hmac_ready_def)

lemma HMAC_Final_ready: "hmac_ready K m c \<Longrightarrow> \<exists>c'. HMAC_Final c = Some (1, Some (rfc_HMAC K m), c')"
proof -
  assume r: "hmac_ready K m c"
  let ?h = "fips_sha1 (map ((XOR) 0x36) (rfc_key K) @ m)"
  obtain c1 where "EVP_DigestFinal_ex (hmac_md_ctx c) = Some (1, ?h, c1)"
    using r DigestFinal by (auto simp: hmac_ready_def)
  moreover obtain c2 where "EVP_DigestUpdate (hmac_o_ctx c) (digest_bytes ?h) = Some (1, c2)"
      "digests (map ((XOR) 0x5c) (rfc_key K) @ digest_bytes ?h) c2"
    using r DigestUpdate by (meson hmac_ready_def)
  moreover obtain c3 where "EVP_DigestFinal_ex c2 = Some (1, rfc_HMAC K m, c3)"
    using DigestFinal [OF calculation(3)] by (auto simp: rfc_HMAC_def)
  moreover have "EVP_MD_CTX_copy_ex c1 (hmac_o_ctx c) = (1, hmac_o_ctx c)" "hmac_md c"
    using r copy_digests by (auto simp: hmac_ready_def)
  ultimately show ?thesis by (simp add: HMAC_Final_def HASH_MAKE_STRING_digest)
qed

lemma HMAC_copy_ready: "hmac_ready K m c \<Longrightarrow> HMAC_CTX_copy c0 c = (1, c)"
  by (cases c) (auto simp: HMAC_CTX_copy_def hmac_ready_def copy_digests)

text \<open>For a fixed key, the copies of the template are a stream whose digest is the HMAC of the pieces.\<close>

interpretation hmac: streaming "hmac_ready K" "the (hmac_template K)" hmac_update hmac_final "rfc_HMAC K" for K
proof
  show "hmac_ready K [] (the (hmac_template K))"
    using HMAC_Init_ready [of HMAC_CTX_new K] by (auto simp: hmac_template_def)
next
  fix m c d
  assume "hmac_ready K m c"
  then show "\<exists>c'. hmac_update c d = Some c' \<and> hmac_ready K (m @ d) c'"
    using HMAC_Update_ready [of K m c d] by (auto simp: hmac_update_def)
next
  fix m c
  assume "hmac_ready K m c"
  then show "hmac_final c = Some (rfc_HMAC K m)"
    using HMAC_Final_ready [of K m c] by (auto simp: hmac_final_def)
qed

lemma hmac_pieces_rfc: "hmac_pieces K ds = Some (rfc_HMAC K (concat ds))"
proof -
  obtain tpl where tpl: "hmac_template K = Some tpl" "hmac_ready K [] tpl"
    using HMAC_Init_ready [of HMAC_CTX_new K] by (auto simp: hmac_template_def)
  with hmac.stream_digest [of K ds] show ?thesis
    by (simp add: hmac_pieces_def HMAC_copy_ready)
qed

lemma HMAC_oneshot_rfc: "HMAC_oneshot (Some K) (int (length K)) d = Some (Some (rfc_HMAC K d))"
  using HMAC_Init_ready [of HMAC_CTX_new K] HMAC_Update_ready [of K "[]" _ d] HMAC_Final_ready [of K d]
  by (fastforce simp: HMAC_oneshot_def)

end
