(* ===== verification/Pbkdf2.thy ===== *)
theory Pbkdf2
  imports Hmac Ctr128
begin

text \<open>
  PKCS #5 key derivation, \<open>crypto/evp/p5_crpt2.c\<close>: \<open>PKCS5_PBKDF2_HMAC\<close> at the digest \<open>EVP_sha1()\<close>, whose size
  \<open>mdlen\<close> is 20, over the HMAC of theory \<open>Hmac\<close>: a template context is keyed once and copied over the working
  context before every message.  Whether the memory that a call needs is there is a parameter.  In the loops a
  value \<open>Some None\<close> is the return value 0, and \<^term>\<open>None\<close> a fault.
\<close>

section \<open>The code\<close>

text \<open>
  The calls that allocate: \<open>HMAC_CTX_new\<close> for each context, the digests of the template in \<open>HMAC_Init_ex\<close>, and those of
  the working context in the first \<open>HMAC_CTX_copy\<close> (later copies use the memory again).
\<close>

datatype hmac_site = NewTemplate | InitTemplate | NewContext | CopyContext

type_synonym hmac_mem = "hmac_site \<Rightarrow> bool"

definition copy_template :: "hmac_mem \<Rightarrow> HMAC_CTX \<Rightarrow> HMAC_CTX \<Rightarrow> int \<times> HMAC_CTX" where
  "copy_template mem hctx hctx_tpl =
    (if hmac_md_ctx hctx = None \<and> \<not> mem CopyContext then (0, HMAC_CTX_new) else HMAC_CTX_copy hctx hctx_tpl)"

text \<open>The chain \<open>!HMAC_Update(\<dots>) || \<dots> || !HMAC_Final(\<dots>)\<close>.\<close>

fun update_final :: "HMAC_CTX \<Rightarrow> bytes list \<Rightarrow> (sha1_state option \<times> HMAC_CTX) option" where
  "update_final hctx [] = do {
     (r, h, hctx) \<leftarrow> HMAC_Final hctx;
     Some (if r = 0 then None else h, hctx) }"
| "update_final hctx (d # ds) = do {
     (r, hctx) \<leftarrow> HMAC_Update hctx d;
     if r = 0 then Some (None, hctx) else update_final hctx ds }"

definition hash_message :: "hmac_mem \<Rightarrow> HMAC_CTX \<Rightarrow> HMAC_CTX \<Rightarrow> bytes list \<Rightarrow> (sha1_state option \<times> HMAC_CTX) option" where
  "hash_message mem hctx_tpl hctx ds =
    (let (r, hctx) = copy_template mem hctx hctx_tpl
     in if r = 0 then Some (None, hctx) else update_final hctx ds)"

text \<open>\<open>itmp\<close>, the block number in four bytes.\<close>

definition pbkdf2_itmp :: "u64 \<Rightarrow> bytes" where
  "pbkdf2_itmp i = [ucast (drop_bit 24 i AND 0xff), ucast (drop_bit 16 i AND 0xff),
     ucast (drop_bit 8 i AND 0xff), ucast (i AND 0xff)]"

text \<open>
  \<open>for (j = 1; j < iter; j++)\<close>, with \<open>n = iter - j\<close> rounds left: the digest of the digest,
  added to the \<open>cplen\<close> bytes at \<open>p\<close>.
\<close>

fun pbkdf2_rounds :: "hmac_mem \<Rightarrow> HMAC_CTX \<Rightarrow> nat \<Rightarrow> HMAC_CTX \<Rightarrow> bytes \<Rightarrow> bytes \<Rightarrow> (bytes option \<times> HMAC_CTX) option" where
  "pbkdf2_rounds mem hctx_tpl 0 hctx digtmp p = Some (Some p, hctx)"
| "pbkdf2_rounds mem hctx_tpl (Suc n) hctx digtmp p = do {
     (h, hctx) \<leftarrow> hash_message mem hctx_tpl hctx [digtmp];
     case h of None \<Rightarrow> Some (None, hctx)
     | Some h \<Rightarrow>
         let digtmp = HASH_MAKE_STRING h
         in pbkdf2_rounds mem hctx_tpl n hctx digtmp (xor_bytes p digtmp) }"

text \<open>
  \<open>while (tkeylen)\<close>; the bytes written at \<open>p\<close> and after.  A negative length is converted to a \<open>size_t\<close> and read or
  written past the end of the buffers.
\<close>

definition salt_bytes :: "bytes \<Rightarrow> int \<Rightarrow> bytes option" where
  "salt_bytes salt saltlen = (if saltlen < 0 then None else rd_slice salt 0 (nat saltlen))"

function pbkdf2_blocks ::
  "hmac_mem \<Rightarrow> HMAC_CTX \<Rightarrow> bytes \<Rightarrow> int \<Rightarrow> int \<Rightarrow> u64 \<Rightarrow> int \<Rightarrow> HMAC_CTX \<Rightarrow> bytes option option" where
  "pbkdf2_blocks mem hctx_tpl salt saltlen iter i tkeylen hctx =
    (if tkeylen = 0 then Some (Some [])
     else do {
       let cplen = (if tkeylen > int SHA_DIGEST_LENGTH then int SHA_DIGEST_LENGTH else tkeylen);
       s \<leftarrow> salt_bytes salt saltlen;
       (h, hctx) \<leftarrow> hash_message mem hctx_tpl hctx [s, pbkdf2_itmp i];
       case h of None \<Rightarrow> Some None
       | Some h \<Rightarrow>
           if cplen < 0 then None
           else do {
             let digtmp = HASH_MAKE_STRING h;
             (p, hctx) \<leftarrow> pbkdf2_rounds mem hctx_tpl (nat (iter - 1)) hctx digtmp (take (nat cplen) digtmp);
             case p of None \<Rightarrow> Some None
             | Some p \<Rightarrow> do {
                 rest \<leftarrow> pbkdf2_blocks mem hctx_tpl salt saltlen iter (i + 1) (tkeylen - cplen) hctx;
                 Some (map_option ((@) p) rest) } } })"
  by pat_completeness auto
termination
  by (relation "measure (\<lambda>(mem, tpl, salt, saltlen, iter, i, tkeylen, hctx). nat tkeylen)") (auto split: if_splits)

declare pbkdf2_blocks.simps [simp del]

text \<open>The value returned (1 for success) and the derived key; a passphrase of length -1 ends at its first zero byte.\<close>

definition PKCS5_PBKDF2_HMAC :: "hmac_mem \<Rightarrow> bytes option \<Rightarrow> int \<Rightarrow> bytes \<Rightarrow> int \<Rightarrow> int \<Rightarrow> int \<Rightarrow> (int \<times> bytes) option" where
  "PKCS5_PBKDF2_HMAC mem pass passlen salt saltlen iter keylen =
    (if \<not> mem NewTemplate then Some (0, [])
     else do {
       (pass, passlen) \<leftarrow> (case pass of None \<Rightarrow> Some ([], 0)
         | Some pass \<Rightarrow>
             if passlen = -1 then
               if 0 \<in> set pass then Some (pass, int (length (takeWhile (\<lambda>b. b \<noteq> 0) pass))) else None
             else Some (pass, passlen));
       (r, hctx_tpl) \<leftarrow> HMAC_Init_ex HMAC_CTX_new (Some pass) passlen True;
       if r = 0 \<or> \<not> mem InitTemplate then Some (0, [])
       else if \<not> mem NewContext then Some (0, [])
       else do {
         out \<leftarrow> pbkdf2_blocks mem hctx_tpl salt saltlen iter 1 keylen HMAC_CTX_new;
         Some (case out of None \<Rightarrow> (0, []) | Some out \<Rightarrow> (1, out)) } })"

definition PKCS5_PBKDF2_HMAC_SHA1 :: "hmac_mem \<Rightarrow> bytes option \<Rightarrow> int \<Rightarrow> bytes \<Rightarrow> int \<Rightarrow> int \<Rightarrow> int \<Rightarrow> (int \<times> bytes) option" where
  "PKCS5_PBKDF2_HMAC_SHA1 mem pass passlen salt saltlen iter keylen = PKCS5_PBKDF2_HMAC mem pass passlen salt saltlen iter keylen"

section \<open>RFC 2898\<close>

text \<open>
  Section 5.2: \<open>INT (i)\<close> is the block number in four octets, most significant first; \<open>F\<close> is the exclusive or of \<open>c\<close>
  iterates of the keyed hash, the key is a prefix of the blocks \<open>F 1\<close>, \<open>F 2\<close>, and so on.
\<close>

definition rfc_INT :: "nat \<Rightarrow> bytes" where
  "rfc_INT i = [word_of_nat (i div 2 ^ 24 mod 256), word_of_nat (i div 2 ^ 16 mod 256),
     word_of_nat (i div 2 ^ 8 mod 256), word_of_nat (i mod 256)]"

fun rfc_U :: "(bytes \<Rightarrow> bytes) \<Rightarrow> bytes \<Rightarrow> nat \<Rightarrow> bytes" where
  "rfc_U PRF msg 0 = PRF msg"
| "rfc_U PRF msg (Suc j) = PRF (rfc_U PRF msg j)"

fun rfc_F :: "(bytes \<Rightarrow> bytes) \<Rightarrow> bytes \<Rightarrow> nat \<Rightarrow> bytes" where
  "rfc_F PRF msg 0 = rfc_U PRF msg 0"
| "rfc_F PRF msg (Suc j) = xor_bytes (rfc_F PRF msg j) (rfc_U PRF msg (Suc j))"

definition rfc_PBKDF2 :: "(bytes \<Rightarrow> bytes) \<Rightarrow> bytes \<Rightarrow> nat \<Rightarrow> nat \<Rightarrow> bytes" where
  "rfc_PBKDF2 PRF salt c dkLen = take dkLen
     (concat (map (\<lambda>i. rfc_F PRF (salt @ rfc_INT i) (c - 1)) [1..<Suc ((dkLen + 19) div 20)]))"

lemma itmp_INT: "pbkdf2_itmp (word_of_nat i) = rfc_INT i"
proof -
  have "ucast (drop_bit k (word_of_nat i :: u64) AND 0xff) = (word_of_nat (i div 2 ^ k mod 256) :: u8)" if "k \<le> 24" for k
  proof -
    have m: "(0xff :: u64) = mask 8" by (simp add: mask_eq_exp_minus_1)
    have d: "i div 2 ^ k mod 256 = take_bit 8 (drop_bit k i)" by (simp add: take_bit_eq_mod drop_bit_eq_div)
    show ?thesis unfolding m d using that by (intro bit_word_eqI) (auto simp: bit_simps)
  qed
  from this [of 24] this [of 16] this [of 8] this [of 0] show ?thesis by (simp add: pbkdf2_itmp_def rfc_INT_def)
qed

lemma rfc_U_shift: "rfc_U PRF (PRF msg) j = rfc_U PRF msg (Suc j)"
  by (induction j) simp_all

lemma take_xor_bytes: "take n (xor_bytes xs ys) = xor_bytes (take n xs) ys"
proof (induction n arbitrary: xs ys)
  case (Suc n)
  then show ?case by (cases xs; cases ys) (simp_all add: xor_bytes_def)
qed (simp add: xor_bytes_def)

lemma length_rfc_F:
  assumes "\<And>m. length (PRF m) = 20"
  shows "length (rfc_F PRF msg n) = 20"
proof (induction n)
  case (Suc n)
  have "length (rfc_U PRF msg (Suc n)) = 20" using assms by simp
  with Suc show ?case by (simp add: xor_bytes_def)
qed (use assms in simp)

section \<open>Correctness\<close>

abbreviation (input) PRF_sha1 :: "bytes \<Rightarrow> bytes \<Rightarrow> bytes" where
  "PRF_sha1 K m \<equiv> digest_bytes (rfc_HMAC K m)"

text \<open>Whatever the working context was used for before, a message hashed after the copy has its own HMAC.\<close>

lemma HMAC_Final_keeps_digest: "HMAC_Final c = Some (1, h, c') \<Longrightarrow> hmac_md_ctx c' \<noteq> None"
  by (auto simp: HMAC_Final_def bind_eq_Some_conv EVP_DigestFinal_ex_def EVP_MD_CTX_copy_ex_def split: if_splits)

lemma update_final_ready:
  "hmac_ready K m hctx \<Longrightarrow> \<exists>hctx'. update_final hctx ds = Some (Some (rfc_HMAC K (m @ concat ds)), hctx') \<and> hmac_md_ctx hctx' \<noteq> None"
proof (induction ds arbitrary: m hctx)
  case Nil
  obtain c where "HMAC_Final hctx = Some (1, Some (rfc_HMAC K m), c)" using HMAC_Final_ready [OF Nil] by blast
  with HMAC_Final_keeps_digest [OF this] show ?case by simp
next
  case (Cons d ds)
  obtain c where c: "HMAC_Update hctx d = Some (1, c)" "hmac_ready K (m @ d) c" using HMAC_Update_ready [OF Cons.prems] by blast
  from Cons.IH [OF c(2)] c(1) show ?case by simp
qed

lemma hash_message_ready:
  assumes "hmac_ready K [] hctx_tpl" and "mem CopyContext \<or> hmac_md_ctx hctx \<noteq> None"
  shows "\<exists>hctx'. hash_message mem hctx_tpl hctx ds = Some (Some (rfc_HMAC K (concat ds)), hctx') \<and> hmac_md_ctx hctx' \<noteq> None"
  using update_final_ready [OF assms(1), of ds] assms HMAC_copy_ready [OF assms(1), of hctx]
  by (auto simp: hash_message_def copy_template_def)

text \<open>The rounds from the \<open>j\<close>-th iterate on.\<close>

lemma rounds_F:
  assumes "hmac_ready K [] hctx_tpl" and "hmac_md_ctx hctx \<noteq> None"
  shows "\<exists>hctx'. pbkdf2_rounds mem hctx_tpl n hctx (rfc_U (PRF_sha1 K) msg j) (take len (rfc_F (PRF_sha1 K) msg j)) =
    Some (Some (take len (rfc_F (PRF_sha1 K) msg (j + n))), hctx') \<and> hmac_md_ctx hctx' \<noteq> None"
  using assms(2)
proof (induction n arbitrary: j hctx)
  case (Suc n)
  obtain c where c: "hash_message mem hctx_tpl hctx [rfc_U (PRF_sha1 K) msg j] = Some (Some (rfc_HMAC K (rfc_U (PRF_sha1 K) msg j)), c)"
    "hmac_md_ctx c \<noteq> None"
    using hash_message_ready [OF assms(1), of mem hctx "[rfc_U (PRF_sha1 K) msg j]"] Suc.prems by auto
  have "xor_bytes (take len (rfc_F (PRF_sha1 K) msg j)) (rfc_U (PRF_sha1 K) msg (Suc j)) = take len (rfc_F (PRF_sha1 K) msg (Suc j))"
    by (simp add: take_xor_bytes)
  then show ?case using Suc.IH [OF c(2), of "Suc j"] c(1) by (simp add: HASH_MAKE_STRING_digest Let_def)
qed simp

text \<open>One pass of the loop.\<close>

lemma pbkdf2_blocks_step:
  assumes "len \<noteq> 0" and "cplen = (if len > int 20 then int 20 else len)"
  shows "pbkdf2_blocks mem tpl salt saltlen iter i len hctx = do {
    s \<leftarrow> salt_bytes salt saltlen;
    (h, hctx) \<leftarrow> hash_message mem tpl hctx [s, pbkdf2_itmp i];
    case h of None \<Rightarrow> Some None
    | Some h \<Rightarrow> if cplen < 0 then None else do {
        (p, hctx) \<leftarrow> pbkdf2_rounds mem tpl (nat (iter - 1)) hctx (HASH_MAKE_STRING h) (take (nat cplen) (HASH_MAKE_STRING h));
        case p of None \<Rightarrow> Some None
        | Some p \<Rightarrow> do {
            rest \<leftarrow> pbkdf2_blocks mem tpl salt saltlen iter (i + 1) (len - cplen) hctx;
            Some (map_option ((@) p) rest) } } }"
  unfolding assms(2) using assms(1) by (subst pbkdf2_blocks.simps) (simp only: if_False Let_def)

lemma blocks_F:
  fixes salt iter K
  defines "F \<equiv> \<lambda>i. rfc_F (PRF_sha1 K) (salt @ rfc_INT i) (iter - 1)"
  assumes ready: "hmac_ready K [] hctx_tpl"
  shows "mem CopyContext \<or> hmac_md_ctx hctx \<noteq> None \<Longrightarrow>
    pbkdf2_blocks mem hctx_tpl salt (int (length salt)) (int iter) (word_of_nat i) (int len) hctx =
      Some (Some (take len (concat (map F [i..<i + (len + 19) div 20]))))"
proof (induction len arbitrary: i hctx rule: less_induct)
  case (less len)
  show ?case
  proof (cases "len = 0")
    case True
    then show ?thesis by (simp add: pbkdf2_blocks.simps)
  next
    case False
    define cplen where "cplen = (if len > 20 then 20 else len)"
    have lF: "length (F i) = 20" for i unfolding F_def by (rule length_rfc_F) simp
    obtain c where c: "hash_message mem hctx_tpl hctx [salt, rfc_INT i] = Some (Some (rfc_HMAC K (salt @ rfc_INT i)), c)"
      "hmac_md_ctx c \<noteq> None"
      using hash_message_ready [OF ready, where mem = mem and hctx = hctx and ds = "[salt, rfc_INT i]"] less.prems by auto
    obtain c' where p: "pbkdf2_rounds mem hctx_tpl (iter - 1) c (PRF_sha1 K (salt @ rfc_INT i)) (take cplen (PRF_sha1 K (salt @ rfc_INT i))) =
        Some (Some (take cplen (F i)), c')" "hmac_md_ctx c' \<noteq> None"
      using rounds_F [OF ready c(2), where mem = mem and n = "iter - 1" and j = 0 and len = cplen and msg = "salt @ rfc_INT i"]
      by (auto simp: F_def)
    have "len - cplen < len" using False by (simp add: cplen_def)
    from less.IH [OF this, of c' "Suc i"] p(2)
    have rest: "pbkdf2_blocks mem hctx_tpl salt (int (length salt)) (int iter) (word_of_nat i + 1) (int (len - cplen)) c' =
        Some (Some (take (len - cplen) (concat (map F [Suc i..<Suc i + (len - cplen + 19) div 20]))))"
      by (simp add: add.commute)
    have n: "(len + 19) div 20 = Suc ((len - cplen + 19) div 20)"
    proof (cases "len > 20")
      case True
      then have "len + 19 = (len - 20 + 19) + 20" by simp
      then show ?thesis using True by (simp add: cplen_def)
    qed (use False in \<open>simp add: cplen_def\<close>)
    have up: "[i..<i + (len + 19) div 20] = i # [Suc i..<Suc i + (len - cplen + 19) div 20]"
      unfolding n by (simp add: upt_rec)
    have cp: "int cplen = (if int len > int 20 then int 20 else int len)" by (simp add: cplen_def)
    have "take cplen (F i) @ take (len - cplen) xs = take len (F i @ xs)" for xs
      using lF [of i] by (auto simp: cplen_def)
    then have "take len (concat (map F [i..<i + (len + 19) div 20])) =
        take cplen (F i) @ take (len - cplen) (concat (map F [Suc i..<Suc i + (len - cplen + 19) div 20]))"
      unfolding up list.map concat.simps by simp
    moreover have "nat (int iter - 1) = iter - 1" "int len - int cplen = int (len - cplen)" by (simp_all add: cplen_def)
    ultimately show ?thesis
      using False c(1) p(1) rest
      by (subst pbkdf2_blocks_step [OF _ cp])
        (simp_all add: itmp_INT HASH_MAKE_STRING_digest salt_bytes_def rd_slice_def del: of_nat_diff upt_Suc)
  qed
qed

lemma hash_message_length: "hash_message mem tpl hctx ds = Some (Some h, hctx') \<Longrightarrow> length (HASH_MAKE_STRING h) = 20"
  by (simp add: HASH_MAKE_STRING_digest)

lemma length_rounds:
  "pbkdf2_rounds mem tpl n hctx d p = Some (Some q, hctx') \<Longrightarrow> length d = 20 \<Longrightarrow> length p \<le> 20 \<Longrightarrow> length q = length p"
  by (induction n arbitrary: hctx d p)
    (fastforce simp: xor_bytes_def bind_eq_Some_conv HASH_MAKE_STRING_digest Let_def split: option.splits)+

lemma length_pbkdf2_blocks:
  "pbkdf2_blocks mem tpl salt saltlen iter i len hctx = Some (Some out) \<Longrightarrow> int (length out) = len"
proof (induction mem tpl salt saltlen iter i len hctx arbitrary: out rule: pbkdf2_blocks.induct)
  case (1 mem tpl salt saltlen iter i len hctx)
  show ?case
  proof (cases "len = 0")
    case True
    then show ?thesis using "1.prems" by (simp add: pbkdf2_blocks.simps)
  next
    case False
    define cplen where "cplen = (if len > int 20 then int 20 else len)"
    note run = "1.prems" [unfolded pbkdf2_blocks_step [OF False cplen_def]]
    obtain s h c p c' rest where r: "salt_bytes salt saltlen = Some s"
        "hash_message mem tpl hctx [s, pbkdf2_itmp i] = Some (Some h, c)" "\<not> cplen < 0"
        "pbkdf2_rounds mem tpl (nat (iter - 1)) c (HASH_MAKE_STRING h) (take (nat cplen) (HASH_MAKE_STRING h)) = Some (Some p, c')"
        "pbkdf2_blocks mem tpl salt saltlen iter (i + 1) (len - cplen) c' = Some (Some rest)" "out = p @ rest"
      using run by (fastforce simp: bind_eq_Some_conv split: option.splits if_splits)
    have "int (length rest) = len - cplen"
      using "1.IH" [OF False cplen_def r(1) r(2) refl refl r(3) refl r(4) refl refl r(5)] .
    moreover have "int (length p) = cplen"
      using length_rounds [OF r(4)] r(3) by (auto simp: HASH_MAKE_STRING_digest cplen_def split: if_splits)
    ultimately show ?thesis using r(6) by simp
  qed
qed

lemma length_PBKDF2:
  assumes "PKCS5_PBKDF2_HMAC_SHA1 mem pass passlen salt saltlen iter keylen = Some (1, out)"
  shows "int (length out) = keylen"
proof -
  have run: "\<exists>t. k t = Some (Some out)" if "(if \<not> a then Some (0, []) else do {
      (p, l) \<leftarrow> c;
      (r, t) \<leftarrow> h p l;
      if r = 0 \<or> \<not> b then Some (0, []) else if \<not> d then Some (0, [])
      else do { out \<leftarrow> k t; Some (case out of None \<Rightarrow> (0, []) | Some out \<Rightarrow> (1, out)) } }) = Some (1 :: int, out)"
    for a b d c and h :: "'p \<Rightarrow> 'l \<Rightarrow> (int \<times> 't) option" and k :: "'t \<Rightarrow> bytes option option"
    using that by (auto simp: bind_eq_Some_conv split: if_splits option.splits)
  obtain tpl where "pbkdf2_blocks mem tpl salt saltlen iter 1 keylen HMAC_CTX_new = Some (Some out)"
    using run [OF assms [unfolded PKCS5_PBKDF2_HMAC_SHA1_def PKCS5_PBKDF2_HMAC_def]] by blast
  then show ?thesis by (rule length_pbkdf2_blocks)
qed

text \<open>The memory a derivation needs.\<close>

definition hmac_mem_ok :: "hmac_mem \<Rightarrow> nat \<Rightarrow> bool" where
  "hmac_mem_ok mem keylen \<longleftrightarrow> mem NewTemplate \<and> mem InitTemplate \<and> mem NewContext \<and> (keylen = 0 \<or> mem CopyContext)"

lemma pbkdf2_result:
  "PKCS5_PBKDF2_HMAC_SHA1 mem (Some pass) (int (length pass)) salt (int (length salt)) (int iter) (int keylen) =
    Some (if hmac_mem_ok mem keylen then (1, rfc_PBKDF2 (PRF_sha1 pass) salt iter keylen) else (0, []))"
proof -
  obtain tpl where tpl: "HMAC_Init_ex HMAC_CTX_new (Some pass) (int (length pass)) True = Some (1, tpl)" "hmac_ready pass [] tpl"
    using HMAC_Init_ready by blast
  consider "mem CopyContext" | "\<not> mem CopyContext" "keylen = 0" | "\<not> mem CopyContext" "keylen \<noteq> 0" by blast
  then show ?thesis
  proof cases
    case 1
    then show ?thesis
      using blocks_F [OF tpl(2), of mem HMAC_CTX_new salt iter 1 keylen] tpl(1)
      by (simp add: PKCS5_PBKDF2_HMAC_SHA1_def PKCS5_PBKDF2_HMAC_def hmac_mem_ok_def rfc_PBKDF2_def)
  next
    case 2
    then show ?thesis using tpl(1)
      by (simp add: PKCS5_PBKDF2_HMAC_SHA1_def PKCS5_PBKDF2_HMAC_def hmac_mem_ok_def rfc_PBKDF2_def pbkdf2_blocks.simps)
  next
    case 3
    have "hash_message mem tpl HMAC_CTX_new ds = Some (None, HMAC_CTX_new)" for ds
      using 3 by (simp add: hash_message_def copy_template_def) (simp add: HMAC_CTX_new_def)
    then show ?thesis using tpl(1) 3
      by (simp add: PKCS5_PBKDF2_HMAC_SHA1_def PKCS5_PBKDF2_HMAC_def hmac_mem_ok_def)
        (simp add: pbkdf2_blocks.simps salt_bytes_def rd_slice_def)
  qed
qed

text \<open>
  C15: \<open>PKCS5_PBKDF2_HMAC_SHA1\<close>, with its copies of the keyed template and its four-byte block numbers, derives the key
  that RFC 2898 defines over the HMAC of RFC 2104 and returns 1, for passphrases, salts, iteration counts and key lengths of
  any size its \<open>int\<close> arguments hold (a count of 0 acts as 1); where memory is short it returns 0.
\<close>

theorem pbkdf2_rfc2898:
  "PKCS5_PBKDF2_HMAC_SHA1 mem (Some pass) (int (length pass)) salt (int (length salt)) (int iter) (int keylen) =
    Some (if hmac_mem_ok mem keylen then (1, rfc_PBKDF2 (\<lambda>m. digest_bytes (rfc_HMAC pass m)) salt iter keylen) else (0, []))"
  by (rule pbkdf2_result)

end
