(* ===== verification/HcMsg.thy ===== *)
theory HcMsg
  imports Prelude
begin

text \<open>
  The message layer of HaiCrypt: the header \<open>hcrypt_msg.h\<close> (the layout of the Keying
  Material message and its accessor macros, the transport interface
  \<open>hcrypt_MsgInfo\<close>) and \<open>hcrypt_xpt_srt.c\<close>, the handler of SRT packets.  A message is
  a byte buffer; the functions that receive only a pointer read it with \<^const>\<open>rd\<close>, so a
  message shorter than the fields they look at is a run outside the buffer.  SRT keeps its
  packet headers in host order; the model is of a little-endian host.
\<close>

section \<open>Words in memory\<close>

definition le32 :: "u8 \<Rightarrow> u8 \<Rightarrow> u8 \<Rightarrow> u8 \<Rightarrow> u32" where
  "le32 b0 b1 b2 b3 = ucast b0 OR push_bit 8 (ucast b1) OR push_bit 16 (ucast b2)
     OR push_bit 24 (ucast b3)"

definition load_u32 :: "bytes \<Rightarrow> nat \<Rightarrow> u32 option" where
  "load_u32 m ofs = do { b0 \<leftarrow> rd m ofs; b1 \<leftarrow> rd m (ofs + 1); b2 \<leftarrow> rd m (ofs + 2);
     b3 \<leftarrow> rd m (ofs + 3); Some (le32 b0 b1 b2 b3) }"

definition bytes_u32 :: "u32 \<Rightarrow> bytes" where
  "bytes_u32 w = [ucast w, ucast (drop_bit 8 w), ucast (drop_bit 16 w), ucast (drop_bit 24 w)]"

definition store_u32 :: "bytes \<Rightarrow> nat \<Rightarrow> u32 \<Rightarrow> bytes option" where
  "store_u32 m ofs w = wr m ofs (bytes_u32 w)"

definition htonl :: "u32 \<Rightarrow> u32" where
  "htonl w = le32 (ucast (drop_bit 24 w)) (ucast (drop_bit 16 w)) (ucast (drop_bit 8 w)) (ucast w)"

lemma length_bytes_u32 [simp]: "length (bytes_u32 w) = 4"
  by (simp add: bytes_u32_def)

lemma bytes_u32_le32 [simp]: "bytes_u32 (le32 b0 b1 b2 b3) = [b0, b1, b2, b3]"
  unfolding bytes_u32_def le32_def
  by (auto intro!: bit_word_eqI simp: bit_simps)

lemma le32_bytes_u32 [simp]:
  "le32 (ucast w) (ucast (drop_bit 8 w)) (ucast (drop_bit 16 w)) (ucast (drop_bit 24 w)) = w"
proof (rule bit_word_eqI)
  fix n assume "n < LENGTH(32)"
  then consider "n < 8" | "8 \<le> n" "n < 16" | "16 \<le> n" "n < 24" | "24 \<le> n" "n < 32"
    by force
  then show "bit (le32 (ucast w) (ucast (drop_bit 8 w)) (ucast (drop_bit 16 w))
      (ucast (drop_bit 24 w))) n = bit w n"
    by cases (auto simp: le32_def bit_simps)
qed

lemma bytes_u32_htonl: "bytes_u32 (htonl w) = rev (bytes_u32 w)"
  unfolding htonl_def bytes_u32_le32 by (simp add: bytes_u32_def)

lemma load_u32_in [buf_simps]:
  "ofs + 4 \<le> length m \<Longrightarrow>
     load_u32 m ofs = Some (le32 (m ! ofs) (m ! (ofs + 1)) (m ! (ofs + 2)) (m ! (ofs + 3)))"
  by (simp add: load_u32_def rd_in)

lemma load_store_u32:
  assumes "store_u32 m ofs w = Some m'"
  shows "load_u32 m' ofs = Some w"
proof -
  have "ofs + 4 \<le> length m" and len: "length m' = length m"
    using assms by (auto simp: store_u32_def wr_eq_Some)
  then have "load_u32 m' ofs = Some (le32 (m' ! ofs) (m' ! (ofs + 1)) (m' ! (ofs + 2)) (m' ! (ofs + 3)))"
    by (intro load_u32_in) simp
  moreover have "m' ! (ofs + i) = bytes_u32 w ! i" if "i < 4" for i
    using nth_wr [of m ofs "bytes_u32 w" m' "ofs + i"] assms \<open>ofs + 4 \<le> length m\<close> that
    by (simp add: store_u32_def)
  from this [of 0] this [of 1] this [of 2] this [of 3]
  have "m' ! ofs = ucast w" "m' ! (ofs + 1) = ucast (drop_bit 8 w)"
    "m' ! (ofs + 2) = ucast (drop_bit 16 w)" "m' ! (ofs + 3) = ucast (drop_bit 24 w)"
    by (simp_all add: bytes_u32_def)
  ultimately show ?thesis by simp
qed

section \<open>Constants and accessors of the Keying Material message\<close>

abbreviation (input) HCRYPT_MSG_VERSION :: u32 where "HCRYPT_MSG_VERSION \<equiv> 1"
abbreviation (input) HCRYPT_MSG_PT_MS :: u32 where "HCRYPT_MSG_PT_MS \<equiv> 1"
abbreviation (input) HCRYPT_MSG_PT_KM :: u32 where "HCRYPT_MSG_PT_KM \<equiv> 2"
abbreviation (input) HCRYPT_MSG_F_eSEK :: u32 where "HCRYPT_MSG_F_eSEK \<equiv> 1"
abbreviation (input) HCRYPT_MSG_F_oSEK :: u32 where "HCRYPT_MSG_F_oSEK \<equiv> 2"
abbreviation (input) HCRYPT_MSG_F_xSEK :: u32 where "HCRYPT_MSG_F_xSEK \<equiv> 3"
abbreviation (input) HCRYPT_MSG_KM_OFS_SALT :: nat where "HCRYPT_MSG_KM_OFS_SALT \<equiv> 16"
abbreviation (input) HCRYPT_MSG_KM_MAX_SZ :: nat where "HCRYPT_MSG_KM_MAX_SZ \<equiv> 16 + 16 + 32 * 2 + 8"
abbreviation (input) HCRYPT_CIPHER_AES_CTR :: u8 where "HCRYPT_CIPHER_AES_CTR \<equiv> 2"
abbreviation (input) HCRYPT_AUTH_NONE :: u8 where "HCRYPT_AUTH_NONE \<equiv> 0"
abbreviation (input) HCRYPT_SE_TSSRT :: u8 where "HCRYPT_SE_TSSRT \<equiv> 2"
abbreviation (input) HAICRYPT_SALT_SZ :: nat where "HAICRYPT_SALT_SZ \<equiv> 16"
abbreviation (input) HAICRYPT_KEY_MAX_SZ :: nat where "HAICRYPT_KEY_MAX_SZ \<equiv> 32"
abbreviation (input) HAICRYPT_PWD_MAX_SZ :: nat where "HAICRYPT_PWD_MAX_SZ \<equiv> 80"
abbreviation (input) HAICRYPT_WRAPKEY_SIGN_SZ :: nat where "HAICRYPT_WRAPKEY_SIGN_SZ \<equiv> 8"

text \<open>The manufacturer id: \<open>('H'-'@')<<10 | ('A'-'@')<<5 | ('I'-'@')\<close>.\<close>

definition HCRYPT_MSG_SIGN :: u32 where
  "HCRYPT_MSG_SIGN = push_bit 10 8 OR push_bit 5 1 OR 9"

lemma HCRYPT_MSG_SIGN_value [simp]: "HCRYPT_MSG_SIGN = 0x2029"
  by (simp add: HCRYPT_MSG_SIGN_def)

definition hcryptMsg_KM_GetVersion :: "bytes \<Rightarrow> u32 option" where
  "hcryptMsg_KM_GetVersion msg = do { b \<leftarrow> rd msg 0; Some (drop_bit 4 (ucast b) AND 0xF) }"

definition hcryptMsg_KM_GetPktType :: "bytes \<Rightarrow> u32 option" where
  "hcryptMsg_KM_GetPktType msg = do { b \<leftarrow> rd msg 0; Some (ucast b AND 0xF) }"

definition hcryptMsg_KM_GetSign :: "bytes \<Rightarrow> u32 option" where
  "hcryptMsg_KM_GetSign msg = do { b1 \<leftarrow> rd msg 1; b2 \<leftarrow> rd msg 2;
     Some (push_bit 8 (ucast b1) OR ucast b2) }"

definition hcryptMsg_KM_GetKeyIndex :: "bytes \<Rightarrow> nat option" where
  "hcryptMsg_KM_GetKeyIndex msg = do { b \<leftarrow> rd msg 3;
     Some (unat (drop_bit 1 (ucast b AND HCRYPT_MSG_F_xSEK))) }"

definition hcryptMsg_KM_HasBothSek :: "bytes \<Rightarrow> bool option" where
  "hcryptMsg_KM_HasBothSek msg = do { b \<leftarrow> rd msg 3;
     Some (HCRYPT_MSG_F_xSEK = (ucast b AND HCRYPT_MSG_F_xSEK)) }"

definition hcryptMsg_KM_HasNoSek :: "bytes \<Rightarrow> bool option" where
  "hcryptMsg_KM_HasNoSek msg = do { b \<leftarrow> rd msg 3; Some (0 = (ucast b AND HCRYPT_MSG_F_xSEK)) }"

definition hcryptMsg_KM_GetSE :: "bytes \<Rightarrow> u8 option" where
  "hcryptMsg_KM_GetSE msg = rd msg 10"

definition hcryptMsg_KM_GetSaltLen :: "bytes \<Rightarrow> nat option" where
  "hcryptMsg_KM_GetSaltLen msg = do { b \<leftarrow> rd msg 14; Some (unat b * 4) }"

definition hcryptMsg_KM_GetSekLen :: "bytes \<Rightarrow> nat option" where
  "hcryptMsg_KM_GetSekLen msg = do { b \<leftarrow> rd msg 15; Some (unat b * 4) }"

definition hcryptMsg_KM_SetSaltLen :: "bytes \<Rightarrow> nat \<Rightarrow> bytes option" where
  "hcryptMsg_KM_SetSaltLen msg len = wr msg 14 [word_of_nat (len div 4)]"

definition hcryptMsg_KM_SetSekLen :: "bytes \<Rightarrow> nat \<Rightarrow> bytes option" where
  "hcryptMsg_KM_SetSekLen msg len = wr msg 15 [word_of_nat (len div 4)]"

definition hcryptMsg_PaddedLen :: "nat \<Rightarrow> nat \<Rightarrow> nat" where
  "hcryptMsg_PaddedLen len fct = ((len + fct - 1) div fct) * fct"

lemmas km_get_defs = hcryptMsg_KM_GetVersion_def hcryptMsg_KM_GetPktType_def
  hcryptMsg_KM_GetSign_def hcryptMsg_KM_GetKeyIndex_def hcryptMsg_KM_HasBothSek_def
  hcryptMsg_KM_HasNoSek_def hcryptMsg_KM_GetSE_def hcryptMsg_KM_GetSaltLen_def
  hcryptMsg_KM_GetSekLen_def

section \<open>The transport interface\<close>

record hcrypt_MsgInfo =
  hdr_len :: nat
  pfx_len :: nat
  getKeyFlags :: "bytes \<Rightarrow> u32 option"
  getPki :: "bytes \<Rightarrow> bool \<Rightarrow> u32 option"
  setPki :: "bytes \<Rightarrow> u32 \<Rightarrow> bytes option"
  resetCache :: "bytes \<Rightarrow> u32 \<Rightarrow> u32 \<Rightarrow> bytes option"
  indexMsg :: "bytes \<Rightarrow> bytes \<Rightarrow> bytes option"
  parseMsg :: "bytes \<Rightarrow> int option"

definition hcryptMsg_GetKeyIndex :: "hcrypt_MsgInfo \<Rightarrow> bytes \<Rightarrow> nat option" where
  "hcryptMsg_GetKeyIndex mi msg = do { f \<leftarrow> getKeyFlags mi msg; Some (unat (drop_bit 1 f)) }"

definition hcryptMsg_HasBothSek :: "hcrypt_MsgInfo \<Rightarrow> bytes \<Rightarrow> bool option" where
  "hcryptMsg_HasBothSek mi msg = do { f \<leftarrow> getKeyFlags mi msg;
     Some (HCRYPT_MSG_F_xSEK = (f AND HCRYPT_MSG_F_xSEK)) }"

definition hcryptMsg_HasNoSek :: "hcrypt_MsgInfo \<Rightarrow> bytes \<Rightarrow> bool option" where
  "hcryptMsg_HasNoSek mi msg = do { f \<leftarrow> getKeyFlags mi msg;
     Some (0 = (f AND HCRYPT_MSG_F_xSEK)) }"

section \<open>The SRT transport\<close>

definition hcryptMsg_SRT_GetKeyFlags :: "bytes \<Rightarrow> u32 option" where
  "hcryptMsg_SRT_GetKeyFlags msg = do { msgno \<leftarrow> load_u32 msg 4;
     Some (drop_bit 27 msgno AND HCRYPT_MSG_F_xSEK) }"

definition hcryptMsg_SRT_GetPki :: "bytes \<Rightarrow> bool \<Rightarrow> u32 option" where
  "hcryptMsg_SRT_GetPki msg nwkorder = do { pki \<leftarrow> load_u32 msg 0;
     Some (if nwkorder then htonl pki else pki) }"

definition hcryptMsg_SRT_SetPki :: "bytes \<Rightarrow> u32 \<Rightarrow> bytes option" where
  "hcryptMsg_SRT_SetPki msg pki = store_u32 msg 0 pki"

definition hcryptMsg_SRT_ResetCache :: "bytes \<Rightarrow> u32 \<Rightarrow> u32 \<Rightarrow> bytes option" where
  "hcryptMsg_SRT_ResetCache pfx_cache pkt_type kflgs =
    (if pkt_type = HCRYPT_MSG_PT_MS then Some pfx_cache
     else if pkt_type = HCRYPT_MSG_PT_KM then do {
       c \<leftarrow> wr pfx_cache 0 [ucast (push_bit 4 HCRYPT_MSG_VERSION OR pkt_type)];
       c \<leftarrow> wr c 1 [ucast (drop_bit 8 HCRYPT_MSG_SIGN AND 0xFF)];
       c \<leftarrow> wr c 2 [ucast (HCRYPT_MSG_SIGN AND 0xFF)];
       wr c 3 [ucast kflgs] }
     else Some pfx_cache)"

definition hcryptMsg_SRT_IndexMsg :: "bytes \<Rightarrow> bytes \<Rightarrow> bytes option" where
  "hcryptMsg_SRT_IndexMsg msg pfx_cache = Some msg"

text \<open>
  \<open>&&\<close> stops at the first false operand, so the later bytes are read only when the earlier
  ones matched.  The inner \<open>switch\<close> is on the packet type just computed, so its
  \<open>default\<close> branch is not reached.
\<close>

definition hcryptMsg_SRT_ParseMsg_with ::
    "hcrypt_MsgInfo \<Rightarrow> bytes \<Rightarrow> int option" where
  "hcryptMsg_SRT_ParseMsg_with mi msg = do {
     v \<leftarrow> hcryptMsg_KM_GetVersion msg;
     km \<leftarrow> (if HCRYPT_MSG_VERSION = v then do {
              pt \<leftarrow> hcryptMsg_KM_GetPktType msg;
              if HCRYPT_MSG_PT_KM = pt then do {
                sg \<leftarrow> hcryptMsg_KM_GetSign msg; Some (HCRYPT_MSG_SIGN = sg) }
              else Some False }
            else Some False);
     let rc = (if km then HCRYPT_MSG_PT_KM else HCRYPT_MSG_PT_MS);
     if rc = HCRYPT_MSG_PT_MS then do {
       no \<leftarrow> hcryptMsg_HasNoSek mi msg;
       both \<leftarrow> hcryptMsg_HasBothSek mi msg;
       Some (if no \<or> both then -1 else uint rc) }
     else do {
       se \<leftarrow> hcryptMsg_KM_GetSE msg;
       if HCRYPT_SE_TSSRT \<noteq> se then Some (-1)
       else do { no \<leftarrow> hcryptMsg_KM_HasNoSek msg; Some (if no then -1 else uint rc) } } }"

text \<open>
  The static \<open>_hcMsg_SRT_MsgInfo\<close>: \<open>parseMsg\<close> refers to the structure it is a member of,
  but only to its \<open>getKeyFlags\<close>, so the knot is tied on a copy without \<open>parseMsg\<close>.
\<close>

definition hcryptMsg_SRT_base :: hcrypt_MsgInfo where
  "hcryptMsg_SRT_base = \<lparr>hdr_len = 16, pfx_len = 16,
     getKeyFlags = hcryptMsg_SRT_GetKeyFlags, getPki = hcryptMsg_SRT_GetPki,
     setPki = hcryptMsg_SRT_SetPki, resetCache = hcryptMsg_SRT_ResetCache,
     indexMsg = hcryptMsg_SRT_IndexMsg, parseMsg = (\<lambda>_. None)\<rparr>"

definition hcryptMsg_SRT_ParseMsg :: "bytes \<Rightarrow> int option" where
  "hcryptMsg_SRT_ParseMsg = hcryptMsg_SRT_ParseMsg_with hcryptMsg_SRT_base"

definition hcryptMsg_SRT_MsgInfo :: hcrypt_MsgInfo where
  "hcryptMsg_SRT_MsgInfo = hcryptMsg_SRT_base\<lparr>parseMsg := hcryptMsg_SRT_ParseMsg\<rparr>"

lemmas srt_msg_defs = hcryptMsg_SRT_MsgInfo_def hcryptMsg_SRT_base_def
  hcryptMsg_SRT_GetKeyFlags_def hcryptMsg_SRT_GetPki_def hcryptMsg_SRT_SetPki_def
  hcryptMsg_SRT_ResetCache_def hcryptMsg_SRT_IndexMsg_def

section \<open>What the sessions rely on\<close>

text \<open>
  The contract of a transport handler, as the context and session code uses it: the key
  flags are two bits and can be read from any message that has its prefix, the packet index
  can be stored and read back, resetting the cache of a media stream leaves it alone, and
  resetting that of a Keying Material message writes the four header bytes and nothing else.
\<close>

locale msg_transport =
  fixes mi :: hcrypt_MsgInfo
  assumes key_flags: "pfx_len mi \<le> length msg \<Longrightarrow> \<exists>f. getKeyFlags mi msg = Some f \<and> unat f < 4"
    and key_flags_range: "getKeyFlags mi msg = Some f \<Longrightarrow> unat f < 4"
    and get_set_pki: "setPki mi msg p = Some m' \<Longrightarrow> getPki mi m' nw = Some (if nw then htonl p else p)"
    and get_pki: "pfx_len mi \<le> length msg \<Longrightarrow> \<exists>p. getPki mi msg nw = Some p"
    and reset_ms: "resetCache mi c HCRYPT_MSG_PT_MS kf = Some c"
    and reset_km: "4 \<le> length c \<Longrightarrow>
      resetCache mi c HCRYPT_MSG_PT_KM kf = Some ([0x12, 0x20, 0x29, ucast kf] @ drop 4 c)"
    and index_keeps: "indexMsg mi msg c = Some msg"
begin

lemma key_index_below: "hcryptMsg_GetKeyIndex mi msg = Some i \<Longrightarrow> i < 2"
proof -
  assume "hcryptMsg_GetKeyIndex mi msg = Some i"
  then obtain f where f: "getKeyFlags mi msg = Some f" and i: "i = unat (drop_bit 1 f)"
    by (auto simp: hcryptMsg_GetKeyIndex_def bind_eq_Some_conv)
  from key_flags_range [OF f] show "i < 2"
    by (simp add: i drop_bit_eq_div unat_div)
qed

lemma key_index_total:
  assumes "pfx_len mi \<le> length msg"
  shows "\<exists>i < 2. hcryptMsg_GetKeyIndex mi msg = Some i"
proof -
  obtain f where "getKeyFlags mi msg = Some f" using key_flags [OF assms] by blast
  then have "hcryptMsg_GetKeyIndex mi msg = Some (unat (drop_bit 1 f))"
    by (simp add: hcryptMsg_GetKeyIndex_def)
  then show ?thesis using key_index_below by blast
qed

end

lemma and_3_below: "unat ((w :: u32) AND 3) < 4"
proof -
  have "unat (w AND 3) \<le> unat (3 :: u32)"
    by (rule word_and_le1 [THEN word_le_nat_alt [THEN iffD1]])
  then show ?thesis by simp
qed

lemma ex_prefix4: "4 \<le> length c \<Longrightarrow> \<exists>x y z v r. c = x # y # z # v # r"
  by (auto simp: Suc_le_length_iff numeral_eq_Suc)

lemma wr_prefix4:
  assumes "4 \<le> length c"
  shows "do { c \<leftarrow> wr c 0 [a]; c \<leftarrow> wr c (Suc 0) [b]; c \<leftarrow> wr c 2 [d]; wr c 3 [e] } =
    Some (a # b # d # e # drop 4 c)"
  using ex_prefix4 [OF assms] by (auto simp: wr_def numeral_2_eq_2 numeral_3_eq_3)

interpretation srt_mi: msg_transport hcryptMsg_SRT_MsgInfo
proof
  fix msg c :: bytes and f p kf :: u32 and nw :: bool and m' :: bytes
  show "getKeyFlags hcryptMsg_SRT_MsgInfo msg = Some f \<Longrightarrow> unat f < 4"
    by (auto simp: srt_msg_defs bind_eq_Some_conv and_3_below)
  show "pfx_len hcryptMsg_SRT_MsgInfo \<le> length msg \<Longrightarrow>
      \<exists>f. getKeyFlags hcryptMsg_SRT_MsgInfo msg = Some f \<and> unat f < 4"
    by (auto simp: srt_msg_defs buf_simps and_3_below)
  show "setPki hcryptMsg_SRT_MsgInfo msg p = Some m' \<Longrightarrow>
      getPki hcryptMsg_SRT_MsgInfo m' nw = Some (if nw then htonl p else p)"
    by (simp add: srt_msg_defs load_store_u32)
  show "pfx_len hcryptMsg_SRT_MsgInfo \<le> length msg \<Longrightarrow>
      \<exists>p. getPki hcryptMsg_SRT_MsgInfo msg nw = Some p"
    by (auto simp: srt_msg_defs buf_simps)
  show "resetCache hcryptMsg_SRT_MsgInfo c HCRYPT_MSG_PT_MS kf = Some c"
    by (simp add: srt_msg_defs)
  show "4 \<le> length c \<Longrightarrow> resetCache hcryptMsg_SRT_MsgInfo c HCRYPT_MSG_PT_KM kf =
      Some ([0x12, 0x20, 0x29, ucast kf] @ drop 4 c)"
    by (simp add: srt_msg_defs wr_prefix4)
  show "indexMsg hcryptMsg_SRT_MsgInfo msg c = Some msg"
    by (simp add: srt_msg_defs)
qed

section \<open>Classification of incoming messages\<close>

lemma le32_inject: "le32 a b c d = le32 a' b' c' d' \<longleftrightarrow> a = a' \<and> b = b' \<and> c = c' \<and> d = d'"
proof
  assume "le32 a b c d = le32 a' b' c' d'"
  then have "bytes_u32 (le32 a b c d) = bytes_u32 (le32 a' b' c' d')" by simp
  then show "a = a' \<and> b = b' \<and> c = c' \<and> d = d'" by simp
qed simp

lemma sign_bytes: "HCRYPT_MSG_SIGN = (push_bit 8 (ucast (b1 :: u8)) OR ucast (b2 :: u8)) \<longleftrightarrow> b1 = 0x20 \<and> b2 = 0x29"
proof -
  have w: "push_bit 8 (ucast b1) OR ucast b2 = le32 b2 b1 0 0"
    by (simp add: le32_def or.commute)
  have sign: "HCRYPT_MSG_SIGN = le32 0x29 0x20 0 0"
    by (simp add: le32_def)
  show ?thesis unfolding w sign le32_inject by auto
qed

lemma nibbles_0x12:
  "drop_bit 4 (ucast (b :: u8)) AND 0xF = (1 :: u32) \<and> ucast b AND 0xF = (2 :: u32) \<longleftrightarrow> b = 0x12"
proof -
  have "unat (drop_bit 4 (ucast b :: u32) AND 0xF) = unat b div 16 mod 16"
    by (simp add: and_15 drop_bit_eq_div unat_div)
  moreover have "unat (ucast b AND (0xF :: u32)) = unat b mod 16"
    by (simp add: and_15)
  moreover have "unat b div 16 mod 16 = 1 \<and> unat b mod 16 = 2 \<longleftrightarrow> unat b = 18"
  proof -
    have "unat b < 256" using unsigned_less [of b, where 'a=nat] by simp
    then have "unat b div 16 mod 16 = unat b div 16" by (intro mod_less) (simp add: div_less_iff_less_mult)
    moreover have "x = 18" if "x div 16 = 1" "x mod 16 = 2" for x :: nat
      using that div_mult_mod_eq [of x 16] by simp
    ultimately show ?thesis by auto
  qed
  ultimately show ?thesis
    unfolding word_eq_iff_unsigned [where 'a=nat] by simp
qed

lemma bit_le32_27: "bit (le32 a b c d) 27 = bit d 3" and bit_le32_28: "bit (le32 a b c d) 28 = bit d 4"
  by (simp_all add: le32_def bit_simps)

lemma srt_key_flags:
  assumes "16 \<le> length msg"
  shows "hcryptMsg_HasNoSek hcryptMsg_SRT_base msg = Some (\<not> bit (msg ! 7) 3 \<and> \<not> bit (msg ! 7) 4)"
    and "hcryptMsg_HasBothSek hcryptMsg_SRT_base msg = Some (bit (msg ! 7) 3 \<and> bit (msg ! 7) 4)"
proof -
  let ?w = "le32 (msg ! 4) (msg ! 5) (msg ! 6) (msg ! 7)"
  have f: "getKeyFlags hcryptMsg_SRT_base msg = Some (drop_bit 27 ?w AND 3)"
    using assms by (simp add: srt_msg_defs buf_simps)
  have no: "drop_bit 27 ?w AND 3 = 0 \<longleftrightarrow> \<not> bit (msg ! 7) 3 \<and> \<not> bit (msg ! 7) 4"
    and both: "drop_bit 27 ?w AND 3 = 3 \<longleftrightarrow> bit (msg ! 7) 3 \<and> bit (msg ! 7) 4"
    by (simp_all only: and_3_bits [where 'a=32, simplified] bit_drop_bit_eq comp_def)
      (simp_all add: bit_le32_27 bit_le32_28)
  show "hcryptMsg_HasNoSek hcryptMsg_SRT_base msg = Some (\<not> bit (msg ! 7) 3 \<and> \<not> bit (msg ! 7) 4)"
    unfolding hcryptMsg_HasNoSek_def f using no by (auto simp: and.assoc)
  show "hcryptMsg_HasBothSek hcryptMsg_SRT_base msg = Some (bit (msg ! 7) 3 \<and> bit (msg ! 7) 4)"
    unfolding hcryptMsg_HasBothSek_def f using both by (auto simp: and.assoc)
qed

lemma hcryptMsg_SRT_ParseMsg_spec:
  assumes "16 \<le> length msg"
  shows "hcryptMsg_SRT_ParseMsg msg = Some
    (if msg ! 0 = 0x12 \<and> msg ! 1 = 0x20 \<and> msg ! 2 = 0x29
     then (if msg ! 10 = HCRYPT_SE_TSSRT \<and> (bit (msg ! 3) 0 \<or> bit (msg ! 3) 1) then 2 else -1)
     else (if bit (msg ! 7) 3 \<noteq> bit (msg ! 7) 4 then 1 else -1))"
proof -
  have r: "rd msg i = Some (msg ! i)" if "i < 16" for i
    using assms that by (intro rd_in) simp
  have "ucast (msg ! 3) AND (3 :: u32) = 0 \<longleftrightarrow> \<not> (bit (msg ! 3) 0 \<or> bit (msg ! 3) 1)"
    by (simp only: and_3_bits [where 'a=32, simplified]) (simp add: bit_simps)
  then have no: "hcryptMsg_KM_HasNoSek msg = Some (\<not> (bit (msg ! 3) 0 \<or> bit (msg ! 3) 1))"
    by (auto simp: hcryptMsg_KM_HasNoSek_def r)
  obtain v where v: "hcryptMsg_KM_GetVersion msg = Some v"
      "v = drop_bit 4 (ucast (msg ! 0)) AND 0xF"
    by (simp add: hcryptMsg_KM_GetVersion_def r)
  obtain pt where pt: "hcryptMsg_KM_GetPktType msg = Some pt" "pt = ucast (msg ! 0) AND 0xF"
    by (simp add: hcryptMsg_KM_GetPktType_def r)
  obtain sg where sg: "hcryptMsg_KM_GetSign msg = Some sg"
      "sg = push_bit 8 (ucast (msg ! 1)) OR ucast (msg ! 2)"
    by (simp add: hcryptMsg_KM_GetSign_def r)
  have se: "hcryptMsg_KM_GetSE msg = Some (msg ! 10)"
    by (simp add: hcryptMsg_KM_GetSE_def r)
  have nib: "v = 1 \<and> pt = 2 \<longleftrightarrow> msg ! 0 = 0x12"
    unfolding v(2) pt(2) by (rule nibbles_0x12)
  have hai: "HCRYPT_MSG_SIGN = sg \<longleftrightarrow> msg ! 1 = 0x20 \<and> msg ! 2 = 0x29"
    unfolding sg(2) by (rule sign_bytes)
  show ?thesis
    unfolding hcryptMsg_SRT_ParseMsg_def hcryptMsg_SRT_ParseMsg_with_def
    unfolding v(1) pt(1) sg(1) se no srt_key_flags [OF assms] nib [symmetric] hai [symmetric]
    by (cases "v = 1"; cases "pt = 2"; cases "HCRYPT_MSG_SIGN = sg")
      (auto simp del: HCRYPT_MSG_SIGN_value)
qed

end
