(* ===== verification/HcCtx.thy ===== *)
theory HcCtx
  imports HcMsg Ctr128
begin

text \<open>
  The data of HaiCrypt: \<open>haicrypt.h\<close> (configuration), \<open>hcrypt_ctx.h\<close> (a crypto context), the
  macros of \<open>hcrypt.h\<close> on byte strings and the \<open>struct timeval\<close> arithmetic the session uses.
  The arrays of a structure are byte lists of the declared size.  The pointer \<open>alt\<close> of a
  context is not a field: from \<open>sHaiCrypt_PrepareHandle\<close> on it is the other context of the
  pair.
\<close>

section \<open>Constants\<close>

abbreviation (input) HCRYPT_CTX_F_eSEK :: u32 where "HCRYPT_CTX_F_eSEK \<equiv> 1"
abbreviation (input) HCRYPT_CTX_F_oSEK :: u32 where "HCRYPT_CTX_F_oSEK \<equiv> 2"
abbreviation (input) HCRYPT_CTX_F_xSEK :: u32 where "HCRYPT_CTX_F_xSEK \<equiv> 3"
abbreviation (input) HCRYPT_CTX_F_ENCRYPT :: u32 where "HCRYPT_CTX_F_ENCRYPT \<equiv> 0x100"
abbreviation (input) HCRYPT_CTX_F_ANNOUNCE :: u32 where "HCRYPT_CTX_F_ANNOUNCE \<equiv> 0x200"
abbreviation (input) HCRYPT_CTX_F_TTSEND :: u32 where "HCRYPT_CTX_F_TTSEND \<equiv> 0x400"

abbreviation (input) HCRYPT_CTX_S_INIT :: nat where "HCRYPT_CTX_S_INIT \<equiv> 1"
abbreviation (input) HCRYPT_CTX_S_SARDY :: nat where "HCRYPT_CTX_S_SARDY \<equiv> 2"
abbreviation (input) HCRYPT_CTX_S_KEYED :: nat where "HCRYPT_CTX_S_KEYED \<equiv> 3"
abbreviation (input) HCRYPT_CTX_S_ACTIVE :: nat where "HCRYPT_CTX_S_ACTIVE \<equiv> 4"
abbreviation (input) HCRYPT_CTX_S_DEPRECATED :: nat where "HCRYPT_CTX_S_DEPRECATED \<equiv> 5"

abbreviation (input) HCRYPT_CTX_MODE_CLRTXT :: nat where "HCRYPT_CTX_MODE_CLRTXT \<equiv> 0"
abbreviation (input) HCRYPT_CTX_MODE_AESECB :: nat where "HCRYPT_CTX_MODE_AESECB \<equiv> 1"
abbreviation (input) HCRYPT_CTX_MODE_AESCTR :: nat where "HCRYPT_CTX_MODE_AESCTR \<equiv> 2"

abbreviation (input) HAICRYPT_SECTYP_PRESHARED :: nat where "HAICRYPT_SECTYP_PRESHARED \<equiv> 1"
abbreviation (input) HAICRYPT_SECTYP_PASSPHRASE :: nat where "HAICRYPT_SECTYP_PASSPHRASE \<equiv> 2"
abbreviation (input) HAICRYPT_CFG_F_TX :: u32 where "HAICRYPT_CFG_F_TX \<equiv> 1"
abbreviation (input) HAICRYPT_CFG_F_CRYPTO :: u32 where "HAICRYPT_CFG_F_CRYPTO \<equiv> 2"
abbreviation (input) HAICRYPT_XPT_SRT :: int where "HAICRYPT_XPT_SRT \<equiv> 1"
abbreviation (input) HAICRYPT_SECRET_MAX_SZ :: nat where "HAICRYPT_SECRET_MAX_SZ \<equiv> 80"
abbreviation (input) HAICRYPT_PBKDF2_SALT_LEN :: nat where "HAICRYPT_PBKDF2_SALT_LEN \<equiv> 8"
abbreviation (input) HAICRYPT_PBKDF2_ITER_CNT :: nat where "HAICRYPT_PBKDF2_ITER_CNT \<equiv> 2048"

abbreviation (input) KM_CACHE_SZ :: nat where "KM_CACHE_SZ \<equiv> 16 + HCRYPT_MSG_KM_MAX_SZ"
abbreviation (input) MS_PFX_CACHE_SZ :: nat where "MS_PFX_CACHE_SZ \<equiv> 16"

section \<open>Structures\<close>

record HaiCrypt_Secret =
  sec_typ :: nat
  sec_len :: nat
  sec_str :: bytes

record ctx_cfg =
  cfg_key_len :: nat
  cfg_pwd_len :: nat
  cfg_pwd :: bytes

record hcrypt_Ctx =
  ctx_flags :: u32
  ctx_status :: nat
  ctx_mode :: nat
  ctx_cfg :: ctx_cfg
  ctx_salt_len :: nat
  ctx_salt :: bytes
  ctx_sek_len :: nat
  ctx_sek :: bytes
  ctx_msg_info :: "hcrypt_MsgInfo option"
  ctx_pkt_cnt :: u32
  ctx_KMmsg_len :: nat
  ctx_KMmsg_cache :: bytes
  ctx_MSpfx_cache :: bytes

text \<open>\<open>memset(crypto, 0, sizeof(*crypto))\<close> on a context.\<close>

definition zero_ctx :: hcrypt_Ctx where
  "zero_ctx = \<lparr>ctx_flags = 0, ctx_status = 0, ctx_mode = 0,
     ctx_cfg = \<lparr>cfg_key_len = 0, cfg_pwd_len = 0, cfg_pwd = replicate HAICRYPT_PWD_MAX_SZ 0\<rparr>,
     ctx_salt_len = 0, ctx_salt = replicate HAICRYPT_SALT_SZ 0,
     ctx_sek_len = 0, ctx_sek = replicate HAICRYPT_KEY_MAX_SZ 0,
     ctx_msg_info = None, ctx_pkt_cnt = 0,
     ctx_KMmsg_len = 0, ctx_KMmsg_cache = replicate KM_CACHE_SZ 0,
     ctx_MSpfx_cache = replicate MS_PFX_CACHE_SZ 0\<rparr>"

definition hcryptCtx_GetKeyFlags :: "hcrypt_Ctx \<Rightarrow> u32" where
  "hcryptCtx_GetKeyFlags ctx = ctx_flags ctx AND HCRYPT_CTX_F_xSEK"

definition hcryptCtx_GetKeyIndex :: "hcrypt_Ctx \<Rightarrow> nat" where
  "hcryptCtx_GetKeyIndex ctx = unat (drop_bit 1 (ctx_flags ctx AND HCRYPT_CTX_F_xSEK))"

text \<open>A flag test, \<open>flags & F\<close> as a condition, and \<open>flags |= F\<close>, \<open>flags &= ~F\<close>.\<close>

definition has_flag :: "u32 \<Rightarrow> hcrypt_Ctx \<Rightarrow> bool" where
  "has_flag f ctx \<longleftrightarrow> ctx_flags ctx AND f \<noteq> 0"

definition set_flag :: "u32 \<Rightarrow> hcrypt_Ctx \<Rightarrow> hcrypt_Ctx" where
  "set_flag f ctx = ctx\<lparr>ctx_flags := ctx_flags ctx OR f\<rparr>"

definition clear_flag :: "u32 \<Rightarrow> hcrypt_Ctx \<Rightarrow> hcrypt_Ctx" where
  "clear_flag f ctx = ctx\<lparr>ctx_flags := ctx_flags ctx AND NOT f\<rparr>"

record hcrypt_DataDesc =
  dd_pfx :: bytes
  dd_payload :: bytes
  dd_len :: nat

section \<open>Byte strings\<close>

text \<open>
  \<open>hcrypt_XorStream(dst, strm, len)\<close>, with both buffers read and written in the given range.
\<close>

definition hcrypt_XorStream :: "bytes \<Rightarrow> nat \<Rightarrow> bytes \<Rightarrow> nat \<Rightarrow> bytes option" where
  "hcrypt_XorStream dst ofs strm len = do {
     d \<leftarrow> rd_slice dst ofs len;
     s \<leftarrow> rd_slice strm 0 len;
     wr dst ofs (xor_bytes d s) }"

text \<open>
  \<open>hcrypt_SetCtrIV(pki, nonce, iv)\<close>: \<open>pki\<close> is the address of a packet index, four bytes
  in the order of the host.
\<close>

definition hcrypt_SetCtrIV :: "u32 \<Rightarrow> bytes \<Rightarrow> bytes option" where
  "hcrypt_SetCtrIV pki nonce = do {
     iv \<leftarrow> wr (replicate 16 0) 10 (bytes_u32 pki);
     hcrypt_XorStream iv 0 nonce 14 }"

section \<open>Time\<close>

record timeval =
  tv_sec :: int
  tv_usec :: int

definition timerisset :: "timeval \<Rightarrow> bool" where
  "timerisset t \<longleftrightarrow> tv_sec t \<noteq> 0 \<or> tv_usec t \<noteq> 0"

definition timerclear :: timeval where
  "timerclear = \<lparr>tv_sec = 0, tv_usec = 0\<rparr>"

definition timeradd :: "timeval \<Rightarrow> timeval \<Rightarrow> timeval" where
  "timeradd a b =
    (let sec = tv_sec a + tv_sec b; usec = tv_usec a + tv_usec b
     in if usec \<ge> 1000000 then \<lparr>tv_sec = sec + 1, tv_usec = usec - 1000000\<rparr>
        else \<lparr>tv_sec = sec, tv_usec = usec\<rparr>)"

definition timercmp_gt :: "timeval \<Rightarrow> timeval \<Rightarrow> bool" where
  "timercmp_gt a b = (if tv_sec a = tv_sec b then tv_usec a > tv_usec b else tv_sec a > tv_sec b)"

section \<open>Lemmas\<close>

lemma hcrypt_XorStream_in [buf_simps]:
  assumes "ofs + len \<le> length dst" and "len \<le> length strm"
  shows "hcrypt_XorStream dst ofs strm len =
    Some (take ofs dst @ xor_bytes (take len (drop ofs dst)) (take len strm) @ drop (ofs + len) dst)"
  using assms by (simp add: hcrypt_XorStream_def rd_slice_in wr_in)

lemma hcrypt_SetCtrIV_total:
  assumes "14 \<le> length nonce"
  shows "\<exists>iv. hcrypt_SetCtrIV pki nonce = Some iv \<and> length iv = 16 \<and> drop 14 iv = [0, 0]"
proof -
  obtain iv0 where iv0: "wr (replicate 16 0) 10 (bytes_u32 pki) = Some iv0"
    and l: "iv0 = replicate 10 0 @ bytes_u32 pki @ replicate 2 0"
    by (simp add: wr_in)
  have "hcrypt_SetCtrIV pki nonce = Some (xor_bytes (take 14 iv0) (take 14 nonce) @ drop 14 iv0)"
    unfolding hcrypt_SetCtrIV_def iv0 using assms by (simp add: hcrypt_XorStream_in l)
  moreover have "drop 14 iv0 = [0, 0]" unfolding l by (simp add: numeral_2_eq_2)
  ultimately show ?thesis using assms by (simp add: l)
qed

lemma hcryptCtx_GetKeyIndex_below: "hcryptCtx_GetKeyIndex ctx < 2"
proof -
  have "unat (ctx_flags ctx AND 3) < 4" by (rule and_3_below)
  then show ?thesis by (simp add: hcryptCtx_GetKeyIndex_def drop_bit_eq_div unat_div)
qed

end
