(* ===== verification/Cryspr.thy ===== *)
theory Cryspr
  imports HcCtx KeyWrap
begin

text \<open>
  The crypto service provider interface of HaiCrypt, \<open>cryspr.h\<close> and \<open>cryspr.c\<close>: the control
  block with its key contexts and its circular output buffer, the primitive API a crypto library
  provides, and the session API built on it (opening, setting keys, wrapping and unwrapping
  keying material, encrypting and decrypting packets).

  \<open>'k\<close> is the library's key context \<open>CRYSPR_AESCTX\<close> and \<open>'w\<close> the state of the services
  outside the process (random numbers, clock, memory).  The entries \<open>open\<close>, \<open>close\<close>,
  \<open>km_setkey\<close>, \<open>ms_setkey\<close>, \<open>ms_encrypt\<close> and \<open>ms_decrypt\<close> of the method table are
  the \<open>crysprFallback_\<close> functions for all three libraries, so the sessions call those directly.
\<close>

section \<open>The control block and the method table\<close>

abbreviation (input) CRYSPR_AESBLKSZ :: nat where "CRYSPR_AESBLKSZ \<equiv> 16"
abbreviation (input) CRYSPR_OUTMSGMAX :: nat where "CRYSPR_OUTMSGMAX \<equiv> 6"
abbreviation (input) HCRYPT_CTR_BLK_SZ :: nat where "HCRYPT_CTR_BLK_SZ \<equiv> 16"
abbreviation (input) HCRYPT_CTR_STREAM_SZ :: nat where "HCRYPT_CTR_STREAM_SZ \<equiv> 2048"

record 'k CRYSPR_cb =
  aes_kek :: 'k
  aes_sek :: "nat \<Rightarrow> 'k"
  ctr_stream :: bytes
  ctr_stream_len :: nat
  ctr_stream_siz :: nat
  outbuf :: bytes
  outbuf_ofs :: nat
  outbuf_siz :: nat

text \<open>
  \<open>has_aesctr\<close> is \<open>CRYSPR_HAS_AESCTR\<close> and \<open>has_aeskwrap\<close> is \<open>CRYSPR_HAS_AESKWRAP\<close>.
  A function that writes an output buffer returns the bytes it writes; \<open>aes_ecb_cipher\<close> gets
  and returns \<open>*outlen\<close>.  \<open>blank_aesctx\<close> and \<open>stack_len\<close> are the contents of
  uninitialised memory: a key context never set, and the local \<open>out_len\<close> of
  \<open>crysprFallback_MsDecrypt\<close>.
\<close>

record ('k, 'w) CRYSPR_methods =
  has_aesctr :: bool
  blank_aesctx :: 'k
  stack_len :: nat
  prng :: "nat \<Rightarrow> 'w \<Rightarrow> int \<times> bytes \<times> 'w"
  aes_set_key :: "bool \<Rightarrow> bytes \<Rightarrow> 'k \<Rightarrow> int \<times> 'k"
  aes_ecb_cipher :: "bool \<Rightarrow> 'k \<Rightarrow> bytes \<Rightarrow> nat \<Rightarrow> int \<times> bytes \<times> nat"
  aes_ctr_cipher :: "bool \<Rightarrow> 'k \<Rightarrow> bytes \<Rightarrow> bytes \<Rightarrow> int \<times> bytes"
  km_pbkdf2 :: "bytes \<Rightarrow> bytes \<Rightarrow> nat \<Rightarrow> nat \<Rightarrow> int \<times> bytes"
  km_wrap :: "'k CRYSPR_cb \<Rightarrow> bytes \<Rightarrow> int \<times> bytes"
  km_unwrap :: "'k CRYSPR_cb \<Rightarrow> bytes \<Rightarrow> (int \<times> bytes) option"

section \<open>Stubs\<close>

text \<open>They write nothing; \<open>crysprStub_Prng\<close> leaves the caller's buffer as it was.\<close>

definition crysprStub_Prng :: "nat \<Rightarrow> 'w \<Rightarrow> int \<times> bytes \<times> 'w" where
  "crysprStub_Prng len w = (0, [], w)"

definition crysprStub_AES_SetKey :: "bool \<Rightarrow> bytes \<Rightarrow> 'k \<Rightarrow> int \<times> 'k" where
  "crysprStub_AES_SetKey bEncrypt kstr aes_key = (0, aes_key)"

definition crysprStub_AES_EcbCipher :: "bool \<Rightarrow> 'k \<Rightarrow> bytes \<Rightarrow> nat \<Rightarrow> int \<times> bytes \<times> nat" where
  "crysprStub_AES_EcbCipher bEncrypt aes_key indata outlen = (-1, [], outlen)"

definition crysprStub_AES_CtrCipher :: "bool \<Rightarrow> 'k \<Rightarrow> bytes \<Rightarrow> bytes \<Rightarrow> int \<times> bytes" where
  "crysprStub_AES_CtrCipher bEncrypt aes_key iv indata = (-1, [])"

definition crysprStub_KmPbkdf2 :: "bytes \<Rightarrow> bytes \<Rightarrow> nat \<Rightarrow> nat \<Rightarrow> int \<times> bytes" where
  "crysprStub_KmPbkdf2 passwd salt itr key_len = (-1, [])"

section \<open>Keying material\<close>

definition crysprFallback_KmSetKey ::
    "('k, 'w) CRYSPR_methods \<Rightarrow> 'k CRYSPR_cb \<Rightarrow> bool \<Rightarrow> bytes \<Rightarrow> int \<times> 'k CRYSPR_cb" where
  "crysprFallback_KmSetKey m cb bWrap kek =
    (let (rc, k) = aes_set_key m bWrap kek (aes_kek cb); cb = cb\<lparr>aes_kek := k\<rparr>
     in if rc \<noteq> 0 then (-1, cb) else (0, cb))"

text \<open>One call of \<open>aes_ecb_cipher\<close> on the block \<open>B\<close>, in place, its result ignored.\<close>

definition ecb_block :: "('k, 'w) CRYSPR_methods \<Rightarrow> bool \<Rightarrow> 'k \<Rightarrow> bytes \<Rightarrow> bytes" where
  "ecb_block m enc kek B = (let (rc, out, outlen) = aes_ecb_cipher m enc kek B 16
     in out @ drop (length out) B)"

definition crysprFallback_AES_WrapKey ::
    "('k, 'w) CRYSPR_methods \<Rightarrow> 'k CRYSPR_cb \<Rightarrow> bytes \<Rightarrow> int \<times> bytes" where
  "crysprFallback_AES_WrapKey m cb inp =
    (let inlen = length inp in
     if inlen mod 8 \<noteq> 0 \<or> inlen < 8 then (-1, [])
     else let (A, R) = wrap_outer (ecb_block m True (aes_kek cb)) inlen 6 (1 :: u32) (default_iv, inp)
          in (0, A @ R))"

text \<open>\<open>inlen -= 8\<close> is on \<open>unsigned int\<close>.\<close>

definition crysprFallback_AES_UnwrapKey ::
    "('k, 'w) CRYSPR_methods \<Rightarrow> 'k CRYSPR_cb \<Rightarrow> bytes \<Rightarrow> (int \<times> bytes) option" where
  "crysprFallback_AES_UnwrapKey m cb inp =
    (let inlen = unat (word_of_nat (length inp) - (8 :: u32)) in
     if inlen mod 8 \<noteq> 0 then Some (-1, [])
     else if inlen < 8 then Some (-1, [])
     else do {
       A \<leftarrow> rd_slice inp 0 8;
       R \<leftarrow> rd_slice inp 8 inlen;
       let t = 6 * (inlen div 8);
       let (A, R) = unwrap_outer (ecb_block m False (aes_kek cb)) inlen 6 (word_of_nat t :: u32) (A, R);
       Some (if A \<noteq> default_iv then (-1, replicate inlen 0) else (0, R)) })"

section \<open>The circular output buffer\<close>

text \<open>The offset of the room reserved, and the control block with the write offset moved.\<close>

definition crysprFallback_GetOutbuf :: "'k CRYSPR_cb \<Rightarrow> nat \<Rightarrow> nat \<Rightarrow> nat \<times> 'k CRYSPR_cb" where
  "crysprFallback_GetOutbuf cb pfx out_len =
    (let ofs = (if pfx + out_len > size_sub (outbuf_siz cb) (outbuf_ofs cb) then 0 else outbuf_ofs cb)
     in (ofs, cb\<lparr>outbuf_ofs := ofs + (pfx + out_len)\<rparr>))"

text \<open>\<open>got\<close>: the allocation succeeds.\<close>

definition crysprFallback_Open :: "('k, 'w) CRYSPR_methods \<Rightarrow> nat \<Rightarrow> bool \<Rightarrow> 'k CRYSPR_cb option" where
  "crysprFallback_Open m max_len got =
    (let padded_len = hcryptMsg_PaddedLen max_len (128 div 8) in
     if \<not> got then None
     else Some \<lparr>aes_kek = blank_aesctx m, aes_sek = (\<lambda>_. blank_aesctx m),
       ctr_stream = (if has_aesctr m then [] else replicate HCRYPT_CTR_STREAM_SZ 0),
       ctr_stream_len = 0,
       ctr_stream_siz = (if has_aesctr m then 0 else HCRYPT_CTR_STREAM_SZ),
       outbuf = replicate (CRYSPR_OUTMSGMAX * padded_len) 0, outbuf_ofs = 0,
       outbuf_siz = CRYSPR_OUTMSGMAX * padded_len\<rparr>)"

section \<open>Media stream\<close>

definition crysprFallback_MsSetKey ::
    "('k, 'w) CRYSPR_methods \<Rightarrow> 'k CRYSPR_cb \<Rightarrow> hcrypt_Ctx \<Rightarrow> bytes \<Rightarrow> int \<times> 'k CRYSPR_cb" where
  "crysprFallback_MsSetKey m cb ctx key =
    (let i = hcryptCtx_GetKeyIndex ctx;
         enc = (has_flag HCRYPT_CTX_F_ENCRYPT ctx \<or> ctx_mode ctx = HCRYPT_CTX_MODE_AESCTR);
         (rc, k) = aes_set_key m enc key (aes_sek cb i);
         cb = cb\<lparr>aes_sek := (aes_sek cb)(i := k)\<rparr>
     in if rc \<noteq> 0 then (-1, cb) else (0, cb))"

text \<open>\<open>if (0 == ++(ctr[15])) ++(ctr[14]);\<close>\<close>

definition ctr16_inc :: "bytes \<Rightarrow> bytes" where
  "ctr16_inc ctr =
    (let ctr = ctr[15 := ctr ! 15 + 1]
     in if ctr ! 15 = 0 then ctr[14 := ctr ! 14 + 1] else ctr)"

fun ctr_fill :: "nat \<Rightarrow> nat \<Rightarrow> bytes \<Rightarrow> bytes \<Rightarrow> bytes option" where
  "ctr_fill 0 ofs ctr strm = Some strm"
| "ctr_fill (Suc n) ofs ctr strm = do {
     strm \<leftarrow> wr strm ofs ctr;
     ctr_fill n (ofs + HCRYPT_CTR_BLK_SZ) (ctr16_inc ctr) strm }"

definition crysprFallback_AES_SetCtrStream ::
    "'k CRYSPR_cb \<Rightarrow> nat \<Rightarrow> bytes \<Rightarrow> (int \<times> 'k CRYSPR_cb) option" where
  "crysprFallback_AES_SetCtrStream cb len iv =
    (let nblk = (len + (HCRYPT_CTR_BLK_SZ - 1)) div HCRYPT_CTR_BLK_SZ in
     if nblk * HCRYPT_CTR_BLK_SZ \<le> ctr_stream_siz cb then do {
       ctr \<leftarrow> rd_slice iv 0 HCRYPT_CTR_BLK_SZ;
       strm \<leftarrow> ctr_fill nblk 0 ctr (ctr_stream cb);
       Some (0, cb\<lparr>ctr_stream := strm, ctr_stream_len := nblk * HCRYPT_CTR_BLK_SZ\<rparr>) }
     else Some (-1, cb))"

text \<open>
  What both directions do first: the packet index, the initial vector and the key stream or the
  cipher text.  \<open>Inl\<close> is an early return, \<open>Inr\<close> the offset of the output and the length the
  cipher reports.
\<close>

definition ms_ctr ::
    "('k, 'w) CRYSPR_methods \<Rightarrow> bool \<Rightarrow> 'k CRYSPR_cb \<Rightarrow> hcrypt_Ctx \<Rightarrow> hcrypt_MsgInfo \<Rightarrow> hcrypt_DataDesc
      \<Rightarrow> nat \<Rightarrow> nat \<Rightarrow> nat \<Rightarrow> ((int \<times> 'k CRYSPR_cb) + (nat \<times> nat \<times> 'k CRYSPR_cb)) option" where
  "ms_ctr m enc cb ctx mi dd pl out_msg out_len = do {
     let aes_key = aes_sek cb (hcryptCtx_GetKeyIndex ctx);
     pki \<leftarrow> getPki mi (dd_pfx dd) True;
     iv \<leftarrow> hcrypt_SetCtrIV pki (ctx_salt ctx);
     if has_aesctr m then do {
       indata \<leftarrow> rd_slice (dd_payload dd) 0 (dd_len dd);
       let out = snd (aes_ctr_cipher m enc aes_key iv indata);
       buf \<leftarrow> wr (outbuf cb) (out_msg + pl) out;
       Some (Inr (out_msg, dd_len dd, cb\<lparr>outbuf := buf\<rparr>)) }
     else do {
       (iret, cb) \<leftarrow> crysprFallback_AES_SetCtrStream cb (dd_len dd) iv;
       if iret \<noteq> 0 then Some (Inl (iret, cb))
       else do {
         let (out_msg, cb) = crysprFallback_GetOutbuf cb pl (ctr_stream_len cb);
         strm \<leftarrow> rd_slice (ctr_stream cb) 0 (ctr_stream_len cb);
         let (iret, out, out_len) = aes_ecb_cipher m True aes_key strm out_len;
         buf \<leftarrow> wr (outbuf cb) (out_msg + pl) out;
         let cb = cb\<lparr>outbuf := buf\<rparr>;
         Some (if iret \<noteq> 0 then Inl (iret, cb) else Inr (out_msg, out_len, cb)) } } }"

text \<open>
  The result: the value returned, the control block, the input as it is left (it is
  overwritten when \<open>out_p\<close> is null) and the output, offset in \<open>outbuf\<close> and length, when one
  is delivered through \<open>out_p\<close>.  \<open>out_p\<close> tells whether the pointer is given; with it
  \<open>*nbout_p\<close> becomes 1 if there is an output and 0 if there is none.
\<close>

definition crysprFallback_MsEncrypt ::
    "('k, 'w) CRYSPR_methods \<Rightarrow> 'k CRYSPR_cb \<Rightarrow> hcrypt_Ctx \<Rightarrow> hcrypt_DataDesc \<Rightarrow> bool
      \<Rightarrow> (int \<times> 'k CRYSPR_cb \<times> hcrypt_DataDesc \<times> (nat \<times> nat) option) option" where
  "crysprFallback_MsEncrypt m cb ctx dd out_p = do {
     mi \<leftarrow> ctx_msg_info ctx;
     let pl = pfx_len mi;
     let (out_msg, cb) = crysprFallback_GetOutbuf cb pl (dd_len dd);
     r \<leftarrow> (if ctx_mode ctx = HCRYPT_CTX_MODE_AESCTR then do {
             r \<leftarrow> ms_ctr m True cb ctx mi dd pl out_msg 0;
             case r of
               Inl e \<Rightarrow> Some (Inl e)
             | Inr (out_msg, _, cb) \<Rightarrow> do {
                 pfx \<leftarrow> rd_slice (dd_pfx dd) 0 pl;
                 buf \<leftarrow> wr (outbuf cb) out_msg pfx;
                 Some (Inr (out_msg, dd_len dd, cb\<lparr>outbuf := buf\<rparr>)) } }
           else if ctx_mode ctx = HCRYPT_CTX_MODE_CLRTXT then do {
             indata \<leftarrow> rd_slice (dd_payload dd) 0 (dd_len dd);
             buf \<leftarrow> wr (outbuf cb) (out_msg + pl) indata;
             pfx \<leftarrow> rd_slice (dd_pfx dd) 0 pl;
             buf \<leftarrow> wr buf out_msg pfx;
             Some (Inr (out_msg, dd_len dd, cb\<lparr>outbuf := buf\<rparr>)) }
           else Some (Inl (-1, cb)));
     case r of
       Inl (iret, cb) \<Rightarrow> Some (iret, cb, dd, None)
     | Inr (out_msg, out_len, cb) \<Rightarrow>
         if out_len > 0 then
           if \<not> out_p then do {
             pfx \<leftarrow> rd_slice (outbuf cb) out_msg pl;
             in_pfx \<leftarrow> wr (dd_pfx dd) 0 pfx;
             out \<leftarrow> rd_slice (outbuf cb) (out_msg + pl) out_len;
             in_payload \<leftarrow> (if \<not> has_aesctr m \<and> ctx_mode ctx = HCRYPT_CTX_MODE_AESCTR
                           then hcrypt_XorStream (dd_payload dd) 0 out out_len
                           else wr (dd_payload dd) 0 out);
             Some (0, cb, dd\<lparr>dd_pfx := in_pfx, dd_payload := in_payload\<rparr>, None) }
           else do {
             pfx \<leftarrow> rd_slice (dd_pfx dd) 0 pl;
             buf \<leftarrow> wr (outbuf cb) out_msg pfx;
             buf \<leftarrow> (if \<not> has_aesctr m \<and> ctx_mode ctx = HCRYPT_CTX_MODE_AESCTR
                    then hcrypt_XorStream buf (out_msg + pl) (dd_payload dd) out_len
                    else Some buf);
             Some (0, cb\<lparr>outbuf := buf\<rparr>, dd, Some (out_msg, pl + out_len)) }
         else Some (-1, cb, dd, None) }"

definition crysprFallback_MsDecrypt ::
    "('k, 'w) CRYSPR_methods \<Rightarrow> 'k CRYSPR_cb \<Rightarrow> hcrypt_Ctx \<Rightarrow> hcrypt_DataDesc \<Rightarrow> bool
      \<Rightarrow> (int \<times> 'k CRYSPR_cb \<times> hcrypt_DataDesc \<times> (nat \<times> nat) option) option" where
  "crysprFallback_MsDecrypt m cb ctx dd out_p = do {
     let (out_txt, cb) = crysprFallback_GetOutbuf cb 0 (dd_len dd);
     r \<leftarrow> (if ctx_mode ctx = HCRYPT_CTX_MODE_AESCTR then do {
             mi \<leftarrow> ctx_msg_info ctx;
             ms_ctr m False cb ctx mi dd 0 out_txt (stack_len m) }
           else if ctx_mode ctx = HCRYPT_CTX_MODE_CLRTXT then do {
             indata \<leftarrow> rd_slice (dd_payload dd) 0 (dd_len dd);
             buf \<leftarrow> wr (outbuf cb) out_txt indata;
             Some (Inr (out_txt, dd_len dd, cb\<lparr>outbuf := buf\<rparr>)) }
           else Some (Inl (-1, cb)));
     case r of
       Inl (iret, cb) \<Rightarrow> Some (iret, cb, dd, None)
     | Inr (out_txt, out_len, cb) \<Rightarrow>
         if out_len > 0 then
           if \<not> out_p then do {
             out \<leftarrow> rd_slice (outbuf cb) out_txt out_len;
             in_payload \<leftarrow> (if \<not> has_aesctr m \<and> ctx_mode ctx = HCRYPT_CTX_MODE_AESCTR
                           then hcrypt_XorStream (dd_payload dd) 0 out out_len
                           else wr (dd_payload dd) 0 out);
             Some (0, cb, dd\<lparr>dd_payload := in_payload\<rparr>, None) }
           else do {
             buf \<leftarrow> (if \<not> has_aesctr m \<and> ctx_mode ctx = HCRYPT_CTX_MODE_AESCTR
                    then hcrypt_XorStream (outbuf cb) out_txt (dd_payload dd) out_len
                    else Some (outbuf cb));
             Some (0, cb\<lparr>outbuf := buf\<rparr>, dd, Some (out_txt, out_len)) }
         else Some (-1, cb, dd, None) }"

text \<open>
  \<open>crysprInit\<close>: the table every library starts from.  The fallback functions call the
  primitives through the table of their control block, that is, the finished one:
  \<open>with_fallback_wrap\<close> ties them to the table they end up in.
\<close>

definition with_fallback_wrap :: "('k, 'w) CRYSPR_methods \<Rightarrow> ('k, 'w) CRYSPR_methods" where
  "with_fallback_wrap m = m\<lparr>km_wrap := crysprFallback_AES_WrapKey m,
     km_unwrap := crysprFallback_AES_UnwrapKey m\<rparr>"

definition crysprInit :: "bool \<Rightarrow> 'k \<Rightarrow> nat \<Rightarrow> ('k, 'w) CRYSPR_methods" where
  "crysprInit aesctr blank junk = with_fallback_wrap
     \<lparr>has_aesctr = aesctr, blank_aesctx = blank, stack_len = junk,
       prng = crysprStub_Prng, aes_set_key = crysprStub_AES_SetKey,
       aes_ecb_cipher = crysprStub_AES_EcbCipher, aes_ctr_cipher = crysprStub_AES_CtrCipher,
       km_pbkdf2 = crysprStub_KmPbkdf2,
       km_wrap = (\<lambda>_ _. (-1, [])), km_unwrap = (\<lambda>_ _. None)\<rparr>"

end
