(* ===== verification/CrysprProps.thy ===== *)
theory CrysprProps
  imports Cryspr
begin

text \<open>
  What the crypto service provider guarantees: the output buffer is never overrun by a packet
  that fits it, the contract of a crypto library, and packet encryption and decryption under
  that contract.
\<close>

section \<open>The output buffer\<close>

definition cb_wf :: "'k CRYSPR_cb \<Rightarrow> bool" where
  "cb_wf cb \<longleftrightarrow> length (outbuf cb) = outbuf_siz cb \<and> outbuf_ofs cb \<le> outbuf_siz cb
     \<and> outbuf_siz cb < 2 ^ 64 \<and> length (ctr_stream cb) = ctr_stream_siz cb
     \<and> ctr_stream_len cb \<le> ctr_stream_siz cb"

lemma GetOutbuf_in:
  assumes "cb_wf cb" and "pfx + len \<le> outbuf_siz cb"
  obtains ofs cb' where "crysprFallback_GetOutbuf cb pfx len = (ofs, cb')"
    and "cb' = cb\<lparr>outbuf_ofs := ofs + (pfx + len)\<rparr>" and "ofs + (pfx + len) \<le> outbuf_siz cb" and "cb_wf cb'"
proof -
  let ?room = "outbuf_siz cb - outbuf_ofs cb"
  let ?ofs = "if pfx + len > ?room then 0 else outbuf_ofs cb"
  have "size_sub (outbuf_siz cb) (outbuf_ofs cb) = ?room"
    using assms(1) by (simp add: cb_wf_def)
  then have g: "crysprFallback_GetOutbuf cb pfx len = (?ofs, cb\<lparr>outbuf_ofs := ?ofs + (pfx + len)\<rparr>)"
    by (simp add: crysprFallback_GetOutbuf_def Let_def)
  have "?ofs + (pfx + len) \<le> outbuf_siz cb" using assms by (auto simp: cb_wf_def)
  with g assms(1) show ?thesis by (intro that [OF g refl]) (auto simp: cb_wf_def)
qed

section \<open>The contract of a crypto library\<close>

definition key_len_ok :: "nat \<Rightarrow> bool" where
  "key_len_ok n \<longleftrightarrow> n = 16 \<or> n = 24 \<or> n = 32"

text \<open>
  A key context that was set from the bytes of a key.  A library may leave parts of the context
  as they were before, so two contexts set from one key need not be equal.
\<close>

definition keyed :: "('k, 'w) CRYSPR_methods \<Rightarrow> bool \<Rightarrow> bytes \<Rightarrow> 'k \<Rightarrow> bool" where
  "keyed m enc key k \<longleftrightarrow> (\<exists>k0. k = snd (aes_set_key m enc key k0))"

text \<open>
  What \<open>cryspr.h\<close> says of the primitives: a key of a supported length can be set, counter mode
  keeps the length and undoes itself under the same key whatever the direction flag, wrapping
  under a key and unwrapping under the same key are inverse, and derived keys have the length
  asked for.
\<close>

locale cryspr_lib =
  fixes m :: "('k, 'w) CRYSPR_methods"
  assumes aesctr: "has_aesctr m"
    and set_key: "key_len_ok (length key) \<Longrightarrow> fst (aes_set_key m e key k) = 0"
    and ctr_length: "length iv = 16 \<Longrightarrow> length (snd (aes_ctr_cipher m e k iv x)) = length x"
    and ctr_inverse: "length iv = 16 \<Longrightarrow> key_len_ok (length key) \<Longrightarrow> keyed m True key k \<Longrightarrow> keyed m True key k' \<Longrightarrow>
      snd (aes_ctr_cipher m e' k' iv (snd (aes_ctr_cipher m e k iv x))) = x"
    and wrap_length: "length (snd (km_wrap m cb seks)) \<le> length seks + 8"
    and unwrap_total: "24 \<le> length w \<Longrightarrow> length w \<le> 72 \<Longrightarrow> length w mod 8 = 0 \<Longrightarrow>
      \<exists>iret out. km_unwrap m cb w = Some (iret, out) \<and> length out \<le> length w - 8"
    and wrap_unwrap: "key_len_ok (length kek) \<Longrightarrow> 16 \<le> length seks \<Longrightarrow> length seks \<le> 64 \<Longrightarrow>
      length seks mod 8 = 0 \<Longrightarrow>
      keyed m True kek (aes_kek cb) \<Longrightarrow> keyed m False kek (aes_kek cb') \<Longrightarrow>
      \<exists>w. km_wrap m cb seks = (0, w) \<and> length w = length seks + 8 \<and> km_unwrap m cb' w = Some (0, seks)"
    and pbkdf2_length: "key_len_ok len \<Longrightarrow> fst (km_pbkdf2 m pwd salt n len) = 0 \<Longrightarrow> length (snd (km_pbkdf2 m pwd salt n len)) = len"

section \<open>Packets\<close>

text \<open>The initial vector of a packet, from its index and the salt of the context.\<close>

definition packet_iv :: "hcrypt_Ctx \<Rightarrow> bytes \<Rightarrow> bytes option" where
  "packet_iv ctx pfx = do { pki \<leftarrow> hcryptMsg_SRT_GetPki pfx True; hcrypt_SetCtrIV pki (ctx_salt ctx) }"

definition ctx_ready :: "hcrypt_Ctx \<Rightarrow> bool" where
  "ctx_ready ctx \<longleftrightarrow> ctx_msg_info ctx = Some hcryptMsg_SRT_MsgInfo \<and> ctx_mode ctx = HCRYPT_CTX_MODE_AESCTR
     \<and> length (ctx_salt ctx) = 16"

lemma packet_iv_total:
  assumes "ctx_ready ctx" and "16 \<le> length pfx"
  obtains iv where "packet_iv ctx pfx = Some iv" and "length iv = 16" and "drop 14 iv = [0, 0]"
proof -
  obtain pki where "hcryptMsg_SRT_GetPki pfx True = Some pki"
    using assms(2) by (auto simp: hcryptMsg_SRT_GetPki_def load_u32_in)
  then show ?thesis
    using hcrypt_SetCtrIV_total [of "ctx_salt ctx" pki] assms(1) that
    by (auto simp: packet_iv_def ctx_ready_def)
qed

lemma packet_iv_prefix: "8 \<le> n \<Longrightarrow> packet_iv ctx (take n pfx) = packet_iv ctx pfx"
  unfolding packet_iv_def hcryptMsg_SRT_GetPki_def load_u32_def rd_def
  by (cases "3 < length pfx") (auto simp: numeral_eq_Suc)

lemma srt_sizes [simp]:
  "pfx_len hcryptMsg_SRT_MsgInfo = 16" "getPki hcryptMsg_SRT_MsgInfo = hcryptMsg_SRT_GetPki"
  "parseMsg hcryptMsg_SRT_MsgInfo = hcryptMsg_SRT_ParseMsg"
  by (simp_all add: hcryptMsg_SRT_MsgInfo_def hcryptMsg_SRT_base_def)

text \<open>The cipher text of a payload under the keys of a control block.\<close>

definition packet_crypt ::
    "('k, 'w) CRYSPR_methods \<Rightarrow> bool \<Rightarrow> 'k CRYSPR_cb \<Rightarrow> hcrypt_Ctx \<Rightarrow> bytes \<Rightarrow> bytes \<Rightarrow> bytes" where
  "packet_crypt m enc cb ctx iv payload =
     snd (aes_ctr_cipher m enc (aes_sek cb (hcryptCtx_GetKeyIndex ctx)) iv payload)"

context cryspr_lib
begin

text \<open>
  Encrypting into the output buffer: the prefix in clear, then the cipher text, and nothing else
  of the buffer is touched outside the room reserved.
\<close>

lemma MsEncrypt_out:
  assumes cb: "cb_wf cb" and ctx: "ctx_ready ctx" and "16 \<le> length (dd_pfx dd)"
    and "dd_len dd = length (dd_payload dd)" and "0 < dd_len dd" and "16 + dd_len dd \<le> outbuf_siz cb"
    and iv: "packet_iv ctx (dd_pfx dd) = Some iv"
  shows "\<exists>ofs cb'. crysprFallback_MsEncrypt m cb ctx dd True = Some (0, cb', dd, Some (ofs, 16 + dd_len dd))
    \<and> cb_wf cb' \<and> outbuf_siz cb' = outbuf_siz cb \<and> aes_sek cb' = aes_sek cb \<and> aes_kek cb' = aes_kek cb
    \<and> rd_slice (outbuf cb') ofs (16 + dd_len dd) =
        Some (take 16 (dd_pfx dd) @ packet_crypt m True cb ctx iv (dd_payload dd))"
proof -
  obtain ofs cb1 where g: "crysprFallback_GetOutbuf cb 16 (dd_len dd) = (ofs, cb1)"
    and cb1: "cb1 = cb\<lparr>outbuf_ofs := ofs + (16 + dd_len dd)\<rparr>"
    and room: "ofs + (16 + dd_len dd) \<le> outbuf_siz cb" and wf1: "cb_wf cb1"
    using GetOutbuf_in [OF cb assms(6)] by blast
  define c where "c = packet_crypt m True cb ctx iv (dd_payload dd)"
  have ivl: "length iv = 16"
    using packet_iv_total [OF ctx assms(3)] iv by (metis option.inject)
  have cl: "length c = dd_len dd"
    unfolding c_def packet_crypt_def using ctr_length [OF ivl] assms(4) by simp
  have lb: "length (outbuf cb) = outbuf_siz cb" using cb by (simp add: cb_wf_def)
  obtain pki where pki: "hcryptMsg_SRT_GetPki (dd_pfx dd) True = Some pki"
    "hcrypt_SetCtrIV pki (ctx_salt ctx) = Some iv"
    using iv by (auto simp: packet_iv_def bind_eq_Some_conv)
  obtain b1 where b1: "wr (outbuf cb) (ofs + 16) c = Some b1"
    using room cl lb by (simp add: wr_in)
  then have lb1: "length b1 = outbuf_siz cb" using length_wr lb by metis
  obtain b2 where b2: "wr b1 ofs (take 16 (dd_pfx dd)) = Some b2"
    using room lb1 assms(3) by (simp add: wr_in)
  then have lb2: "length b2 = outbuf_siz cb" using length_wr lb1 by metis
  have b2': "wr b2 ofs (take 16 (dd_pfx dd)) = Some b2"
    using b2 room lb1 assms(3) by (auto simp: wr_eq_Some)
  have ctr: "ms_ctr m True cb1 ctx hcryptMsg_SRT_MsgInfo dd 16 ofs 0 =
      Some (Inr (ofs, dd_len dd, cb1\<lparr>outbuf := b1\<rparr>))"
    using pki assms(4) b1 aesctr
    by (simp add: ms_ctr_def rd_slice_in cb1 c_def packet_crypt_def)
  have enc: "crysprFallback_MsEncrypt m cb ctx dd True =
      Some (0, cb1\<lparr>outbuf := b2\<rparr>, dd, Some (ofs, 16 + dd_len dd))"
    using ctx assms(3,5) b2 b2' ctr aesctr
    by (simp add: crysprFallback_MsEncrypt_def ctx_ready_def g rd_slice_in)
  have "rd_slice b2 ofs (16 + dd_len dd) = Some (take 16 (dd_pfx dd) @ c)"
    using b1 b2 room lb cl assms(3) by (auto simp: wr_eq_Some rd_slice_in)
  with enc wf1 lb2 show ?thesis
    by (intro exI [of _ ofs] exI [of _ "cb1\<lparr>outbuf := b2\<rparr>"])
      (auto simp: cb1 c_def cb_wf_def)
qed

text \<open>Encrypting in place: the prefix stays, the payload becomes the cipher text.\<close>

lemma MsEncrypt_in_place:
  assumes cb: "cb_wf cb" and ctx: "ctx_ready ctx" and "16 \<le> length (dd_pfx dd)"
    and "dd_len dd = length (dd_payload dd)" and "0 < dd_len dd" and "16 + dd_len dd \<le> outbuf_siz cb"
    and iv: "packet_iv ctx (dd_pfx dd) = Some iv"
  shows "\<exists>cb'. crysprFallback_MsEncrypt m cb ctx dd False =
      Some (0, cb', dd\<lparr>dd_payload := packet_crypt m True cb ctx iv (dd_payload dd)\<rparr>, None)
    \<and> cb_wf cb' \<and> outbuf_siz cb' = outbuf_siz cb \<and> aes_sek cb' = aes_sek cb \<and> aes_kek cb' = aes_kek cb"
proof -
  obtain ofs cb1 where g: "crysprFallback_GetOutbuf cb 16 (dd_len dd) = (ofs, cb1)"
    and cb1: "cb1 = cb\<lparr>outbuf_ofs := ofs + (16 + dd_len dd)\<rparr>"
    and room: "ofs + (16 + dd_len dd) \<le> outbuf_siz cb" and wf1: "cb_wf cb1"
    using GetOutbuf_in [OF cb assms(6)] by blast
  define c where "c = packet_crypt m True cb ctx iv (dd_payload dd)"
  have ivl: "length iv = 16"
    using packet_iv_total [OF ctx assms(3)] iv by (metis option.inject)
  have cl: "length c = dd_len dd"
    unfolding c_def packet_crypt_def using ctr_length [OF ivl] assms(4) by simp
  have lb: "length (outbuf cb) = outbuf_siz cb" using cb by (simp add: cb_wf_def)
  obtain pki where pki: "hcryptMsg_SRT_GetPki (dd_pfx dd) True = Some pki"
    "hcrypt_SetCtrIV pki (ctx_salt ctx) = Some iv"
    using iv by (auto simp: packet_iv_def bind_eq_Some_conv)
  obtain b1 where b1: "wr (outbuf cb) (ofs + 16) c = Some b1"
    using room cl lb by (simp add: wr_in)
  then have lb1: "length b1 = outbuf_siz cb" using length_wr lb by metis
  obtain b2 where b2: "wr b1 ofs (take 16 (dd_pfx dd)) = Some b2"
    using room lb1 assms(3) by (simp add: wr_in)
  then have lb2: "length b2 = outbuf_siz cb" using length_wr lb1 by metis
  have ctr: "ms_ctr m True cb1 ctx hcryptMsg_SRT_MsgInfo dd 16 ofs 0 =
      Some (Inr (ofs, dd_len dd, cb1\<lparr>outbuf := b1\<rparr>))"
    using pki assms(4) b1 aesctr
    by (simp add: ms_ctr_def rd_slice_in cb1 c_def packet_crypt_def)
  have pfx: "rd_slice b2 ofs 16 = Some (take 16 (dd_pfx dd))"
    using rd_slice_wr_same [OF b2] assms(3) by simp
  have out: "rd_slice b2 (ofs + 16) (dd_len dd) = Some c"
    using b1 b2 room lb cl assms(3) by (auto simp: wr_eq_Some rd_slice_in)
  have pfx_same: "wr (dd_pfx dd) 0 (take 16 (dd_pfx dd)) = Some (dd_pfx dd)"
    using assms(3) by (simp add: wr_in)
  have over: "wr (dd_payload dd) 0 c = Some c"
    using cl assms(4) by (simp add: wr_in)
  have "crysprFallback_MsEncrypt m cb ctx dd False =
      Some (0, cb1\<lparr>outbuf := b2\<rparr>, dd\<lparr>dd_payload := c\<rparr>, None)"
    using ctx assms(3,5) b2 ctr aesctr pfx out pfx_same over
    by (simp add: crysprFallback_MsEncrypt_def ctx_ready_def g rd_slice_in)
  with wf1 lb2 show ?thesis
    by (intro exI [of _ "cb1\<lparr>outbuf := b2\<rparr>"]) (auto simp: cb1 c_def cb_wf_def)
qed

lemma MsDecrypt_out:
  assumes cb: "cb_wf cb" and ctx: "ctx_ready ctx" and "16 \<le> length (dd_pfx dd)"
    and "dd_len dd = length (dd_payload dd)" and "0 < dd_len dd" and "dd_len dd \<le> outbuf_siz cb"
    and iv: "packet_iv ctx (dd_pfx dd) = Some iv"
  shows "\<exists>ofs cb'. crysprFallback_MsDecrypt m cb ctx dd out_p =
      Some (0, cb', if out_p then dd else dd\<lparr>dd_payload := packet_crypt m False cb ctx iv (dd_payload dd)\<rparr>,
        if out_p then Some (ofs, dd_len dd) else None)
    \<and> cb_wf cb' \<and> outbuf_siz cb' = outbuf_siz cb \<and> aes_sek cb' = aes_sek cb \<and> aes_kek cb' = aes_kek cb
    \<and> rd_slice (outbuf cb') ofs (dd_len dd) = Some (packet_crypt m False cb ctx iv (dd_payload dd))"
proof -
  have fits: "0 + dd_len dd \<le> outbuf_siz cb" using assms(6) by simp
  obtain ofs cb1 where g: "crysprFallback_GetOutbuf cb 0 (dd_len dd) = (ofs, cb1)"
    and cb1: "cb1 = cb\<lparr>outbuf_ofs := ofs + (0 + dd_len dd)\<rparr>"
    and room: "ofs + (0 + dd_len dd) \<le> outbuf_siz cb" and wf1: "cb_wf cb1"
    using GetOutbuf_in [OF cb fits] by blast
  define c where "c = packet_crypt m False cb ctx iv (dd_payload dd)"
  have ivl: "length iv = 16"
    using packet_iv_total [OF ctx assms(3)] iv by (metis option.inject)
  have cl: "length c = dd_len dd"
    unfolding c_def packet_crypt_def using ctr_length [OF ivl] assms(4) by simp
  have lb: "length (outbuf cb) = outbuf_siz cb" using cb by (simp add: cb_wf_def)
  obtain pki where pki: "hcryptMsg_SRT_GetPki (dd_pfx dd) True = Some pki"
    "hcrypt_SetCtrIV pki (ctx_salt ctx) = Some iv"
    using iv by (auto simp: packet_iv_def bind_eq_Some_conv)
  obtain b1 where b1: "wr (outbuf cb) ofs c = Some b1"
    using room cl lb by (simp add: wr_in)
  then have lb1: "length b1 = outbuf_siz cb" using length_wr lb by metis
  have ctr: "ms_ctr m False cb1 ctx hcryptMsg_SRT_MsgInfo dd 0 ofs (stack_len m) =
      Some (Inr (ofs, dd_len dd, cb1\<lparr>outbuf := b1\<rparr>))"
    using pki assms(4) b1 aesctr
    by (simp add: ms_ctr_def rd_slice_in cb1 c_def packet_crypt_def)
  have out: "rd_slice b1 ofs (dd_len dd) = Some c"
    using rd_slice_wr_same [OF b1] cl by simp
  have over: "wr (dd_payload dd) 0 c = Some c"
    using cl assms(4) by (simp add: wr_in)
  have "crysprFallback_MsDecrypt m cb ctx dd out_p =
      Some (0, cb1\<lparr>outbuf := b1\<rparr>, if out_p then dd else dd\<lparr>dd_payload := c\<rparr>,
        if out_p then Some (ofs, dd_len dd) else None)"
    using ctx assms(5) ctr aesctr out over
    by (simp add: crysprFallback_MsDecrypt_def ctx_ready_def g)
  with wf1 lb1 out show ?thesis
    by (intro exI [of _ ofs] exI [of _ "cb1\<lparr>outbuf := b1\<rparr>"]) (auto simp: cb1 c_def cb_wf_def)
qed

text \<open>With the same key on both sides the receiver gets the payload back.\<close>

lemma packet_round_trip:
  assumes "length iv = 16" and "key_len_ok (length sek)"
    and "keyed m True sek (aes_sek cb (hcryptCtx_GetKeyIndex ctx))"
    and "keyed m True sek (aes_sek cb' (hcryptCtx_GetKeyIndex ctx'))"
  shows "packet_crypt m e' cb' ctx' iv (packet_crypt m e cb ctx iv payload) = payload"
  using ctr_inverse [OF assms] unfolding packet_crypt_def .

lemma length_packet_crypt: "length iv = 16 \<Longrightarrow> length (packet_crypt m e cb ctx iv x) = length x"
  by (simp add: packet_crypt_def ctr_length)

lemma MsSetKey_ok:
  assumes "key_len_ok (length key)"
  shows "\<exists>cb'. crysprFallback_MsSetKey m cb ctx key = (0, cb') \<and> aes_kek cb' = aes_kek cb
    \<and> (cb_wf cb \<longrightarrow> cb_wf cb') \<and> outbuf_siz cb' = outbuf_siz cb
    \<and> (\<forall>i. i \<noteq> hcryptCtx_GetKeyIndex ctx \<longrightarrow> aes_sek cb' i = aes_sek cb i)
    \<and> (ctx_mode ctx = HCRYPT_CTX_MODE_AESCTR \<longrightarrow>
         keyed m True key (aes_sek cb' (hcryptCtx_GetKeyIndex ctx)))"
proof -
  let ?i = "hcryptCtx_GetKeyIndex ctx"
  let ?e = "has_flag HCRYPT_CTX_F_ENCRYPT ctx \<or> ctx_mode ctx = HCRYPT_CTX_MODE_AESCTR"
  obtain k where k: "aes_set_key m ?e key (aes_sek cb ?i) = (0, k)"
    using set_key [OF assms] by (metis prod.collapse)
  then have "keyed m ?e key k" by (metis keyed_def snd_conv)
  with k show ?thesis by (auto simp: crysprFallback_MsSetKey_def cb_wf_def)
qed

lemma KmSetKey_ok:
  assumes "key_len_ok (length kek)"
  shows "\<exists>cb'. crysprFallback_KmSetKey m cb bWrap kek = (0, cb') \<and> aes_sek cb' = aes_sek cb
    \<and> (cb_wf cb \<longrightarrow> cb_wf cb') \<and> outbuf_siz cb' = outbuf_siz cb
    \<and> keyed m bWrap kek (aes_kek cb')"
proof -
  obtain k where k: "aes_set_key m bWrap kek (aes_kek cb) = (0, k)"
    using set_key [OF assms] by (metis prod.collapse)
  then have "keyed m bWrap kek k" by (metis keyed_def snd_conv)
  with k show ?thesis by (auto simp: crysprFallback_KmSetKey_def cb_wf_def)
qed

end

end
