(* ===== verification/CrysprOpenSSL.thy ===== *)
theory CrysprOpenSSL
  imports AesCorrect AesKeys Ctr128 Pbkdf2 CrysprProps
begin

text \<open>
  The binding of HaiCrypt to OpenSSL, \<open>cryspr-openssl.c\<close>, over the models of OpenSSL's AES, key
  wrap, counter mode and key derivation.  \<open>RAND_bytes\<close> and the memory of the keyed hash are parameters.
  The method table of the binding meets the contract \<open>cryspr_lib\<close>.
\<close>

section \<open>OpenSSL's entry points: aes_wrap.c, aes_ecb.c\<close>

text \<open>The length is an \<open>unsigned int\<close>, the \<open>size_t\<close> that the key wrap returns becomes an \<open>int\<close>.\<close>

definition AES_wrap_key :: "AES_KEY \<Rightarrow> bytes option \<Rightarrow> bytes \<Rightarrow> int \<times> bytes option" where
  "AES_wrap_key key iv inp =
    (let (ret, out) = CRYPTO_128_wrap (AES_encrypt key) iv (take (length inp mod 2 ^ 32) inp) in (as_int ret, out))"

definition AES_unwrap_key :: "AES_KEY \<Rightarrow> bytes option \<Rightarrow> bytes \<Rightarrow> int \<times> bytes option" where
  "AES_unwrap_key key iv inp =
    (let (ret, out) = CRYPTO_128_unwrap (AES_decrypt key) iv (take (length inp mod 2 ^ 32) inp) in (as_int ret, out))"

lemma AES_wrap_key_in:
  "length inp < 4294967296 \<Longrightarrow> AES_wrap_key key iv inp = apfst as_int (CRYPTO_128_wrap (AES_encrypt key) iv inp)"
  "length inp < 4294967296 \<Longrightarrow> AES_unwrap_key key iv inp = apfst as_int (CRYPTO_128_unwrap (AES_decrypt key) iv inp)"
  by (simp_all add: AES_wrap_key_def AES_unwrap_key_def apfst_def split: prod.splits)

definition AES_ecb_encrypt :: "AES_KEY \<Rightarrow> bool \<Rightarrow> bytes \<Rightarrow> bytes" where
  "AES_ecb_encrypt key enc inp = (if enc then AES_encrypt key inp else AES_decrypt key inp)"

section \<open>The key context\<close>

text \<open>\<open>typedef AES_KEY CRYSPR_AESCTX\<close>: the array \<open>rd_key\<close> has room for \<open>4 * (AES_MAXNR + 1)\<close> words.\<close>

typedef CRYSPR_AESCTX = "{k :: AES_KEY. length (rd_key k) = 4 * (AES_MAXNR + 1)}"
  morphisms aes_key_of Aes_Ctx
  by (rule exI [of _ blank_key]) (simp add: blank_key_def)

section \<open>cryspr-openssl.c\<close>

text \<open>\<open>RAND_bytes\<close>: the value returned and the bytes.\<close>

type_synonym 'w rand_bytes = "nat \<Rightarrow> 'w \<Rightarrow> int \<times> bytes \<times> 'w"

definition crysprOpenSSL_Prng :: "'w rand_bytes \<Rightarrow> nat \<Rightarrow> 'w \<Rightarrow> int \<times> bytes \<times> 'w" where
  "crysprOpenSSL_Prng RAND_bytes len w =
    (let (rc, rn, w) = RAND_bytes len w in (if rc \<le> 0 then -1 else 0, rn, w))"

text \<open>The key string is as long as \<open>kstr_len\<close> says; an access fault would keep the context.\<close>

definition crysprOpenSSL_AES_SetKey :: "bool \<Rightarrow> bytes \<Rightarrow> CRYSPR_AESCTX \<Rightarrow> int \<times> CRYSPR_AESCTX" where
  "crysprOpenSSL_AES_SetKey bEncrypt kstr aes_key =
    (case (if bEncrypt then AES_set_encrypt_key (Some kstr) (int (length kstr) * 8) (Some (aes_key_of aes_key))
           else AES_set_decrypt_key (Some kstr) (int (length kstr) * 8) (Some (aes_key_of aes_key))) of
       Some (status, Some k) \<Rightarrow> (if status \<noteq> 0 then -1 else 0, Aes_Ctx k)
     | _ \<Rightarrow> (-1, aes_key))"

text \<open>The blocks of a text, each through the cipher.\<close>

fun ecb_blocks :: "(bytes \<Rightarrow> bytes) \<Rightarrow> nat \<Rightarrow> bytes \<Rightarrow> bytes" where
  "ecb_blocks f 0 inp = []"
| "ecb_blocks f (Suc n) inp = f (take 16 inp) @ ecb_blocks f n (drop 16 inp)"

definition crysprOpenSSL_AES_EcbCipher :: "bool \<Rightarrow> CRYSPR_AESCTX \<Rightarrow> bytes \<Rightarrow> nat \<Rightarrow> int \<times> bytes \<times> nat" where
  "crysprOpenSSL_AES_EcbCipher bEncrypt aes_key indata outlen =
    (let nblk = length indata div CRYSPR_AESBLKSZ; nmore = length indata mod CRYSPR_AESBLKSZ; outsiz = outlen;
         key = aes_key_of aes_key in
     if outsiz mod CRYSPR_AESBLKSZ \<noteq> 0 then (-1, [], outlen)
     else if bEncrypt then
       if outsiz > 16 \<and> outsiz < (nblk + nmore) * CRYSPR_AESBLKSZ then (-1, [], outlen)
       else let out = ecb_blocks (AES_ecb_encrypt key True) nblk indata in
         if 0 < nmore then
           let intxt = drop (nblk * CRYSPR_AESBLKSZ) indata
                 @ replicate (CRYSPR_AESBLKSZ - nmore) (word_of_nat (CRYSPR_AESBLKSZ - nmore))
           in (0, out @ AES_ecb_encrypt key True intxt, (nblk + 1) * CRYSPR_AESBLKSZ)
         else (0, out, nblk * CRYSPR_AESBLKSZ)
     else (0, ecb_blocks (AES_ecb_encrypt key False) nblk indata, nblk * CRYSPR_AESBLKSZ))"

definition crysprOpenSSL_AES_CtrCipher :: "bool \<Rightarrow> CRYSPR_AESCTX \<Rightarrow> bytes \<Rightarrow> bytes \<Rightarrow> int \<times> bytes" where
  "crysprOpenSSL_AES_CtrCipher bEncrypt aes_key iv indata =
    (let ctr = replicate CRYSPR_AESBLKSZ 0; blk_ofs = 0;
         (out_txt, iv, ctr, blk_ofs) = CRYPTO_ctr128_encrypt (AES_encrypt (aes_key_of aes_key)) indata iv ctr blk_ofs
     in (0, out_txt))"

text \<open>
  The lengths are of type \<open>size_t\<close> here and \<open>int\<close> in OpenSSL.  From \<open>2 ^ 31\<close> on they can come out negative and the
  derivation access memory outside its buffers; that case counts as a failure here (HaiCrypt's lengths are below 100).
\<close>

definition crysprOpenSSL_KmPbkdf2 :: "hmac_mem \<Rightarrow> bytes \<Rightarrow> bytes \<Rightarrow> nat \<Rightarrow> nat \<Rightarrow> int \<times> bytes" where
  "crysprOpenSSL_KmPbkdf2 mem passwd salt itr key_len =
    (case PKCS5_PBKDF2_HMAC_SHA1 mem (Some passwd) (as_int (length passwd)) salt (as_int (length salt)) (int itr) (as_int key_len) of
       Some (rc, out) \<Rightarrow> (if rc = 1 then 0 else -1, out)
     | None \<Rightarrow> (-1, []))"

text \<open>The comparisons of lengths are on \<open>unsigned int\<close>.\<close>

definition crysprOpenSSL_KmWrap :: "CRYSPR_AESCTX CRYSPR_cb \<Rightarrow> bytes \<Rightarrow> int \<times> bytes" where
  "crysprOpenSSL_KmWrap cb sek =
    (let (ret, wrap) = AES_wrap_key (aes_key_of (aes_kek cb)) None sek;
         seklen = word_of_nat (length sek) :: u32
     in (if seklen + 8 = word_of_int ret then 0 else -1,
         case wrap of None \<Rightarrow> [] | Some out \<Rightarrow> out))"

definition crysprOpenSSL_KmUnwrap :: "CRYSPR_AESCTX CRYSPR_cb \<Rightarrow> bytes \<Rightarrow> (int \<times> bytes) option" where
  "crysprOpenSSL_KmUnwrap cb wrap =
    (let (ret, sek) = AES_unwrap_key (aes_key_of (aes_kek cb)) None wrap;
         wraplen = word_of_nat (length wrap) :: u32
     in Some (if wraplen - 8 = word_of_int ret then 0 else -1,
          case sek of None \<Rightarrow> [] | Some out \<Rightarrow> out))"

text \<open>
  The method table.  \<open>kwrap\<close> is \<open>CRYSPR_HAS_AESKWRAP\<close> and \<open>aesctr\<close> \<open>CRYSPR_HAS_AESCTR\<close>; the
  header defines both to 1, the other settings are the builds that exercise the fallbacks.
\<close>

definition crysprOpenSSL ::
    "bool \<Rightarrow> bool \<Rightarrow> 'w rand_bytes \<Rightarrow> hmac_mem \<Rightarrow> CRYSPR_AESCTX \<Rightarrow> nat \<Rightarrow> (CRYSPR_AESCTX, 'w) CRYSPR_methods" where
  "crysprOpenSSL aesctr kwrap RAND_bytes mem blank junk =
    (let m = crysprInit aesctr blank junk;
         m = m\<lparr>prng := crysprOpenSSL_Prng RAND_bytes, aes_set_key := crysprOpenSSL_AES_SetKey\<rparr>;
         m = (if aesctr then m\<lparr>aes_ctr_cipher := crysprOpenSSL_AES_CtrCipher\<rparr> else m);
         m = (if aesctr \<and> kwrap then m else m\<lparr>aes_ecb_cipher := crysprOpenSSL_AES_EcbCipher\<rparr>);
         m = m\<lparr>km_pbkdf2 := crysprOpenSSL_KmPbkdf2 mem\<rparr>
     in if kwrap then m\<lparr>km_wrap := crysprOpenSSL_KmWrap, km_unwrap := crysprOpenSSL_KmUnwrap\<rparr>
        else with_fallback_wrap m)"


section \<open>The contract\<close>

lemma aes_ctx_len [simp]: "length (rd_key (aes_key_of k)) = 60"
  using aes_key_of [of k] by simp

lemma aes_key_of_inverse [simp]: "length (rd_key k) = 60 \<Longrightarrow> aes_key_of (Aes_Ctx k) = k"
  by (simp add: Aes_Ctx_inverse)

text \<open>
  Setting a key of a supported length: both directions succeed, and the two schedules belong
  together whatever the contexts held before.
\<close>

lemma SetKey_schedules:
  assumes "key_len_ok (length key)"
  shows "\<exists>ek dk. crysprOpenSSL_AES_SetKey True key k = (0, ek) \<and> crysprOpenSSL_AES_SetKey False key k' = (0, dk)
    \<and> aes_schedules (aes_key_of ek) (aes_key_of dk)"
proof -
  define bits where "bits = int (length key) * 8"
  have b: "bits \<in> {128, 192, 256}" "bits \<le> 8 * int (length key)"
    using assms by (auto simp: bits_def key_len_ok_def)
  obtain ek where ek: "AES_set_encrypt_key (Some key) bits (Some (aes_key_of k)) = Some (0, Some ek)"
    "length (rd_key ek) = 60"
    using AES_set_encrypt_key_ok [OF b aes_ctx_len] by blast
  obtain ek' where ek': "AES_set_encrypt_key (Some key) bits (Some (aes_key_of k')) = Some (0, Some ek')"
    "length (rd_key ek') = 60" "rounds ek' = (if bits = 128 then 10 else if bits = 192 then 12 else 14)"
    using AES_set_encrypt_key_ok [OF b aes_ctx_len] by blast
  then have "rounds ek' \<in> {10, 12, 14}" by simp
  from AES_set_decrypt_key_inverse [OF ek'(1) this ek'(2)]
  obtain dk where dk: "AES_set_decrypt_key (Some key) bits (Some (aes_key_of k')) = Some (0, Some dk)"
    and s': "aes_schedules ek' dk" and dl: "length (rd_key dk) = 60" by blast
  have "length (rd_key (aes_key_of k)) = length (rd_key (aes_key_of k'))" by simp
  note ag = set_encrypt_key_agree [OF this ek(1) ek'(1)]
  have sch: "aes_schedules ek dk"
    using s' ag ek(2) unfolding aes_schedules_def inverse_schedule_def agree_def by auto
  show ?thesis
    using ek dk sch dl by (intro exI [of _ "Aes_Ctx ek"] exI [of _ "Aes_Ctx dk"])
      (simp add: crysprOpenSSL_AES_SetKey_def bits_def [symmetric])
qed

lemma keyed_schedules:
  assumes "aes_set_key m = crysprOpenSSL_AES_SetKey" and "key_len_ok (length key)"
    and "keyed m True key ek" and "keyed m False key dk"
  shows "aes_schedules (aes_key_of ek) (aes_key_of dk)"
  using assms SetKey_schedules [OF assms(2)] unfolding keyed_def by (metis snd_conv)

text \<open>Contexts set from one key encrypt alike.\<close>

lemma keyed_same_cipher:
  assumes "aes_set_key m = crysprOpenSSL_AES_SetKey" and "key_len_ok (length key)"
    and "keyed m True key k" and "keyed m True key k'" and "length B = 16"
  shows "AES_encrypt (aes_key_of k) B = AES_encrypt (aes_key_of k') B"
proof -
  obtain dk where dk: "keyed m False key dk" by (auto simp: keyed_def)
  note s = keyed_schedules [OF assms(1,2,3) dk] and s' = keyed_schedules [OF assms(1,2,4) dk]
  have "AES_encrypt (aes_key_of k') (AES_decrypt (aes_key_of dk) (AES_encrypt (aes_key_of k) B)) = AES_encrypt (aes_key_of k) B"
    by (rule AES_encrypt_decrypt [OF s']) simp
  then show ?thesis using AES_decrypt_encrypt [OF s assms(5)] by simp
qed

text \<open>Counter mode depends on the block function on blocks only.\<close>

lemma ctr_crypt_cong:
  assumes "\<And>B. length B = 16 \<Longrightarrow> f B = g B" and "\<And>B. length B = 16 \<Longrightarrow> length (g B) = 16" and "length iv = 16"
  shows "ctr_crypt f iv x = ctr_crypt g iv x"
proof -
  have n: "length x \<le> 16 * length x" by simp
  have ks: "ctr_keystream f iv n = ctr_keystream g iv n" for n
    using assms(1,3) by (induction n arbitrary: iv) (simp_all add: ctr_keystream_def)
  have "length (f B) = 16" if "length B = 16" for B using assms(1,2) that by simp
  from ctr_crypt_keystream [of f, OF this assms(3) n] ctr_crypt_keystream [of g, OF assms(2) assms(3) n] ks
  show ?thesis by simp
qed

lemma CtrCipher_crypt: "crysprOpenSSL_AES_CtrCipher e k iv x = (0, ctr_crypt (AES_encrypt (aes_key_of k)) iv x)"
  by (simp add: crysprOpenSSL_AES_CtrCipher_def ctr_crypt_def split: prod.splits)

interpretation aes_ctr: ctr_stream "ctr_crypt (AES_encrypt key)" for key
  by (rule ctr_crypt_stream) simp

text \<open>The fields of the table.\<close>

lemma crysprOpenSSL_fields [simp]:
  "has_aesctr (crysprOpenSSL ac kw rand mem blank junk) = ac"
  "prng (crysprOpenSSL ac kw rand mem blank junk) = crysprOpenSSL_Prng rand"
  "aes_set_key (crysprOpenSSL ac kw rand mem blank junk) = crysprOpenSSL_AES_SetKey"
  "aes_ctr_cipher (crysprOpenSSL True kw rand mem blank junk) = crysprOpenSSL_AES_CtrCipher"
  "km_pbkdf2 (crysprOpenSSL ac kw rand mem blank junk) = crysprOpenSSL_KmPbkdf2 mem"
  "km_wrap (crysprOpenSSL ac True rand mem blank junk) = crysprOpenSSL_KmWrap"
  "km_unwrap (crysprOpenSSL ac True rand mem blank junk) = crysprOpenSSL_KmUnwrap"
  by (simp_all add: crysprOpenSSL_def crysprInit_def with_fallback_wrap_def Let_def)

lemma KmPbkdf2_result:
  assumes "length pwd < 2147483648" and "length salt < 2147483648" and "len < 2147483648"
  shows "crysprOpenSSL_KmPbkdf2 mem pwd salt n len =
    (if hmac_mem_ok mem len then (0, rfc_PBKDF2 (\<lambda>m. digest_bytes (rfc_HMAC pwd m)) salt n len) else (-1, []))"
  using assms by (simp add: crysprOpenSSL_KmPbkdf2_def pbkdf2_result)

lemma KmPbkdf2_length:
  assumes "fst (crysprOpenSSL_KmPbkdf2 mem pwd salt n len) = 0" and "len < 2147483648"
  shows "length (snd (crysprOpenSSL_KmPbkdf2 mem pwd salt n len)) = len"
proof -
  obtain out where "PKCS5_PBKDF2_HMAC_SHA1 mem (Some pwd) (as_int (length pwd)) salt (as_int (length salt)) (int n) (as_int len) = Some (1, out)"
      "snd (crysprOpenSSL_KmPbkdf2 mem pwd salt n len) = out"
    using assms(1) unfolding crysprOpenSSL_KmPbkdf2_def by (auto split: option.splits prod.splits if_splits)
  with length_PBKDF2 [OF this(1)] assms(2) show ?thesis by simp
qed

lemma KmWrap_length: "length (snd (crysprOpenSSL_KmWrap cb seks)) \<le> length seks + 8"
proof -
  let ?in = "take (length seks mod 2 ^ 32) seks"
  obtain ret out where w: "CRYPTO_128_wrap (AES_encrypt (aes_key_of (aes_kek cb))) None ?in = (ret, out)" by fastforce
  have "length x \<le> length seks + 8" if "out = Some x" for x
    using CRYPTO_128_wrap_length [OF _ _ w [unfolded that]] by simp
  then show ?thesis unfolding crysprOpenSSL_KmWrap_def AES_wrap_key_def w Let_def by (simp split: option.split)
qed

lemma KmUnwrap_total:
  assumes "24 \<le> length w" and "length w \<le> 72"
  shows "\<exists>iret out. crysprOpenSSL_KmUnwrap cb w = Some (iret, out) \<and> length out \<le> length w - 8"
proof -
  obtain ret out where u: "CRYPTO_128_unwrap (AES_decrypt (aes_key_of (aes_kek cb))) None w = (ret, out)" by fastforce
  have "length x \<le> length w - 8" if "out = Some x" for x
    using CRYPTO_128_unwrap_length [OF _ assms(1) _ u [unfolded that]] assms(2) by simp
  then show ?thesis using assms(2) by (simp add: crysprOpenSSL_KmUnwrap_def AES_wrap_key_in u split: option.split)
qed

lemma KmWrap_KmUnwrap:
  assumes "16 \<le> length seks" and "length seks \<le> 64" and "length seks mod 8 = 0"
    and "aes_schedules (aes_key_of (aes_kek cb)) (aes_key_of (aes_kek cb'))"
  shows "\<exists>w. crysprOpenSSL_KmWrap cb seks = (0, w) \<and> length w = length seks + 8 \<and> crysprOpenSSL_KmUnwrap cb' w = Some (0, seks)"
proof -
  have max: "length seks \<le> CRYPTO128_WRAP_MAX" using assms(2) by simp
  obtain w where w: "CRYPTO_128_wrap (AES_encrypt (aes_key_of (aes_kek cb))) None seks = (length seks + 8, Some w)"
    "length w = length seks + 8" "CRYPTO_128_unwrap (AES_decrypt (aes_key_of (aes_kek cb'))) None w = (length seks, Some seks)"
    using block_cipher.unwrap_wrap [OF AES_block_cipher [OF assms(4)] assms(3,1) max, of None] by auto
  then show ?thesis
    using assms(2) by (simp add: crysprOpenSSL_KmWrap_def crysprOpenSSL_KmUnwrap_def AES_wrap_key_in)
qed

interpretation openssl: cryspr_lib "crysprOpenSSL True True rand mem blank junk" for rand mem blank junk
proof (unfold_locales, goal_cases)
  case 1
  show ?case by simp
next
  case (2 key e k)
  then show ?case using SetKey_schedules [OF 2, of k k] by (cases e) auto
next
  case (3 iv e k x)
  then show ?case by (simp add: CtrCipher_crypt aes_ctr.length_crypt)
next
  case (4 iv key k k' e' e x)
  have "ctr_crypt (AES_encrypt (aes_key_of k)) iv x = ctr_crypt (AES_encrypt (aes_key_of k')) iv x"
    by (rule ctr_crypt_cong) (simp_all add: 4(1) keyed_same_cipher [OF _ 4(2,3,4)])
  then show ?case by (simp add: CtrCipher_crypt aes_ctr.crypt_crypt 4(1))
next
  case (5 cb seks)
  show ?case by (simp add: KmWrap_length)
next
  case (6 w cb)
  then show ?case by (simp add: KmUnwrap_total)
next
  case (7 kek seks cb cb')
  show ?case
    using KmWrap_KmUnwrap [OF 7(2,3,4) keyed_schedules [OF _ 7(1,5,6)]] by simp
next
  case (8 len pwd salt n)
  then show ?case by (auto simp: key_len_ok_def intro!: KmPbkdf2_length)
qed

section \<open>The fallbacks over OpenSSL's block cipher\<close>

text \<open>
  A build without \<open>CRYSPR_HAS_AESKWRAP\<close> wraps keys with HaiCrypt's own loop over the ECB cipher.
  On every length both accept it gives the same bytes, and the same answer on unwrapping.
\<close>

lemma ecb_block_openssl:
  assumes "aes_ecb_cipher m = crysprOpenSSL_AES_EcbCipher" and "length B = 16"
  shows "ecb_block m True k B = AES_encrypt (aes_key_of k) B" and "ecb_block m False k B = AES_decrypt (aes_key_of k) B"
  using assms by (simp_all add: ecb_block_def crysprOpenSSL_AES_EcbCipher_def AES_ecb_encrypt_def)

lemma fallback_wrap_shape:
  assumes "aes_ecb_cipher m = crysprOpenSSL_AES_EcbCipher" and "length seks = 8 * n"
  shows "wrap_outer (ecb_block m True k) (8 * n) 6 (1 :: u32) (default_iv, seks) =
      wrap_outer (AES_encrypt (aes_key_of k)) (8 * n) 6 (1 :: u32) (default_iv, seks)"
    and "wrap_shape n (wrap_outer (AES_encrypt (aes_key_of k)) (8 * n) 6 (1 :: u32) (default_iv, seks))"
proof -
  have s: "wrap_shape n (default_iv, seks)" using assms(2) by (simp add: wrap_shape_def)
  show "wrap_outer (ecb_block m True k) (8 * n) 6 (1 :: u32) (default_iv, seks) =
      wrap_outer (AES_encrypt (aes_key_of k)) (8 * n) 6 (1 :: u32) (default_iv, seks)"
    by (rule wrap_outer_block_cong [OF _ _ s]) (simp_all add: ecb_block_openssl [OF assms(1)])
  show "wrap_shape n (wrap_outer (AES_encrypt (aes_key_of k)) (8 * n) 6 (1 :: u32) (default_iv, seks))"
    by (rule wrap_outer_shape [OF _ s]) simp
qed

lemma fallback_wrap:
  assumes ecb: "aes_ecb_cipher m = crysprOpenSSL_AES_EcbCipher"
    and len: "16 \<le> length seks" "length seks \<le> CRYPTO128_WRAP_MAX" "length seks mod 8 = 0"
  shows "crysprFallback_AES_WrapKey m cb seks = crysprOpenSSL_KmWrap cb seks"
proof -
  obtain n where n: "length seks = 8 * n" using len(3) by auto
  have "Suc 6 * n + 1 \<le> 2 ^ 32" using len(2) n by simp
  note width = wrap_outer_width [OF this]
  have "length seks < 4294967296" using len(2) by simp
  note key = AES_wrap_key_in(1) [OF this]
  have lt: "\<not> 8 * n < 8" "\<not> 8 * n < 16" "\<not> CRYPTO128_WRAP_MAX < 8 * n" using len n by simp_all
  show ?thesis
    unfolding crysprFallback_AES_WrapKey_def crysprOpenSSL_KmWrap_def key CRYPTO_128_wrap_def n
      fallback_wrap_shape(1) [OF ecb n] width Let_def
    using lt by (auto split: prod.splits)
qed

lemma fallback_unwrap:
  assumes ecb: "aes_ecb_cipher m = crysprOpenSSL_AES_EcbCipher"
    and len: "24 \<le> length w" "length w \<le> CRYPTO128_WRAP_MAX" "length w mod 8 = 0"
  shows "crysprFallback_AES_UnwrapKey m cb w = crysprOpenSSL_KmUnwrap cb w"
proof -
  obtain k where k: "length w = 8 * k" using len(3) by auto
  then obtain n where n: "length w = 8 * n + 8" "2 \<le> n" using len(1) that [of "k - 1"] by auto
  have max: "8 * n + 8 < 2 ^ 32" "length w < 4294967296" using len(2) n by simp_all
  note key = AES_wrap_key_in(2) [OF max(2)]
  have e: "(word_of_nat (8 * n + 8) :: u32) - 8 = word_of_nat (8 * n)" by simp
  have inlen: "unat ((word_of_nat (8 * n + 8) :: u32) - 8) = 8 * n"
    unfolding e by (rule unat_word_of_nat_u32) (use max(1) in simp)
  have sub: "size_sub (8 * n + 8) 8 = 8 * n" using max(1) by (subst size_sub_le) simp_all
  have sh: "wrap_shape n (take 8 w, drop 8 w)" using n by (simp add: wrap_shape_def)
  have "6 * n + 1 \<le> 2 ^ 32" using max(1) by simp
  note width = unwrap_outer_width [OF this]
  have blk: "unwrap_outer (ecb_block m False (aes_kek cb)) (8 * n) 6 (word_of_nat (6 * n) :: u32) (take 8 w, drop 8 w) =
      unwrap_outer (AES_decrypt (aes_key_of (aes_kek cb))) (8 * n) 6 (word_of_nat (6 * n) :: u32) (take 8 w, drop 8 w)"
    by (rule unwrap_outer_block_cong [OF _ _ sh]) (simp_all add: ecb_block_openssl [OF ecb])
  obtain A R where AR: "unwrap_outer (AES_decrypt (aes_key_of (aes_kek cb))) (8 * n) 6 (word_of_nat (6 * n) :: u32)
      (take 8 w, drop 8 w) = (A, R)" by fastforce
  have AR64: "unwrap_outer (AES_decrypt (aes_key_of (aes_kek cb))) (8 * n) 6 (word_of_nat (6 * n) :: u64)
      (take 8 w, drop 8 w) = (A, R)" using AR width by simp
  have lt: "\<not> 8 * n < 8" "\<not> 8 * n < 16" "\<not> CRYPTO128_WRAP_MAX < 8 * n" "8 * n mod 8 = 0" using len n by simp_all
  have R8: "rd_slice w 0 8 = Some (take 8 w)" "rd_slice w 8 (8 * n) = Some (drop 8 w)"
    using n by (simp_all add: rd_slice_in)
  have div: "8 * n div 8 = n" by simp
  have fb: "crysprFallback_AES_UnwrapKey m cb w = Some (if A \<noteq> default_iv then (-1, replicate (8 * n) 0) else (0, R))"
    unfolding crysprFallback_AES_UnwrapKey_def n(1) inlen Let_def div R8 bind.bind_lunit blk AR prod.case using lt by simp
  have raw: "crypto_128_unwrap_raw (AES_decrypt (aes_key_of (aes_kek cb))) w = (8 * n, Some (A, R))"
    unfolding crypto_128_unwrap_raw_def n(1) sub Let_def div AR64 using lt by simp
  have ne: "(word_of_nat (8 * n) :: u32) \<noteq> 0"
  proof
    assume "(word_of_nat (8 * n) :: u32) = 0"
    then have "unat (word_of_nat (8 * n) :: u32) = 0" by (simp only: unsigned_0)
    then show False using unat_word_of_nat_u32 [of "8 * n"] max(1) n(2) by simp
  qed
  have un: "crysprOpenSSL_KmUnwrap cb w = Some (if A \<noteq> default_iv then (-1, replicate (8 * n) 0) else (0, R))"
    unfolding crysprOpenSSL_KmUnwrap_def key CRYPTO_128_unwrap_def raw n(1) Let_def e
    using n(2) ne by simp
  show ?thesis unfolding fb un ..
qed

text \<open>The build with the fallback meets the contract too.\<close>

lemma crysprOpenSSL_fallback_table:
  fixes rand :: "'w rand_bytes"
  shows "\<exists>m :: (CRYSPR_AESCTX, 'w) CRYSPR_methods. aes_ecb_cipher m = crysprOpenSSL_AES_EcbCipher
    \<and> km_wrap (crysprOpenSSL ac False rand mem blank junk) = crysprFallback_AES_WrapKey m
    \<and> km_unwrap (crysprOpenSSL ac False rand mem blank junk) = crysprFallback_AES_UnwrapKey m"
  by (rule exI [of _ "let m = (crysprInit ac blank junk)\<lparr>prng := crysprOpenSSL_Prng rand, aes_set_key := crysprOpenSSL_AES_SetKey\<rparr>;
         m = (if ac then m\<lparr>aes_ctr_cipher := crysprOpenSSL_AES_CtrCipher\<rparr> else m)
       in m\<lparr>aes_ecb_cipher := crysprOpenSSL_AES_EcbCipher, km_pbkdf2 := crysprOpenSSL_KmPbkdf2 mem\<rparr>"])
    (simp add: crysprOpenSSL_def with_fallback_wrap_def Let_def)

lemma fallback_wrap_length:
  assumes "aes_ecb_cipher m = crysprOpenSSL_AES_EcbCipher"
  shows "length (snd (crysprFallback_AES_WrapKey m cb seks)) \<le> length seks + 8"
proof (cases "length seks mod 8 = 0")
  case True
  then obtain n where n: "length seks = 8 * n" by auto
  show ?thesis
    unfolding crysprFallback_AES_WrapKey_def n fallback_wrap_shape(1) [OF assms n] Let_def
    using fallback_wrap_shape(2) [OF assms n, of "aes_kek cb"] by (auto simp: wrap_shape_def split: prod.splits)
qed (simp add: crysprFallback_AES_WrapKey_def)

interpretation openssl_kw: cryspr_lib "crysprOpenSSL True False rand mem blank junk"
  for rand :: "'w rand_bytes" and mem blank junk
proof -
  let ?m = "crysprOpenSSL True False rand mem blank junk"
  obtain m :: "(CRYSPR_AESCTX, 'w) CRYSPR_methods" where ecb: "aes_ecb_cipher m = crysprOpenSSL_AES_EcbCipher"
    and w: "km_wrap ?m = crysprFallback_AES_WrapKey m" "km_unwrap ?m = crysprFallback_AES_UnwrapKey m"
    using crysprOpenSSL_fallback_table by blast
  have k: "keyed ?m = keyed (crysprOpenSSL True True rand mem blank junk)" by (intro ext) (simp add: keyed_def)
  show "cryspr_lib ?m"
  proof (unfold_locales, goal_cases)
    case 1
    show ?case by simp
  next
    case (2 key e k)
    then show ?case using SetKey_schedules [OF 2, of k k] by (cases e) auto
  next
    case (3 iv e k x)
    then show ?case using openssl.ctr_length [OF 3] by simp
  next
    case (4 iv key k k' e' e x)
    then show ?case using openssl.ctr_inverse [OF 4(1,2) 4(3,4) [unfolded k]] by simp
  next
    case (5 cb seks)
    show ?case unfolding w by (rule fallback_wrap_length [OF ecb])
  next
    case (6 v cb)
    then show ?case unfolding w by (subst fallback_unwrap [OF ecb]) (simp_all add: KmUnwrap_total)
  next
    case (7 kek seks cb cb')
    obtain v where v: "crysprOpenSSL_KmWrap cb seks = (0, v)" "length v = length seks + 8"
        "crysprOpenSSL_KmUnwrap cb' v = Some (0, seks)"
      using KmWrap_KmUnwrap [OF 7(2,3,4) keyed_schedules [OF _ 7(1,5,6)]] by auto
    have "crysprFallback_AES_WrapKey m cb seks = (0, v)"
      using v(1) 7(2,3,4) by (subst fallback_wrap [OF ecb]) simp_all
    moreover have "crysprFallback_AES_UnwrapKey m cb' v = Some (0, seks)"
      using v(2,3) 7(2,3,4) by (subst fallback_unwrap [OF ecb]) simp_all
    ultimately show ?case unfolding w using v(2) by auto
  next
    case (8 len pwd salt n)
    then show ?case by (auto simp: key_len_ok_def intro!: KmPbkdf2_length)
  qed
qed

end
