(* ===== verification/AesFips.thy ===== *)
theory AesFips
  imports AesCorrect AesKeys
begin

text \<open>
  FIPS 197: the key expansion and the cipher as the standard writes them, over the words of the
  schedule as a function of their index, and that the table driven code computes them.
\<close>

section \<open>The standard\<close>

text \<open>The S-box of figure 7.\<close>

definition fips_sbox :: "u8 list" where
  "fips_sbox =
  [0x63, 0x7c, 0x77, 0x7b, 0xf2, 0x6b, 0x6f, 0xc5, 0x30, 0x01, 0x67, 0x2b, 0xfe, 0xd7, 0xab, 0x76,
   0xca, 0x82, 0xc9, 0x7d, 0xfa, 0x59, 0x47, 0xf0, 0xad, 0xd4, 0xa2, 0xaf, 0x9c, 0xa4, 0x72, 0xc0,
   0xb7, 0xfd, 0x93, 0x26, 0x36, 0x3f, 0xf7, 0xcc, 0x34, 0xa5, 0xe5, 0xf1, 0x71, 0xd8, 0x31, 0x15,
   0x04, 0xc7, 0x23, 0xc3, 0x18, 0x96, 0x05, 0x9a, 0x07, 0x12, 0x80, 0xe2, 0xeb, 0x27, 0xb2, 0x75,
   0x09, 0x83, 0x2c, 0x1a, 0x1b, 0x6e, 0x5a, 0xa0, 0x52, 0x3b, 0xd6, 0xb3, 0x29, 0xe3, 0x2f, 0x84,
   0x53, 0xd1, 0x00, 0xed, 0x20, 0xfc, 0xb1, 0x5b, 0x6a, 0xcb, 0xbe, 0x39, 0x4a, 0x4c, 0x58, 0xcf,
   0xd0, 0xef, 0xaa, 0xfb, 0x43, 0x4d, 0x33, 0x85, 0x45, 0xf9, 0x02, 0x7f, 0x50, 0x3c, 0x9f, 0xa8,
   0x51, 0xa3, 0x40, 0x8f, 0x92, 0x9d, 0x38, 0xf5, 0xbc, 0xb6, 0xda, 0x21, 0x10, 0xff, 0xf3, 0xd2,
   0xcd, 0x0c, 0x13, 0xec, 0x5f, 0x97, 0x44, 0x17, 0xc4, 0xa7, 0x7e, 0x3d, 0x64, 0x5d, 0x19, 0x73,
   0x60, 0x81, 0x4f, 0xdc, 0x22, 0x2a, 0x90, 0x88, 0x46, 0xee, 0xb8, 0x14, 0xde, 0x5e, 0x0b, 0xdb,
   0xe0, 0x32, 0x3a, 0x0a, 0x49, 0x06, 0x24, 0x5c, 0xc2, 0xd3, 0xac, 0x62, 0x91, 0x95, 0xe4, 0x79,
   0xe7, 0xc8, 0x37, 0x6d, 0x8d, 0xd5, 0x4e, 0xa9, 0x6c, 0x56, 0xf4, 0xea, 0x65, 0x7a, 0xae, 0x08,
   0xba, 0x78, 0x25, 0x2e, 0x1c, 0xa6, 0xb4, 0xc6, 0xe8, 0xdd, 0x74, 0x1f, 0x4b, 0xbd, 0x8b, 0x8a,
   0x70, 0x3e, 0xb5, 0x66, 0x48, 0x03, 0xf6, 0x0e, 0x61, 0x35, 0x57, 0xb9, 0x86, 0xc1, 0x1d, 0x9e,
   0xe1, 0xf8, 0x98, 0x11, 0x69, 0xd9, 0x8e, 0x94, 0x9b, 0x1e, 0x87, 0xe9, 0xce, 0x55, 0x28, 0xdf,
   0x8c, 0xa1, 0x89, 0x0d, 0xbf, 0xe6, 0x42, 0x68, 0x41, 0x99, 0x2d, 0x0f, 0xb0, 0x54, 0xbb, 0x16]"

definition SubWord :: "u32 \<Rightarrow> u32" where
  "SubWord w = be32 (fips_sbox ! unat (b3 w)) (fips_sbox ! unat (b2 w)) (fips_sbox ! unat (b1 w)) (fips_sbox ! unat (b0 w))"

definition RotWord :: "u32 \<Rightarrow> u32" where
  "RotWord w = be32 (b2 w) (b1 w) (b0 w) (b3 w)"

definition Rcon :: "nat \<Rightarrow> u32" where
  "Rcon j = be32 ((xtime ^^ (j - 1)) 1) 0 0 0"

text \<open>Section 5.2: the word \<open>i\<close> of the schedule of a key of \<open>Nk\<close> words.\<close>

function KeyExpansion :: "bytes \<Rightarrow> nat \<Rightarrow> nat \<Rightarrow> u32" where
  "KeyExpansion key Nk i =
    (if Nk = 0 \<or> i < Nk then GETU32 (take 4 (drop (4 * i) key)) 0
     else let temp = KeyExpansion key Nk (i - 1) in
       KeyExpansion key Nk (i - Nk) XOR
       (if i mod Nk = 0 then SubWord (RotWord temp) XOR Rcon (i div Nk)
        else if Nk > 6 \<and> i mod Nk = 4 then SubWord temp
        else temp))"
  by pat_completeness auto
termination
  by (relation "measure (\<lambda>(key, Nk, i). i)") auto

declare KeyExpansion.simps [simp del]

text \<open>Section 5.1: SubBytes and ShiftRows, MixColumns, AddRoundKey on the columns of the state.\<close>

definition SubBytes :: "aes_state \<Rightarrow> aes_state" where
  "SubBytes = map_state SubWord"

definition ShiftRows :: "aes_state \<Rightarrow> aes_state" where
  "ShiftRows = (\<lambda>(s0, s1, s2, s3).
    (be32 (b3 s0) (b2 s1) (b1 s2) (b0 s3), be32 (b3 s1) (b2 s2) (b1 s3) (b0 s0),
     be32 (b3 s2) (b2 s3) (b1 s0) (b0 s1), be32 (b3 s3) (b2 s0) (b1 s1) (b0 s2)))"

definition fips_add_key :: "(nat \<Rightarrow> u32) \<Rightarrow> nat \<Rightarrow> aes_state \<Rightarrow> aes_state" where
  "fips_add_key w r = (\<lambda>(s0, s1, s2, s3).
     (s0 XOR w (4 * r), s1 XOR w (4 * r + 1), s2 XOR w (4 * r + 2), s3 XOR w (4 * r + 3)))"

definition fips_round :: "(nat \<Rightarrow> u32) \<Rightarrow> nat \<Rightarrow> aes_state \<Rightarrow> aes_state" where
  "fips_round w r s = fips_add_key w r (map_state MixColumn (ShiftRows (SubBytes s)))"

text \<open>The cipher on a block of 16 bytes with \<open>Nr\<close> rounds.\<close>

definition Cipher :: "nat \<Rightarrow> (nat \<Rightarrow> u32) \<Rightarrow> bytes \<Rightarrow> bytes" where
  "Cipher Nr w inp =
    (let s = (GETU32 inp 0, GETU32 inp 4, GETU32 inp 8, GETU32 inp 12);
         s = fold (fips_round w) [1..<Nr] (fips_add_key w 0 s)
     in put_state (fips_add_key w Nr (ShiftRows (SubBytes s))))"

section \<open>Words and constants\<close>

lemma SBox_table: "map b0 Te1 = fips_sbox" by code_simp

lemma SBox_fips: "SBox x = fips_sbox ! unat x"
proof -
  have x: "unat x < 256" using unsigned_less [of x, where 'a=nat] by simp
  then show ?thesis unfolding SBox_table [symmetric] SBox_def by simp
qed

lemma SubShift_fips: "ShiftRows (SubBytes s) = SubShift s"
  by (cases s) (simp add: ShiftRows_def SubBytes_def SubShift_def map_state_def SubWord_def SBox_fips)

lemma rcon_table: "rcon = map (\<lambda>i. Rcon (i + 1)) [0..<10]" by code_simp

lemma rcon_nth: "i < 10 \<Longrightarrow> rcon ! i = Rcon (i + 1)"
  unfolding rcon_table by simp

lemma sub_words_fips: "sub_rot_word w = SubWord (RotWord w)" "sub_word w = SubWord w"
proof -
  have mask: "(Te2 ! unat a AND 0xff000000) XOR (Te3 ! unat b AND 0x00ff0000) XOR
      (Te0 ! unat c AND 0x0000ff00) XOR (Te1 ! unat d AND 0x000000ff) = be32 (SBox a) (SBox b) (SBox c) (SBox d)" for a b c d
    unfolding SBox_tables be32_mask xor.assoc [symmetric] be32_xor by simp
  show "sub_rot_word w = SubWord (RotWord w)" "sub_word w = SubWord w"
    unfolding sub_rot_word_def sub_word_def unat_byte_index mask by (simp_all add: SubWord_def RotWord_def SBox_fips)
qed

section \<open>The schedule\<close>

text \<open>The first \<open>m\<close> words of an array are those of a function of the index.\<close>

definition follows :: "(nat \<Rightarrow> u32) \<Rightarrow> nat \<Rightarrow> u32 list \<Rightarrow> bool" where
  "follows W m rk \<longleftrightarrow> length rk = 60 \<and> (\<forall>i < m. i < 60 \<longrightarrow> rk ! i = W i)"

lemma follows_rd: "follows W m rk \<Longrightarrow> i < m \<Longrightarrow> m \<le> 60 \<Longrightarrow> rd rk i = Some (W i)"
  by (simp add: follows_def rd_in)

lemma follows_upd:
  assumes "follows W m rk" and "m < 60" and "v = W m"
  shows "\<exists>rk'. upd rk m v = Some rk' \<and> follows W (Suc m) rk'"
  using assms by (auto simp: follows_def upd_in nth_list_update less_Suc_eq)

lemma follows_xor:
  assumes "follows W m rk" and "m < 60" and "j < m" and "k < m" and "W m = W j XOR W k"
  shows "\<exists>rk'. xor_words rk m j k = Some rk' \<and> follows W (Suc m) rk'"
  using follows_upd [OF assms(1,2)] follows_rd [OF assms(1)] assms by (simp add: xor_words_def del: rd_eq_Some)

lemma follows_load:
  assumes "follows W m rk" and "m < 60" and "4 * m + 4 \<le> length uk" and "W m = GETU32 (take 4 (drop (4 * m) uk)) 0"
  shows "\<exists>rk'. load_word uk m rk = Some rk' \<and> follows W (Suc m) rk'"
  using assms by (auto simp: follows_def load_word_in nth_list_update less_Suc_eq)

text \<open>The recursion of the standard at the words a loop computes.\<close>

lemma KeyExpansion_first: "i < Nk \<Longrightarrow> KeyExpansion key Nk i = GETU32 (take 4 (drop (4 * i) key)) 0"
  by (subst KeyExpansion.simps) simp

lemma KeyExpansion_step:
  assumes "0 < Nk" and "c < Nk" and "0 < j"
  shows "KeyExpansion key Nk (Nk * j + c) = KeyExpansion key Nk (Nk * (j - 1) + c) XOR
    (let temp = KeyExpansion key Nk (Nk * j + c - 1) in
     if c = 0 then SubWord (RotWord temp) XOR Rcon j else if Nk > 6 \<and> c = 4 then SubWord temp else temp)"
proof -
  have "Nk * j + c - Nk = Nk * (j - 1) + c" using assms(3) by (cases j) simp_all
  moreover have "(Nk * j + c) mod Nk = c" "(Nk * j + c) div Nk = j" using assms(1,2) by simp_all
  moreover have "\<not> (Nk = 0 \<or> Nk * j + c < Nk)" using assms by (cases j) simp_all
  ultimately show ?thesis by (subst KeyExpansion.simps) (simp add: Let_def)
qed

text \<open>One assignment of the loops, followed by the rest.\<close>

lemma follows_bind:
  assumes "\<exists>rk'. p = Some rk' \<and> follows W m rk'" and "\<And>rk'. follows W m rk' \<Longrightarrow> \<exists>z. f rk' = Some z \<and> Q z"
  shows "\<exists>z. (do { rk \<leftarrow> p; f rk }) = Some z \<and> Q z"
  using assms by auto

lemma follows_upd_bind:
  assumes "follows W m rk" and "m = i" and "i < 60" and "v = W i" and "\<And>rk'. follows W (Suc i) rk' \<Longrightarrow> \<exists>z. f rk' = Some z \<and> Q z"
  shows "\<exists>z. (do { rk \<leftarrow> upd rk i v; f rk }) = Some z \<and> Q z"
  by (rule follows_bind [OF follows_upd [OF assms(1) [unfolded assms(2)] assms(3,4)] assms(5)])

lemma follows_xor_bind:
  assumes "follows W m rk" and "m = i" and "i < 60" and "j < i" and "k < i" and "W i = W j XOR W k"
    and "\<And>rk'. follows W (Suc i) rk' \<Longrightarrow> \<exists>z. f rk' = Some z \<and> Q z"
  shows "\<exists>z. (do { rk \<leftarrow> xor_words rk i j k; f rk }) = Some z \<and> Q z"
  by (rule follows_bind [OF follows_xor [OF assms(1) [unfolded assms(2)] assms(3-6)] assms(7)])

lemma follows_load_bind:
  assumes "follows W m rk" and "m = i" and "i < 60" and "4 * i + 4 \<le> length uk" and "W i = GETU32 (take 4 (drop (4 * i) uk)) 0"
    and "\<And>rk'. follows W (Suc i) rk' \<Longrightarrow> \<exists>z. f rk' = Some z \<and> Q z"
  shows "\<exists>z. (do { rk \<leftarrow> load_word uk i rk; f rk }) = Some z \<and> Q z"
  by (rule follows_bind [OF follows_load [OF assms(1) [unfolded assms(2)] assms(3-5)] assms(6)])

lemma expand_128_follows:
  fixes key
  defines "W \<equiv> KeyExpansion key 4"
  shows "follows W (4 * i + 4) rk \<Longrightarrow> i + n \<le> 10 \<Longrightarrow>
    \<exists>rk'. expand_128 n i (4 * i) rk = Some rk' \<and> follows W (4 * (i + n) + 4) rk'"
proof (induction n arbitrary: i rk)
  case (Suc n)
  have W: "W (4 * i + 4) = W (4 * i) XOR SubWord (RotWord (W (4 * i + 3))) XOR Rcon (i + 1)"
    "W (4 * i + 5) = W (4 * i + 1) XOR W (4 * i + 4)" "W (4 * i + 6) = W (4 * i + 2) XOR W (4 * i + 5)"
    "W (4 * i + 7) = W (4 * i + 3) XOR W (4 * i + 6)"
    using KeyExpansion_step [of 4 0 "i + 1" key] KeyExpansion_step [of 4 1 "i + 1" key]
      KeyExpansion_step [of 4 2 "i + 1" key] KeyExpansion_step [of 4 3 "i + 1" key]
    by (simp_all add: W_def Let_def xor.assoc add.commute)
  have rds: "rd rk (4 * i + 3) = Some (W (4 * i + 3))" "rd rk (4 * i) = Some (W (4 * i))" "rd rcon i = Some (Rcon (i + 1))"
    using follows_rd [OF Suc.prems(1)] Suc.prems(2) by (simp_all add: rd_in rcon_nth del: rd_eq_Some)
  have last: "\<exists>z. (if n = 0 then Some x else expand_128 n (i + 1) (4 * i + 4) x) = Some z \<and> follows W (4 * (i + Suc n) + 4) z"
    if "follows W (Suc (4 * i + 7)) x" for x
    using Suc.IH [of "i + 1" x] that Suc.prems(2) by (auto simp: ac_simps)
  have i: "i \<le> 9" using Suc.prems(2) by simp
  show ?case
    unfolding expand_128.simps rds bind.bind_lunit sub_words_fips
    by (rule follows_upd_bind [OF Suc.prems(1)], simp, use i in simp, simp add: W xor.assoc,
        (rule follows_xor_bind, assumption, simp, use i in simp, simp, simp, rule W)+, rule last)
qed simp

lemma expand_192_follows:
  fixes key
  defines "W \<equiv> KeyExpansion key 6"
  shows "follows W (6 * i + 6) rk \<Longrightarrow> i + n \<le> 8 \<Longrightarrow> 0 < n \<Longrightarrow>
    \<exists>rk'. expand_192 n i (6 * i) rk = Some rk' \<and> follows W (6 * (i + n) + 4) rk'"
proof (induction n arbitrary: i rk)
  case (Suc n)
  have W: "W (6 * i + 6) = W (6 * i) XOR SubWord (RotWord (W (6 * i + 5))) XOR Rcon (i + 1)"
    "W (6 * i + 7) = W (6 * i + 1) XOR W (6 * i + 6)" "W (6 * i + 8) = W (6 * i + 2) XOR W (6 * i + 7)"
    "W (6 * i + 9) = W (6 * i + 3) XOR W (6 * i + 8)" "W (6 * i + 10) = W (6 * i + 4) XOR W (6 * i + 9)"
    "W (6 * i + 11) = W (6 * i + 5) XOR W (6 * i + 10)"
    using KeyExpansion_step [of 6 0 "i + 1" key] KeyExpansion_step [of 6 1 "i + 1" key] KeyExpansion_step [of 6 2 "i + 1" key]
      KeyExpansion_step [of 6 3 "i + 1" key] KeyExpansion_step [of 6 4 "i + 1" key] KeyExpansion_step [of 6 5 "i + 1" key]
    by (simp_all add: W_def Let_def xor.assoc add.commute)
  have i: "i \<le> 7" and i6: "n \<noteq> 0 \<Longrightarrow> i \<le> 6" using Suc.prems(2) by simp_all
  have rds: "rd rk (6 * i + 5) = Some (W (6 * i + 5))" "rd rk (6 * i) = Some (W (6 * i))" "rd rcon i = Some (Rcon (i + 1))"
    using follows_rd [OF Suc.prems(1)] i by (simp_all add: rd_in rcon_nth del: rd_eq_Some)
  have rest: "\<exists>z. expand_192 n (i + 1) (6 * i + 6) x = Some z \<and> follows W (6 * (i + Suc n) + 4) z"
    if "follows W (Suc (6 * i + 11)) x" "n \<noteq> 0" for x
    using Suc.IH [of "i + 1" x] that Suc.prems(2) by (auto simp: ac_simps)
  have last: "\<exists>z. (if n = 0 then Some x else do {
      x \<leftarrow> xor_words x (6 * i + 10) (6 * i + 4) (6 * i + 9);
      x \<leftarrow> xor_words x (6 * i + 11) (6 * i + 5) (6 * i + 10);
      expand_192 n (i + 1) (6 * i + 6) x }) = Some z \<and> follows W (6 * (i + Suc n) + 4) z"
    if "follows W (Suc (6 * i + 9)) x" for x
  proof (cases "n = 0")
    case False
    show ?thesis unfolding if_not_P [OF False]
      by (rule follows_xor_bind [OF that], simp, use i6 [OF False] in simp, simp, simp, rule W,
          rule follows_xor_bind, assumption, simp, use i6 [OF False] in simp, simp, simp, rule W, rule rest [OF _ False])
  qed (use that in \<open>simp add: ac_simps\<close>)
  show ?case
    unfolding expand_192.simps rds bind.bind_lunit sub_words_fips
    by (rule follows_upd_bind [OF Suc.prems(1)], simp, use i in simp, simp add: W xor.assoc,
        (rule follows_xor_bind, assumption, simp, use i in simp, simp, simp, rule W)+, rule last)
qed simp

lemma expand_256_follows:
  fixes key
  defines "W \<equiv> KeyExpansion key 8"
  shows "follows W (8 * i + 8) rk \<Longrightarrow> i + n \<le> 7 \<Longrightarrow> 0 < n \<Longrightarrow>
    \<exists>rk'. expand_256 n i (8 * i) rk = Some rk' \<and> follows W (8 * (i + n) + 4) rk'"
proof (induction n arbitrary: i rk)
  case (Suc n)
  have W: "W (8 * i + 8) = W (8 * i) XOR SubWord (RotWord (W (8 * i + 7))) XOR Rcon (i + 1)"
    "W (8 * i + 9) = W (8 * i + 1) XOR W (8 * i + 8)" "W (8 * i + 10) = W (8 * i + 2) XOR W (8 * i + 9)"
    "W (8 * i + 11) = W (8 * i + 3) XOR W (8 * i + 10)" "W (8 * i + 12) = W (8 * i + 4) XOR SubWord (W (8 * i + 11))"
    "W (8 * i + 13) = W (8 * i + 5) XOR W (8 * i + 12)" "W (8 * i + 14) = W (8 * i + 6) XOR W (8 * i + 13)"
    "W (8 * i + 15) = W (8 * i + 7) XOR W (8 * i + 14)"
    using KeyExpansion_step [of 8 0 "i + 1" key] KeyExpansion_step [of 8 1 "i + 1" key] KeyExpansion_step [of 8 2 "i + 1" key]
      KeyExpansion_step [of 8 3 "i + 1" key] KeyExpansion_step [of 8 4 "i + 1" key] KeyExpansion_step [of 8 5 "i + 1" key]
      KeyExpansion_step [of 8 6 "i + 1" key] KeyExpansion_step [of 8 7 "i + 1" key]
    by (simp_all add: W_def Let_def xor.assoc add.commute)
  have i: "i \<le> 6" and i5: "n \<noteq> 0 \<Longrightarrow> i \<le> 5" using Suc.prems(2) by simp_all
  have rds: "rd rk (8 * i + 7) = Some (W (8 * i + 7))" "rd rk (8 * i) = Some (W (8 * i))" "rd rcon i = Some (Rcon (i + 1))"
    using follows_rd [OF Suc.prems(1)] i by (simp_all add: rd_in rcon_nth del: rd_eq_Some)
  have rest: "\<exists>z. expand_256 n (i + 1) (8 * i + 8) x = Some z \<and> follows W (8 * (i + Suc n) + 4) z"
    if "follows W (Suc (8 * i + 15)) x" "n \<noteq> 0" for x
    using Suc.IH [of "i + 1" x] that Suc.prems(2) by (auto simp: ac_simps)
  have last: "\<exists>z. (if n = 0 then Some x else do {
      temp \<leftarrow> rd x (8 * i + 11); w \<leftarrow> rd x (8 * i + 4);
      x \<leftarrow> upd x (8 * i + 12) (w XOR SubWord temp);
      x \<leftarrow> xor_words x (8 * i + 13) (8 * i + 5) (8 * i + 12);
      x \<leftarrow> xor_words x (8 * i + 14) (8 * i + 6) (8 * i + 13);
      x \<leftarrow> xor_words x (8 * i + 15) (8 * i + 7) (8 * i + 14);
      expand_256 n (i + 1) (8 * i + 8) x }) = Some z \<and> follows W (8 * (i + Suc n) + 4) z"
    if "follows W (Suc (8 * i + 11)) x" for x
  proof (cases "n = 0")
    case False
    have r: "rd x (8 * i + 11) = Some (W (8 * i + 11))" "rd x (8 * i + 4) = Some (W (8 * i + 4))"
      using follows_rd [OF that] i by (simp_all del: rd_eq_Some)
    show ?thesis unfolding if_not_P [OF False] r bind.bind_lunit
      by (rule follows_upd_bind [OF that], simp, use i5 [OF False] in simp, simp add: W,
          (rule follows_xor_bind, assumption, simp, use i5 [OF False] in simp, simp, simp, rule W)+, rule rest [OF _ False])
  qed (use that in \<open>simp add: ac_simps\<close>)
  show ?case
    unfolding expand_256.simps rds bind.bind_lunit sub_words_fips
    by (rule follows_upd_bind [OF Suc.prems(1)], simp, use i in simp, simp add: W xor.assoc,
        (rule follows_xor_bind, assumption, simp, use i in simp, simp, simp, rule W)+, rule last)
qed simp

text \<open>The number of rounds, and the words of a user key.\<close>

definition rounds_of :: "nat \<Rightarrow> nat" where
  "rounds_of Nk = Nk + 6"

lemma set_encrypt_key_follows:
  assumes Nk: "Nk \<in> {4, 6, 8}" and uk: "length uk = 4 * Nk" and k: "length (rd_key k) = 60"
  shows "\<exists>rk. AES_set_encrypt_key (Some uk) (32 * int Nk) (Some k) = Some (0, Some \<lparr>rd_key = rk, rounds = rounds_of Nk\<rparr>)
    \<and> follows (KeyExpansion uk Nk) (4 * (rounds_of Nk + 1)) rk"
proof -
  have start: "follows W 0 (rd_key k)" for W using k by (simp add: follows_def)
  have load: "i < Nk \<Longrightarrow> KeyExpansion uk Nk i = GETU32 (take 4 (drop (4 * i) uk)) 0" "i < Nk \<Longrightarrow> 4 * i + 4 \<le> length uk" for i
    using uk by (simp_all add: KeyExpansion_first)
  consider "Nk = 4" | "Nk = 6" | "Nk = 8" using Nk by blast
  then show ?thesis
  proof cases
    case 1
    have e: "\<exists>rk. expand_128 10 0 0 x = Some rk \<and> follows (KeyExpansion uk Nk) 44 rk"
      if "follows (KeyExpansion uk Nk) (Suc 3) x" for x
      using expand_128_follows [of uk 0 x 10] that by (simp add: 1)
    have "\<exists>rk. (do { rk \<leftarrow> load_word uk 0 (rd_key k); rk \<leftarrow> load_word uk 1 rk; rk \<leftarrow> load_word uk 2 rk; rk \<leftarrow> load_word uk 3 rk;
        expand_128 10 0 0 rk }) = Some rk \<and> follows (KeyExpansion uk Nk) 44 rk"
      by (rule follows_load_bind [OF start], simp, simp, (rule load, simp add: 1)+,
          (rule follows_load_bind, assumption, simp, simp, (rule load, simp add: 1)+)+, rule e)
    then show ?thesis by (auto simp: AES_set_encrypt_key_def bind_eq_Some_conv rounds_of_def 1)
  next
    case 2
    have e: "\<exists>rk. expand_192 8 0 0 x = Some rk \<and> follows (KeyExpansion uk Nk) 52 rk"
      if "follows (KeyExpansion uk Nk) (Suc 5) x" for x
      using expand_192_follows [of uk 0 x 8] that by (simp add: 2)
    have "\<exists>rk. (do { rk \<leftarrow> load_word uk 0 (rd_key k); rk \<leftarrow> load_word uk 1 rk; rk \<leftarrow> load_word uk 2 rk; rk \<leftarrow> load_word uk 3 rk;
        rk \<leftarrow> load_word uk 4 rk; rk \<leftarrow> load_word uk 5 rk; expand_192 8 0 0 rk }) = Some rk \<and> follows (KeyExpansion uk Nk) 52 rk"
      by (rule follows_load_bind [OF start], simp, simp, (rule load, simp add: 2)+,
          (rule follows_load_bind, assumption, simp, simp, (rule load, simp add: 2)+)+, rule e)
    then show ?thesis by (auto simp: AES_set_encrypt_key_def bind_eq_Some_conv rounds_of_def 2)
  next
    case 3
    have e: "\<exists>rk. expand_256 7 0 0 x = Some rk \<and> follows (KeyExpansion uk Nk) 60 rk"
      if "follows (KeyExpansion uk Nk) (Suc 7) x" for x
      using expand_256_follows [of uk 0 x 7] that by (simp add: 3)
    have "\<exists>rk. (do { rk \<leftarrow> load_word uk 0 (rd_key k); rk \<leftarrow> load_word uk 1 rk; rk \<leftarrow> load_word uk 2 rk; rk \<leftarrow> load_word uk 3 rk;
        rk \<leftarrow> load_word uk 4 rk; rk \<leftarrow> load_word uk 5 rk; rk \<leftarrow> load_word uk 6 rk; rk \<leftarrow> load_word uk 7 rk;
        expand_256 7 0 0 rk }) = Some rk \<and> follows (KeyExpansion uk Nk) 60 rk"
      by (rule follows_load_bind [OF start], simp, simp, (rule load, simp add: 3)+,
          (rule follows_load_bind, assumption, simp, simp, (rule load, simp add: 3)+)+, rule e)
    then show ?thesis by (auto simp: AES_set_encrypt_key_def bind_eq_Some_conv rounds_of_def 3)
  qed
qed

section \<open>The cipher\<close>

lemma AddRoundKey_fips:
  assumes "follows W (4 * r + 4) rk" and "r \<le> 14"
  shows "AddRoundKey rk (4 * r) s = fips_add_key W r s"
  using assms by (cases s) (simp add: AddRoundKey_def fips_add_key_def follows_def)

lemma follows_mono: "follows W m rk \<Longrightarrow> n \<le> m \<Longrightarrow> follows W n rk"
  by (simp add: follows_def)

lemma enc_states_fips:
  assumes "follows W (4 * n + 4) rk" and "n \<le> 14"
  shows "enc_states rk n s = fold (fips_round W) [1..<Suc n] (fips_add_key W 0 s)"
  using assms
proof (induction n)
  case 0
  then show ?case using AddRoundKey_fips [of W 0 rk s] by (simp add: enc_states_def)
next
  case (Suc n)
  have "follows W (4 * n + 4) rk" using Suc.prems(1) by (rule follows_mono) simp
  with Suc show ?case using AddRoundKey_fips [OF Suc.prems]
    by (simp add: enc_states_Suc fips_round_def SubShift_fips)
qed

lemma AES_encrypt_Cipher:
  assumes "follows W (4 * (nr + 1)) (rd_key key)" and "rounds key = nr" and "nr \<in> {10, 12, 14}"
  shows "AES_encrypt key inp = Cipher nr W inp"
proof -
  have nr: "nr \<le> 14" "0 < nr" using assms(3) by auto
  have "follows W (4 * nr + 4) (rd_key key)" "follows W (4 * (nr - 1) + 4) (rd_key key)"
    using assms(1) nr by (auto intro: follows_mono)
  with nr show ?thesis
    unfolding AES_encrypt_states [OF assms(3,2)] Cipher_def Let_def
    by (simp add: AddRoundKey_fips enc_states_fips SubShift_fips)
qed

end
