(* ===== verification/CryptoProps.thy ===== *)
theory CryptoProps
  imports CrysprOpenSSL AesFips
begin

text \<open>
  The properties of the cryptographic layer: OpenSSL's AES, key wrap, counter mode and key
  derivation as HaiCrypt uses them, and HaiCrypt's own fallbacks.
\<close>

section \<open>AES\<close>

text \<open>
  C4: OpenSSL's table driven AES is the cipher of FIPS 197: for a key of 4, 6 or 8 words and a
  key structure with any previous contents, setting the key succeeds and encrypting any block
  with it gives the standard's cipher under the standard's key expansion.
\<close>

theorem AES_is_FIPS197:
  assumes "Nk \<in> {4, 6, 8}" and "length userKey = 4 * Nk" and "length (rd_key k) = 60"
  shows "\<exists>ek. AES_set_encrypt_key (Some userKey) (32 * int Nk) (Some k) = Some (0, Some ek)
    \<and> (\<forall>inp. AES_encrypt ek inp = Cipher (Nk + 6) (KeyExpansion userKey Nk) inp)"
proof -
  obtain rk where rk: "AES_set_encrypt_key (Some userKey) (32 * int Nk) (Some k) = Some (0, Some \<lparr>rd_key = rk, rounds = Nk + 6\<rparr>)"
    "follows (KeyExpansion userKey Nk) (4 * (Nk + 6 + 1)) rk"
    using set_encrypt_key_follows [OF assms] by (auto simp: rounds_of_def)
  have "Nk + 6 \<in> {10, 12, 14}" using assms(1) by auto
  with rk show ?thesis
    by (intro exI [of _ "\<lparr>rd_key = rk, rounds = Nk + 6\<rparr>"]) (simp add: AES_encrypt_Cipher)
qed

theorem AES_is_FIPS197_witness:
  "\<exists>ek. AES_set_encrypt_key (Some (replicate 32 1)) 256 (Some blank_key) = Some (0, Some ek)
    \<and> AES_encrypt ek (replicate 16 9) = Cipher 14 (KeyExpansion (replicate 32 1) 8) (replicate 16 9)"
  using AES_is_FIPS197 [of 8 "replicate 32 1" blank_key] by (auto simp: blank_key_def)

text \<open>
  C6: both schedules of a user key can be set, into structures with any previous contents, and
  decryption under the one undoes encryption under the other, in both orders.
\<close>

theorem AES_round_trip:
  assumes "bits \<in> {128, 192, 256}" and "bits \<le> 8 * int (length userKey)" and "length (rd_key k) = 60"
  shows "\<exists>ek dk. AES_set_encrypt_key (Some userKey) bits (Some k) = Some (0, Some ek)
    \<and> AES_set_decrypt_key (Some userKey) bits (Some k) = Some (0, Some dk)
    \<and> (\<forall>B. length B = 16 \<longrightarrow> AES_decrypt dk (AES_encrypt ek B) = B \<and> AES_encrypt ek (AES_decrypt dk B) = B)"
  using AES_keys [OF assms] AES_decrypt_encrypt AES_encrypt_decrypt by blast

theorem AES_round_trip_witness:
  "\<exists>ek dk. AES_set_encrypt_key (Some (replicate 24 7)) 192 (Some blank_key) = Some (0, Some ek)
    \<and> AES_set_decrypt_key (Some (replicate 24 7)) 192 (Some blank_key) = Some (0, Some dk)
    \<and> AES_decrypt dk (AES_encrypt ek (replicate 16 1)) = replicate 16 1"
proof -
  have "192 \<in> {128, 192, 256 :: int}" "192 \<le> 8 * int (length (replicate 24 7))" "length (rd_key blank_key) = 60"
    by (simp_all add: blank_key_def)
  from AES_round_trip [OF this] show ?thesis by (metis length_replicate)
qed

section \<open>Key wrap\<close>

text \<open>The schedules in two contexts that were set from one key.\<close>

lemma set_contexts:
  assumes "key_len_ok (length kek)" and "crysprOpenSSL_AES_SetKey True kek c = (0, ek)"
    and "crysprOpenSSL_AES_SetKey False kek c' = (0, dk)"
  shows "aes_schedules (aes_key_of ek) (aes_key_of dk)"
  using SetKey_schedules [OF assms(1), of c c'] assms(2,3) by simp

text \<open>Contexts set from a sample key.\<close>

lemma sample_contexts:
  obtains ek dk where "crysprOpenSSL_AES_SetKey True (replicate 16 5) (Aes_Ctx blank_key) = (0, ek)"
    and "crysprOpenSSL_AES_SetKey False (replicate 16 5) (Aes_Ctx blank_key) = (0, dk)"
    and "key_len_ok (length (replicate 16 (5 :: u8)))"
proof -
  have k: "key_len_ok (length (replicate 16 (5 :: u8)))" by (simp add: key_len_ok_def)
  then show thesis using SetKey_schedules [OF k, of "Aes_Ctx blank_key" "Aes_Ctx blank_key"] that by blast
qed

text \<open>A \<open>size_t\<close> below \<open>2 ^ 32\<close> as the \<open>int\<close> that \<open>AES_wrap_key\<close> and \<open>AES_unwrap_key\<close> return.\<close>

lemma as_int_cases: "n < 2 ^ 32 \<Longrightarrow> as_int n = (if n < 2 ^ 31 then int n else int n - 2 ^ 32)"
  using as_int_large [of n] by simp



text \<open>
  C7: \<open>AES_unwrap_key\<close> accepts nothing else: bytes it unwraps successfully are exactly what
  \<open>AES_wrap_key\<close> makes of the result under the same key encrypting key and initial value.  Both
  return a length as an \<open>int\<close>.
\<close>

theorem unwrap_only_wrapped_keys:
  assumes "key_len_ok (length kek)" and "crysprOpenSSL_AES_SetKey True kek c = (0, ek)"
    and "crysprOpenSSL_AES_SetKey False kek c' = (0, dk)"
    and "AES_unwrap_key (aes_key_of dk) iv inp = (r, Some out)" and "r \<noteq> 0" and "length inp < 2 ^ 32"
  shows "r = (if length out < 2 ^ 31 then int (length out) else int (length out) - 2 ^ 32)
    \<and> length inp = length out + 8
    \<and> AES_wrap_key (aes_key_of ek) iv out =
        (if length inp < 2 ^ 31 then int (length inp) else int (length inp) - 2 ^ 32, Some inp)"
proof -
  have len: "length inp < 4294967296" using assms(6) by simp
  obtain ret where ret: "CRYPTO_128_unwrap (AES_decrypt (aes_key_of dk)) iv inp = (ret, Some out)" "r = as_int ret"
    using assms(4) unfolding AES_wrap_key_in(2) [OF len] by (cases "CRYPTO_128_unwrap (AES_decrypt (aes_key_of dk)) iv inp") auto
  have nz: "ret \<noteq> 0" using ret(2) assms(5) by (intro notI) simp
  have w: "length out = ret" "CRYPTO_128_wrap (AES_encrypt (aes_key_of ek)) iv out = (length inp, Some inp)"
    using block_cipher.unwrap_only_wrapped [OF AES_block_cipher [OF set_contexts [OF assms(1-3)]] ret(1) nz] assms(6) by simp_all
  have eight: "length inp = length out + 8"
    using w(2) by (auto simp: CRYPTO_128_wrap_def Let_def split: if_splits prod.splits)
  then have lo: "length out < 4294967296" "length out < 2 ^ 32" using len by simp_all
  show ?thesis
    using eight unfolding AES_wrap_key_in(1) [OF lo(1)] w(2) apfst_conv ret(2) w(1) [symmetric]
      as_int_cases [OF lo(2)] as_int_cases [OF assms(6)] by simp
qed

theorem unwrap_only_wrapped_keys_witness:
  "\<exists>ek dk out. crysprOpenSSL_AES_SetKey True (replicate 16 5) (Aes_Ctx blank_key) = (0, ek)
    \<and> crysprOpenSSL_AES_SetKey False (replicate 16 5) (Aes_Ctx blank_key) = (0, dk)
    \<and> AES_unwrap_key (aes_key_of dk) None out = (16, Some (replicate 16 6))
    \<and> AES_wrap_key (aes_key_of ek) None (replicate 16 6) = (24, Some out)"
proof -
  obtain ek dk where c: "crysprOpenSSL_AES_SetKey True (replicate 16 5) (Aes_Ctx blank_key) = (0, ek)"
    "crysprOpenSSL_AES_SetKey False (replicate 16 5) (Aes_Ctx blank_key) = (0, dk)"
    and k: "key_len_ok (length (replicate 16 (5 :: u8)))" by (rule sample_contexts)
  obtain out where o: "length out = 24" "AES_unwrap_key (aes_key_of dk) None out = (16, Some (replicate 16 6))"
    using block_cipher.unwrap_wrap [OF AES_block_cipher [OF set_contexts [OF k c]], of "replicate 16 6" None]
    by (auto simp: AES_wrap_key_in)
  from unwrap_only_wrapped_keys [OF k c o(2)] o c show ?thesis by auto
qed

text \<open>
  C9: the padded variant of RFC 5649 takes any non-empty text and gives it back with its length,
  whatever that is modulo 8.
\<close>

theorem wrap_pad_round_trip:
  assumes "key_len_ok (length kek)" and "crysprOpenSSL_AES_SetKey True kek c = (0, ek)"
    and "crysprOpenSSL_AES_SetKey False kek c' = (0, dk)"
    and "0 < length inp" and "length inp + 15 < CRYPTO128_WRAP_MAX"
    and "case icv of None \<Rightarrow> True | Some v \<Rightarrow> length v = 4"
  shows "\<exists>r out plain. CRYPTO_128_wrap_pad (AES_encrypt (aes_key_of ek)) icv inp = (r, Some out) \<and> length out = r
    \<and> CRYPTO_128_unwrap_pad (AES_decrypt (aes_key_of dk)) icv out = (length inp, Some plain) \<and> take (length inp) plain = inp"
  by (rule block_cipher.unwrap_pad_wrap_pad [OF AES_block_cipher [OF set_contexts [OF assms(1-3)]] assms(4-6)])

theorem wrap_pad_round_trip_witness:
  "\<exists>ek dk r out plain. crysprOpenSSL_AES_SetKey True (replicate 16 5) (Aes_Ctx blank_key) = (0, ek)
    \<and> crysprOpenSSL_AES_SetKey False (replicate 16 5) (Aes_Ctx blank_key) = (0, dk)
    \<and> CRYPTO_128_wrap_pad (AES_encrypt (aes_key_of ek)) None (replicate 13 1) = (r, Some out)
    \<and> CRYPTO_128_unwrap_pad (AES_decrypt (aes_key_of dk)) None out = (13, Some plain) \<and> take 13 plain = replicate 13 1"
proof -
  obtain ek dk where c: "crysprOpenSSL_AES_SetKey True (replicate 16 5) (Aes_Ctx blank_key) = (0, ek)"
    "crysprOpenSSL_AES_SetKey False (replicate 16 5) (Aes_Ctx blank_key) = (0, dk)"
    and k: "key_len_ok (length (replicate 16 (5 :: u8)))" by (rule sample_contexts)
  from wrap_pad_round_trip [OF k c, of "replicate 13 1" None] c show ?thesis by auto
qed

text \<open>
  C14: HaiCrypt's own wrapping, which a build without \<open>CRYSPR_HAS_AESKWRAP\<close> uses, gives on every
  length the format allows the bytes and the status of OpenSSL's, and so does its unwrapping.
\<close>

theorem fallback_wrap_is_openssl:
  assumes "aes_ecb_cipher m = crysprOpenSSL_AES_EcbCipher"
    and "16 \<le> length seks" and "length seks \<le> CRYPTO128_WRAP_MAX" and "length seks mod 8 = 0"
    and "24 \<le> length w" and "length w \<le> CRYPTO128_WRAP_MAX" and "length w mod 8 = 0"
  shows "crysprFallback_AES_WrapKey m cb seks = crysprOpenSSL_KmWrap cb seks
    \<and> crysprFallback_AES_UnwrapKey m cb w = crysprOpenSSL_KmUnwrap cb w"
  using fallback_wrap [OF assms(1-4)] fallback_unwrap [OF assms(1,5-7)] by simp

theorem fallback_wrap_is_openssl_witness:
  "\<exists>(m :: (CRYSPR_AESCTX, unit) CRYSPR_methods) cb.
     crysprFallback_AES_WrapKey m cb (replicate 16 1) = crysprOpenSSL_KmWrap cb (replicate 16 1)
     \<and> crysprFallback_AES_UnwrapKey m cb (replicate 24 1) = crysprOpenSSL_KmUnwrap cb (replicate 24 1)"
proof -
  let ?m = "crysprOpenSSL True False (\<lambda>n w. (1, [], w)) (\<lambda>_. True) (Aes_Ctx blank_key) 0 :: (CRYSPR_AESCTX, unit) CRYSPR_methods"
  let ?cb = "\<lparr>aes_kek = Aes_Ctx blank_key, aes_sek = (\<lambda>_. Aes_Ctx blank_key), ctr_stream = [], ctr_stream_len = 0,
    ctr_stream_siz = 0, outbuf = [], outbuf_ofs = 0, outbuf_siz = 0\<rparr>"
  have "aes_ecb_cipher ?m = crysprOpenSSL_AES_EcbCipher"
    by (simp add: crysprOpenSSL_def with_fallback_wrap_def Let_def)
  from fallback_wrap_is_openssl [OF this, of "replicate 16 1" "replicate 24 1" ?cb] show ?thesis
    by (intro exI [of _ ?m] exI [of _ ?cb]) simp
qed

section \<open>Counter mode\<close>

text \<open>
  C13: \<open>CRYPTO_ctr128_encrypt\<close> computes the same whether it goes by blocks, as the normal build
  does, or byte by byte, from any point within a block.
\<close>

theorem ctr128_builds_agree:
  assumes "length ivec = 16" and "num < 16"
  shows "CRYPTO_ctr128_encrypt (AES_encrypt key) inp ivec ecount num = ctr128_bytewise (AES_encrypt key) inp ivec ecount num"
  by (rule ctr128_encrypt_bytewise [OF _ assms]) simp

theorem ctr128_builds_agree_witness:
  "CRYPTO_ctr128_encrypt (AES_encrypt blank_key) (replicate 40 1) (replicate 16 0xff) (replicate 16 0) 5 =
    ctr128_bytewise (AES_encrypt blank_key) (replicate 40 1) (replicate 16 0xff) (replicate 16 0) 5"
  by (rule ctr128_builds_agree) simp_all

text \<open>The byte-wise loop on two inputs, one after the other.\<close>

lemma bytewise_append:
  "ctr128_bytewise block (xs @ ys) ivec ecount n =
    (let (o1, ivec, ecount, n) = ctr128_bytewise block xs ivec ecount n;
         (o2, ivec, ecount, n) = ctr128_bytewise block ys ivec ecount n
     in (o1 @ o2, ivec, ecount, n))"
  by (induction xs arbitrary: ivec ecount n) (auto simp: Let_def split: prod.splits)

lemma bytewise_invariant:
  assumes "ctr128_bytewise block xs ivec ecount n = (out, ivec', ecount', n')" and "length ivec = 16" and "n < 16"
  shows "length ivec' = 16 \<and> n' < 16"
  using assms by (induction xs arbitrary: ivec ecount n out) (auto simp: Let_def split: prod.splits if_splits)

text \<open>
  A text may be given to \<open>CRYPTO_ctr128_encrypt\<close> in pieces of any sizes: with the counter, the
  encrypted counter and the position carried over, the pieces give the text's cipher text.
\<close>

theorem ctr128_in_pieces:
  assumes "length ivec = 16" and "num < 16"
    and "CRYPTO_ctr128_encrypt (AES_encrypt key) xs ivec ecount num = (o1, ivec1, ecount1, num1)"
    and "CRYPTO_ctr128_encrypt (AES_encrypt key) ys ivec1 ecount1 num1 = (o2, ivec2, ecount2, num2)"
  shows "CRYPTO_ctr128_encrypt (AES_encrypt key) (xs @ ys) ivec ecount num = (o1 @ o2, ivec2, ecount2, num2)"
proof -
  have bw: "CRYPTO_ctr128_encrypt (AES_encrypt key) x iv e n = ctr128_bytewise (AES_encrypt key) x iv e n"
    if "length iv = 16" "n < 16" for x iv e n
    by (rule ctr128_encrypt_bytewise [OF _ that]) simp
  note 1 = assms(3) [unfolded bw [OF assms(1,2)]]
  have "length ivec1 = 16" "num1 < 16" using bytewise_invariant [OF 1 assms(1,2)] by simp_all
  with 1 assms show ?thesis by (simp add: bw bytewise_append)
qed

theorem ctr128_in_pieces_witness:
  "\<exists>o1 i1 e1 n1 o2 r. CRYPTO_ctr128_encrypt (AES_encrypt blank_key) [1, 2, 3] (replicate 16 0) (replicate 16 0) 0 = (o1, i1, e1, n1)
    \<and> CRYPTO_ctr128_encrypt (AES_encrypt blank_key) [4, 5] i1 e1 n1 = (o2, r)
    \<and> CRYPTO_ctr128_encrypt (AES_encrypt blank_key) [1, 2, 3, 4, 5] (replicate 16 0) (replicate 16 0) 0 = (o1 @ o2, r)"
proof -
  obtain o1 i1 e1 n1 where 1: "CRYPTO_ctr128_encrypt (AES_encrypt blank_key) [1, 2, 3] (replicate 16 0) (replicate 16 0) 0 = (o1, i1, e1, n1)"
    by (rule prod_cases4)
  obtain o2 i2 e2 n2 where 2: "CRYPTO_ctr128_encrypt (AES_encrypt blank_key) [4, 5] i1 e1 n1 = (o2, i2, e2, n2)"
    by (rule prod_cases4)
  from ctr128_in_pieces [OF _ _ 1 2] 1 2 show ?thesis by auto
qed

text \<open>
  \<open>ctr128_inc\<close> adds one to the counter as a number of 128 bits, wrapping at the top.
\<close>

theorem ctr128_inc_adds_one:
  assumes "length counter = 16"
  shows "length (ctr128_inc counter) = 16 \<and> be_val (ctr128_inc counter) = (be_val counter + 1) mod 2 ^ 128"
  using ctr128_inc_val [OF assms] assms by simp

theorem ctr128_inc_adds_one_witness:
  "be_val (ctr128_inc (replicate 15 0 @ [0xff])) = 256"
proof -
  have z: "be_val (replicate n 0) = 0" for n by (induction n) simp_all
  then have "be_val (replicate 15 0 @ [0xff]) = 255" unfolding be_val_append by simp
  then show ?thesis using ctr128_inc_adds_one [of "replicate 15 0 @ [0xff]"] by simp
qed

end
