(* ===== verification/HashProps.thy ===== *)
theory HashProps
  imports Hmac CrysprOpenSSL
begin

text \<open>
  What the hash code of OpenSSL promises to the key derivation: SHA-1, HMAC over it, and the key-encrypting key that
  HaiCrypt derives from the passphrase with nothing left abstract.
\<close>

text \<open>
  C16: feeding a message to \<open>SHA1_Update\<close> in pieces of any sizes, empty ones included, after \<open>SHA1_Init\<close> succeeds, and
  \<open>SHA1_Final\<close> then gives the digest that FIPS 180-4 defines for the whole message, padding and length counter included
  (the 64-bit counter wraps where the standard takes the length modulo \<open>2^64\<close>).
\<close>

theorem sha1_is_fips180:
  "Option.bind (feed SHA1_Update SHA1_Init ds) SHA1_Final_digest = Some (fips_sha1 (concat ds))"
  by (rule sha1.stream_digest)

text \<open>
  C17: a template keyed by \<open>HMAC_Init_ex\<close>, copied by \<open>HMAC_CTX_copy\<close> and fed in pieces gives the HMAC of RFC 2104 of the
  whole message, for keys of any length; so does the one-shot \<open>HMAC\<close>, and so does a used context that \<open>HMAC_Init_ex\<close>
  starts again without a key.
\<close>

theorem hmac_is_rfc2104:
  "hmac_pieces K ds = Some (rfc_HMAC K (concat ds))
   \<and> HMAC_oneshot (Some K) (int (length K)) (concat ds) = Some (Some (rfc_HMAC K (concat ds)))
   \<and> Option.bind (hmac_template K) (\<lambda>c. Option.bind (feed hmac_update c ds') (\<lambda>c. Option.bind (HMAC_Init_ex c None n md)
       (\<lambda>(r, c). Option.bind (feed hmac_update c ds) hmac_final))) = Some (rfc_HMAC K (concat ds))"
proof -
  obtain tpl where tpl: "hmac_template K = Some tpl" "hmac_ready K [] tpl"
    using HMAC_Init_ready [of HMAC_CTX_new K] by (auto simp: hmac_template_def)
  obtain c where c: "feed hmac_update tpl ds' = Some c" "hmac_ready K (concat ds') c"
    using hmac.feed_represents [OF tpl(2), of ds'] by auto
  obtain c' where c': "HMAC_Init_ex c None n md = Some (1, c')" "hmac_ready K [] c'"
    using HMAC_reinit_ready [OF c(2)] by blast
  obtain c'' where "feed hmac_update c' ds = Some c''" "hmac_ready K (concat ds) c''"
    using hmac.feed_represents [OF c'(2), of ds] by auto
  with tpl c c' show ?thesis by (simp add: hmac_pieces_rfc HMAC_oneshot_rfc hmac.final_digest)
qed

text \<open>
  A context that was never keyed refuses to work, and says so: it cannot be started without a key or with a negative
  length, fed, finished or copied; a failed copy leaves the target cleared.
\<close>

theorem unkeyed_hmac_refused:
  assumes "key = None \<or> len < 0"
  shows "HMAC_Init_ex HMAC_CTX_new key len md = Some (0, HMAC_CTX_new) \<and> HMAC_Update HMAC_CTX_new d = Some (0, HMAC_CTX_new)
    \<and> HMAC_Final HMAC_CTX_new = Some (0, None, HMAC_CTX_new) \<and> HMAC_CTX_copy c HMAC_CTX_new = (0, HMAC_CTX_new)"
  using assms by (auto simp: HMAC_Init_ex_def HMAC_Update_def HMAC_Final_def HMAC_CTX_copy_def HMAC_CTX_new_def EVP_MD_CTX_copy_ex_def)

theorem unkeyed_hmac_refused_witness:
  "HMAC_Init_ex HMAC_CTX_new (Some [1, 2]) (-1) True = Some (0, HMAC_CTX_new)"
  using unkeyed_hmac_refused [of "Some [1, 2]" "-1" True] by simp

text \<open>
  C18: the key-encrypting key HaiCrypt gets from OpenSSL for a passphrase is the one RFC 2898 defines over HMAC-SHA-1,
  with HMAC and SHA-1 as the standards define them.  For passphrases, salts and keys below \<open>2 ^ 31\<close> bytes, where the
  lengths survive their conversion to \<open>int\<close>, the derivation fails (with -1) only for lack of memory.
\<close>

theorem kek_is_rfc2898:
  assumes "length passwd < 2 ^ 31" and "length salt < 2 ^ 31" and "key_len < 2 ^ 31"
  shows "crysprOpenSSL_KmPbkdf2 mem passwd salt itr key_len =
    (if hmac_mem_ok mem key_len then (0, rfc_PBKDF2 (\<lambda>m. digest_bytes (rfc_HMAC passwd m)) salt itr key_len) else (-1, []))"
  using assms by (simp add: KmPbkdf2_result)

theorem kek_is_rfc2898_witness:
  "crysprOpenSSL_KmPbkdf2 (\<lambda>_. True) (replicate 16 65) (replicate 8 7) 2048 32 =
     (0, rfc_PBKDF2 (\<lambda>m. digest_bytes (rfc_HMAC (replicate 16 65) m)) (replicate 8 7) 2048 32)
   \<and> crysprOpenSSL_KmPbkdf2 (\<lambda>_. False) (replicate 16 65) (replicate 8 7) 2048 32 = (-1, [])"
  using kek_is_rfc2898 [of "replicate 16 65" "replicate 8 7" 32] by (simp add: hmac_mem_ok_def)

end
