(* ===== verification/HcSession.thy ===== *)
theory HcSession
  imports Cryspr
begin

text \<open>
  The session of HaiCrypt: \<open>hcrypt.h\<close> (the session), \<open>hcrypt_sa.c\<close> (the key encrypting key),
  \<open>hcrypt_ctx_tx.c\<close> and \<open>hcrypt_ctx_rx.c\<close> (contexts of a sender and of a receiver),
  \<open>hcrypt.c\<close> (creating, cloning and closing), \<open>hcrypt_tx.c\<close> and \<open>hcrypt_rx.c\<close> (the API).

  A session holds the two contexts of the pair, the pointer to the current one and the control
  block of the crypto library; the method table \<open>m\<close> and the services of the system
  \<open>sys\<close> are arguments.  The state \<open>'w\<close> of the outside is kept in the session, so that the
  order of the calls to it is the order of the code.
\<close>

section \<open>The session\<close>

record 'w system =
  sys_malloc :: "'w \<Rightarrow> bool \<times> 'w"
  sys_gettimeofday :: "'w \<Rightarrow> timeval \<times> 'w"

text \<open>
  \<open>crypto->ctx\<close> is null, one of the session's own contexts, or, after \<open>HaiCrypt_Clone\<close> has
  copied the structure, a context of the session it was copied from.
\<close>

datatype ctx_ptr = Null | Own nat | Foreign nat

record ('k, 'w) hcrypt_Session =
  ctx_even :: hcrypt_Ctx
  ctx_odd :: hcrypt_Ctx
  ses_ctx :: ctx_ptr
  ses_cb :: "'k CRYSPR_cb"
  inbuf_siz :: nat
  ses_se :: u8
  ses_msg_info :: hcrypt_MsgInfo
  data_max_len :: nat
  tx_period :: timeval
  tx_last :: timeval
  refresh_rate :: u32
  pre_announce :: u32
  world :: 'w

record HaiCrypt_Cfg =
  hc_flags :: u32
  hc_secret :: HaiCrypt_Secret
  hc_cryspr :: bool
  hc_key_len :: nat
  hc_data_max_len :: nat
  hc_xport :: int
  hc_km_tx_period_ms :: nat
  hc_km_refresh_rate_pkt :: u32
  hc_km_pre_announce_pkt :: u32

text \<open>\<open>&crypto->ctx_pair[i]\<close>\<close>

definition ctx_pair :: "('k, 'w) hcrypt_Session \<Rightarrow> nat \<Rightarrow> hcrypt_Ctx" where
  "ctx_pair s i = (if i = 0 then ctx_even s else ctx_odd s)"

definition upd_ctx :: "nat \<Rightarrow> (hcrypt_Ctx \<Rightarrow> hcrypt_Ctx) \<Rightarrow> ('k, 'w) hcrypt_Session \<Rightarrow> ('k, 'w) hcrypt_Session" where
  "upd_ctx i f s = (if i = 0 then s\<lparr>ctx_even := f (ctx_even s)\<rparr> else s\<lparr>ctx_odd := f (ctx_odd s)\<rparr>)"

definition alt :: "nat \<Rightarrow> nat" where
  "alt i = 1 - i"

text \<open>
  Following \<open>crypto->ctx\<close>.  A context of another session is memory this session does not
  own; the model counts following such a pointer as a fault.
\<close>

definition cur_ctx :: "('k, 'w) hcrypt_Session \<Rightarrow> nat option" where
  "cur_ctx s = (case ses_ctx s of Own i \<Rightarrow> Some i | _ \<Rightarrow> None)"

section \<open>Security association: hcrypt_sa.c\<close>

definition hcryptCtx_SetSecret ::
    "('k, 'w) CRYSPR_methods \<Rightarrow> nat \<Rightarrow> HaiCrypt_Secret \<Rightarrow> ('k, 'w) hcrypt_Session
      \<Rightarrow> (int \<times> ('k, 'w) hcrypt_Session) option" where
  "hcryptCtx_SetSecret m i secret s =
    (if sec_typ secret = HAICRYPT_SECTYP_PRESHARED then do {
       assert_that (sec_len secret \<le> HAICRYPT_KEY_MAX_SZ);
       let s = upd_ctx i (\<lambda>c. c\<lparr>ctx_cfg := (ctx_cfg c)\<lparr>cfg_pwd_len := 0\<rparr>\<rparr>) s;
       kek \<leftarrow> rd_slice (sec_str secret) 0 (sec_len secret);
       let (iret, cb) = crysprFallback_KmSetKey m (ses_cb s) (has_flag HCRYPT_CTX_F_ENCRYPT (ctx_pair s i)) kek;
       let s = s\<lparr>ses_cb := cb\<rparr>;
       if 0 > iret then Some (-1, s)
       else Some (0, upd_ctx i (\<lambda>c. c\<lparr>ctx_status := HCRYPT_CTX_S_SARDY\<rparr>) s) }
     else if sec_typ secret = HAICRYPT_SECTYP_PASSPHRASE then do {
       assert_that (sec_len secret \<le> HAICRYPT_PWD_MAX_SZ);
       str \<leftarrow> rd_slice (sec_str secret) 0 (sec_len secret);
       pwd \<leftarrow> wr (cfg_pwd (ctx_cfg (ctx_pair s i))) 0 str;
       Some (0, upd_ctx i (\<lambda>c. c\<lparr>ctx_cfg := (ctx_cfg c)\<lparr>cfg_pwd := pwd, cfg_pwd_len := sec_len secret\<rparr>,
         ctx_status := HCRYPT_CTX_S_SARDY\<rparr>) s) }
     else Some (-1, s))"

definition hcryptCtx_GenSecret ::
    "('k, 'w) CRYSPR_methods \<Rightarrow> nat \<Rightarrow> ('k, 'w) hcrypt_Session \<Rightarrow> (int \<times> ('k, 'w) hcrypt_Session) option" where
  "hcryptCtx_GenSecret m i s =
    (let ctx = ctx_pair s i;
         kek_len = ctx_sek_len ctx;
         pbkdf_salt_len = (if ctx_salt_len ctx \<ge> HAICRYPT_PBKDF2_SALT_LEN
                           then HAICRYPT_PBKDF2_SALT_LEN else ctx_salt_len ctx) in
     do {
       pwd \<leftarrow> rd_slice (cfg_pwd (ctx_cfg ctx)) 0 (cfg_pwd_len (ctx_cfg ctx));
       salt \<leftarrow> rd_slice (ctx_salt ctx) (ctx_salt_len ctx - pbkdf_salt_len) pbkdf_salt_len;
       let (iret, out) = km_pbkdf2 m pwd salt HAICRYPT_PBKDF2_ITER_CNT kek_len;
       if iret \<noteq> 0 then Some (-1, s)
       else do {
         kek_buf \<leftarrow> wr (replicate HAICRYPT_KEY_MAX_SZ 0) 0 (take kek_len out);
         kek \<leftarrow> rd_slice kek_buf 0 kek_len;
         let (iret, cb) = crysprFallback_KmSetKey m (ses_cb s) (has_flag HCRYPT_CTX_F_ENCRYPT ctx) kek;
         let s = s\<lparr>ses_cb := cb\<rparr>;
         Some (if 0 > iret then (-1, s) else (0, s)) } })"

section \<open>Sender contexts: hcrypt_ctx_tx.c\<close>

definition hcryptCtx_Tx_Init ::
    "('k, 'w) CRYSPR_methods \<Rightarrow> nat \<Rightarrow> HaiCrypt_Cfg \<Rightarrow> ('k, 'w) hcrypt_Session
      \<Rightarrow> (int \<times> ('k, 'w) hcrypt_Session) option" where
  "hcryptCtx_Tx_Init m i cfg s = do {
     let s = upd_ctx i (\<lambda>c. c\<lparr>ctx_cfg := (ctx_cfg c)\<lparr>cfg_key_len := hc_key_len cfg\<rparr>,
        ctx_mode := HCRYPT_CTX_MODE_AESCTR, ctx_status := HCRYPT_CTX_S_INIT,
        ctx_msg_info := Some (ses_msg_info s)\<rparr>) s;
     (iret, s) \<leftarrow> hcryptCtx_SetSecret m i (hc_secret cfg) s;
     Some (if iret \<noteq> 0 then (-1, s) else (0, s)) }"

text \<open>Assemble the Keying Material message; \<open>alt_sek\<close> is the key of the other context or null.\<close>

definition hcryptCtx_Tx_AsmKM ::
    "('k, 'w) CRYSPR_methods \<Rightarrow> nat \<Rightarrow> bytes option \<Rightarrow> ('k, 'w) hcrypt_Session
      \<Rightarrow> (int \<times> ('k, 'w) hcrypt_Session) option" where
  "hcryptCtx_Tx_AsmKM m i alt_sek s = do {
     let ctx = ctx_pair s i;
     let sek_cnt = (case alt_sek of None \<Rightarrow> 1 | Some _ \<Rightarrow> 2);
     let salt_len = ctx_salt_len ctx;
     let sek_len = ctx_sek_len ctx;
     let msg_len = HCRYPT_MSG_KM_OFS_SALT + salt_len + sek_len * sek_cnt + HAICRYPT_WRAPKEY_SIGN_SZ;
     mi \<leftarrow> ctx_msg_info ctx;
     km \<leftarrow> wr (ctx_KMmsg_cache ctx) 0 (replicate msg_len 0);
     km \<leftarrow> resetCache mi km HCRYPT_MSG_PT_KM
             (if sek_cnt = 2 then HCRYPT_MSG_F_xSEK else ctx_flags ctx AND HCRYPT_MSG_F_xSEK);
     km \<leftarrow> wr km 8 [HCRYPT_CIPHER_AES_CTR];
     km \<leftarrow> wr km 9 [HCRYPT_AUTH_NONE];
     km \<leftarrow> wr km 10 [ses_se s];
     km \<leftarrow> hcryptMsg_KM_SetSaltLen km salt_len;
     km \<leftarrow> hcryptMsg_KM_SetSekLen km sek_len;
     salt \<leftarrow> rd_slice (ctx_salt ctx) 0 salt_len;
     km \<leftarrow> wr km HCRYPT_MSG_KM_OFS_SALT salt;
     sek \<leftarrow> rd_slice (ctx_sek ctx) 0 sek_len;
     seks \<leftarrow> (case alt_sek of
               None \<Rightarrow> Some sek
             | Some as \<Rightarrow> do {
                 as \<leftarrow> rd_slice as 0 sek_len;
                 buf \<leftarrow> wr (replicate (HAICRYPT_KEY_MAX_SZ * 2) 0) 0
                          (if has_flag HCRYPT_MSG_F_eSEK ctx then sek else as);
                 buf \<leftarrow> wr buf sek_len (if has_flag HCRYPT_MSG_F_eSEK ctx then as else sek);
                 rd_slice buf 0 (sek_cnt * sek_len) });
     let (iret, wrap) = km_wrap m (ses_cb s) seks;
     km \<leftarrow> wr km (HCRYPT_MSG_KM_OFS_SALT + salt_len) wrap;
     let s = upd_ctx i (\<lambda>c. c\<lparr>ctx_KMmsg_len := 0, ctx_KMmsg_cache := km\<rparr>) s;
     if 0 > iret then Some (-1, s)
     else Some (0, upd_ctx i (\<lambda>c. c\<lparr>ctx_KMmsg_len := msg_len\<rparr>) s) }"

text \<open>
  What \<open>hcryptCtx_Tx_Rekey\<close> and \<open>hcryptCtx_Tx_CloneKey\<close> do once salt and key are in the
  context: hand the key to the library, derive the key encrypting key, assemble the message.
\<close>

definition tx_install_key ::
    "('k, 'w) CRYSPR_methods \<Rightarrow> nat \<Rightarrow> ('k, 'w) hcrypt_Session \<Rightarrow> (int \<times> ('k, 'w) hcrypt_Session) option" where
  "tx_install_key m i s = do {
     let ctx = ctx_pair s i;
     sek \<leftarrow> rd_slice (ctx_sek ctx) 0 (ctx_sek_len ctx);
     let (iret, cb) = crysprFallback_MsSetKey m (ses_cb s) ctx sek;
     let s = s\<lparr>ses_cb := cb\<rparr>;
     if iret \<noteq> 0 then Some (-1, s)
     else do {
       (iret, s) \<leftarrow> (if 0 < cfg_pwd_len (ctx_cfg ctx) then hcryptCtx_GenSecret m i s else Some (0, s));
       if iret < 0 then Some (iret, s)
       else do {
         (iret, s) \<leftarrow> hcryptCtx_Tx_AsmKM m i None s;
         if iret \<noteq> 0 then Some (iret, s)
         else do {
           let a = ctx_pair s (alt i);
           (_, s) \<leftarrow> (if HCRYPT_CTX_S_KEYED \<le> ctx_status a then do {
                        both \<leftarrow> hcryptMsg_KM_HasBothSek (ctx_KMmsg_cache a);
                        if both then hcryptCtx_Tx_AsmKM m (alt i) None s else Some (0, s) }
                      else Some (0, s));
           mi \<leftarrow> ctx_msg_info (ctx_pair s i);
           pfx \<leftarrow> resetCache mi (ctx_MSpfx_cache (ctx_pair s i)) HCRYPT_MSG_PT_MS
                    (ctx_flags (ctx_pair s i) AND HCRYPT_CTX_F_xSEK);
           Some (0, upd_ctx i (\<lambda>c. c\<lparr>ctx_MSpfx_cache := pfx, ctx_pkt_cnt := 1,
             ctx_status := HCRYPT_CTX_S_KEYED\<rparr>) s) } } } }"

definition hcryptCtx_Tx_Rekey ::
    "('k, 'w) CRYSPR_methods \<Rightarrow> nat \<Rightarrow> ('k, 'w) hcrypt_Session \<Rightarrow> (int \<times> ('k, 'w) hcrypt_Session) option" where
  "hcryptCtx_Tx_Rekey m i s = do {
     assert_that (HCRYPT_CTX_S_SARDY \<le> ctx_status (ctx_pair s i));
     let (iret, rn, w) = prng m HAICRYPT_SALT_SZ (world s);
     salt \<leftarrow> wr (ctx_salt (ctx_pair s i)) 0 (take HAICRYPT_SALT_SZ rn);
     let s = upd_ctx i (\<lambda>c. c\<lparr>ctx_salt_len := HAICRYPT_SALT_SZ, ctx_salt := salt\<rparr>) (s\<lparr>world := w\<rparr>);
     if 0 > iret then Some (iret, s)
     else do {
       let key_len = cfg_key_len (ctx_cfg (ctx_pair s i));
       let (iret, rn, w) = prng m key_len (world s);
       sek \<leftarrow> wr (ctx_sek (ctx_pair s i)) 0 (take key_len rn);
       let s = upd_ctx i (\<lambda>c. c\<lparr>ctx_sek_len := key_len, ctx_sek := sek\<rparr>) (s\<lparr>world := w\<rparr>);
       if 0 > iret then Some (iret, s)
       else tx_install_key m i s } }"

text \<open>The source context is the current one of the source session, or its first.\<close>

definition hcryptCtx_Tx_CloneKey ::
    "('k, 'w) CRYSPR_methods \<Rightarrow> nat \<Rightarrow> ('k, 'w) hcrypt_Session \<Rightarrow> ('k, 'w) hcrypt_Session
      \<Rightarrow> (int \<times> ('k, 'w) hcrypt_Session) option" where
  "hcryptCtx_Tx_CloneKey m i src s = do {
     assert_that (HCRYPT_CTX_S_SARDY \<le> ctx_status (ctx_pair s i));
     j \<leftarrow> (case ses_ctx src of Null \<Rightarrow> Some 0 | Own j \<Rightarrow> Some j | Foreign _ \<Rightarrow> None);
     let from = ctx_pair src j;
     salt \<leftarrow> rd_slice (ctx_salt from) 0 (ctx_salt_len from);
     salt \<leftarrow> wr (ctx_salt (ctx_pair s i)) 0 salt;
     sek \<leftarrow> rd_slice (ctx_sek from) 0 (ctx_sek_len from);
     sek \<leftarrow> wr (ctx_sek (ctx_pair s i)) 0 sek;
     tx_install_key m i (upd_ctx i (\<lambda>c. c\<lparr>ctx_salt_len := ctx_salt_len from, ctx_salt := salt,
       ctx_sek_len := ctx_sek_len from, ctx_sek := sek\<rparr>) s) }"

definition hcryptCtx_Tx_Refresh ::
    "('k, 'w) CRYSPR_methods \<Rightarrow> ('k, 'w) hcrypt_Session \<Rightarrow> (int \<times> ('k, 'w) hcrypt_Session) option" where
  "hcryptCtx_Tx_Refresh m s = do {
     i \<leftarrow> cur_ctx s;
     let ctx = ctx_pair s i;
     assert_that (HCRYPT_CTX_S_ACTIVE = ctx_status ctx);
     let j = alt i;
     assert_that (HCRYPT_CTX_S_SARDY \<le> ctx_status (ctx_pair s j));
     salt \<leftarrow> rd_slice (ctx_salt ctx) 0 HAICRYPT_SALT_SZ;
     new_salt \<leftarrow> wr (ctx_salt (ctx_pair s j)) 0 salt;
     let s = upd_ctx j (\<lambda>c. c\<lparr>ctx_cfg := ctx_cfg ctx, ctx_salt_len := ctx_salt_len ctx,
        ctx_salt := new_salt, ctx_sek_len := cfg_key_len (ctx_cfg ctx)\<rparr>) s;
     let sek_len = ctx_sek_len (ctx_pair s j);
     let (iret, rn, w) = prng m sek_len (world s);
     sek \<leftarrow> wr (ctx_sek (ctx_pair s j)) 0 (take sek_len rn);
     let s = upd_ctx j (\<lambda>c. c\<lparr>ctx_sek := sek\<rparr>) (s\<lparr>world := w\<rparr>);
     if 0 > iret then Some (-1, s)
     else do {
       key \<leftarrow> rd_slice sek 0 sek_len;
       let (iret, cb) = crysprFallback_MsSetKey m (ses_cb s) (ctx_pair s j) key;
       let s = s\<lparr>ses_cb := cb\<rparr>;
       if iret \<noteq> 0 then Some (-1, s)
       else do {
         (iret, s) \<leftarrow> hcryptCtx_Tx_AsmKM m j (Some (ctx_sek ctx)) s;
         if iret \<noteq> 0 then Some (iret, s)
         else do {
           mi \<leftarrow> ctx_msg_info (ctx_pair s j);
           pfx \<leftarrow> resetCache mi (ctx_MSpfx_cache (ctx_pair s j)) HCRYPT_MSG_PT_MS
                    (ctx_flags (ctx_pair s j) AND HCRYPT_MSG_F_xSEK);
           Some (0, upd_ctx j (\<lambda>c. c\<lparr>ctx_MSpfx_cache := pfx, ctx_pkt_cnt := 0,
             ctx_status := HCRYPT_CTX_S_KEYED\<rparr>) s) } } } }"

definition hcryptCtx_Tx_PreSwitch :: "('k, 'w) hcrypt_Session \<Rightarrow> (int \<times> ('k, 'w) hcrypt_Session) option" where
  "hcryptCtx_Tx_PreSwitch s = do {
     i \<leftarrow> cur_ctx s;
     assert_that (HCRYPT_CTX_S_ACTIVE = ctx_status (ctx_pair s i));
     assert_that (HCRYPT_CTX_S_KEYED = ctx_status (ctx_pair s (alt i)));
     let s = upd_ctx (alt i) (set_flag HCRYPT_CTX_F_ANNOUNCE) s;
     let s = upd_ctx (alt i) (set_flag HCRYPT_CTX_F_TTSEND) s;
     both \<leftarrow> hcryptMsg_KM_HasBothSek (ctx_KMmsg_cache (ctx_pair s (alt i)));
     Some (0, if both then upd_ctx i (clear_flag HCRYPT_CTX_F_ANNOUNCE) s else s) }"

definition hcryptCtx_Tx_Switch :: "('k, 'w) hcrypt_Session \<Rightarrow> (int \<times> ('k, 'w) hcrypt_Session) option" where
  "hcryptCtx_Tx_Switch s = do {
     i \<leftarrow> cur_ctx s;
     assert_that (HCRYPT_CTX_S_KEYED \<le> ctx_status (ctx_pair s (alt i)));
     let s = upd_ctx i (\<lambda>c. c\<lparr>ctx_status := HCRYPT_CTX_S_DEPRECATED\<rparr>) s;
     let s = upd_ctx (alt i) (\<lambda>c. c\<lparr>ctx_status := HCRYPT_CTX_S_ACTIVE\<rparr>) s;
     let s = upd_ctx (alt i) (set_flag HCRYPT_CTX_F_ANNOUNCE) s;
     Some (0, s\<lparr>ses_ctx := Own (alt i)\<rparr>) }"

definition hcryptCtx_Tx_PostSwitch ::
    "('k, 'w) CRYSPR_methods \<Rightarrow> ('k, 'w) hcrypt_Session \<Rightarrow> (int \<times> ('k, 'w) hcrypt_Session) option" where
  "hcryptCtx_Tx_PostSwitch m s = do {
     i \<leftarrow> cur_ctx s;
     let s = upd_ctx (alt i) (clear_flag HCRYPT_CTX_F_ANNOUNCE) s;
     let s = upd_ctx (alt i) (\<lambda>c. c\<lparr>ctx_status := HCRYPT_CTX_S_SARDY\<rparr>) s;
     both \<leftarrow> hcryptMsg_KM_HasBothSek (ctx_KMmsg_cache (ctx_pair s i));
     (_, s) \<leftarrow> (if both then hcryptCtx_Tx_AsmKM m i None s else Some (0, s));
     Some (0, s) }"

definition hcryptCtx_Tx_ManageKM ::
    "('k, 'w) CRYSPR_methods \<Rightarrow> 'w system \<Rightarrow> ('k, 'w) hcrypt_Session \<Rightarrow> (int \<times> ('k, 'w) hcrypt_Session) option" where
  "hcryptCtx_Tx_ManageKM m sys s = do {
     i \<leftarrow> cur_ctx s;
     let ctx = ctx_pair s i;
     let a = ctx_pair s (alt i);
     s \<leftarrow> (if ctx_pkt_cnt ctx > refresh_rate s \<or> ctx_pkt_cnt ctx = 0 then do {
             (_, s) \<leftarrow> hcryptCtx_Tx_Switch s; Some s }
           else if ctx_pkt_cnt ctx > refresh_rate s - pre_announce s \<and> \<not> has_flag HCRYPT_CTX_F_ANNOUNCE a then do {
             (_, s) \<leftarrow> hcryptCtx_Tx_Refresh m s;
             (_, s) \<leftarrow> hcryptCtx_Tx_PreSwitch s; Some s }
           else if ctx_status a = HCRYPT_CTX_S_DEPRECATED \<and> ctx_pkt_cnt ctx > pre_announce s then do {
             (_, s) \<leftarrow> hcryptCtx_Tx_PostSwitch m s; Some s }
           else Some s);
     if timerisset (tx_period s) then do {
       let (now, w) = sys_gettimeofday sys (world s);
       let s = s\<lparr>world := w\<rparr>;
       if timercmp_gt now (timeradd (tx_last s) (tx_period s)) then do {
         let s = (if has_flag HCRYPT_CTX_F_ANNOUNCE (ctx_even s) then upd_ctx 0 (set_flag HCRYPT_CTX_F_TTSEND) s else s);
         Some (0, if has_flag HCRYPT_CTX_F_ANNOUNCE (ctx_odd s) then upd_ctx 1 (set_flag HCRYPT_CTX_F_TTSEND) s else s) }
       else Some (0, s) }
     else Some (0, s) }"

text \<open>
  A pointer handed to the application: the message cache of a context, a place in the output
  buffer of the control block, or null.  \<open>out_p\<close> and \<open>out_len_p\<close> are one list of entries.
\<close>

datatype out_ptr = KM_cache nat | Outbuf nat | Null_out

text \<open>One turn of the loop of \<open>hcryptCtx_Tx_InjectKM\<close>.\<close>

definition inject_one :: "nat \<Rightarrow> ('k, 'w) hcrypt_Session \<times> (out_ptr \<times> nat) list
    \<Rightarrow> ('k, 'w) hcrypt_Session \<times> (out_ptr \<times> nat) list" where
  "inject_one i = (\<lambda>(s, outs).
     if has_flag HCRYPT_CTX_F_TTSEND (ctx_pair s i)
     then (upd_ctx i (clear_flag HCRYPT_CTX_F_TTSEND) s, outs @ [(KM_cache i, ctx_KMmsg_len (ctx_pair s i))])
     else (s, outs))"

definition hcryptCtx_Tx_InjectKM ::
    "'w system \<Rightarrow> nat \<Rightarrow> ('k, 'w) hcrypt_Session \<Rightarrow> ((out_ptr \<times> nat) list \<times> ('k, 'w) hcrypt_Session) option" where
  "hcryptCtx_Tx_InjectKM sys maxout s = do {
     assert_that (maxout \<ge> 2);
     let (s, outs) = inject_one 1 (inject_one 0 (s, []));
     if outs \<noteq> [] then do {
       let (now, w) = sys_gettimeofday sys (world s);
       Some (outs, s\<lparr>world := w, tx_last := now\<rparr>) }
     else Some (outs, s) }"

section \<open>Receiver contexts: hcrypt_ctx_rx.c\<close>

definition hcryptCtx_Rx_Init ::
    "('k, 'w) CRYSPR_methods \<Rightarrow> nat \<Rightarrow> HaiCrypt_Cfg option \<Rightarrow> ('k, 'w) hcrypt_Session
      \<Rightarrow> (int \<times> ('k, 'w) hcrypt_Session) option" where
  "hcryptCtx_Rx_Init m i cfg s = do {
     let s = upd_ctx i (\<lambda>c. c\<lparr>ctx_mode := HCRYPT_CTX_MODE_AESCTR, ctx_status := HCRYPT_CTX_S_INIT,
        ctx_msg_info := Some (ses_msg_info s)\<rparr>) s;
     (iret, s) \<leftarrow> (case cfg of Some c \<Rightarrow> hcryptCtx_SetSecret m i (hc_secret c) s | None \<Rightarrow> Some (0, s));
     Some (if iret \<noteq> 0 then (-1, s)
           else (0, upd_ctx i (\<lambda>c. c\<lparr>ctx_status := HCRYPT_CTX_S_SARDY\<rparr>) s)) }"

definition hcryptCtx_Rx_Rekey ::
    "('k, 'w) CRYSPR_methods \<Rightarrow> nat \<Rightarrow> bytes \<Rightarrow> ('k, 'w) hcrypt_Session \<Rightarrow> (int \<times> ('k, 'w) hcrypt_Session) option" where
  "hcryptCtx_Rx_Rekey m i sek s = do {
     let (iret, cb) = crysprFallback_MsSetKey m (ses_cb s) (ctx_pair s i) sek;
     let s = s\<lparr>ses_cb := cb\<rparr>;
     if iret \<noteq> 0 then Some (-1, s)
     else do {
       key \<leftarrow> wr (ctx_sek (ctx_pair s i)) 0 sek;
       Some (0, upd_ctx i (\<lambda>c. c\<lparr>ctx_sek := key, ctx_sek_len := length sek,
         ctx_status := HCRYPT_CTX_S_KEYED\<rparr>) s) } }"

text \<open>The validation of the message: the lengths and the number of keys it announces.\<close>

definition km_validate :: "u8 \<Rightarrow> bytes \<Rightarrow> (nat \<times> nat \<times> nat) option option" where
  "km_validate se km =
    (if length km \<le> HCRYPT_MSG_KM_OFS_SALT then Some None
     else do {
       salt_len \<leftarrow> hcryptMsg_KM_GetSaltLen km;
       sek_len \<leftarrow> hcryptMsg_KM_GetSekLen km;
       if salt_len > HAICRYPT_SALT_SZ \<or> sek_len > HAICRYPT_KEY_MAX_SZ then Some None
       else if 16 \<noteq> sek_len \<and> 24 \<noteq> sek_len \<and> 32 \<noteq> sek_len then Some None
       else do {
         both \<leftarrow> hcryptMsg_KM_HasBothSek km;
         let sek_cnt = (if both then 2 else 1);
         if length km \<noteq> HCRYPT_MSG_KM_OFS_SALT + salt_len + sek_cnt * sek_len + HAICRYPT_WRAPKEY_SIGN_SZ
         then Some None
         else do {
           cipher \<leftarrow> rd km 8;
           auth \<leftarrow> rd km 9;
           if HCRYPT_CIPHER_AES_CTR \<noteq> cipher \<or> HCRYPT_AUTH_NONE \<noteq> auth then Some None
           else do {
             kse \<leftarrow> rd km 10;
             Some (if se \<noteq> kse then None else Some (salt_len, sek_len, sek_cnt)) } } } })"

text \<open>Salt and key length of the message, taken over when they differ: was there a change?\<close>

definition km_take_salt ::
    "nat \<Rightarrow> bytes \<Rightarrow> nat \<Rightarrow> nat \<Rightarrow> ('k, 'w) hcrypt_Session \<Rightarrow> (bool \<times> ('k, 'w) hcrypt_Session) option" where
  "km_take_salt i km salt_len sek_len s = do {
     let ctx = ctx_pair s i;
     new \<leftarrow> rd_slice km HCRYPT_MSG_KM_OFS_SALT salt_len;
     differs \<leftarrow> (if salt_len \<noteq> ctx_salt_len ctx then Some True
                 else do { old \<leftarrow> rd_slice (ctx_salt ctx) 0 salt_len; Some (old \<noteq> new) });
     s \<leftarrow> (if differs then do {
             salt \<leftarrow> wr (ctx_salt ctx) 0 new;
             Some (upd_ctx i (\<lambda>c. c\<lparr>ctx_salt := salt, ctx_salt_len := salt_len\<rparr>) s) }
           else Some s);
     if sek_len \<noteq> ctx_sek_len ctx
     then Some (True, upd_ctx i (\<lambda>c. c\<lparr>ctx_sek_len := sek_len\<rparr>) s)
     else Some (differs, s) }"

text \<open>Keep the message, so that an unchanged one is recognised.\<close>

definition km_keep :: "nat \<Rightarrow> bytes \<Rightarrow> ('k, 'w) hcrypt_Session \<Rightarrow> ('k, 'w) hcrypt_Session option" where
  "km_keep i km s = do {
     cache \<leftarrow> wr (ctx_KMmsg_cache (ctx_pair s i)) 0 km;
     Some (upd_ctx i (\<lambda>c. c\<lparr>ctx_KMmsg_len := length km, ctx_KMmsg_cache := cache\<rparr>) s) }"

text \<open>The first key of a message with both is the even one.\<close>

definition km_pick_sek :: "nat \<Rightarrow> nat \<Rightarrow> hcrypt_Ctx \<Rightarrow> bytes \<Rightarrow> bytes option" where
  "km_pick_sek sek_cnt sek_len ctx seks =
    rd_slice seks (if sek_cnt = 2 \<and> has_flag HCRYPT_MSG_F_oSEK ctx then sek_len else 0) sek_len"

text \<open>
  The end of \<open>hcryptCtx_Rx_ParseKM\<close>, from the unwrapped keys on: set them in the context of the
  message and, when it carries both, in the other one.  \<open>kek_changed\<close> is \<open>kek_len != 0\<close>.
\<close>

definition km_install ::
    "('k, 'w) CRYSPR_methods \<Rightarrow> nat \<Rightarrow> bytes \<Rightarrow> nat \<Rightarrow> nat \<Rightarrow> nat \<Rightarrow> bool \<Rightarrow> bytes
      \<Rightarrow> ('k, 'w) hcrypt_Session \<Rightarrow> (int \<times> ('k, 'w) hcrypt_Session) option" where
  "km_install m i km salt_len sek_len sek_cnt kek_changed seks s = do {
     sek \<leftarrow> km_pick_sek sek_cnt sek_len (ctx_pair s i) seks;
     (_, s) \<leftarrow> hcryptCtx_Rx_Rekey m i sek s;
     s \<leftarrow> km_keep i km s;
     if sek_cnt = 2 then do {
       let a = alt i;
       new \<leftarrow> rd_slice km HCRYPT_MSG_KM_OFS_SALT salt_len;
       salt \<leftarrow> wr (ctx_salt (ctx_pair s a)) 0 new;
       let s = upd_ctx a (\<lambda>c. c\<lparr>ctx_salt := salt, ctx_salt_len := salt_len\<rparr>) s;
       let s = (if kek_changed then upd_ctx a (\<lambda>c. c\<lparr>ctx_status := HCRYPT_CTX_S_SARDY\<rparr>) s else s);
       sek \<leftarrow> km_pick_sek sek_cnt sek_len (ctx_pair s a) seks;
       (_, s) \<leftarrow> hcryptCtx_Rx_Rekey m a sek s;
       s \<leftarrow> km_keep a km s;
       Some (0, s) }
     else Some (0, s) }"

definition hcryptCtx_Rx_ParseKM ::
    "('k, 'w) CRYSPR_methods \<Rightarrow> bytes \<Rightarrow> ('k, 'w) hcrypt_Session \<Rightarrow> (int \<times> ('k, 'w) hcrypt_Session) option" where
  "hcryptCtx_Rx_ParseKM m km s = do {
     v \<leftarrow> km_validate (ses_se s) km;
     case v of
       None \<Rightarrow> Some (-1, s)
     | Some (salt_len, sek_len, sek_cnt) \<Rightarrow> do {
         both \<leftarrow> hcryptMsg_KM_HasBothSek km;
         i \<leftarrow> (if both \<and> ses_ctx s \<noteq> Null then do { c \<leftarrow> cur_ctx s; Some (alt c) }
              else hcryptMsg_KM_GetKeyIndex km);
         (do_pbkdf, s) \<leftarrow> km_take_salt i km salt_len sek_len s;
         let derive = (cfg_pwd_len (ctx_cfg (ctx_pair s i)) \<noteq> 0 \<and> do_pbkdf);
         (iret, s) \<leftarrow> (if derive then hcryptCtx_GenSecret m i s else Some (0, s));
         if iret \<noteq> 0 then Some (-1, s)
         else do {
           let s = (if derive then upd_ctx i (\<lambda>c. c\<lparr>ctx_status := HCRYPT_CTX_S_SARDY\<rparr>) s else s);
           wrapped \<leftarrow> rd_slice km (HCRYPT_MSG_KM_OFS_SALT + salt_len) (sek_cnt * sek_len + HAICRYPT_WRAPKEY_SIGN_SZ);
           (iret, out) \<leftarrow> km_unwrap m (ses_cb s) wrapped;
           seks \<leftarrow> wr (replicate (HAICRYPT_KEY_MAX_SZ * 2) 0) 0 out;
           if 0 > iret then Some (-2, s)
           else km_install m i km salt_len sek_len sek_cnt derive seks s } } }"

end
