(* ===== verification/HcKm.thy ===== *)
theory HcKm
  imports HcSession CrysprProps
begin

text \<open>
  Keying Material: the bytes \<open>hcryptCtx_Tx_AsmKM\<close> assembles, what \<open>hcryptCtx_Rx_ParseKM\<close>
  accepts, and the well-formedness of sessions both rely on.
\<close>

section \<open>Well-formed contexts and sessions\<close>

definition ctx_wf :: "hcrypt_Ctx \<Rightarrow> bool" where
  "ctx_wf c \<longleftrightarrow> length (ctx_salt c) = 16 \<and> length (ctx_sek c) = 32 \<and> length (cfg_pwd (ctx_cfg c)) = 80
     \<and> length (ctx_KMmsg_cache c) = 120 \<and> length (ctx_MSpfx_cache c) = 16
     \<and> ctx_salt_len c \<le> 16 \<and> ctx_KMmsg_len c \<le> 120 \<and> cfg_pwd_len (ctx_cfg c) \<le> 80
     \<and> ctx_msg_info c = Some hcryptMsg_SRT_MsgInfo \<and> ctx_mode c = HCRYPT_CTX_MODE_AESCTR"

definition ses_wf :: "('k, 'w) hcrypt_Session \<Rightarrow> bool" where
  "ses_wf s \<longleftrightarrow> cb_wf (ses_cb s) \<and> ctx_wf (ctx_even s) \<and> ctx_wf (ctx_odd s)
     \<and> ctx_flags (ctx_even s) AND 3 = 1 \<and> ctx_flags (ctx_odd s) AND 3 = 2
     \<and> ses_msg_info s = hcryptMsg_SRT_MsgInfo \<and> ses_se s = HCRYPT_SE_TSSRT
     \<and> (\<forall>i. ses_ctx s = Own i \<longrightarrow> i < 2)"

lemma ctx_wf_ready [simp]: "ctx_wf c \<Longrightarrow> ctx_ready c"
  by (simp add: ctx_wf_def ctx_ready_def)

lemma ctx_pair_simps [simp]:
  "ctx_pair (upd_ctx i f s) i = f (ctx_pair s i)"
  "(i = 0) \<noteq> (j = 0) \<Longrightarrow> ctx_pair (upd_ctx i f s) j = ctx_pair s j"
  "ctx_pair (s\<lparr>ses_cb := cb\<rparr>) i = ctx_pair s i" "ctx_pair (s\<lparr>world := w\<rparr>) i = ctx_pair s i"
  "ctx_pair (s\<lparr>ses_ctx := p\<rparr>) i = ctx_pair s i" "ctx_pair (s\<lparr>tx_last := t\<rparr>) i = ctx_pair s i"
  by (auto simp: ctx_pair_def upd_ctx_def)

lemma upd_ctx_keeps [simp]:
  "ses_cb (upd_ctx i f s) = ses_cb s" "ses_ctx (upd_ctx i f s) = ses_ctx s" "ses_se (upd_ctx i f s) = ses_se s"
  "ses_msg_info (upd_ctx i f s) = ses_msg_info s" "world (upd_ctx i f s) = world s"
  "tx_period (upd_ctx i f s) = tx_period s" "tx_last (upd_ctx i f s) = tx_last s"
  "refresh_rate (upd_ctx i f s) = refresh_rate s" "pre_announce (upd_ctx i f s) = pre_announce s"
  "data_max_len (upd_ctx i f s) = data_max_len s" "inbuf_siz (upd_ctx i f s) = inbuf_siz s"
  by (simp_all add: upd_ctx_def)

lemma alt_simps [simp]: "alt 0 = 1" "alt (Suc 0) = 0" "alt 1 = 0"
  by (simp_all add: alt_def)

lemma alt_below [simp]: "alt i < 2" and alt_alt: "i < 2 \<Longrightarrow> alt (alt i) = i" and alt_zero: "i < 2 \<Longrightarrow> (alt i = 0) \<longleftrightarrow> (i \<noteq> 0)"
  by (auto simp: alt_def)

lemma alt_other [simp]: "i < 2 \<Longrightarrow> (i = 0) \<noteq> (alt i = 0)"
  by (auto simp: alt_def)

lemma ses_wf_ctx: "ses_wf s \<Longrightarrow> ctx_wf (ctx_pair s i)"
  by (simp add: ses_wf_def ctx_pair_def)

lemma ses_wf_upd:
  assumes "ses_wf s" and "ctx_wf (f (ctx_pair s i))" and "ctx_flags (f (ctx_pair s i)) AND 3 = ctx_flags (ctx_pair s i) AND 3"
  shows "ses_wf (upd_ctx i f s)"
  using assms by (auto simp: ses_wf_def upd_ctx_def ctx_pair_def split: if_splits)

lemma ses_wf_cb: "ses_wf s \<Longrightarrow> cb_wf cb \<Longrightarrow> ses_wf (s\<lparr>ses_cb := cb\<rparr>)"
  and ses_wf_world: "ses_wf s \<Longrightarrow> ses_wf (s\<lparr>world := w\<rparr>)"
  and ses_wf_cbD: "ses_wf s \<Longrightarrow> cb_wf (ses_cb s)"
  by (simp_all add: ses_wf_def)

lemma key_index_pair:
  assumes "ses_wf s" and "i < 2"
  shows "hcryptCtx_GetKeyIndex (ctx_pair s i) = i"
proof -
  have "i = 0 \<or> i = 1" using assms(2) by auto
  then show ?thesis
    using assms(1) by (auto simp: ses_wf_def ctx_pair_def hcryptCtx_GetKeyIndex_def drop_bit_eq_div unat_div)
qed

section \<open>The message\<close>

definition km_header :: "u8 \<Rightarrow> u8 \<Rightarrow> nat \<Rightarrow> nat \<Rightarrow> bytes" where
  "km_header kf se salt_len sek_len = [0x12, 0x20, 0x29, kf, 0, 0, 0, 0, HCRYPT_CIPHER_AES_CTR,
     HCRYPT_AUTH_NONE, se, 0, 0, 0, word_of_nat (salt_len div 4), word_of_nat (sek_len div 4)]"

definition km_message :: "u8 \<Rightarrow> u8 \<Rightarrow> bytes \<Rightarrow> nat \<Rightarrow> bytes \<Rightarrow> bytes" where
  "km_message kf se salt sek_len wrap = km_header kf se (length salt) sek_len @ salt @ wrap"

lemma length_km_header [simp]: "length (km_header kf se a b) = 16"
  by (simp add: km_header_def)

lemma wr_append:
  assumes "length xs = ofs" and "length zs \<le> length ys"
  shows "wr (xs @ ys) ofs zs = Some (xs @ zs @ drop (length zs) ys)"
  using assms by (simp add: wr_in)

lemma km_header_writes:
  "do { km \<leftarrow> resetCache hcryptMsg_SRT_MsgInfo (replicate 16 0 @ rest) HCRYPT_MSG_PT_KM kf;
        km \<leftarrow> wr km 8 [HCRYPT_CIPHER_AES_CTR];
        km \<leftarrow> wr km 9 [HCRYPT_AUTH_NONE];
        km \<leftarrow> wr km 10 [se];
        km \<leftarrow> hcryptMsg_KM_SetSaltLen km a;
        hcryptMsg_KM_SetSekLen km b } = Some (km_header (ucast kf) se a b @ rest)"
proof -
  have reset: "resetCache hcryptMsg_SRT_MsgInfo (replicate 16 0 @ rest) HCRYPT_MSG_PT_KM kf =
      Some ([0x12, 0x20, 0x29, ucast kf, 0, 0, 0, 0, 0, 0, 0, 0, 0, 0, 0, 0] @ rest)"
    by (subst srt_mi.reset_km) (simp_all add: numeral_eq_Suc)
  show ?thesis unfolding reset
    by (simp add: wr_def hcryptMsg_KM_SetSaltLen_def hcryptMsg_KM_SetSekLen_def km_header_def)
qed

section \<open>Assembling\<close>

text \<open>The keys that go into the message, the even one first when there are two.\<close>

definition km_seks :: "hcrypt_Ctx \<Rightarrow> bytes option \<Rightarrow> bytes" where
  "km_seks ctx alt_sek =
    (let sek = take (ctx_sek_len ctx) (ctx_sek ctx) in
     case alt_sek of None \<Rightarrow> sek
     | Some as \<Rightarrow> (let as = take (ctx_sek_len ctx) as in
         if has_flag HCRYPT_MSG_F_eSEK ctx then sek @ as else as @ sek))"

definition km_kflags :: "hcrypt_Ctx \<Rightarrow> bytes option \<Rightarrow> u8" where
  "km_kflags ctx alt_sek = ucast (case alt_sek of None \<Rightarrow> ctx_flags ctx AND 3 | Some _ \<Rightarrow> (3 :: u32))"

lemma AsmKM_seks:
  assumes "length (ctx_sek ctx) = 32" and "ctx_sek_len ctx \<le> 32"
    and "\<And>as. alt_sek = Some as \<Longrightarrow> length as = 32"
  shows "(case alt_sek of
      None \<Rightarrow> Some (take (ctx_sek_len ctx) (ctx_sek ctx))
    | Some as \<Rightarrow> do {
        as \<leftarrow> rd_slice as 0 (ctx_sek_len ctx);
        buf \<leftarrow> wr (replicate (HAICRYPT_KEY_MAX_SZ * 2) 0) 0
                 (if has_flag HCRYPT_MSG_F_eSEK ctx then take (ctx_sek_len ctx) (ctx_sek ctx) else as);
        buf \<leftarrow> wr buf (ctx_sek_len ctx) (if has_flag HCRYPT_MSG_F_eSEK ctx then as else take (ctx_sek_len ctx) (ctx_sek ctx));
        rd_slice buf 0 ((case alt_sek of None \<Rightarrow> 1 | Some _ \<Rightarrow> 2) * ctx_sek_len ctx) }) = Some (km_seks ctx alt_sek)"
proof (cases alt_sek)
  case None
  then show ?thesis by (simp add: km_seks_def)
next
  case (Some as)
  have two: "do { buf \<leftarrow> wr (replicate 64 0) 0 x; buf \<leftarrow> wr buf n y; rd_slice buf 0 (2 * n) } = Some (x @ y)"
    if "length x = n" "length y = n" "n \<le> 32" for x y :: bytes and n
    using that by (simp add: wr_in rd_slice_in mult_2)
  let ?n = "ctx_sek_len ctx"
  have l: "length (take ?n (ctx_sek ctx)) = ?n" "length (take ?n as) = ?n"
    using assms Some by simp_all
  have a: "rd_slice as 0 ?n = Some (take ?n as)" using assms Some by (simp add: rd_slice_in)
  show ?thesis
    unfolding Some option.case a bind.bind_lunit
    using two [OF l assms(2)] two [OF l(2) l(1) assms(2)] by (simp add: km_seks_def)
qed

lemma AsmKM_spec:
  assumes wf: "ctx_wf (ctx_pair s i)" and kl: "key_len_ok (ctx_sek_len (ctx_pair s i))"
    and al: "\<And>as. alt_sek = Some as \<Longrightarrow> length as = 32"
    and w: "km_wrap m (ses_cb s) (km_seks (ctx_pair s i) alt_sek) = (iret, wrap)"
    and wl: "length wrap \<le> length (km_seks (ctx_pair s i) alt_sek) + 8"
  shows "\<exists>rest. hcryptCtx_Tx_AsmKM m i alt_sek s =
    Some (if iret < 0 then -1 else 0, upd_ctx i (\<lambda>c. c\<lparr>
      ctx_KMmsg_len := (if iret < 0 then 0 else 16 + ctx_salt_len c + length (km_seks c alt_sek) + 8),
      ctx_KMmsg_cache := km_message (km_kflags c alt_sek) (ses_se s) (take (ctx_salt_len c) (ctx_salt c))
        (ctx_sek_len c) wrap @ rest\<rparr>) s)
    \<and> 16 + ctx_salt_len (ctx_pair s i) + length wrap + length rest = 120"
proof -
  define ctx where "ctx = ctx_pair s i"
  define salt_len where "salt_len = ctx_salt_len ctx"
  define sek_len where "sek_len = ctx_sek_len ctx"
  define cnt :: nat where "cnt = (case alt_sek of None \<Rightarrow> 1 | Some _ \<Rightarrow> 2)"
  define salt where "salt = take salt_len (ctx_salt ctx)"
  define msg_len where "msg_len = 16 + salt_len + sek_len * cnt + 8"
  define kf :: u32 where "kf = (if cnt = 2 then 3 else ctx_flags ctx AND 3)"
  have lens: "length (ctx_salt ctx) = 16" "length (ctx_sek ctx) = 32" "length (ctx_KMmsg_cache ctx) = 120"
    "salt_len \<le> 16" "ctx_msg_info ctx = Some hcryptMsg_SRT_MsgInfo"
    using wf by (simp_all add: ctx_wf_def ctx_def salt_len_def)
  have sl: "sek_len \<le> 32" and cl: "cnt \<le> 2" using kl by (auto simp: key_len_ok_def sek_len_def ctx_def cnt_def split: option.splits)
  have ml: "16 \<le> msg_len" "msg_len \<le> 104"
  proof -
    have "sek_len * cnt \<le> 32 * 2" using sl cl by (rule mult_le_mono)
    then show "16 \<le> msg_len" "msg_len \<le> 104" using lens(4) by (simp_all add: msg_len_def)
  qed
  note seks = AsmKM_seks [of ctx alt_sek, folded sek_len_def cnt_def, OF lens(2) sl al]
  have sekslen: "length (km_seks ctx alt_sek) = cnt * sek_len"
    using lens(2) sl al by (auto simp: km_seks_def sek_len_def cnt_def Let_def split: option.splits)
  define rest0 where "rest0 = replicate (msg_len - 16) (0 :: u8) @ drop msg_len (ctx_KMmsg_cache ctx)"
  have r0: "length rest0 = 104" using ml lens(3) by (simp add: rest0_def)
  have w0: "wr (ctx_KMmsg_cache ctx) 0 (replicate msg_len 0) = Some (replicate 16 0 @ rest0)"
    using ml lens(3) by (simp add: wr_in rest0_def replicate_add [symmetric])
  obtain k1 k2 k3 k4 k5 where hdr: "resetCache hcryptMsg_SRT_MsgInfo (replicate 16 0 @ rest0) HCRYPT_MSG_PT_KM kf = Some k1"
    "wr k1 8 [HCRYPT_CIPHER_AES_CTR] = Some k2" "wr k2 9 [HCRYPT_AUTH_NONE] = Some k3" "wr k3 10 [ses_se s] = Some k4"
    "hcryptMsg_KM_SetSaltLen k4 salt_len = Some k5"
    "hcryptMsg_KM_SetSekLen k5 sek_len = Some (km_header (ucast kf) (ses_se s) salt_len sek_len @ rest0)"
    using km_header_writes [of rest0 kf "ses_se s" salt_len sek_len] by (auto simp: bind_eq_Some_conv)
  let ?h = "km_header (ucast kf) (ses_se s) salt_len sek_len"
  have s1: "rd_slice (ctx_salt ctx) 0 salt_len = Some salt" and ls: "length salt = salt_len"
    using lens by (simp_all add: rd_slice_in salt_def)
  have w1: "wr (?h @ rest0) 16 salt = Some (?h @ salt @ drop salt_len rest0)"
    using wr_append [of ?h 16 salt rest0] ls lens(4) r0 by simp
  define rest where "rest = drop (length wrap) (drop salt_len rest0)"
  have lw: "length wrap \<le> 72" using wl sekslen sl cl mult_le_mono [OF cl sl] unfolding ctx_def [symmetric] by simp
  have w2: "wr (?h @ salt @ drop salt_len rest0) (16 + salt_len) wrap = Some (?h @ salt @ wrap @ rest)"
    using wr_append [of "?h @ salt" "16 + salt_len" wrap "drop salt_len rest0"] ls lens(4) r0 lw by (simp add: rest_def)
  have sek1: "rd_slice (ctx_sek ctx) 0 sek_len = Some (take sek_len (ctx_sek ctx))"
    using lens(2) sl by (simp add: rd_slice_in)
  have asm: "hcryptCtx_Tx_AsmKM m i alt_sek s =
    (let s = upd_ctx i (\<lambda>c. c\<lparr>ctx_KMmsg_len := 0, ctx_KMmsg_cache := ?h @ salt @ wrap @ rest\<rparr>) s in
     if 0 > iret then Some (-1, s) else Some (0, upd_ctx i (\<lambda>c. c\<lparr>ctx_KMmsg_len := msg_len\<rparr>) s))"
    using w seks s1 w0 w1 w2 hdr lens(5) sek1
    unfolding hcryptCtx_Tx_AsmKM_def ctx_def [symmetric] salt_len_def [symmetric] sek_len_def [symmetric]
      cnt_def [symmetric] Let_def msg_len_def [symmetric] kf_def [symmetric]
    by (simp add: kf_def)
  have kfe: "ucast kf = km_kflags ctx alt_sek"
    by (auto simp: kf_def km_kflags_def cnt_def split: option.splits)
  have upd2: "upd_ctx i f (upd_ctx i g s) = upd_ctx i (f \<circ> g) s" for f g
    by (simp add: upd_ctx_def)
  have cong: "upd_ctx i f s = upd_ctx i g s" if "f ctx = g ctx" for f g
    using that by (simp add: upd_ctx_def ctx_def ctx_pair_def split: if_splits)
  have mn: "min (length (ctx_salt ctx)) salt_len = salt_len" using lens by simp
  show ?thesis
    unfolding asm Let_def upd2 using lw lens(4)
    by (auto intro!: exI [of _ rest] cong simp: km_message_def kfe [symmetric] ls salt_def [symmetric] salt_len_def [symmetric]
        sek_len_def [symmetric] sekslen msg_len_def mult.commute ctx_def [symmetric] rest_def r0 mn)
qed

section \<open>Validation\<close>

lemma km_validate_total: "\<exists>v. km_validate se km = Some v"
proof (cases "length km \<le> 16")
  case True
  then show ?thesis by (simp add: km_validate_def)
next
  case False
  have r: "rd km i = Some (km ! i)" if "i \<le> 16" for i
    using False that by (intro rd_in) simp
  show ?thesis
    using False r [of 14] r [of 15] r [of 3] r [of 8] r [of 9] r [of 10]
    by (simp add: km_validate_def km_get_defs Let_def del: rd_eq_Some)
qed

lemma km_validate_accepts:
  assumes "km_validate se km = Some (Some (salt_len, sek_len, cnt))"
  shows "salt_len \<le> 16" and "key_len_ok sek_len" and "cnt = 1 \<or> cnt = 2"
    and "length km = 16 + salt_len + cnt * sek_len + 8"
    and "hcryptMsg_KM_HasBothSek km = Some (cnt = 2)"
proof -
  obtain b14 b15 b3 where g: "rd km 14 = Some b14" "rd km 15 = Some b15" "rd km 3 = Some b3"
    using assms by (auto simp: km_validate_def km_get_defs bind_eq_Some_conv split: if_splits)
  have v: "salt_len = unat b14 * 4" "sek_len = unat b15 * 4" "\<not> salt_len > 16" 
    "16 = sek_len \<or> 24 = sek_len \<or> 32 = sek_len"
    "cnt = (if HCRYPT_MSG_F_xSEK = (ucast b3 AND HCRYPT_MSG_F_xSEK) then 2 else 1)"
    "length km = 16 + salt_len + cnt * sek_len + 8"
    using assms g by (auto simp: km_validate_def km_get_defs Let_def bind_eq_Some_conv split: if_splits)
  show "salt_len \<le> 16" "length km = 16 + salt_len + cnt * sek_len + 8" using v by simp_all
  show "key_len_ok sek_len" using v(4) by (auto simp: key_len_ok_def)
  show "cnt = 1 \<or> cnt = 2" "hcryptMsg_KM_HasBothSek km = Some (cnt = 2)"
    using v(5) g(3) by (auto simp: hcryptMsg_KM_HasBothSek_def simp del: rd_eq_Some)
qed

lemma km_both_cnt:
  assumes "cnt = (if bit kf 0 \<and> bit kf 1 then 2 else 1)"
  shows "(HCRYPT_MSG_F_xSEK = (ucast (kf :: u8) AND HCRYPT_MSG_F_xSEK)) = (cnt = (2 :: nat))"
proof -
  have "(ucast kf AND (3 :: u32) = 3) = (bit kf 0 \<and> bit kf 1)"
    by (simp only: and_3_bits [where 'a=32, simplified]) (simp add: bit_simps)
  then show ?thesis using assms by (auto simp: and.commute)
qed

lemma unat_quarter: "n \<le> 64 \<Longrightarrow> n mod 4 = 0 \<Longrightarrow> unat (word_of_nat (n div 4) :: u8) * 4 = n"
proof -
  assume n: "n \<le> 64" "n mod 4 = 0"
  then have "n div 4 \<le> 16" by simp
  then have "unat (word_of_nat (n div 4) :: u8) = n div 4"
    by (simp add: unat_of_nat take_bit_eq_mod)
  then show ?thesis using n(2) by auto
qed

text \<open>A message of the sender passes.\<close>

lemma km_validate_message:
  assumes "length salt \<le> 16" and "length salt mod 4 = 0" and "key_len_ok sek_len"
    and "cnt = (if bit kf 0 \<and> bit kf 1 then 2 else 1)" and "length wrap = cnt * sek_len + 8"
  shows "km_validate se (km_message kf se salt sek_len wrap) = Some (Some (length salt, sek_len, cnt))"
proof -
  define km where "km = km_message kf se salt sek_len wrap"
  have len: "length km = 16 + length salt + cnt * sek_len + 8"
    using assms(5) by (simp add: km_def km_message_def)
  have k: "sek_len mod 4 = 0" "sek_len \<le> 64" "sek_len \<le> 32" using assms(3) by (auto simp: key_len_ok_def)
  have r: "rd km i = Some (km_header kf se (length salt) sek_len ! i)" if "i < 16" for i
    using that by (simp add: km_def km_message_def rd_def nth_append)
  have rs: "rd km 14 = Some (word_of_nat (length salt div 4))" "rd km 15 = Some (word_of_nat (sek_len div 4))"
    "rd km 3 = Some kf" "rd km 8 = Some 2" "rd km 9 = Some 0" "rd km 10 = Some se"
    using r [of 14] r [of 15] r [of 3] r [of 8] r [of 9] r [of 10] by (simp_all add: km_header_def)
  have both: "(HCRYPT_MSG_F_xSEK = (ucast kf AND HCRYPT_MSG_F_xSEK)) = (cnt = 2)"
    using km_both_cnt [OF assms(4)] .
  have sl: "unat (word_of_nat (length salt div 4) :: u8) * 4 = length salt"
    "unat (word_of_nat (sek_len div 4) :: u8) * 4 = sek_len"
    using unat_quarter assms(1,2) k by simp_all
  have c: "cnt = 1 \<or> cnt = 2" using assms(4) by simp
  show ?thesis unfolding km_def [symmetric]
    using assms(1,3) k(3) len rs c both
    by (auto simp: km_validate_def km_get_defs sl key_len_ok_def simp del: rd_eq_Some)
qed

section \<open>The key encrypting key\<close>

definition pbkdf_salt :: "hcrypt_Ctx \<Rightarrow> bytes" where
  "pbkdf_salt ctx = (let n = min 8 (ctx_salt_len ctx) in take n (drop (ctx_salt_len ctx - n) (ctx_salt ctx)))"

definition derived_kek :: "('k, 'w) CRYSPR_methods \<Rightarrow> hcrypt_Ctx \<Rightarrow> int \<times> bytes" where
  "derived_kek m ctx = km_pbkdf2 m (take (cfg_pwd_len (ctx_cfg ctx)) (cfg_pwd (ctx_cfg ctx))) (pbkdf_salt ctx)
     HAICRYPT_PBKDF2_ITER_CNT (ctx_sek_len ctx)"

text \<open>The derivation does not fail on passphrases, salts and key lengths of the sizes HaiCrypt has.\<close>

definition kdf_works :: "('k, 'w) CRYSPR_methods \<Rightarrow> bool" where
  "kdf_works m \<longleftrightarrow> (\<forall>pw salt n. length pw \<le> HAICRYPT_PWD_MAX_SZ \<longrightarrow> length salt \<le> HAICRYPT_SALT_SZ \<longrightarrow> key_len_ok n \<longrightarrow>
     fst (km_pbkdf2 m pw salt HAICRYPT_PBKDF2_ITER_CNT n) = 0)"

lemma derived_kek_works:
  assumes "kdf_works m" and "ctx_wf c" and "key_len_ok (ctx_sek_len c)"
  shows "fst (derived_kek m c) = 0"
proof -
  have "length (take (cfg_pwd_len (ctx_cfg c)) (cfg_pwd (ctx_cfg c))) \<le> 80" "length (pbkdf_salt c) \<le> 16"
    using assms(2) by (simp_all add: ctx_wf_def pbkdf_salt_def Let_def)
  then show ?thesis using assms(1,3) unfolding kdf_works_def derived_kek_def by blast
qed

text \<open>HaiCrypt over any crypto library that keeps the contract.\<close>

locale haicrypt = cryspr_lib

context haicrypt
begin

lemma derived_kek_length:
  "key_len_ok (ctx_sek_len c) \<Longrightarrow> fst (derived_kek m c) = 0 \<Longrightarrow> length (snd (derived_kek m c)) = ctx_sek_len c"
  unfolding derived_kek_def by (rule pbkdf2_length)

lemma GenSecret_spec:
  assumes wf: "ses_wf s" and kl: "key_len_ok (ctx_sek_len (ctx_pair s i))"
  shows "\<exists>cb. hcryptCtx_GenSecret m i s =
      Some (if fst (derived_kek m (ctx_pair s i)) \<noteq> 0 then (-1, s) else (0, s\<lparr>ses_cb := cb\<rparr>))
    \<and> cb_wf cb \<and> aes_sek cb = aes_sek (ses_cb s) \<and> outbuf_siz cb = outbuf_siz (ses_cb s)
    \<and> (fst (derived_kek m (ctx_pair s i)) = 0 \<longrightarrow> keyed m (has_flag HCRYPT_CTX_F_ENCRYPT (ctx_pair s i)) (snd (derived_kek m (ctx_pair s i))) (aes_kek cb))"
proof -
  define ctx where "ctx = ctx_pair s i"
  have cwf: "ctx_wf ctx" using ses_wf_ctx [OF wf] by (simp add: ctx_def)
  define sl where "sl = (if ctx_salt_len ctx \<ge> 8 then 8 else ctx_salt_len ctx)"
  have sl: "sl = min 8 (ctx_salt_len ctx)" by (simp add: sl_def)
  have pwd: "rd_slice (cfg_pwd (ctx_cfg ctx)) 0 (cfg_pwd_len (ctx_cfg ctx)) =
      Some (take (cfg_pwd_len (ctx_cfg ctx)) (cfg_pwd (ctx_cfg ctx)))"
    using cwf by (simp add: ctx_wf_def rd_slice_in)
  have salt: "rd_slice (ctx_salt ctx) (ctx_salt_len ctx - sl) sl = Some (pbkdf_salt ctx)"
    using cwf sl by (simp add: ctx_wf_def rd_slice_in pbkdf_salt_def Let_def)
  obtain iret out where pb: "derived_kek m ctx = (iret, out)" by fastforce
  show ?thesis
  proof (cases "iret = 0")
    case False
    then have "hcryptCtx_GenSecret m i s = Some (-1, s)"
      using pwd salt pb
      by (simp add: hcryptCtx_GenSecret_def ctx_def [symmetric] sl_def [symmetric] Let_def derived_kek_def)
    with False pb show ?thesis
      using ses_wf_cbD [OF wf] by (auto simp: ctx_def [symmetric])
  next
    case True
    have ol: "length out = ctx_sek_len ctx"
      using derived_kek_length [OF kl [folded ctx_def]] pb True by simp
    obtain buf where kb: "wr (replicate HAICRYPT_KEY_MAX_SZ 0) 0 (take (ctx_sek_len ctx) out) = Some buf"
        "rd_slice buf 0 (ctx_sek_len ctx) = Some out"
      using ol kl by (auto simp: wr_in rd_slice_in key_len_ok_def ctx_def [symmetric])
    have pb': "km_pbkdf2 m (take (cfg_pwd_len (ctx_cfg ctx)) (cfg_pwd (ctx_cfg ctx))) (pbkdf_salt ctx)
        HAICRYPT_PBKDF2_ITER_CNT (ctx_sek_len ctx) = (0, out)"
      using pb True by (simp add: derived_kek_def)
    obtain cb where cb: "crysprFallback_KmSetKey m (ses_cb s) (has_flag HCRYPT_CTX_F_ENCRYPT ctx) out = (0, cb)"
      "aes_sek cb = aes_sek (ses_cb s)" "cb_wf cb" "outbuf_siz cb = outbuf_siz (ses_cb s)"
      "keyed m (has_flag HCRYPT_CTX_F_ENCRYPT ctx) out (aes_kek cb)"
      using KmSetKey_ok [of out "ses_cb s" "has_flag HCRYPT_CTX_F_ENCRYPT ctx"] ol kl ses_wf_cbD [OF wf]
      by (auto simp: ctx_def)
    have "hcryptCtx_GenSecret m i s = Some (0, s\<lparr>ses_cb := cb\<rparr>)"
      using pwd salt pb' kb cb(1)
      by (simp add: hcryptCtx_GenSecret_def ctx_def [symmetric] sl_def [symmetric] Let_def)
    with True pb cb show ?thesis by (auto simp: ctx_def [symmetric] intro!: exI [of _ cb])
  qed
qed

end

section \<open>Parsing\<close>

text \<open>What the steps of \<open>hcryptCtx_Rx_ParseKM\<close> leave alone.\<close>

definition same_session :: "('k, 'w) hcrypt_Session \<Rightarrow> ('k, 'w) hcrypt_Session \<Rightarrow> bool" where
  "same_session s s' \<longleftrightarrow> ses_ctx s' = ses_ctx s \<and> ses_se s' = ses_se s \<and> world s' = world s
     \<and> outbuf_siz (ses_cb s') = outbuf_siz (ses_cb s)
     \<and> (\<forall>i. ctx_cfg (ctx_pair s' i) = ctx_cfg (ctx_pair s i) \<and> ctx_flags (ctx_pair s' i) = ctx_flags (ctx_pair s i))"

lemma same_session_refl [simp]: "same_session s s"
  by (simp add: same_session_def)

lemma same_session_trans: "same_session a b \<Longrightarrow> same_session b c \<Longrightarrow> same_session a c"
  by (simp add: same_session_def)

lemma same_session_upd:
  assumes "ctx_cfg (f (ctx_pair s i)) = ctx_cfg (ctx_pair s i)" and "ctx_flags (f (ctx_pair s i)) = ctx_flags (ctx_pair s i)"
  shows "same_session s (upd_ctx i f s)"
  using assms by (auto simp: same_session_def upd_ctx_def ctx_pair_def split: if_splits)

lemma same_session_cb: "outbuf_siz cb = outbuf_siz (ses_cb s) \<Longrightarrow> same_session s (s\<lparr>ses_cb := cb\<rparr>)"
  by (simp add: same_session_def)

lemma ses_wf_upd_same:
  assumes "ses_wf s" and "ctx_wf (f (ctx_pair s i))" and "ctx_flags (f (ctx_pair s i)) = ctx_flags (ctx_pair s i)"
  shows "ses_wf (upd_ctx i f s)"
  using assms by (intro ses_wf_upd) simp_all

lemma upd_ctx_id: "f (ctx_pair s i) = ctx_pair s i \<Longrightarrow> upd_ctx i f s = s"
  by (cases s) (simp add: upd_ctx_def ctx_pair_def split: if_splits)

lemma upd_ctx_cong: "f (ctx_pair s i) = g (ctx_pair s i) \<Longrightarrow> upd_ctx i f s = upd_ctx i g s"
  by (simp add: upd_ctx_def ctx_pair_def split: if_splits)

lemma upd_ctx_compose: "upd_ctx i f (upd_ctx i g s) = upd_ctx i (\<lambda>c. f (g c)) s"
  by (simp add: upd_ctx_def)

lemma km_take_salt_spec:
  assumes wf: "ses_wf s" and "salt_len \<le> 16" and "16 + salt_len \<le> length km"
  shows "\<exists>chg s'. km_take_salt i km salt_len sek_len s = Some (chg, s') \<and> ses_wf s' \<and> same_session s s'
    \<and> ses_cb s' = ses_cb s
    \<and> ctx_salt_len (ctx_pair s' i) = salt_len \<and> ctx_sek_len (ctx_pair s' i) = sek_len
    \<and> take salt_len (ctx_salt (ctx_pair s' i)) = take salt_len (drop 16 km)
    \<and> (\<forall>j. (i = 0) \<noteq> (j = 0) \<longrightarrow> ctx_pair s' j = ctx_pair s j)
    \<and> (\<not> chg \<longrightarrow> s' = s)"
proof -
  define ctx where "ctx = ctx_pair s i"
  define new where "new = take salt_len (drop 16 km)"
  have cw: "ctx_wf ctx" using ses_wf_ctx [OF wf] by (simp add: ctx_def)
  then have l: "length (ctx_salt ctx) = 16" "length new = salt_len" using assms by (simp_all add: ctx_wf_def new_def)
  have n: "rd_slice km 16 salt_len = Some new" using assms by (simp add: rd_slice_in new_def)
  define diff where "diff \<longleftrightarrow> salt_len \<noteq> ctx_salt_len ctx \<or> take salt_len (ctx_salt ctx) \<noteq> new"
  have d: "(if salt_len \<noteq> ctx_salt_len ctx then Some True
      else do { old \<leftarrow> rd_slice (ctx_salt ctx) 0 salt_len; Some (old \<noteq> new) }) = Some diff"
    using l assms(2) by (simp add: rd_slice_in diff_def)
  define salt where "salt = (if diff then new @ drop salt_len (ctx_salt ctx) else ctx_salt ctx)"
  have w: "wr (ctx_salt ctx) 0 new = Some (new @ drop salt_len (ctx_salt ctx))"
    using l assms(2) by (simp add: wr_in)
  define f :: "hcrypt_Ctx \<Rightarrow> hcrypt_Ctx" where "f = (\<lambda>c. c\<lparr>ctx_salt := salt, ctx_salt_len := salt_len, ctx_sek_len := sek_len\<rparr>)"
  have salt: "length salt = 16" "take salt_len salt = new"
    using l assms(2) by (auto simp: salt_def diff_def)
  have fw: "ctx_wf (f (ctx_pair s i))" using cw salt assms(2) by (simp add: ctx_wf_def f_def ctx_def)
  have step: "km_take_salt i km salt_len sek_len s = Some (diff \<or> sek_len \<noteq> ctx_sek_len ctx, upd_ctx i f s)"
  proof -
    have t: "km_take_salt i km salt_len sek_len s = Some (diff \<or> sek_len \<noteq> ctx_sek_len ctx,
        (if sek_len \<noteq> ctx_sek_len ctx then upd_ctx i (\<lambda>c. c\<lparr>ctx_sek_len := sek_len\<rparr>) else (\<lambda>s. s))
        (if diff then upd_ctx i (\<lambda>c. c\<lparr>ctx_salt := salt, ctx_salt_len := salt_len\<rparr>) s else s))"
      using w unfolding km_take_salt_def ctx_def [symmetric] Let_def n bind.bind_lunit d
      by (auto simp: salt_def)
    have "f ctx = (if sek_len \<noteq> ctx_sek_len ctx then (\<lambda>c. c\<lparr>ctx_sek_len := sek_len\<rparr>) else (\<lambda>s. s))
        (if diff then ctx\<lparr>ctx_salt := salt, ctx_salt_len := salt_len\<rparr> else ctx)"
      by (auto simp: f_def salt_def diff_def)
    then have "upd_ctx i f s = (if sek_len \<noteq> ctx_sek_len ctx then upd_ctx i (\<lambda>c. c\<lparr>ctx_sek_len := sek_len\<rparr>) else (\<lambda>s. s))
        (if diff then upd_ctx i (\<lambda>c. c\<lparr>ctx_salt := salt, ctx_salt_len := salt_len\<rparr>) s else s)"
      by (auto simp: upd_ctx_compose ctx_def intro: upd_ctx_cong upd_ctx_id)
    with t show ?thesis by simp
  qed
  have keep: "upd_ctx i f s = s" if "\<not> (diff \<or> sek_len \<noteq> ctx_sek_len ctx)"
    using that by (intro upd_ctx_id) (simp add: f_def salt_def diff_def ctx_def [symmetric])
  show ?thesis
    unfolding step using keep salt fw wf
    by (auto intro!: ses_wf_upd_same same_session_upd simp: f_def new_def)
qed

lemma km_keep_spec:
  assumes wf: "ses_wf s" and "length km \<le> 120"
  shows "\<exists>cache. km_keep i km s = Some (upd_ctx i (\<lambda>c. c\<lparr>ctx_KMmsg_len := length km, ctx_KMmsg_cache := cache\<rparr>) s)
    \<and> length cache = 120 \<and> take (length km) cache = km"
proof -
  have "length (ctx_KMmsg_cache (ctx_pair s i)) = 120" using ses_wf_ctx [OF wf, of i] by (simp add: ctx_wf_def)
  with assms(2) show ?thesis by (auto simp: km_keep_def wr_in)
qed

context haicrypt
begin

lemma Rx_Rekey_spec:
  assumes wf: "ses_wf s" and i: "i < 2" and "key_len_ok (length sek)"
  shows "\<exists>s'. hcryptCtx_Rx_Rekey m i sek s = Some (0, s') \<and> ses_wf s' \<and> same_session s s'
    \<and> ctx_status (ctx_pair s' i) = HCRYPT_CTX_S_KEYED \<and> ctx_sek_len (ctx_pair s' i) = length sek
    \<and> take (length sek) (ctx_sek (ctx_pair s' i)) = sek
    \<and> ctx_salt (ctx_pair s' i) = ctx_salt (ctx_pair s i) \<and> ctx_salt_len (ctx_pair s' i) = ctx_salt_len (ctx_pair s i)
    \<and> ctx_pair s' (alt i) = ctx_pair s (alt i)
    \<and> keyed m True sek (aes_sek (ses_cb s') i)
    \<and> aes_sek (ses_cb s') (alt i) = aes_sek (ses_cb s) (alt i) \<and> aes_kek (ses_cb s') = aes_kek (ses_cb s)"
proof -
  have cw: "ctx_wf (ctx_pair s i)" using ses_wf_ctx [OF wf] .
  have ki: "hcryptCtx_GetKeyIndex (ctx_pair s i) = i" using key_index_pair [OF wf i] .
  have ne: "alt i \<noteq> i" using i by (metis alt_other)
  obtain cb where cb: "crysprFallback_MsSetKey m (ses_cb s) (ctx_pair s i) sek = (0, cb)"
    "aes_kek cb = aes_kek (ses_cb s)" "cb_wf cb" "outbuf_siz cb = outbuf_siz (ses_cb s)"
    "aes_sek cb (alt i) = aes_sek (ses_cb s) (alt i)"
    "keyed m True sek (aes_sek cb i)"
    using MsSetKey_ok [OF assms(3), of "ses_cb s" "ctx_pair s i"] ses_wf_cbD [OF wf] cw ki ne
    by (auto simp: ctx_wf_def)
  have sl: "length sek \<le> 32" using assms(3) by (auto simp: key_len_ok_def)
  obtain key where key: "wr (ctx_sek (ctx_pair s i)) 0 sek = Some key" "length key = 32" "take (length sek) key = sek"
    using cw sl by (auto simp: ctx_wf_def wr_in)
  define f :: "hcrypt_Ctx \<Rightarrow> hcrypt_Ctx" where "f = (\<lambda>c. c\<lparr>ctx_sek := key, ctx_sek_len := length sek, ctx_status := HCRYPT_CTX_S_KEYED\<rparr>)"
  let ?s = "s\<lparr>ses_cb := cb\<rparr>"
  have "hcryptCtx_Rx_Rekey m i sek s = Some (0, upd_ctx i f ?s)"
    using cb(1) key(1) by (simp add: hcryptCtx_Rx_Rekey_def f_def)
  moreover have "ses_wf (upd_ctx i f ?s)"
    using cw key(2) ses_wf_cb [OF wf cb(3)] by (intro ses_wf_upd_same) (simp_all add: f_def ctx_wf_def)
  moreover have "same_session s (upd_ctx i f ?s)"
    using cb(4) by (intro same_session_trans [OF same_session_cb same_session_upd]) (simp_all add: f_def)
  ultimately show ?thesis
    using cb key i by (intro exI [of _ "upd_ctx i f ?s"]) (auto simp: f_def)
qed

end

lemma key_flags_pair:
  assumes "ses_wf s" and "i < 2"
  shows "has_flag HCRYPT_MSG_F_oSEK (ctx_pair s i) \<longleftrightarrow> i = 1"
    and "has_flag HCRYPT_MSG_F_eSEK (ctx_pair s i) \<longleftrightarrow> i = 0"
proof -
  have a: "f AND 2 = (f AND 3) AND 2" "f AND 1 = (f AND 3) AND 1" for f :: u32
    by (simp_all add: and.assoc)
  have "ctx_flags (ctx_even s) AND 3 = 1" "ctx_flags (ctx_odd s) AND 3 = 2"
    using assms(1) by (simp_all add: ses_wf_def)
  then have "ctx_flags (ctx_even s) AND 2 = 0" "ctx_flags (ctx_odd s) AND 2 = 2"
    "ctx_flags (ctx_even s) AND 1 = 1" "ctx_flags (ctx_odd s) AND 1 = 0"
    unfolding a [of "ctx_flags (ctx_even s)"] a [of "ctx_flags (ctx_odd s)"] by simp_all
  moreover have "i = 0 \<or> i = 1" using assms(2) by auto
  ultimately show "has_flag HCRYPT_MSG_F_oSEK (ctx_pair s i) \<longleftrightarrow> i = 1"
    "has_flag HCRYPT_MSG_F_eSEK (ctx_pair s i) \<longleftrightarrow> i = 0"
    by (auto simp: has_flag_def ctx_pair_def)
qed

text \<open>The key for context \<open>i\<close> among the unwrapped ones.\<close>

definition sek_for :: "nat \<Rightarrow> nat \<Rightarrow> nat \<Rightarrow> bytes \<Rightarrow> bytes" where
  "sek_for cnt sek_len i seks = take sek_len (drop (if cnt = 2 \<and> i = 1 then sek_len else 0) seks)"

lemma km_pick_sek_spec:
  assumes "ses_wf s" and "i < 2" and "length seks = 64" and "sek_len \<le> 32"
  shows "km_pick_sek cnt sek_len (ctx_pair s i) seks = Some (sek_for cnt sek_len i seks)"
    and "length (sek_for cnt sek_len i seks) = sek_len"
  using assms key_flags_pair [OF assms(1,2)]
  by (auto simp: km_pick_sek_def sek_for_def rd_slice_in)

text \<open>The context has the key and the salt, and the library has the key.\<close>

definition has_key :: "('k, 'w) CRYSPR_methods \<Rightarrow> ('k, 'w) hcrypt_Session \<Rightarrow> nat \<Rightarrow> bytes \<Rightarrow> bytes \<Rightarrow> bool" where
  "has_key m s i sek salt \<longleftrightarrow> (let c = ctx_pair s i in
     ctx_sek_len c = length sek \<and> take (length sek) (ctx_sek c) = sek
     \<and> ctx_salt_len c = length salt \<and> take (length salt) (ctx_salt c) = salt
     \<and> keyed m True sek (aes_sek (ses_cb s) i))"

context haicrypt
begin

lemma rekey_keep_spec:
  assumes wf: "ses_wf s" and i: "i < 2" and sek: "key_len_ok (length sek)" and km: "length km \<le> 120"
  shows "\<exists>s'. do { (_, s) \<leftarrow> hcryptCtx_Rx_Rekey m i sek s; km_keep i km s } = Some s'
    \<and> ses_wf s' \<and> same_session s s' \<and> ctx_status (ctx_pair s' i) = HCRYPT_CTX_S_KEYED
    \<and> has_key m s' i sek (take (ctx_salt_len (ctx_pair s i)) (ctx_salt (ctx_pair s i)))
    \<and> ctx_pair s' (alt i) = ctx_pair s (alt i)
    \<and> aes_sek (ses_cb s') (alt i) = aes_sek (ses_cb s) (alt i) \<and> aes_kek (ses_cb s') = aes_kek (ses_cb s)"
proof -
  obtain s1 where 1: "hcryptCtx_Rx_Rekey m i sek s = Some (0, s1)" "ses_wf s1" "same_session s s1"
    "ctx_status (ctx_pair s1 i) = HCRYPT_CTX_S_KEYED" "ctx_sek_len (ctx_pair s1 i) = length sek"
    "take (length sek) (ctx_sek (ctx_pair s1 i)) = sek"
    "ctx_salt (ctx_pair s1 i) = ctx_salt (ctx_pair s i)" "ctx_salt_len (ctx_pair s1 i) = ctx_salt_len (ctx_pair s i)"
    "ctx_pair s1 (alt i) = ctx_pair s (alt i)"
    "keyed m True sek (aes_sek (ses_cb s1) i)"
    "aes_sek (ses_cb s1) (alt i) = aes_sek (ses_cb s) (alt i)" "aes_kek (ses_cb s1) = aes_kek (ses_cb s)"
    using Rx_Rekey_spec [OF wf i sek] by blast
  obtain cache where keep: "km_keep i km s1 =
      Some (upd_ctx i (\<lambda>c. c\<lparr>ctx_KMmsg_len := length km, ctx_KMmsg_cache := cache\<rparr>) s1)" "length cache = 120"
    using km_keep_spec [OF 1(2) km] by blast
  let ?f = "\<lambda>c. c\<lparr>ctx_KMmsg_len := length km, ctx_KMmsg_cache := cache\<rparr>"
  have sl: "ctx_salt_len (ctx_pair s i) \<le> length (ctx_salt (ctx_pair s i))"
    using ses_wf_ctx [OF wf, of i] by (simp add: ctx_wf_def)
  have "ses_wf (upd_ctx i ?f s1)"
    using ses_wf_ctx [OF 1(2), of i] keep(2) 1(2) km by (intro ses_wf_upd_same) (simp_all add: ctx_wf_def)
  moreover have "same_session s (upd_ctx i ?f s1)"
    by (rule same_session_trans [OF 1(3) same_session_upd]) simp_all
  ultimately show ?thesis
    using 1 keep i sl by (intro exI [of _ "upd_ctx i ?f s1"]) (simp add: has_key_def)
qed

lemma km_install_spec:
  assumes wf: "ses_wf s" and i: "i < 2" and kl: "key_len_ok sek_len" and cnt: "cnt = 1 \<or> cnt = 2"
    and seks: "length seks = 64" and salt: "salt_len \<le> 16" and km: "length km = 16 + salt_len + cnt * sek_len + 8"
    and own: "take (ctx_salt_len (ctx_pair s i)) (ctx_salt (ctx_pair s i)) = take salt_len (drop 16 km)"
  shows "\<exists>s'. km_install m i km salt_len sek_len cnt chg seks s = Some (0, s')
    \<and> ses_wf s' \<and> same_session s s' \<and> aes_kek (ses_cb s') = aes_kek (ses_cb s)
    \<and> (\<forall>j < 2. j = i \<or> cnt = 2 \<longrightarrow> ctx_status (ctx_pair s' j) = HCRYPT_CTX_S_KEYED
          \<and> has_key m s' j (sek_for cnt sek_len j seks) (take salt_len (drop 16 km)))"
proof -
  have sl: "sek_len \<le> 32" using kl by (auto simp: key_len_ok_def)
  have kml: "length km \<le> 120" using km salt sl cnt by auto
  note pick = km_pick_sek_spec [OF _ _ seks sl]
  obtain s1 where 1: "do { (_, s) \<leftarrow> hcryptCtx_Rx_Rekey m i (sek_for cnt sek_len i seks) s; km_keep i km s } = Some s1"
    "ses_wf s1" "same_session s s1" "ctx_status (ctx_pair s1 i) = HCRYPT_CTX_S_KEYED"
    "has_key m s1 i (sek_for cnt sek_len i seks) (take salt_len (drop 16 km))"
    "ctx_pair s1 (alt i) = ctx_pair s (alt i)" "aes_kek (ses_cb s1) = aes_kek (ses_cb s)"
    using rekey_keep_spec [OF wf i _ kml, of "sek_for cnt sek_len i seks"] pick(2) [OF wf i, of cnt] kl own by auto
  show ?thesis
  proof (cases "cnt = 2")
    case False
    have "km_install m i km salt_len sek_len cnt chg seks s = Some (0, s1)"
      using 1(1) pick(1) [OF wf i, of cnt] False by (auto simp: km_install_def bind_eq_Some_conv)
    with False 1 show ?thesis by auto
  next
    case True
    have ai: "alt i < 2" by simp
    let ?new = "take salt_len (drop 16 km)"
    have new: "rd_slice km 16 salt_len = Some ?new" and nl: "length ?new = salt_len"
      using km by (simp_all add: rd_slice_in)
    have aw: "ctx_wf (ctx_pair s1 (alt i))" by (rule ses_wf_ctx [OF 1(2)])
    obtain sa where sa: "wr (ctx_salt (ctx_pair s1 (alt i))) 0 ?new = Some sa" "length sa = 16" "take salt_len sa = ?new"
      using aw salt nl by (auto simp: ctx_wf_def wr_in)
    define f where "f = (\<lambda>c :: hcrypt_Ctx. (if chg then (\<lambda>c. c\<lparr>ctx_status := HCRYPT_CTX_S_SARDY\<rparr>) else (\<lambda>c. c))
      (c\<lparr>ctx_salt := sa, ctx_salt_len := salt_len\<rparr>))"
    have fs: "ctx_salt (f c) = sa" "ctx_salt_len (f c) = salt_len" for c by (simp_all add: f_def)
    let ?s = "upd_ctx (alt i) f s1"
    have wf2: "ses_wf ?s"
      using aw sa(2) salt by (intro ses_wf_upd_same [OF 1(2)]) (auto simp: f_def ctx_wf_def)
    have two: "(if chg then upd_ctx (alt i) (\<lambda>c. c\<lparr>ctx_status := HCRYPT_CTX_S_SARDY\<rparr>) s' else s') = ?s"
      if "s' = upd_ctx (alt i) (\<lambda>c. c\<lparr>ctx_salt := sa, ctx_salt_len := salt_len\<rparr>) s1" for s'
      by (simp add: that f_def upd_ctx_compose)
    obtain s3 where 3: "do { (_, s) \<leftarrow> hcryptCtx_Rx_Rekey m (alt i) (sek_for cnt sek_len (alt i) seks) ?s; km_keep (alt i) km s } = Some s3"
      "ses_wf s3" "same_session ?s s3" "ctx_status (ctx_pair s3 (alt i)) = HCRYPT_CTX_S_KEYED"
      "has_key m s3 (alt i) (sek_for cnt sek_len (alt i) seks) ?new"
      "ctx_pair s3 (alt (alt i)) = ctx_pair ?s (alt (alt i))"
      "aes_sek (ses_cb s3) (alt (alt i)) = aes_sek (ses_cb ?s) (alt (alt i))" "aes_kek (ses_cb s3) = aes_kek (ses_cb ?s)"
      using rekey_keep_spec [OF wf2 ai _ kml, of "sek_for cnt sek_len (alt i) seks"] pick(2) [OF wf2 ai, of cnt] kl sa(3) fs
      by auto
    have same: "same_session s s3"
      by (rule same_session_trans [OF 1(3) same_session_trans [OF same_session_upd 3(3)]]) (auto simp: f_def)
    have i1: "ctx_pair s3 i = ctx_pair s1 i" "aes_sek (ses_cb s3) i = aes_sek (ses_cb s1) i"
      using 3(6,7) alt_alt [OF i] alt_other [OF i] by simp_all
    obtain r1 t1 where t1: "hcryptCtx_Rx_Rekey m i (sek_for cnt sek_len i seks) s = Some (r1, t1)" "km_keep i km t1 = Some s1"
      using 1(1) by (auto simp: bind_eq_Some_conv)
    obtain r3 t3 where t3: "hcryptCtx_Rx_Rekey m (alt i) (sek_for cnt sek_len (alt i) seks) ?s = Some (r3, t3)"
        "km_keep (alt i) km t3 = Some s3"
      using 3(1) by (auto simp: bind_eq_Some_conv)
    have "km_install m i km salt_len sek_len cnt chg seks s = Some (0, s3)"
      unfolding km_install_def pick(1) [OF wf i] bind.bind_lunit t1 prod.case if_P [OF True] Let_def new sa(1) two [OF refl]
        pick(1) [OF wf2 ai] t3 ..
    moreover have hi: "has_key m s3 i (sek_for cnt sek_len i seks) ?new" using 1(5) i1 by (simp add: has_key_def)
    moreover have "ctx_status (ctx_pair s3 j) = HCRYPT_CTX_S_KEYED \<and> has_key m s3 j (sek_for cnt sek_len j seks) ?new"
      if "j < 2" for j
    proof -
      have "j = i \<or> j = alt i" using that i by (auto simp: alt_def)
      then show ?thesis using hi 1(4) 3(4,5) i1(1) by auto
    qed
    ultimately show ?thesis
      using same 1(7) 3(2,8) by (intro exI [of _ s3]) simp
  qed
qed

text \<open>
  The context a message is for, and the session once salt and key length are taken over and the
  key encrypting key is up to date.
\<close>

lemma ParseKM_prepare:
  assumes wf: "ses_wf s" and own: "\<And>j. ses_ctx s \<noteq> Foreign j"
    and v: "km_validate (ses_se s) km = Some (Some (salt_len, sek_len, cnt))"
  shows "\<exists>i derive s1. i < 2 \<and> ses_wf s1 \<and> same_session s s1
    \<and> (cnt = 1 \<longrightarrow> hcryptMsg_KM_GetKeyIndex km = Some i)
    \<and> ctx_salt_len (ctx_pair s1 i) = salt_len \<and> ctx_sek_len (ctx_pair s1 i) = sek_len
    \<and> take salt_len (ctx_salt (ctx_pair s1 i)) = take salt_len (drop 16 km)
    \<and> (if derive \<and> fst (derived_kek m (ctx_pair s1 i)) \<noteq> 0
       then hcryptCtx_Rx_ParseKM m km s = Some (-1, s1)
       else hcryptCtx_Rx_ParseKM m km s = do {
           wrapped \<leftarrow> rd_slice km (16 + salt_len) (cnt * sek_len + 8);
           (iret, out) \<leftarrow> km_unwrap m (ses_cb s1) wrapped;
           seks \<leftarrow> wr (replicate 64 0) 0 out;
           if 0 > iret then Some (-2, s1) else km_install m i km salt_len sek_len cnt derive seks s1 })
    \<and> (derive \<and> fst (derived_kek m (ctx_pair s1 i)) = 0 \<longrightarrow> keyed m (has_flag HCRYPT_CTX_F_ENCRYPT (ctx_pair s1 i)) (snd (derived_kek m (ctx_pair s1 i))) (aes_kek (ses_cb s1)))
    \<and> (\<not> derive \<longrightarrow> ses_cb s1 = ses_cb s \<and> (cfg_pwd_len (ctx_cfg (ctx_pair s i)) = 0 \<or> s1 = s))
    \<and> (derive \<and> fst (derived_kek m (ctx_pair s1 i)) = 0 \<longrightarrow> ctx_status (ctx_pair s1 i) = HCRYPT_CTX_S_SARDY)"
proof -
  note acc = km_validate_accepts [OF v]
  have len: "16 + salt_len \<le> length km" using acc(4) by simp
  obtain i where i: "i < 2" and idx: "(if cnt = 2 \<and> ses_ctx s \<noteq> Null then do { c \<leftarrow> cur_ctx s; Some (alt c) }
      else hcryptMsg_KM_GetKeyIndex km) = Some i" and idx1: "cnt = 1 \<longrightarrow> hcryptMsg_KM_GetKeyIndex km = Some i"
  proof (cases "cnt = 2 \<and> ses_ctx s \<noteq> Null")
    case True
    then obtain c where c: "ses_ctx s = Own c" using own by (cases "ses_ctx s") auto
    have "alt c < 2" by simp
    with True c show ?thesis by (intro that [of "alt c"]) (simp_all add: cur_ctx_def)
  next
    case False
    obtain b where b: "rd km 3 = Some b" using len rd_in [of 3 km] by auto
    have "unat (ucast b AND (3 :: u32)) < 4" by (rule and_3_below)
    then have "unat (drop_bit 1 (ucast b AND (3 :: u32))) < 2"
      by (simp add: drop_bit_eq_div unat_div)
    with False b show ?thesis
      by (intro that [of "unat (drop_bit 1 (ucast b AND (3 :: u32)))"])
        (auto simp: hcryptMsg_KM_GetKeyIndex_def simp del: rd_eq_Some)
  qed
  obtain chg s0 where take: "km_take_salt i km salt_len sek_len s = Some (chg, s0)" and wf0: "ses_wf s0"
    and same0: "same_session s s0" and cb0: "ses_cb s0 = ses_cb s"
    and ctx0: "ctx_salt_len (ctx_pair s0 i) = salt_len" "ctx_sek_len (ctx_pair s0 i) = sek_len"
      "take salt_len (ctx_salt (ctx_pair s0 i)) = take salt_len (drop 16 km)"
    and keep: "\<not> chg \<longrightarrow> s0 = s"
    using km_take_salt_spec [OF wf acc(1) len, of i sek_len] by (elim exE conjE) (rule that)
  have kl: "key_len_ok (ctx_sek_len (ctx_pair s0 i))" using acc(2) ctx0(2) by simp
  define derive where "derive \<longleftrightarrow> cfg_pwd_len (ctx_cfg (ctx_pair s0 i)) \<noteq> 0 \<and> chg"
  have k64: "32 * 2 = (64 :: nat)" by simp
  have start: "hcryptCtx_Rx_ParseKM m km s = do {
      (iret, s1) \<leftarrow> (if derive then hcryptCtx_GenSecret m i s0 else Some (0, s0));
      if iret \<noteq> 0 then Some (-1, s1)
      else do {
        let s1 = (if derive then upd_ctx i (\<lambda>c. c\<lparr>ctx_status := HCRYPT_CTX_S_SARDY\<rparr>) s1 else s1);
        wrapped \<leftarrow> rd_slice km (16 + salt_len) (cnt * sek_len + 8);
        (iret, out) \<leftarrow> km_unwrap m (ses_cb s1) wrapped;
        seks \<leftarrow> wr (replicate 64 0) 0 out;
        if 0 > iret then Some (-2, s1) else km_install m i km salt_len sek_len cnt derive seks s1 } }"
    unfolding hcryptCtx_Rx_ParseKM_def v bind.bind_lunit option.case prod.case acc(5) idx take derive_def Let_def k64 ..
  show ?thesis
  proof (cases derive)
    case False
    have "chg \<Longrightarrow> cfg_pwd_len (ctx_cfg (ctx_pair s i)) = 0"
      using False same0 by (simp add: derive_def same_session_def)
    then have un: "cfg_pwd_len (ctx_cfg (ctx_pair s i)) = 0 \<or> s0 = s"
      using keep by (cases chg) auto
    show ?thesis
      using start False i idx1 wf0 same0 ctx0 cb0 un by (intro exI [of _ i] exI [of _ derive] exI [of _ s0]) simp
  next
    case True
    obtain cb where gen: "hcryptCtx_GenSecret m i s0 =
        Some (if fst (derived_kek m (ctx_pair s0 i)) \<noteq> 0 then (-1, s0) else (0, s0\<lparr>ses_cb := cb\<rparr>))"
      "cb_wf cb" "outbuf_siz cb = outbuf_siz (ses_cb s0)"
      "fst (derived_kek m (ctx_pair s0 i)) = 0 \<longrightarrow> keyed m (has_flag HCRYPT_CTX_F_ENCRYPT (ctx_pair s0 i)) (snd (derived_kek m (ctx_pair s0 i))) (aes_kek cb)"
      using GenSecret_spec [OF wf0 kl] by blast
    show ?thesis
    proof (cases "fst (derived_kek m (ctx_pair s0 i)) = 0")
      case False
      with start gen True i idx1 wf0 same0 ctx0 show ?thesis
        by (intro exI [of _ i] exI [of _ derive] exI [of _ s0]) simp
    next
      case ok: True
      let ?f = "\<lambda>c :: hcrypt_Ctx. c\<lparr>ctx_status := HCRYPT_CTX_S_SARDY\<rparr>"
      let ?s1 = "upd_ctx i ?f (s0\<lparr>ses_cb := cb\<rparr>)"
      have dk: "derived_kek m (ctx_pair ?s1 i) = derived_kek m (ctx_pair s0 i)"
        "has_flag HCRYPT_CTX_F_ENCRYPT (ctx_pair ?s1 i) = has_flag HCRYPT_CTX_F_ENCRYPT (ctx_pair s0 i)"
        by (simp_all add: derived_kek_def pbkdf_salt_def has_flag_def)
      have wf1: "ses_wf ?s1"
        using ses_wf_ctx [OF wf0, of i] by (intro ses_wf_upd_same [OF ses_wf_cb [OF wf0 gen(2)]]) (simp_all add: ctx_wf_def)
      have same1: "same_session s ?s1"
        using gen(3) by (intro same_session_trans [OF same0 same_session_trans [OF same_session_cb same_session_upd]]) simp_all
      show ?thesis
        using start gen True ok i idx1 wf1 same1 ctx0 dk
        by (intro exI [of _ i] exI [of _ derive] exI [of _ ?s1]) (simp add: Let_def)
    qed
  qed
qed

end

end
