(* ===== verification/HcApi.thy ===== *)
theory HcApi
  imports HcSession
begin

text \<open>
  The API of HaiCrypt: \<open>hcrypt.c\<close> (create, clone, close), \<open>hcrypt_tx.c\<close> and
  \<open>hcrypt_rx.c\<close>.  A handle is \<^term>\<open>None\<close> when the pointer is null.  The functions that
  read \<open>crypto->ctx\<close> before they test \<open>crypto\<close> fault on a null handle.
\<close>

section \<open>Sessions: hcrypt.c\<close>

text \<open>
  \<open>sHaiCrypt_PrepareHandle\<close>: two allocations, the session and the control block.  The result
  is the session, or none, and the state of the outside; calling \<open>open\<close> through a null \<open>cryspr\<close> is a fault.
\<close>

definition sHaiCrypt_PrepareHandle ::
    "('k, 'w) CRYSPR_methods \<Rightarrow> 'w system \<Rightarrow> HaiCrypt_Cfg \<Rightarrow> bool \<Rightarrow> 'w \<Rightarrow> (('k, 'w) hcrypt_Session option \<times> 'w) option" where
  "sHaiCrypt_PrepareHandle m sys cfg tx w =
    (let (got, w) = sys_malloc sys w in
     if \<not> got then Some (None, w)
     else if hc_xport cfg \<noteq> HAICRYPT_XPT_SRT then Some (None, w)
     else if \<not> hc_cryspr cfg then None
     else let enc = (if tx then HCRYPT_CTX_F_ENCRYPT else 0);
              (got, w) = sys_malloc sys w in
       case crysprFallback_Open m (hc_data_max_len cfg) got of
         None \<Rightarrow> Some (None, w)
       | Some cb \<Rightarrow> Some (Some \<lparr>
           ctx_even = zero_ctx\<lparr>ctx_flags := HCRYPT_MSG_F_eSEK OR enc\<rparr>,
           ctx_odd = zero_ctx\<lparr>ctx_flags := HCRYPT_MSG_F_oSEK OR enc\<rparr>,
           ses_ctx = Null, ses_cb = cb,
           inbuf_siz = hcryptMsg_PaddedLen (hc_data_max_len cfg) (128 div 8),
           ses_se = HCRYPT_SE_TSSRT, ses_msg_info = hcryptMsg_SRT_MsgInfo,
           data_max_len = hc_data_max_len cfg,
           tx_period = \<lparr>tv_sec = int (hc_km_tx_period_ms cfg div 1000),
                        tv_usec = int (hc_km_tx_period_ms cfg mod 1000 * 1000)\<rparr>,
           tx_last = timerclear,
           refresh_rate = hc_km_refresh_rate_pkt cfg, pre_announce = hc_km_pre_announce_pkt cfg,
           world = w\<rparr>, w))"

text \<open>Making the first context of a sender the current one.\<close>

definition tx_activate :: "('k, 'w) hcrypt_Session \<Rightarrow> ('k, 'w) hcrypt_Session" where
  "tx_activate s = upd_ctx 0 (\<lambda>c. (set_flag (HCRYPT_CTX_F_ANNOUNCE OR HCRYPT_CTX_F_TTSEND) c)
     \<lparr>ctx_status := HCRYPT_CTX_S_ACTIVE\<rparr>) (s\<lparr>ses_ctx := Own 0\<rparr>)"

text \<open>Both initialisations, the second only when the first succeeds (\<open>||\<close>).\<close>

definition tx_init_both ::
    "('k, 'w) CRYSPR_methods \<Rightarrow> HaiCrypt_Cfg \<Rightarrow> ('k, 'w) hcrypt_Session \<Rightarrow> (int \<times> ('k, 'w) hcrypt_Session) option" where
  "tx_init_both m cfg s = do {
     (iret, s) \<leftarrow> hcryptCtx_Tx_Init m 0 cfg s;
     if iret \<noteq> 0 then Some (iret, s) else hcryptCtx_Tx_Init m 1 cfg s }"

definition rx_init_both ::
    "('k, 'w) CRYSPR_methods \<Rightarrow> HaiCrypt_Cfg option \<Rightarrow> ('k, 'w) hcrypt_Session \<Rightarrow> (int \<times> ('k, 'w) hcrypt_Session) option" where
  "rx_init_both m cfg s = do {
     (iret, s) \<leftarrow> hcryptCtx_Rx_Init m 0 cfg s;
     if iret \<noteq> 0 then Some (iret, s) else hcryptCtx_Rx_Init m 1 cfg s }"

text \<open>The validation of the configuration in \<open>HaiCrypt_Create\<close>, in the order of the code.\<close>

definition cfg_rejected :: "HaiCrypt_Cfg \<Rightarrow> bool" where
  "cfg_rejected cfg \<longleftrightarrow>
     (HAICRYPT_CFG_F_CRYPTO AND hc_flags cfg) = 0
     \<or> (16 \<noteq> hc_key_len cfg \<and> 24 \<noteq> hc_key_len cfg \<and> 32 \<noteq> hc_key_len cfg)
     \<or> (HAICRYPT_SECTYP_PASSPHRASE = sec_typ (hc_secret cfg)
        \<and> (0 = sec_len (hc_secret cfg) \<or> HAICRYPT_SECRET_MAX_SZ < sec_len (hc_secret cfg)))
     \<or> (HAICRYPT_SECTYP_PRESHARED = sec_typ (hc_secret cfg) \<and> hc_key_len cfg > sec_len (hc_secret cfg))
     \<or> \<not> hc_cryspr cfg
     \<or> 0 = hc_data_max_len cfg"

text \<open>The result: the status, the handle stored in \<open>*phhc\<close>, the state of the outside.\<close>

definition HaiCrypt_Create ::
    "('k, 'w) CRYSPR_methods \<Rightarrow> 'w system \<Rightarrow> HaiCrypt_Cfg \<Rightarrow> 'w
      \<Rightarrow> (int \<times> ('k, 'w) hcrypt_Session option \<times> 'w) option" where
  "HaiCrypt_Create m sys cfg w =
    (let tx = ((HAICRYPT_CFG_F_TX AND hc_flags cfg) \<noteq> 0) in
     if cfg_rejected cfg then Some (-1, None, w)
     else case sHaiCrypt_PrepareHandle m sys cfg tx w of
       None \<Rightarrow> None
     | Some (None, w) \<Rightarrow> Some (-1, None, w)
     | Some (Some s, w) \<Rightarrow>
         if tx then do {
           (iret, s) \<leftarrow> tx_init_both m cfg s;
           if iret \<noteq> 0 then Some (-1, None, world s)
           else do {
             (iret, s) \<leftarrow> hcryptCtx_Tx_Rekey m 0 s;
             if iret \<noteq> 0 then Some (-1, None, world s)
             else Some (0, Some (tx_activate s), world s) } }
         else do {
           (iret, s) \<leftarrow> rx_init_both m (Some cfg) s;
           if iret \<noteq> 0 then Some (-1, None, world s)
           else Some (0, Some s, world s) })"

text \<open>
  \<open>HaiCrypt_ExtractConfig\<close>: the status and the configuration.  On the early return \<open>*pcfg\<close>
  stays as the caller passed it.
\<close>

definition HaiCrypt_ExtractConfig ::
    "('k, 'w) hcrypt_Session \<Rightarrow> HaiCrypt_Cfg \<Rightarrow> (int \<times> HaiCrypt_Cfg) option" where
  "HaiCrypt_ExtractConfig src pcfg = do {
     (early, i) \<leftarrow> (case ses_ctx src of
         Null \<Rightarrow> Some (ctx_status (ctx_pair src 0) \<noteq> HCRYPT_CTX_S_KEYED
                      \<and> ctx_status (ctx_pair src 0) \<noteq> HCRYPT_CTX_S_ACTIVE, 0)
       | Own i \<Rightarrow> Some (False, i)
       | Foreign _ \<Rightarrow> None);
     if early then Some (-1, pcfg)
     else do {
       let ctx = ctx_pair src i;
       pwd \<leftarrow> rd_slice (cfg_pwd (ctx_cfg ctx)) 0 (cfg_pwd_len (ctx_cfg ctx));
       str \<leftarrow> wr (sec_str (hc_secret pcfg)) 0 pwd;
       Some (0, pcfg\<lparr>
         hc_flags := HAICRYPT_CFG_F_CRYPTO OR
           (if (ctx_flags ctx AND HCRYPT_CTX_F_ENCRYPT) = HCRYPT_CTX_F_ENCRYPT then HAICRYPT_CFG_F_TX else 0),
         hc_xport := HAICRYPT_XPT_SRT, hc_cryspr := True,
         hc_key_len := (if cfg_key_len (ctx_cfg ctx) = 0 then ctx_sek_len ctx else cfg_key_len (ctx_cfg ctx)),
         hc_data_max_len := data_max_len src, hc_km_tx_period_ms := 0,
         hc_km_refresh_rate_pkt := refresh_rate src, hc_km_pre_announce_pkt := pre_announce src,
         hc_secret := \<lparr>sec_typ = HAICRYPT_SECTYP_PASSPHRASE, sec_len = cfg_pwd_len (ctx_cfg ctx), sec_str = str\<rparr>\<rparr>) } }"

text \<open>
  The receiver's half of \<open>HaiCrypt_Clone\<close> copies the structure; the pointer to the current
  context is copied with it and keeps pointing into the source session.
\<close>

definition copy_ctx_ptr :: "ctx_ptr \<Rightarrow> ctx_ptr" where
  "copy_ctx_ptr p = (case p of Null \<Rightarrow> Null | Own i \<Rightarrow> Foreign i | Foreign i \<Rightarrow> Foreign i)"

definition HaiCrypt_Clone ::
    "('k, 'w) CRYSPR_methods \<Rightarrow> 'w system \<Rightarrow> HaiCrypt_Cfg \<Rightarrow> ('k, 'w) hcrypt_Session \<Rightarrow> bool
      \<Rightarrow> (int \<times> ('k, 'w) hcrypt_Session option \<times> 'w) option" where
  "HaiCrypt_Clone m sys cfg0 src tx =
    (if tx then do {
       (_, cfg) \<leftarrow> HaiCrypt_ExtractConfig src cfg0;
       let cfg = cfg\<lparr>hc_flags := hc_flags cfg OR HAICRYPT_CFG_F_TX\<rparr>;
       case sHaiCrypt_PrepareHandle m sys cfg tx (world src) of
         None \<Rightarrow> None
       | Some (None, w) \<Rightarrow> Some (-1, None, w)
       | Some (Some s, w) \<Rightarrow> do {
           (iret, s) \<leftarrow> tx_init_both m cfg s;
           if iret \<noteq> 0 then Some (-1, None, world s)
           else do {
             (iret, s) \<leftarrow> hcryptCtx_Tx_CloneKey m 0 src s;
             if iret \<noteq> 0 then Some (-1, None, world s)
             else Some (0, Some (tx_activate s), world s) } } }
     else do {
       let (got, w) = sys_malloc sys (world src);
       if \<not> got then Some (-1, None, w)
       else do {
         let (got, w) = sys_malloc sys w;
         case crysprFallback_Open m (data_max_len src) got of
           None \<Rightarrow> Some (-1, None, w)
         | Some cb \<Rightarrow> do {
             let s = src\<lparr>ses_ctx := copy_ctx_ptr (ses_ctx src), tx_last := timerclear, ses_cb := cb, world := w\<rparr>;
             (iret, s) \<leftarrow> rx_init_both m None s;
             if iret \<noteq> 0 then Some (-1, None, world s)
             else do {
               let s = upd_ctx 0 (clear_flag HCRYPT_CTX_F_ENCRYPT) s;
               let s = upd_ctx 1 (clear_flag HCRYPT_CTX_F_ENCRYPT) s;
               let s = upd_ctx 0 (\<lambda>c. c\<lparr>ctx_salt := replicate HAICRYPT_SALT_SZ 0, ctx_salt_len := 0\<rparr>) s;
               Some (0, Some s, world s) } } } })"

text \<open>\<open>HaiCrypt_Close\<close> frees the session; its status.\<close>

definition HaiCrypt_Close :: "('k, 'w) hcrypt_Session option \<Rightarrow> int" where
  "HaiCrypt_Close hhc = (case hhc of None \<Rightarrow> -1 | Some _ \<Rightarrow> 0)"

section \<open>Sending: hcrypt_tx.c\<close>

text \<open>The status and whether \<open>*in_pp\<close> is the input buffer (else null).\<close>

definition HaiCrypt_Tx_GetBuf :: "('k, 'w) hcrypt_Session option \<Rightarrow> nat \<Rightarrow> (int \<times> bool) option" where
  "HaiCrypt_Tx_GetBuf hhc data_len = do {
     s \<leftarrow> hhc;
     i \<leftarrow> cur_ctx s;
     let pad_factor = (if HCRYPT_CTX_MODE_AESECB = ctx_mode (ctx_pair s i) then 128 div 8 else 1);
     assert_that (inbuf_siz s \<noteq> 0);
     let in_len = pfx_len (ses_msg_info s) + hcryptMsg_PaddedLen data_len pad_factor;
     Some (if in_len > inbuf_siz s then (-1, False) else (int (pfx_len (ses_msg_info s)), True)) }"

definition HaiCrypt_Tx_ManageKeys ::
    "('k, 'w) CRYSPR_methods \<Rightarrow> 'w system \<Rightarrow> ('k, 'w) hcrypt_Session option \<Rightarrow> bool \<Rightarrow> nat
      \<Rightarrow> (int \<times> (out_ptr \<times> nat) list \<times> ('k, 'w) hcrypt_Session) option" where
  "HaiCrypt_Tx_ManageKeys m sys hhc out_p maxout = do {
     s \<leftarrow> hhc;
     if ses_ctx s = Null \<or> \<not> out_p then Some (-1, [], s)
     else do {
       (_, s) \<leftarrow> hcryptCtx_Tx_ManageKM m sys s;
       i \<leftarrow> cur_ctx s;
       assert_that (ctx_status (ctx_pair s i) = HCRYPT_CTX_S_ACTIVE);
       (outs, s) \<leftarrow> hcryptCtx_Tx_InjectKM sys maxout s;
       Some (int (length outs), outs, s) } }"

definition HaiCrypt_Tx_GetKeyFlags :: "('k, 'w) hcrypt_Session option \<Rightarrow> int option" where
  "HaiCrypt_Tx_GetKeyFlags hhc = do {
     s \<leftarrow> hhc;
     if ses_ctx s = Null then Some (-1)
     else do { i \<leftarrow> cur_ctx s; Some (uint (hcryptCtx_GetKeyFlags (ctx_pair s i))) } }"

text \<open>Encrypting in place: the status, the session, the prefix and the data as they are left.\<close>

definition HaiCrypt_Tx_Data ::
    "('k, 'w) CRYSPR_methods \<Rightarrow> ('k, 'w) hcrypt_Session option \<Rightarrow> bytes \<Rightarrow> bytes
      \<Rightarrow> (int \<times> ('k, 'w) hcrypt_Session \<times> bytes \<times> bytes) option" where
  "HaiCrypt_Tx_Data m hhc in_pfx in_data = do {
     s \<leftarrow> hhc;
     if ses_ctx s = Null then Some (-1, s, in_pfx, in_data)
     else do {
       i \<leftarrow> cur_ctx s;
       let ctx = ctx_pair s i;
       mi \<leftarrow> ctx_msg_info ctx;
       in_pfx \<leftarrow> indexMsg mi in_pfx (ctx_MSpfx_cache ctx);
       (iret, cb, dd, _) \<leftarrow> crysprFallback_MsEncrypt m (ses_cb s) ctx
          \<lparr>dd_pfx = in_pfx, dd_payload = in_data, dd_len = length in_data\<rparr> False;
       let s = s\<lparr>ses_cb := cb\<rparr>;
       if 0 > iret then Some (iret, s, dd_pfx dd, dd_payload dd)
       else Some (iret, upd_ctx i (\<lambda>c. c\<lparr>ctx_pkt_cnt := ctx_pkt_cnt c + 1\<rparr>) s, dd_pfx dd, dd_payload dd) } }"

text \<open>
  Encrypting a message into the output buffer.  The packet is stored at \<open>out_p[nbout]\<close>, which
  lies in the caller's array of \<open>maxout\<close> entries only if fewer than \<open>maxout\<close> Keying Material
  messages were stored before it.
\<close>

definition HaiCrypt_Tx_Process ::
    "('k, 'w) CRYSPR_methods \<Rightarrow> 'w system \<Rightarrow> ('k, 'w) hcrypt_Session option \<Rightarrow> bytes \<Rightarrow> bool \<Rightarrow> nat
      \<Rightarrow> (int \<times> (out_ptr \<times> nat) list \<times> ('k, 'w) hcrypt_Session) option" where
  "HaiCrypt_Tx_Process m sys hhc in_msg out_p maxout = do {
     s \<leftarrow> hhc;
     if ses_ctx s = Null \<or> \<not> out_p then Some (-1, [], s)
     else do {
       (_, s) \<leftarrow> hcryptCtx_Tx_ManageKM m sys s;
       i \<leftarrow> cur_ctx s;
       assert_that (ctx_status (ctx_pair s i) = HCRYPT_CTX_S_ACTIVE);
       (outs, s) \<leftarrow> hcryptCtx_Tx_InjectKM sys maxout s;
       let ctx = ctx_pair s i;
       mi \<leftarrow> ctx_msg_info ctx;
       in_msg \<leftarrow> indexMsg mi in_msg (ctx_MSpfx_cache ctx);
       payload \<leftarrow> rd_slice in_msg (pfx_len mi) (length in_msg - pfx_len mi);
       (iret, cb, dd, out) \<leftarrow> crysprFallback_MsEncrypt m (ses_cb s) ctx
          \<lparr>dd_pfx = in_msg, dd_payload = payload, dd_len = size_sub (length in_msg) (pfx_len mi)\<rparr> True;
       let s = s\<lparr>ses_cb := cb\<rparr>;
       if iret \<noteq> 0 then Some (int (length outs), outs, s)
       else do {
         assert_that (length outs < maxout);
         let outs = outs @ (case out of None \<Rightarrow> [] | Some (ofs, len) \<Rightarrow> [(Outbuf ofs, len)]);
         Some (int (length outs), outs, upd_ctx i (\<lambda>c. c\<lparr>ctx_pkt_cnt := ctx_pkt_cnt c + 1\<rparr>) s) } } }"

section \<open>Receiving: hcrypt_rx.c\<close>

text \<open>Decrypting in place: the number of bytes or an error, the session and the data.\<close>

definition HaiCrypt_Rx_Data ::
    "('k, 'w) CRYSPR_methods \<Rightarrow> ('k, 'w) hcrypt_Session option \<Rightarrow> bytes \<Rightarrow> bytes option
      \<Rightarrow> (int \<times> ('k, 'w) hcrypt_Session option \<times> bytes option) option" where
  "HaiCrypt_Rx_Data m hhc in_pfx data =
    (case (hhc, data) of
       (Some s, Some d) \<Rightarrow> do {
         i \<leftarrow> hcryptMsg_GetKeyIndex (ses_msg_info s) in_pfx;
         assert_that (i < 2);
         let s = s\<lparr>ses_ctx := Own i\<rparr>;
         let ctx = ctx_pair s i;
         if ctx_status ctx \<ge> HCRYPT_CTX_S_KEYED then do {
           (iret, cb, dd, _) \<leftarrow> crysprFallback_MsDecrypt m (ses_cb s) ctx
              \<lparr>dd_pfx = in_pfx, dd_payload = d, dd_len = length d\<rparr> False;
           Some (if 0 > iret then iret else int (dd_len dd), Some (s\<lparr>ses_cb := cb\<rparr>), Some (dd_payload dd)) }
         else Some (0, Some s, data) }
     | _ \<Rightarrow> Some (-1, hhc, data))"

definition HaiCrypt_Rx_Process ::
    "('k, 'w) CRYSPR_methods \<Rightarrow> ('k, 'w) hcrypt_Session option \<Rightarrow> bytes option \<Rightarrow> bool \<Rightarrow> int
      \<Rightarrow> (int \<times> (out_ptr \<times> nat) list \<times> ('k, 'w) hcrypt_Session option) option" where
  "HaiCrypt_Rx_Process m hhc in_msg out_p maxout =
    (case (hhc, in_msg) of
       (Some s, Some msg) \<Rightarrow> do {
         msg_type \<leftarrow> parseMsg (ses_msg_info s) msg;
         if 0 > msg_type then Some (-1, [], hhc)
         else if msg_type = uint HCRYPT_MSG_PT_MS then do {
           i \<leftarrow> hcryptMsg_GetKeyIndex (ses_msg_info s) msg;
           if \<not> out_p then Some (-1, [], hhc)
           else do {
             assert_that (i < 2);
             let s = s\<lparr>ses_ctx := Own i\<rparr>;
             let ctx = ctx_pair s i;
             if ctx_status ctx \<ge> HCRYPT_CTX_S_KEYED then do {
               let pl = pfx_len (ses_msg_info s);
               payload \<leftarrow> rd_slice msg pl (length msg - pl);
               (iret, cb, dd, out) \<leftarrow> crysprFallback_MsDecrypt m (ses_cb s) ctx
                  \<lparr>dd_pfx = msg, dd_payload = payload, dd_len = size_sub (length msg) pl\<rparr> True;
               let s = s\<lparr>ses_cb := cb\<rparr>;
               if iret \<noteq> 0 then Some (-1, [], Some s)
               else (case out of
                   None \<Rightarrow> Some (maxout, [], Some s)
                 | Some (ofs, len) \<Rightarrow> Some (1, [(Outbuf ofs, len)], Some s)) }
             else Some (0, [], Some s) } }
         else if msg_type = uint HCRYPT_MSG_PT_KM then do {
           i \<leftarrow> hcryptMsg_GetKeyIndex (ses_msg_info s) msg;
           assert_that (i < 2);
           let ctx = ctx_pair s i;
           same \<leftarrow> (if ctx_status ctx < HCRYPT_CTX_S_KEYED \<or> length msg \<noteq> ctx_KMmsg_len ctx then Some False
                   else do { c \<leftarrow> rd_slice (ctx_KMmsg_cache ctx) 0 (length msg); Some (c = msg) });
           (nbout, s) \<leftarrow> (if \<not> same then hcryptCtx_Rx_ParseKM m msg s else Some (0, s));
           Some (nbout, if out_p then [(Null_out, 0)] else [], Some s) }
         else Some (0, [], hhc) }
     | _ \<Rightarrow> Some (-1, [], hhc))"

end
