(* ===== verification/HcExchange.thy ===== *)
theory HcExchange
  imports HcKm HcApi
begin

text \<open>
  The exchange of keys: what a receiver does with any message it gets, and that the message a
  sender assembles gives the receiver the sender's keys.
\<close>

context haicrypt
begin

text \<open>The unwrapping step on a message of the right length.\<close>

lemma ParseKM_unwrap:
  assumes "length km = 16 + salt_len + cnt * sek_len + 8" and kl: "key_len_ok sek_len" and c: "cnt = 1 \<or> cnt = 2"
  obtains wrapped iret out seks where "rd_slice km (16 + salt_len) (cnt * sek_len + 8) = Some wrapped"
    and "km_unwrap m cb wrapped = Some (iret, out)" and "wr (replicate 64 0) 0 out = Some seks" and "length seks = 64"
    and "length wrapped = cnt * sek_len + 8" and "wrapped = drop (16 + salt_len) km" and "seks = out @ replicate (64 - length out) 0"
proof -
  have n: "16 \<le> cnt * sek_len" "cnt * sek_len \<le> 64" "(cnt * sek_len) mod 8 = 0"
    using kl c by (auto simp: key_len_ok_def)
  define wrapped where "wrapped = drop (16 + salt_len) km"
  have w: "rd_slice km (16 + salt_len) (cnt * sek_len + 8) = Some wrapped" and wl: "length wrapped = cnt * sek_len + 8"
    using assms(1) by (simp_all add: rd_slice_in wrapped_def)
  have "(cnt * sek_len + 8) mod 8 = 0" using n(3) by simp
  then obtain iret out where u: "km_unwrap m cb wrapped = Some (iret, out)" "length out \<le> cnt * sek_len"
    using unwrap_total [of wrapped cb] wl n by auto
  have "wr (replicate 64 0) 0 out = Some (out @ replicate (64 - length out) 0)"
    using u(2) n(2) by (simp add: wr_in)
  then show thesis using that [OF w u(1)] wl u(2) n(2) wrapped_def by simp
qed

text \<open>
  Any bytes at all: the receiver answers 0, -1 or -2, reads and writes within its buffers, and
  its session stays well formed.
\<close>

lemma ParseKM_safe:
  assumes wf: "ses_wf s" and own: "\<And>j. ses_ctx s \<noteq> Foreign j"
  shows "\<exists>iret s'. hcryptCtx_Rx_ParseKM m km s = Some (iret, s') \<and> iret \<in> {0, -1, -2}
    \<and> ses_wf s' \<and> same_session s s'"
proof -
  obtain v where v: "km_validate (ses_se s) km = Some v" using km_validate_total by blast
  show ?thesis
  proof (cases v)
    case None
    then show ?thesis using v wf by (simp add: hcryptCtx_Rx_ParseKM_def)
  next
    case (Some t)
    obtain salt_len sek_len cnt where t: "v = Some (salt_len, sek_len, cnt)" using Some by (cases t) simp
    note v = v [unfolded t] and acc = km_validate_accepts [OF v [unfolded t]]
    from ParseKM_prepare [OF wf own v] obtain i derive s1 where
      p: "i < 2" "ses_wf s1" "same_session s s1" "ctx_salt_len (ctx_pair s1 i) = salt_len"
        "take salt_len (ctx_salt (ctx_pair s1 i)) = take salt_len (drop 16 km)"
      and run: "if derive \<and> fst (derived_kek m (ctx_pair s1 i)) \<noteq> 0
       then hcryptCtx_Rx_ParseKM m km s = Some (-1, s1)
       else hcryptCtx_Rx_ParseKM m km s = do {
           wrapped \<leftarrow> rd_slice km (16 + salt_len) (cnt * sek_len + 8);
           (iret, out) \<leftarrow> km_unwrap m (ses_cb s1) wrapped;
           seks \<leftarrow> wr (replicate 64 0) 0 out;
           if 0 > iret then Some (-2, s1) else km_install m i km salt_len sek_len cnt derive seks s1 }"
      by (elim exE conjE) (rule that)
    show ?thesis
    proof (cases "derive \<and> fst (derived_kek m (ctx_pair s1 i)) \<noteq> 0")
      case True
      then show ?thesis using run p by auto
    next
      case False
      obtain wrapped iret out seks where u: "rd_slice km (16 + salt_len) (cnt * sek_len + 8) = Some wrapped"
        "km_unwrap m (ses_cb s1) wrapped = Some (iret, out)" "wr (replicate 64 0) 0 out = Some seks" "length seks = 64"
        using ParseKM_unwrap [OF acc(4,2,3)] by metis
      obtain s2 where inst: "km_install m i km salt_len sek_len cnt derive seks s1 = Some (0, s2)" "ses_wf s2" "same_session s1 s2"
        using km_install_spec [OF p(2,1) acc(2,3) u(4) acc(1,4)] p(4,5) by blast
      have "hcryptCtx_Rx_ParseKM m km s = (if 0 > iret then Some (-2, s1) else Some (0, s2))"
        using run False u inst by simp
      then show ?thesis using p inst same_session_trans by (cases "0 > iret") auto
    qed
  qed
qed


text \<open>
  A message with one key and a salt that is news to its context, which does not unwrap: it is
  refused only after the salt was taken over and the context was taken out of use.
\<close>

lemma ParseKM_refused:
  assumes wf: "ses_wf s" and own: "\<And>j. ses_ctx s \<noteq> Foreign j"
    and v: "km_validate (ses_se s) km = Some (Some (salt_len, sek_len, 1))" and i: "hcryptMsg_KM_GetKeyIndex km = Some i"
    and pwd: "cfg_pwd_len (ctx_cfg (ctx_pair s i)) \<noteq> 0"
    and news: "take salt_len (ctx_salt (ctx_pair s i)) \<noteq> take salt_len (drop 16 km)"
    and refused: "hcryptCtx_Rx_ParseKM m km s = Some (-2, s')"
  shows "ctx_status (ctx_pair s' i) = HCRYPT_CTX_S_SARDY \<and> take salt_len (ctx_salt (ctx_pair s' i)) = take salt_len (drop 16 km)"
proof -
  obtain j derive s1 where 1: "i = j" "ses_wf s1" "same_session s s1" "ctx_salt_len (ctx_pair s1 j) = salt_len"
      "take salt_len (ctx_salt (ctx_pair s1 j)) = take salt_len (drop 16 km)" "j < 2"
    and run: "if derive \<and> fst (derived_kek m (ctx_pair s1 j)) \<noteq> 0
       then hcryptCtx_Rx_ParseKM m km s = Some (-1, s1)
       else hcryptCtx_Rx_ParseKM m km s = do {
           wrapped \<leftarrow> rd_slice km (16 + salt_len) (1 * sek_len + 8);
           (iret, out) \<leftarrow> km_unwrap m (ses_cb s1) wrapped;
           seks \<leftarrow> wr (replicate 64 0) 0 out;
           if 0 > iret then Some (-2, s1) else km_install m j km salt_len sek_len 1 derive seks s1 }"
    and same: "\<not> derive \<longrightarrow> ses_cb s1 = ses_cb s \<and> (cfg_pwd_len (ctx_cfg (ctx_pair s j)) = 0 \<or> s1 = s)"
    and st: "derive \<and> fst (derived_kek m (ctx_pair s1 j)) = 0 \<longrightarrow> ctx_status (ctx_pair s1 j) = HCRYPT_CTX_S_SARDY"
    using ParseKM_prepare [OF wf own v] i by auto
  note acc = km_validate_accepts [OF v]
  have derive: derive using same pwd news 1 by auto
  have dk: "fst (derived_kek m (ctx_pair s1 j)) = 0" using run derive refused by (auto split: if_splits)
  obtain wrapped iret out seks where u: "rd_slice km (16 + salt_len) (1 * sek_len + 8) = Some wrapped"
    "km_unwrap m (ses_cb s1) wrapped = Some (iret, out)" "wr (replicate 64 0) 0 out = Some seks" "length seks = 64"
    using ParseKM_unwrap [OF acc(4,2,3)] by metis
  obtain s2 where inst: "km_install m j km salt_len sek_len 1 derive seks s1 = Some (0, s2)"
    using km_install_spec [OF 1(2,6) acc(2,3) u(4) acc(1,4)] 1(4,5) by blast
  have "s' = s1" using run dk u inst refused by (auto split: if_splits)
  then show ?thesis using st derive dk 1 by simp
qed

text \<open>
  Both sides have the same passphrase: the key encrypting key is the same once the receiver has
  the salt and the key length of the message.
\<close>

lemma derived_kek_same:
  assumes "take (cfg_pwd_len (ctx_cfg c)) (cfg_pwd (ctx_cfg c)) = take (cfg_pwd_len (ctx_cfg d)) (cfg_pwd (ctx_cfg d))"
    and "ctx_salt_len c = ctx_salt_len d" and "take (ctx_salt_len d) (ctx_salt c) = take (ctx_salt_len d) (ctx_salt d)"
    and "ctx_sek_len c = ctx_sek_len d"
  shows "derived_kek m c = derived_kek m d"
proof -
  have drop_take_eq: "take n (drop (l - n) xs) = drop (l - n) (take l xs)" if "n \<le> l" for n l and xs :: bytes
    using that by (simp add: drop_take)
  have "pbkdf_salt c = pbkdf_salt d"
    unfolding pbkdf_salt_def Let_def using assms(2,3) by (simp add: drop_take_eq)
  then show ?thesis using assms by (simp add: derived_kek_def)
qed

text \<open>
  A receiver that is given the message the sender keeps for its context \<open>i\<close>.  The receiver's own
  key encrypting key has to be that of the message's salt whenever the salt and the key length
  are not news to the context it is kept for.
\<close>

lemma ParseKM_message:
  assumes wf: "ses_wf r" and own: "\<And>j. ses_ctx r \<noteq> Foreign j"
    and msg: "km = km_message kf (ses_se r) salt sek_len wrap" and salt: "length salt = 16"
    and kl: "key_len_ok sek_len" and cnt: "cnt = (if bit kf 0 \<and> bit kf 1 then 2 else 1)"
    and wrap: "km_wrap m cb seks = (0, wrap)" "length seks = cnt * sek_len"
    and kek: "key_len_ok (length kek)" "keyed m True kek (aes_kek cb)"
    and pwd: "\<And>j. j < 2 \<Longrightarrow> cfg_pwd_len (ctx_cfg (ctx_pair r j)) \<noteq> 0
       \<and> \<not> has_flag HCRYPT_CTX_F_ENCRYPT (ctx_pair r j)
       \<and> derived_kek m ((ctx_pair r j)\<lparr>ctx_salt := salt, ctx_salt_len := 16, ctx_sek_len := sek_len\<rparr>) = (0, kek)"
    and step: "\<And>j. j < 2 \<Longrightarrow> ctx_salt_len (ctx_pair r j) = 16 \<and> ctx_salt (ctx_pair r j) = salt
       \<and> ctx_sek_len (ctx_pair r j) = sek_len \<Longrightarrow> keyed m False kek (aes_kek (ses_cb r))"
  shows "\<exists>r'. hcryptCtx_Rx_ParseKM m km r = Some (0, r') \<and> ses_wf r' \<and> same_session r r'
    \<and> (\<forall>j < 2. (cnt = 2 \<or> hcryptMsg_KM_GetKeyIndex km = Some j) \<longrightarrow>
         ctx_status (ctx_pair r' j) = HCRYPT_CTX_S_KEYED \<and> has_key m r' j (sek_for cnt sek_len j seks) salt)"
proof -
  have c: "cnt = 1 \<or> cnt = 2" using cnt by simp
  have n: "16 \<le> length seks" "length seks \<le> 64" "length seks mod 8 = 0"
    using kl c wrap(2) by (auto simp: key_len_ok_def)
  have wl: "length wrap = cnt * sek_len + 8"
    using wrap_unwrap [OF kek(1) n kek(2), of "cb\<lparr>aes_kek := snd (aes_set_key m False kek undefined)\<rparr>"] wrap
    by (auto simp: keyed_def)
  have v: "km_validate (ses_se r) km = Some (Some (16, sek_len, cnt))"
    using km_validate_message [OF _ _ kl cnt wl, of salt "ses_se r"] salt msg by simp
  note acc = km_validate_accepts [OF v]
  have kms: "take 16 (drop 16 km) = salt" "drop 32 km = wrap"
    using salt unfolding msg km_message_def by simp_all
  obtain i derive s1 where i: "i < 2" "ses_wf s1" "same_session r s1"
    and idx: "cnt = 1 \<longrightarrow> hcryptMsg_KM_GetKeyIndex km = Some i"
    and ctx: "ctx_salt_len (ctx_pair s1 i) = 16" "ctx_sek_len (ctx_pair s1 i) = sek_len"
      "take 16 (ctx_salt (ctx_pair s1 i)) = take 16 (drop 16 km)"
    and run: "if derive \<and> fst (derived_kek m (ctx_pair s1 i)) \<noteq> 0
       then hcryptCtx_Rx_ParseKM m km r = Some (-1, s1)
       else hcryptCtx_Rx_ParseKM m km r = do {
           wrapped \<leftarrow> rd_slice km (16 + 16) (cnt * sek_len + 8);
           (iret, out) \<leftarrow> km_unwrap m (ses_cb s1) wrapped;
           seks \<leftarrow> wr (replicate 64 0) 0 out;
           if 0 > iret then Some (-2, s1) else km_install m i km 16 sek_len cnt derive seks s1 }"
    and der: "derive \<and> fst (derived_kek m (ctx_pair s1 i)) = 0 \<longrightarrow>
       keyed m (has_flag HCRYPT_CTX_F_ENCRYPT (ctx_pair s1 i)) (snd (derived_kek m (ctx_pair s1 i))) (aes_kek (ses_cb s1))"
    and nder: "\<not> derive \<longrightarrow> ses_cb s1 = ses_cb r \<and> (cfg_pwd_len (ctx_cfg (ctx_pair r i)) = 0 \<or> s1 = r)"
    using ParseKM_prepare [OF wf own v] by (elim exE conjE) (rule that)
  have sl: "ctx_salt (ctx_pair s1 i) = salt"
    using ctx(3) kms(1) ses_wf_ctx [OF i(2), of i] by (simp add: ctx_wf_def)
  have dk: "derived_kek m (ctx_pair s1 i) = (0, kek)"
    using derived_kek_same [of "ctx_pair s1 i" "(ctx_pair r i)\<lparr>ctx_salt := salt, ctx_salt_len := 16, ctx_sek_len := sek_len\<rparr>"]
      pwd [OF i(1)] ctx sl i(3) by (simp add: same_session_def)
  have enc: "\<not> has_flag HCRYPT_CTX_F_ENCRYPT (ctx_pair s1 i)"
    using pwd [OF i(1)] i(3) by (simp add: same_session_def has_flag_def)
  have kd: "keyed m False kek (aes_kek (ses_cb s1))"
  proof (cases derive)
    case True
    then show ?thesis using der dk enc by simp
  next
    case False
    then have "s1 = r" using nder pwd [OF i(1)] by blast
    then show ?thesis using step [OF i(1)] ctx sl by simp
  qed
  obtain w where w: "km_wrap m cb seks = (0, w)" "km_unwrap m (ses_cb s1) w = Some (0, seks)"
    using wrap_unwrap [OF kek(1) n kek(2) kd] by blast
  then have un: "km_unwrap m (ses_cb s1) wrap = Some (0, seks)" using wrap(1) by simp
  define buf where "buf = seks @ replicate (64 - length seks) 0"
  have buf: "wr (replicate 64 0) 0 seks = Some buf" "length buf = 64" using n(2) by (simp_all add: wr_in buf_def)
  have rd: "rd_slice km (16 + 16) (cnt * sek_len + 8) = Some wrap"
    using kms(2) wl acc(4) by (simp add: rd_slice_in)
  have own_salt: "take (ctx_salt_len (ctx_pair s1 i)) (ctx_salt (ctx_pair s1 i)) = take 16 (drop 16 km)"
    using ctx by simp
  obtain r' where r': "km_install m i km 16 sek_len cnt derive buf s1 = Some (0, r')" "ses_wf r'" "same_session s1 r'"
    and keys: "\<forall>j < 2. j = i \<or> cnt = 2 \<longrightarrow> ctx_status (ctx_pair r' j) = HCRYPT_CTX_S_KEYED
          \<and> has_key m r' j (sek_for cnt sek_len j buf) (take 16 (drop 16 km))"
    using km_install_spec [OF i(2,1) kl c buf(2) _ acc(4) own_salt, of derive] by auto
  have parse: "hcryptCtx_Rx_ParseKM m km r = Some (0, r')"
    using run dk rd un buf(1) r'(1) by simp
  have "sek_for cnt sek_len j buf = sek_for cnt sek_len j seks" if "j < 2" for j
    using that c wrap(2) by (auto simp: sek_for_def buf_def)
  with keys kms(1) idx c have "\<forall>j < 2. (cnt = 2 \<or> hcryptMsg_KM_GetKeyIndex km = Some j) \<longrightarrow>
      ctx_status (ctx_pair r' j) = HCRYPT_CTX_S_KEYED \<and> has_key m r' j (sek_for cnt sek_len j seks) salt"
    by auto
  then show ?thesis using parse r'(2) same_session_trans [OF i(3) r'(3)] by blast
qed

end

section \<open>From sender to receiver\<close>

text \<open>The message a session keeps for one of its contexts.\<close>

definition kept_message :: "('k, 'w) hcrypt_Session \<Rightarrow> nat \<Rightarrow> bytes" where
  "kept_message s i = take (ctx_KMmsg_len (ctx_pair s i)) (ctx_KMmsg_cache (ctx_pair s i))"

text \<open>Two contexts were given the same passphrase.\<close>

definition same_passphrase :: "hcrypt_Ctx \<Rightarrow> hcrypt_Ctx \<Rightarrow> bool" where
  "same_passphrase c d \<longleftrightarrow> cfg_pwd_len (ctx_cfg d) \<noteq> 0 \<and>
     take (cfg_pwd_len (ctx_cfg c)) (cfg_pwd (ctx_cfg c)) = take (cfg_pwd_len (ctx_cfg d)) (cfg_pwd (ctx_cfg d))"

text \<open>
  A receiver that can take the message of a sender's context \<open>c\<close>: its contexts are set up for
  decryption with the same passphrase, and its key encrypting key is the current one if the
  salt and the key length of the sender are already known to one of them.
\<close>

definition can_receive :: "('k, 'w) CRYSPR_methods \<Rightarrow> ('k, 'w) hcrypt_Session \<Rightarrow> hcrypt_Ctx \<Rightarrow> bool" where
  "can_receive m r c \<longleftrightarrow> ses_wf r \<and> (case ses_ctx r of Foreign _ \<Rightarrow> False | _ \<Rightarrow> True)
     \<and> (\<forall>j < 2. same_passphrase c (ctx_pair r j) \<and> \<not> has_flag HCRYPT_CTX_F_ENCRYPT (ctx_pair r j)
         \<and> (ctx_salt_len (ctx_pair r j) = ctx_salt_len c \<and> ctx_salt (ctx_pair r j) = ctx_salt c
             \<and> ctx_sek_len (ctx_pair r j) = ctx_sek_len c
            \<longrightarrow> keyed m False (snd (derived_kek m c)) (aes_kek (ses_cb r))))"

text \<open>
  A sender whose context \<open>i\<close> has its salt and its key, and whose key encrypting key is derived
  from the passphrase and that salt.
\<close>

definition can_announce :: "('k, 'w) CRYSPR_methods \<Rightarrow> ('k, 'w) hcrypt_Session \<Rightarrow> nat \<Rightarrow> bool" where
  "can_announce m s i \<longleftrightarrow> ses_wf s \<and> (let c = ctx_pair s i in
     key_len_ok (ctx_sek_len c) \<and> ctx_salt_len c = 16
     \<and> fst (derived_kek m c) = 0 \<and> keyed m True (snd (derived_kek m c)) (aes_kek (ses_cb s)))"

lemma ctx_flags_pair:
  assumes "ses_wf s" and "i < 2"
  shows "ctx_flags (ctx_pair s i) AND 3 = (if i = 0 then 1 else 2)"
  using assms by (auto simp: ses_wf_def ctx_pair_def)

lemma km_kflags_bits:
  assumes "ses_wf s" and "i < 2"
  shows "(bit (km_kflags (ctx_pair s i) alt_sek) 0 \<and> bit (km_kflags (ctx_pair s i) alt_sek) 1) = (alt_sek \<noteq> None)"
    and "alt_sek = None \<Longrightarrow> km_kflags (ctx_pair s i) alt_sek = word_of_nat (i + 1)"
proof -
  have "i = 0 \<or> i = 1" using assms(2) by auto
  then show "(bit (km_kflags (ctx_pair s i) alt_sek) 0 \<and> bit (km_kflags (ctx_pair s i) alt_sek) 1) = (alt_sek \<noteq> None)"
    "alt_sek = None \<Longrightarrow> km_kflags (ctx_pair s i) alt_sek = word_of_nat (i + 1)"
    using ctx_flags_pair [OF assms] by (auto simp: km_kflags_def split: option.splits)
qed

context haicrypt
begin

text \<open>The message a sender assembles and keeps.\<close>

lemma AsmKM_kept:
  assumes snd: "can_announce m s i" and i: "i < 2" and al: "case alt_sek of None \<Rightarrow> True | Some as \<Rightarrow> length as = 32"
  shows "\<exists>s' wrap. hcryptCtx_Tx_AsmKM m i alt_sek s = Some (0, s')
    \<and> km_wrap m (ses_cb s) (km_seks (ctx_pair s i) alt_sek) = (0, wrap)
    \<and> length (km_seks (ctx_pair s i) alt_sek) = (case alt_sek of None \<Rightarrow> 1 | Some _ \<Rightarrow> 2) * ctx_sek_len (ctx_pair s i)
    \<and> length wrap = length (km_seks (ctx_pair s i) alt_sek) + 8
    \<and> kept_message s' i = km_message (km_kflags (ctx_pair s i) alt_sek) (ses_se s) (ctx_salt (ctx_pair s i)) (ctx_sek_len (ctx_pair s i)) wrap"
proof -
  define c where "c = ctx_pair s i"
  have wf: "ses_wf s" and kl: "key_len_ok (ctx_sek_len c)" and sl: "ctx_salt_len c = 16"
    and dk: "fst (derived_kek m c) = 0" and kd: "keyed m True (snd (derived_kek m c)) (aes_kek (ses_cb s))"
    using snd by (simp_all add: can_announce_def Let_def c_def)
  define kek where "kek = snd (derived_kek m c)"
  have kekl: "length kek = ctx_sek_len c" unfolding kek_def by (rule derived_kek_length [OF kl dk])
  have cw: "ctx_wf c" using ses_wf_ctx [OF wf] by (simp add: c_def)
  then have lens: "length (ctx_salt c) = 16" "length (ctx_sek c) = 32" by (simp_all add: ctx_wf_def)
  define cnt :: nat where "cnt = (case alt_sek of None \<Rightarrow> 1 | Some _ \<Rightarrow> 2)"
  have s32: "ctx_sek_len c \<le> 32" using kl by (auto simp: key_len_ok_def)
  define seks where "seks = km_seks c alt_sek"
  have seksl: "length seks = cnt * ctx_sek_len c"
    using lens s32 al by (auto simp: seks_def km_seks_def cnt_def Let_def split: option.splits)
  have n: "16 \<le> length seks" "length seks \<le> 64" "length seks mod 8 = 0"
    using kl seksl by (auto simp: key_len_ok_def cnt_def split: option.splits)
  obtain wrap where w: "km_wrap m (ses_cb s) seks = (0, wrap)" "length wrap = length seks + 8"
    using wrap_unwrap [OF _ n kd, of "(ses_cb s)\<lparr>aes_kek := snd (aes_set_key m False kek undefined)\<rparr>"] kl kekl
    by (auto simp: keyed_def kek_def)
  define kf where "kf = km_kflags c alt_sek"
  define km where "km = km_message kf (ses_se s) (ctx_salt c) (ctx_sek_len c) wrap"
  have kml: "length km = 16 + 16 + length seks + 8" using lens w(2) by (simp add: km_def km_message_def)
  obtain s' where s': "hcryptCtx_Tx_AsmKM m i alt_sek s = Some (0, s')" "kept_message s' i = km"
  proof -
    have al': "\<And>as. alt_sek = Some as \<Longrightarrow> length as = 32" using al by simp
    have wl: "length wrap \<le> length (km_seks (ctx_pair s i) alt_sek) + 8" using w(2) by (simp add: seks_def c_def)
    obtain rest where asm: "hcryptCtx_Tx_AsmKM m i alt_sek s = Some (0, upd_ctx i (\<lambda>c. c\<lparr>
      ctx_KMmsg_len := 16 + ctx_salt_len c + length (km_seks c alt_sek) + 8,
      ctx_KMmsg_cache := km_message (km_kflags c alt_sek) (ses_se s) (take (ctx_salt_len c) (ctx_salt c))
        (ctx_sek_len c) wrap @ rest\<rparr>) s)"
      using AsmKM_spec [OF cw [unfolded c_def] kl [unfolded c_def] al' w(1) [unfolded seks_def c_def] wl] by auto
    have "kept_message (upd_ctx i (\<lambda>c. c\<lparr>
      ctx_KMmsg_len := 16 + ctx_salt_len c + length (km_seks c alt_sek) + 8,
      ctx_KMmsg_cache := km_message (km_kflags c alt_sek) (ses_se s) (take (ctx_salt_len c) (ctx_salt c))
        (ctx_sek_len c) wrap @ rest\<rparr>) s) i = km"
      using kml sl lens by (simp add: kept_message_def c_def [symmetric] km_def [symmetric] kf_def [symmetric] seks_def [symmetric])
    then show thesis by (rule that [OF asm])
  qed
  with w seksl show ?thesis unfolding km_def kf_def c_def seks_def cnt_def by blast
qed

lemma key_exchange:
  assumes snd: "can_announce m s i" and i: "i < 2" and al: "case alt_sek of None \<Rightarrow> True | Some as \<Rightarrow> length as = 32"
    and rcv: "can_receive m r (ctx_pair s i)"
  shows "\<exists>s' r'. hcryptCtx_Tx_AsmKM m i alt_sek s = Some (0, s') \<and> hcryptCtx_Rx_ParseKM m (kept_message s' i) r = Some (0, r')
    \<and> ses_wf r' \<and> same_session r r'
    \<and> ctx_status (ctx_pair r' i) = HCRYPT_CTX_S_KEYED
    \<and> has_key m r' i (take (ctx_sek_len (ctx_pair s i)) (ctx_sek (ctx_pair s i))) (ctx_salt (ctx_pair s i))
    \<and> (\<forall>as. alt_sek = Some as \<longrightarrow> ctx_status (ctx_pair r' (alt i)) = HCRYPT_CTX_S_KEYED
        \<and> has_key m r' (alt i) (take (ctx_sek_len (ctx_pair s i)) as) (ctx_salt (ctx_pair s i)))"
proof -
  define c where "c = ctx_pair s i"
  have wf: "ses_wf s" and kl: "key_len_ok (ctx_sek_len c)" and sl: "ctx_salt_len c = 16"
    and dk: "fst (derived_kek m c) = 0" and kd: "keyed m True (snd (derived_kek m c)) (aes_kek (ses_cb s))"
    using snd by (simp_all add: can_announce_def Let_def c_def)
  define kek where "kek = snd (derived_kek m c)"
  have kekl: "length kek = ctx_sek_len c" unfolding kek_def by (rule derived_kek_length [OF kl dk])
  have cw: "ctx_wf c" using ses_wf_ctx [OF wf] by (simp add: c_def)
  then have lens: "length (ctx_salt c) = 16" "length (ctx_sek c) = 32" by (simp_all add: ctx_wf_def)
  define cnt :: nat where "cnt = (case alt_sek of None \<Rightarrow> 1 | Some _ \<Rightarrow> 2)"
  have s32: "ctx_sek_len c \<le> 32" using kl by (auto simp: key_len_ok_def)
  define seks where "seks = km_seks c alt_sek"
  have seksl: "length seks = cnt * ctx_sek_len c"
    using lens s32 al by (auto simp: seks_def km_seks_def cnt_def Let_def split: option.splits)
  define kf where "kf = km_kflags c alt_sek"
  obtain s' wrap where s': "hcryptCtx_Tx_AsmKM m i alt_sek s = Some (0, s')"
    "kept_message s' i = km_message kf (ses_se s) (ctx_salt c) (ctx_sek_len c) wrap"
    and w: "km_wrap m (ses_cb s) seks = (0, wrap)"
    using AsmKM_kept [OF snd i al] by (auto simp: c_def kf_def seks_def)
  define km where "km = km_message kf (ses_se s) (ctx_salt c) (ctx_sek_len c) wrap"
  note s' = s' [folded km_def]
  have rwf: "ses_wf r" and own: "\<And>j. ses_ctx r \<noteq> Foreign j" using rcv by (auto simp: can_receive_def split: ctx_ptr.splits)
  have se: "ses_se r = ses_se s" using rwf wf by (simp add: ses_wf_def)
  have bits: "cnt = (if bit kf 0 \<and> bit kf 1 then 2 else 1)"
    using km_kflags_bits(1) [OF wf i, of alt_sek] by (simp add: kf_def c_def cnt_def split: option.splits)
  have kek': "key_len_ok (length kek)" "keyed m True kek (aes_kek (ses_cb s))" using kl kekl kd by (simp_all add: kek_def)
  have pwd: "cfg_pwd_len (ctx_cfg (ctx_pair r j)) \<noteq> 0 \<and> \<not> has_flag HCRYPT_CTX_F_ENCRYPT (ctx_pair r j)
      \<and> derived_kek m ((ctx_pair r j)\<lparr>ctx_salt := ctx_salt c, ctx_salt_len := 16, ctx_sek_len := ctx_sek_len c\<rparr>) = (0, kek)"
    if "j < 2" for j
  proof -
    have p: "same_passphrase c (ctx_pair r j)" "\<not> has_flag HCRYPT_CTX_F_ENCRYPT (ctx_pair r j)"
      using rcv that by (simp_all add: can_receive_def c_def)
    have "derived_kek m ((ctx_pair r j)\<lparr>ctx_salt := ctx_salt c, ctx_salt_len := 16, ctx_sek_len := ctx_sek_len c\<rparr>) = derived_kek m c"
      using p(1) sl by (intro derived_kek_same) (simp_all add: same_passphrase_def)
    then show ?thesis using p dk by (auto simp: same_passphrase_def kek_def prod_eq_iff)
  qed
  have step: "keyed m False kek (aes_kek (ses_cb r))"
    if "j < 2" "ctx_salt_len (ctx_pair r j) = 16 \<and> ctx_salt (ctx_pair r j) = ctx_salt c
       \<and> ctx_sek_len (ctx_pair r j) = ctx_sek_len c" for j
    using rcv that sl by (simp add: can_receive_def c_def kek_def)
  have kmr: "km = km_message kf (ses_se r) (ctx_salt c) (ctx_sek_len c) wrap" by (simp add: km_def se)
  have "\<exists>r'. hcryptCtx_Rx_ParseKM m km r = Some (0, r') \<and> ses_wf r' \<and> same_session r r'
    \<and> (\<forall>j < 2. (cnt = 2 \<or> hcryptMsg_KM_GetKeyIndex km = Some j) \<longrightarrow>
         ctx_status (ctx_pair r' j) = HCRYPT_CTX_S_KEYED \<and> has_key m r' j (sek_for cnt (ctx_sek_len c) j seks) (ctx_salt c))"
    by (rule ParseKM_message [OF rwf own kmr lens(1) kl bits w seksl kek'], erule pwd, erule step, assumption)
  then obtain r' where r': "hcryptCtx_Rx_ParseKM m km r = Some (0, r')" "ses_wf r'" "same_session r r'"
    and keys: "\<And>j. j < 2 \<Longrightarrow> cnt = 2 \<or> hcryptMsg_KM_GetKeyIndex km = Some j \<Longrightarrow>
         ctx_status (ctx_pair r' j) = HCRYPT_CTX_S_KEYED \<and> has_key m r' j (sek_for cnt (ctx_sek_len c) j seks) (ctx_salt c)"
    by blast
  have idx: "cnt = 2 \<or> hcryptMsg_KM_GetKeyIndex km = Some i"
  proof (cases alt_sek)
    case None
    have "rd km 3 = Some (word_of_nat (i + 1))"
      using km_kflags_bits(2) [OF wf i None] by (simp add: rd_def km_def km_message_def km_header_def kf_def c_def None)
    moreover have "i = 0 \<or> i = 1" using i by auto
    ultimately show ?thesis by (auto simp: hcryptMsg_KM_GetKeyIndex_def simp del: rd_eq_Some)
  qed (simp add: cnt_def)
  have pick: "sek_for cnt (ctx_sek_len c) i seks = take (ctx_sek_len c) (ctx_sek c)"
    "\<And>as. alt_sek = Some as \<Longrightarrow> sek_for cnt (ctx_sek_len c) (alt i) seks = take (ctx_sek_len c) as"
    using key_flags_pair [OF wf i] i lens s32 al
    by (auto simp: sek_for_def seks_def km_seks_def Let_def cnt_def c_def alt_def split: option.splits)
  show ?thesis
    using s' r' keys [OF i idx] keys [of "alt i"] pick
    by (intro exI [of _ s'] exI [of _ r']) (auto simp: c_def [symmetric] cnt_def split: option.splits)
qed

text \<open>A packet through both sides, encrypted and decrypted in place.\<close>

lemma Tx_Data_fits:
  assumes s: "ses_wf s" "ses_ctx s = Own i" and pfx: "16 \<le> length pfx"
    and data: "data \<noteq> []" "16 + length data \<le> outbuf_siz (ses_cb s)"
  shows "\<exists>s' cipher. HaiCrypt_Tx_Data m (Some s) pfx data = Some (0, s', pfx, cipher) \<and> length cipher = length data"
proof -
  define c where "c = ctx_pair s i"
  have cw: "ctx_wf c" using ses_wf_ctx [OF s(1)] by (simp add: c_def)
  then have rdy: "ctx_ready c" and mi: "ctx_msg_info c = Some hcryptMsg_SRT_MsgInfo" by (simp_all add: ctx_wf_def)
  obtain iv where iv: "packet_iv c pfx = Some iv" "length iv = 16" using packet_iv_total [OF rdy pfx] by metis
  let ?dd = "\<lparr>dd_pfx = pfx, dd_payload = data, dd_len = length data\<rparr>"
  obtain cb where "crysprFallback_MsEncrypt m (ses_cb s) c ?dd False =
      Some (0, cb, ?dd\<lparr>dd_payload := packet_crypt m True (ses_cb s) c iv data\<rparr>, None)"
    using MsEncrypt_in_place [OF ses_wf_cbD [OF s(1)] rdy, of ?dd iv] pfx data iv(1) by auto
  then show ?thesis
    using s(2) mi by (simp add: HaiCrypt_Tx_Data_def cur_ctx_def c_def [symmetric] srt_mi.index_keeps length_packet_crypt iv(2))
qed

lemma data_round_trip:
  assumes s: "ses_wf s" "ses_ctx s = Own i" "has_key m s i sek salt"
    and r: "ses_wf r" "HCRYPT_CTX_S_KEYED \<le> ctx_status (ctx_pair r i)" "has_key m r i sek salt"
    and i: "i < 2" and key: "key_len_ok (length sek)" and salt: "length salt = 16"
    and pfx: "16 \<le> length pfx" "hcryptMsg_GetKeyIndex hcryptMsg_SRT_MsgInfo pfx = Some i"
    and data: "data \<noteq> []" "16 + length data \<le> outbuf_siz (ses_cb s)" "length data \<le> outbuf_siz (ses_cb r)"
  shows "\<exists>s' cipher r'. HaiCrypt_Tx_Data m (Some s) pfx data = Some (0, s', pfx, cipher) \<and> length cipher = length data
    \<and> HaiCrypt_Rx_Data m (Some r) pfx (Some cipher) = Some (int (length data), Some r', Some data)
    \<and> ses_wf s' \<and> has_key m s' i sek salt \<and> ctx_pkt_cnt (ctx_pair s' i) = ctx_pkt_cnt (ctx_pair s i) + 1
    \<and> ses_wf r' \<and> has_key m r' i sek salt \<and> ses_ctx r' = Own i"
proof -
  define c where "c = ctx_pair s i"
  define d where "d = ctx_pair r i"
  have cw: "ctx_wf c" "ctx_wf d" using ses_wf_ctx [OF s(1)] ses_wf_ctx [OF r(1)] by (simp_all add: c_def d_def)
  then have rdy: "ctx_ready c" "ctx_ready d" by simp_all
  have salts: "ctx_salt c = salt" "ctx_salt d = salt"
    using s(3) r(3) cw salt by (simp_all add: has_key_def Let_def c_def d_def ctx_wf_def)
  have ki: "hcryptCtx_GetKeyIndex c = i" "hcryptCtx_GetKeyIndex d = i"
    using key_index_pair [OF s(1) i] key_index_pair [OF r(1) i] by (simp_all add: c_def d_def)
  obtain iv where iv: "packet_iv c pfx = Some iv" "length iv = 16" using packet_iv_total [OF rdy(1) pfx(1)] by metis
  have ivd: "packet_iv d pfx = Some iv" using iv(1) salts by (simp add: packet_iv_def)
  have kd: "keyed m True sek (aes_sek (ses_cb s) (hcryptCtx_GetKeyIndex c))"
    "keyed m True sek (aes_sek (ses_cb r) (hcryptCtx_GetKeyIndex d))"
    using s(3) r(3) ki by (simp_all add: has_key_def Let_def)
  define cipher where "cipher = packet_crypt m True (ses_cb s) c iv data"
  have cl: "length cipher = length data" by (simp add: cipher_def length_packet_crypt iv(2))
  let ?dd = "\<lparr>dd_pfx = pfx, dd_payload = data, dd_len = length data\<rparr>"
  obtain cb where enc: "crysprFallback_MsEncrypt m (ses_cb s) c ?dd False = Some (0, cb, ?dd\<lparr>dd_payload := cipher\<rparr>, None)"
    and cb: "cb_wf cb" "aes_sek cb = aes_sek (ses_cb s)"
    using MsEncrypt_in_place [OF ses_wf_cbD [OF s(1)] rdy(1), of ?dd iv] pfx(1) data(1,2) iv(1) by (auto simp: cipher_def)
  let ?ee = "\<lparr>dd_pfx = pfx, dd_payload = cipher, dd_len = length cipher\<rparr>"
  obtain cb' where dec: "crysprFallback_MsDecrypt m (ses_cb r) d ?ee False = Some (0, cb', ?ee\<lparr>dd_payload := data\<rparr>, None)"
    and cb': "cb_wf cb'" "aes_sek cb' = aes_sek (ses_cb r)"
    using MsDecrypt_out [OF ses_wf_cbD [OF r(1)] rdy(2), of ?ee iv False] pfx(1) data ivd cl
      packet_round_trip [OF iv(2) key kd, of False True data] by (auto simp: cipher_def [symmetric])
  let ?s' = "upd_ctx i (\<lambda>c. c\<lparr>ctx_pkt_cnt := ctx_pkt_cnt c + 1\<rparr>) (s\<lparr>ses_cb := cb\<rparr>)"
  let ?r' = "(r\<lparr>ses_ctx := Own i\<rparr>)\<lparr>ses_cb := cb'\<rparr>"
  have mi: "ctx_msg_info c = Some hcryptMsg_SRT_MsgInfo" "ses_msg_info r = hcryptMsg_SRT_MsgInfo"
    using cw r(1) by (simp_all add: ctx_wf_def ses_wf_def)
  have tx: "HaiCrypt_Tx_Data m (Some s) pfx data = Some (0, ?s', pfx, cipher)"
    using enc s(2) mi by (simp add: HaiCrypt_Tx_Data_def cur_ctx_def c_def [symmetric] srt_mi.index_keeps)
  have rx: "HaiCrypt_Rx_Data m (Some r) pfx (Some cipher) = Some (int (length data), Some ?r', Some data)"
    using dec pfx(2) i mi r(2) cl by (simp add: HaiCrypt_Rx_Data_def d_def)
  have "ses_wf ?s'"
    using cw(1) s(1) cb(1) by (intro ses_wf_upd_same [OF ses_wf_cb]) (simp_all add: ctx_wf_def c_def)
  moreover have "ses_wf ?r'" using r(1) cb'(1) i by (auto simp: ses_wf_def)
  moreover have "has_key m ?s' i sek salt" "has_key m ?r' i sek salt"
    using s(3) r(3) cb(2) cb'(2) by (simp_all add: has_key_def Let_def)
  ultimately show ?thesis using tx rx cl
    by (intro exI [of _ ?s'] exI [of _ cipher] exI [of _ ?r']) simp
qed

end

end
