(* ===== verification/HcTx.thy ===== *)
theory HcTx
  imports HcExchange
begin

text \<open>
  The sender over time: the two contexts alternate, each key is announced before it is used and
  kept for late packets after it was used.  The invariant says in which states the pair can be
  between two calls, and that no assertion of the code fails.
\<close>

section \<open>Flags\<close>

lemma has_set_flag: "has_flag HCRYPT_CTX_F_ANNOUNCE (set_flag HCRYPT_CTX_F_ANNOUNCE c)"
  "has_flag HCRYPT_CTX_F_ANNOUNCE (set_flag HCRYPT_CTX_F_TTSEND c) = has_flag HCRYPT_CTX_F_ANNOUNCE c"
  "has_flag HCRYPT_CTX_F_ANNOUNCE (set_flag (HCRYPT_CTX_F_ANNOUNCE OR HCRYPT_CTX_F_TTSEND) c)"
  "has_flag HCRYPT_CTX_F_ANNOUNCE (clear_flag HCRYPT_CTX_F_TTSEND c) = has_flag HCRYPT_CTX_F_ANNOUNCE c"
  "\<not> has_flag HCRYPT_CTX_F_ANNOUNCE (clear_flag HCRYPT_CTX_F_ANNOUNCE c)"
  by (simp_all add: has_flag_def set_flag_def clear_flag_def bit.conj_disj_distrib2 and.assoc)

lemma flag_keeps [simp]:
  "ctx_status (set_flag f c) = ctx_status c" "ctx_status (clear_flag f c) = ctx_status c"
  "ctx_pkt_cnt (set_flag f c) = ctx_pkt_cnt c" "ctx_pkt_cnt (clear_flag f c) = ctx_pkt_cnt c"
  "ctx_sek_len (set_flag f c) = ctx_sek_len c" "ctx_sek_len (clear_flag f c) = ctx_sek_len c"
  "ctx_cfg (set_flag f c) = ctx_cfg c" "ctx_cfg (clear_flag f c) = ctx_cfg c"
  "ctx_KMmsg_cache (set_flag f c) = ctx_KMmsg_cache c" "ctx_KMmsg_cache (clear_flag f c) = ctx_KMmsg_cache c"
  "ctx_wf (set_flag f c) = ctx_wf c" "ctx_wf (clear_flag f c) = ctx_wf c"
  by (simp_all add: set_flag_def clear_flag_def ctx_wf_def)

lemma ctx_wf_count [simp]: "ctx_wf (c\<lparr>ctx_status := x\<rparr>) = ctx_wf c" "ctx_wf (c\<lparr>ctx_pkt_cnt := y\<rparr>) = ctx_wf c"
  by (simp_all add: ctx_wf_def)

lemma flag_key_bits [simp]:
  "ctx_flags (set_flag HCRYPT_CTX_F_ANNOUNCE c) AND 3 = ctx_flags c AND 3"
  "ctx_flags (set_flag HCRYPT_CTX_F_TTSEND c) AND 3 = ctx_flags c AND 3"
  "ctx_flags (set_flag (HCRYPT_CTX_F_ANNOUNCE OR HCRYPT_CTX_F_TTSEND) c) AND 3 = ctx_flags c AND 3"
  "ctx_flags (clear_flag HCRYPT_CTX_F_ANNOUNCE c) AND 3 = ctx_flags c AND 3"
  "ctx_flags (clear_flag HCRYPT_CTX_F_TTSEND c) AND 3 = ctx_flags c AND 3"
  by (simp_all add: set_flag_def clear_flag_def bit.conj_disj_distrib2 and.assoc)

section \<open>The invariant\<close>

text \<open>
  The current context and the other one after \<open>k\<close> packets under the current key: the other is
  without a key (\<open>SARDY\<close>), announced with the next key (\<open>KEYED\<close>) or kept for late packets
  (\<open>DEPRECATED\<close>); it is announced exactly when it holds the next key, and it does once fewer than
  \<open>pre_announce\<close> packets are left.
\<close>

definition tx_pair :: "u32 \<Rightarrow> u32 \<Rightarrow> nat \<Rightarrow> hcrypt_Ctx \<Rightarrow> hcrypt_Ctx \<Rightarrow> bool" where
  "tx_pair R P k cur other \<longleftrightarrow> ctx_status cur = HCRYPT_CTX_S_ACTIVE
     \<and> ctx_status other \<in> {HCRYPT_CTX_S_SARDY, HCRYPT_CTX_S_KEYED, HCRYPT_CTX_S_DEPRECATED}
     \<and> (has_flag HCRYPT_CTX_F_ANNOUNCE other \<longleftrightarrow> ctx_status other = HCRYPT_CTX_S_KEYED)
     \<and> (ctx_status other = HCRYPT_CTX_S_KEYED \<longrightarrow> ctx_pkt_cnt other = 0 \<and> \<not> has_flag HCRYPT_CTX_F_ANNOUNCE cur
          \<and> key_len_ok (ctx_sek_len other) \<and> key_len_ok (cfg_key_len (ctx_cfg other)))
     \<and> k \<le> unat R \<and> (unat R - unat P < k \<longrightarrow> ctx_status other = HCRYPT_CTX_S_KEYED)
     \<and> key_len_ok (ctx_sek_len cur) \<and> key_len_ok (cfg_key_len (ctx_cfg cur))"

definition rates_ok :: "u32 \<Rightarrow> u32 \<Rightarrow> bool" where
  "rates_ok R P \<longleftrightarrow> 0 < unat P \<and> unat P \<le> unat R \<and> unat R < 2 ^ 32 - 1"

definition kek_ready :: "('k, 'w) CRYSPR_methods \<Rightarrow> 'k CRYSPR_cb \<Rightarrow> bool" where
  "kek_ready m cb \<longleftrightarrow> (\<exists>kek. key_len_ok (length kek) \<and> keyed m True kek (aes_kek cb))"

definition tx_state :: "('k, 'w) CRYSPR_methods \<Rightarrow> nat \<Rightarrow> nat \<Rightarrow> ('k, 'w) hcrypt_Session \<Rightarrow> bool" where
  "tx_state m i k s \<longleftrightarrow> ses_wf s \<and> ses_ctx s = Own i \<and> i < 2 \<and> kek_ready m (ses_cb s)
     \<and> rates_ok (refresh_rate s) (pre_announce s)
     \<and> tx_pair (refresh_rate s) (pre_announce s) k (ctx_pair s i) (ctx_pair s (alt i))"

lemma word_gt_nat: "(x :: u32) > y \<longleftrightarrow> unat y < unat x"
  by (rule word_less_nat_alt)

lemma unat_rate_diff: "rates_ok R P \<Longrightarrow> unat (R - P) = unat R - unat P"
  by (auto simp: rates_ok_def word_le_nat_alt intro!: unat_sub)

lemma HasBothSek_header: "hcryptMsg_KM_HasBothSek (km_message kf se salt n wrap @ rest) = Some (bit kf 0 \<and> bit kf 1)"
proof -
  have "rd (km_message kf se salt n wrap @ rest) 3 = Some kf"
    by (simp add: rd_def km_message_def km_header_def)
  moreover have "(HCRYPT_MSG_F_xSEK = (ucast kf AND HCRYPT_MSG_F_xSEK)) = (bit kf 0 \<and> bit kf 1)"
    using km_both_cnt [OF refl, of kf] by simp
  ultimately show ?thesis by (simp add: hcryptMsg_KM_HasBothSek_def del: rd_eq_Some)
qed

lemma HasBothSek_total: "ctx_wf c \<Longrightarrow> \<exists>b. hcryptMsg_KM_HasBothSek (ctx_KMmsg_cache c) = Some b"
  by (simp add: hcryptMsg_KM_HasBothSek_def ctx_wf_def rd_def)

context haicrypt
begin

lemma AsmKM_ok:
  assumes wf: "ses_wf s" and i: "i < 2" and kl: "key_len_ok (ctx_sek_len (ctx_pair s i))"
    and al: "case alt_sek of None \<Rightarrow> True | Some as \<Rightarrow> length as = 32" and kek: "kek_ready m (ses_cb s)"
  shows "\<exists>len cache. hcryptCtx_Tx_AsmKM m i alt_sek s =
      Some (0, upd_ctx i (\<lambda>c. c\<lparr>ctx_KMmsg_len := len, ctx_KMmsg_cache := cache\<rparr>) s)
    \<and> length cache = 120 \<and> len \<le> 120 \<and> hcryptMsg_KM_HasBothSek cache = Some (alt_sek \<noteq> None)"
proof -
  define c where "c = ctx_pair s i"
  have cw: "ctx_wf c" using ses_wf_ctx [OF wf] by (simp add: c_def)
  have s32: "ctx_sek_len c \<le> 32" using kl by (auto simp: key_len_ok_def c_def)
  have n: "16 \<le> length (km_seks c alt_sek)" "length (km_seks c alt_sek) \<le> 64" "length (km_seks c alt_sek) mod 8 = 0"
    using kl al cw s32 by (auto simp: km_seks_def Let_def key_len_ok_def ctx_wf_def c_def split: option.splits)
  obtain kek where kk: "key_len_ok (length kek)" "keyed m True kek (aes_kek (ses_cb s))" using kek by (auto simp: kek_ready_def)
  obtain wrap where w: "km_wrap m (ses_cb s) (km_seks c alt_sek) = (0, wrap)" "length wrap = length (km_seks c alt_sek) + 8"
    using wrap_unwrap [OF kk(1) n kk(2), of "(ses_cb s)\<lparr>aes_kek := snd (aes_set_key m False kek undefined)\<rparr>"]
    by (auto simp: keyed_def)
  obtain rest where asm: "hcryptCtx_Tx_AsmKM m i alt_sek s = Some (0, upd_ctx i (\<lambda>c. c\<lparr>
      ctx_KMmsg_len := 16 + ctx_salt_len c + length (km_seks c alt_sek) + 8,
      ctx_KMmsg_cache := km_message (km_kflags c alt_sek) (ses_se s) (take (ctx_salt_len c) (ctx_salt c))
        (ctx_sek_len c) wrap @ rest\<rparr>) s)" and len: "16 + ctx_salt_len c + length wrap + length rest = 120"
    using AsmKM_spec [OF cw [unfolded c_def] kl _ w(1) [unfolded c_def]] w(2) al by (auto simp: c_def split: option.splits)
  let ?cache = "km_message (km_kflags c alt_sek) (ses_se s) (take (ctx_salt_len c) (ctx_salt c)) (ctx_sek_len c) wrap @ rest"
  have "hcryptCtx_Tx_AsmKM m i alt_sek s = Some (0, upd_ctx i (\<lambda>d. d\<lparr>ctx_KMmsg_len :=
      16 + ctx_salt_len c + length (km_seks c alt_sek) + 8, ctx_KMmsg_cache := ?cache\<rparr>) s)"
    unfolding asm by (simp add: upd_ctx_def c_def ctx_pair_def split: if_splits)
  moreover have "length ?cache = 120 \<and> 16 + ctx_salt_len c + length (km_seks c alt_sek) + 8 \<le> 120"
    using len cw w(2) by (simp add: km_message_def ctx_wf_def)
  moreover have "hcryptMsg_KM_HasBothSek ?cache = Some (alt_sek \<noteq> None)"
    unfolding HasBothSek_header using km_kflags_bits(1) [OF wf i, of alt_sek] by (simp add: c_def)
  ultimately show ?thesis by blast
qed

end

text \<open>What the operations on the sender's contexts leave alone.\<close>

definition same_link :: "('k, 'w) hcrypt_Session \<Rightarrow> ('k, 'w) hcrypt_Session \<Rightarrow> bool" where
  "same_link s s' \<longleftrightarrow> refresh_rate s' = refresh_rate s \<and> pre_announce s' = pre_announce s
     \<and> outbuf_siz (ses_cb s') = outbuf_siz (ses_cb s) \<and> aes_kek (ses_cb s') = aes_kek (ses_cb s)"

lemma same_link_refl [simp]: "same_link s s"
  by (simp add: same_link_def)

lemma same_link_trans: "same_link a b \<Longrightarrow> same_link b c \<Longrightarrow> same_link a c"
  by (simp add: same_link_def)

lemma same_link_simps [simp]:
  "same_link s (upd_ctx i f s') = same_link s s'" "same_link s (s'\<lparr>world := w\<rparr>) = same_link s s'"
  "same_link s (s'\<lparr>ses_ctx := p\<rparr>) = same_link s s'" "same_link s (s'\<lparr>tx_last := t\<rparr>) = same_link s s'"
  by (simp_all add: same_link_def)

context haicrypt
begin

lemma Refresh_ok:
  assumes wf: "ses_wf s" and own: "ses_ctx s = Own i" "i < 2" and kek: "kek_ready m (ses_cb s)"
    and st: "ctx_status (ctx_pair s i) = HCRYPT_CTX_S_ACTIVE" "HCRYPT_CTX_S_SARDY \<le> ctx_status (ctx_pair s (alt i))"
    and kl: "key_len_ok (cfg_key_len (ctx_cfg (ctx_pair s i)))" and rnd: "\<And>n w. 0 \<le> fst (prng m n w)"
  shows "\<exists>s'. hcryptCtx_Tx_Refresh m s = Some (0, s') \<and> ses_wf s' \<and> ses_ctx s' = Own i \<and> same_link s s'
    \<and> ctx_pair s' i = ctx_pair s i
    \<and> (let a = ctx_pair s' (alt i) in ctx_status a = HCRYPT_CTX_S_KEYED \<and> ctx_pkt_cnt a = 0
        \<and> ctx_cfg a = ctx_cfg (ctx_pair s i) \<and> ctx_flags a = ctx_flags (ctx_pair s (alt i))
        \<and> ctx_sek_len a = cfg_key_len (ctx_cfg (ctx_pair s i))
        \<and> hcryptMsg_KM_HasBothSek (ctx_KMmsg_cache a) = Some True)"
proof -
  define cur where "cur = ctx_pair s i"
  define j where "j = alt i"
  define n where "n = cfg_key_len (ctx_cfg cur)"
  have j: "j < 2" "alt j = i" "(j = 0) \<noteq> (i = 0)" using own(2) by (auto simp: j_def alt_def)
  have cw: "ctx_wf cur" "ctx_wf (ctx_pair s j)" using ses_wf_ctx [OF wf] by (simp_all add: cur_def)
  have n32: "n \<le> 32" "key_len_ok n" using kl by (auto simp: n_def cur_def key_len_ok_def)
  have salt: "rd_slice (ctx_salt cur) 0 16 = Some (ctx_salt cur)"
    "wr (ctx_salt (ctx_pair s j)) 0 (ctx_salt cur) = Some (ctx_salt cur)"
    using cw by (simp_all add: ctx_wf_def rd_slice_in wr_in)
  define f1 :: "hcrypt_Ctx \<Rightarrow> hcrypt_Ctx" where "f1 = (\<lambda>c. c\<lparr>ctx_cfg := ctx_cfg cur, ctx_salt_len := ctx_salt_len cur,
        ctx_salt := ctx_salt cur, ctx_sek_len := n\<rparr>)"
  define s1 where "s1 = upd_ctx j f1 s"
  have wf1: "ses_wf s1" unfolding s1_def
    using cw by (intro ses_wf_upd_same [OF wf]) (simp_all add: f1_def ctx_wf_def)
  obtain rc rn w where pr: "prng m n (world s1) = (rc, rn, w)" by (cases "prng m n (world s1)") auto
  then have rc: "0 \<le> rc" using rnd [of n "world s1"] by simp
  obtain sek where sek: "wr (ctx_sek (ctx_pair s1 j)) 0 (take n rn) = Some sek" "length sek = 32"
    using ses_wf_ctx [OF wf1, of j] n32(1) by (auto simp: ctx_wf_def wr_in)
  define s2 where "s2 = upd_ctx j (\<lambda>c. c\<lparr>ctx_sek := sek\<rparr>) (s1\<lparr>world := w\<rparr>)"
  have wf2: "ses_wf s2" unfolding s2_def
    using sek(2) ses_wf_ctx [OF wf1, of j] by (intro ses_wf_upd_same ses_wf_world [OF wf1]) (simp_all add: ctx_wf_def)
  have key: "rd_slice sek 0 n = Some (take n sek)" "length (take n sek) = n" using sek(2) n32(1) by (simp_all add: rd_slice_in)
  obtain cb where cb: "crysprFallback_MsSetKey m (ses_cb s2) (ctx_pair s2 j) (take n sek) = (0, cb)"
    "aes_kek cb = aes_kek (ses_cb s2)" "cb_wf cb" "outbuf_siz cb = outbuf_siz (ses_cb s2)"
    using MsSetKey_ok [of "take n sek" "ses_cb s2" "ctx_pair s2 j"] key(2) n32(2) ses_wf_cbD [OF wf2] by auto
  define s3 where "s3 = s2\<lparr>ses_cb := cb\<rparr>"
  have wf3: "ses_wf s3" unfolding s3_def by (rule ses_wf_cb [OF wf2 cb(3)])
  have cbs: "ses_cb s2 = ses_cb s" by (simp add: s2_def s1_def)
  have kek3: "kek_ready m (ses_cb s3)" using kek cb(2) cbs by (simp add: s3_def kek_ready_def)
  have c3: "ctx_pair s3 j = (f1 (ctx_pair s j))\<lparr>ctx_sek := sek\<rparr>" "ctx_pair s3 i = cur"
    using j(3) by (simp_all add: s3_def s2_def s1_def cur_def)
  have kl3: "key_len_ok (ctx_sek_len (ctx_pair s3 j))" using c3(1) n32(2) by (simp add: f1_def)
  obtain len cache where asm: "hcryptCtx_Tx_AsmKM m j (Some (ctx_sek cur)) s3 =
      Some (0, upd_ctx j (\<lambda>c. c\<lparr>ctx_KMmsg_len := len, ctx_KMmsg_cache := cache\<rparr>) s3)"
    "length cache = 120 \<and> len \<le> 120" "hcryptMsg_KM_HasBothSek cache = Some True"
    using AsmKM_ok [OF wf3 j(1) kl3 _ kek3, of "Some (ctx_sek cur)"] cw(1) by (auto simp: ctx_wf_def)
  define s4 where "s4 = upd_ctx j (\<lambda>c. c\<lparr>ctx_KMmsg_len := len, ctx_KMmsg_cache := cache\<rparr>) s3"
  have c4: "ctx_pair s4 j = (f1 (ctx_pair s j))\<lparr>ctx_sek := sek, ctx_KMmsg_len := len, ctx_KMmsg_cache := cache\<rparr>"
    "ctx_pair s4 i = cur" using c3 j(3) by (simp_all add: s4_def)
  have wf4: "ses_wf s4" unfolding s4_def
    using asm(2) ses_wf_ctx [OF wf3, of j] by (intro ses_wf_upd_same [OF wf3]) (simp_all add: ctx_wf_def)
  define f5 :: "hcrypt_Ctx \<Rightarrow> hcrypt_Ctx" where "f5 = (\<lambda>c. c\<lparr>ctx_MSpfx_cache := ctx_MSpfx_cache (ctx_pair s4 j),
      ctx_pkt_cnt := 0, ctx_status := HCRYPT_CTX_S_KEYED\<rparr>)"
  define s5 where "s5 = upd_ctx j f5 s4"
  have wf5: "ses_wf s5" unfolding s5_def
    using ses_wf_ctx [OF wf4, of j] by (intro ses_wf_upd_same [OF wf4]) (simp_all add: ctx_wf_def f5_def)
  have mi: "ctx_msg_info (ctx_pair s4 j) = Some hcryptMsg_SRT_MsgInfo" using ses_wf_ctx [OF wf4, of j] by (simp add: ctx_wf_def)
  have n1: "ctx_sek_len (ctx_pair s1 j) = n" by (simp add: s1_def f1_def)
  have cur: "cur_ctx s = Some i" using own by (simp add: cur_ctx_def)
  have run: "hcryptCtx_Tx_Refresh m s = Some (0, s5)"
    unfolding hcryptCtx_Tx_Refresh_def cur bind.bind_lunit Let_def cur_def [symmetric] j_def [symmetric] salt n_def [symmetric]
      f1_def [symmetric] s1_def [symmetric] n1 pr prod.case sek(1) s2_def [symmetric] key(1) cb(1) s3_def [symmetric]
      asm(1) s4_def [symmetric] mi srt_mi.reset_ms f5_def [symmetric] s5_def [symmetric]
    using st rc by (simp add: cur_def j_def)
  have c5: "ctx_pair s5 j = f5 (ctx_pair s4 j)" "ctx_pair s5 i = cur" using c4(2) j(3) by (simp_all add: s5_def)
  have "same_link s s5" using cb cbs by (simp add: s5_def s4_def s3_def s2_def s1_def same_link_def)
  moreover have "ses_ctx s5 = Own i" using own by (simp add: s5_def s4_def s3_def s2_def s1_def)
  ultimately show ?thesis
    using run wf5 c5 c4(1) asm(3)
    by (intro exI [of _ s5]) (simp add: Let_def f5_def f1_def n_def cur_def [symmetric] j_def [symmetric])
qed

text \<open>
  The three things \<open>hcryptCtx_Tx_ManageKM\<close> may do with the contexts, each from the state after
  \<open>k\<close> packets and one more counted.
\<close>

lemma Switch_step:
  assumes s: "tx_state m i k s" and cnt: "unat (ctx_pkt_cnt (ctx_pair s i)) = Suc k" and over: "unat (refresh_rate s) < Suc k"
  shows "\<exists>s'. hcryptCtx_Tx_Switch s = Some (0, s') \<and> tx_state m (alt i) 0 s' \<and> same_link s s'
    \<and> ctx_pkt_cnt (ctx_pair s' (alt i)) = 0"
proof -
  define c where "c = ctx_pair s i"
  define a where "a = ctx_pair s (alt i)"
  have st: "ses_wf s" "ses_ctx s = Own i" "i < 2" "kek_ready m (ses_cb s)" "rates_ok (refresh_rate s) (pre_announce s)"
    and p: "tx_pair (refresh_rate s) (pre_announce s) k c a" using s by (simp_all add: tx_state_def c_def a_def)
  have full: "k = unat (refresh_rate s)" using p over by (simp add: tx_pair_def)
  then have "unat (refresh_rate s) - unat (pre_announce s) < k" using st(5) by (simp add: rates_ok_def)
  then have k: "ctx_status a = HCRYPT_CTX_S_KEYED" using p by (simp add: tx_pair_def)
  define s' where "s' = (upd_ctx (alt i) (set_flag HCRYPT_CTX_F_ANNOUNCE) (upd_ctx (alt i) (\<lambda>c. c\<lparr>ctx_status := HCRYPT_CTX_S_ACTIVE\<rparr>)
      (upd_ctx i (\<lambda>c. c\<lparr>ctx_status := HCRYPT_CTX_S_DEPRECATED\<rparr>) s)))\<lparr>ses_ctx := Own (alt i)\<rparr>"
  have run: "hcryptCtx_Tx_Switch s = Some (0, s')"
    using st(2) k by (simp add: hcryptCtx_Tx_Switch_def cur_ctx_def s'_def a_def)
  have ctxs: "ctx_pair s' (alt i) = set_flag HCRYPT_CTX_F_ANNOUNCE (a\<lparr>ctx_status := HCRYPT_CTX_S_ACTIVE\<rparr>)"
    "ctx_pair s' i = c\<lparr>ctx_status := HCRYPT_CTX_S_DEPRECATED\<rparr>"
    using alt_other [OF st(3)] by (simp_all add: s'_def a_def c_def)
  have wfc: "ctx_wf c" "ctx_wf a" using ses_wf_ctx [OF st(1)] by (simp_all add: c_def a_def)
  have wf: "ses_wf (upd_ctx (alt i) (set_flag HCRYPT_CTX_F_ANNOUNCE) (upd_ctx (alt i) (\<lambda>c. c\<lparr>ctx_status := HCRYPT_CTX_S_ACTIVE\<rparr>)
      (upd_ctx i (\<lambda>c. c\<lparr>ctx_status := HCRYPT_CTX_S_DEPRECATED\<rparr>) s)))"
    using wfc alt_other [OF st(3)] by (intro ses_wf_upd st(1)) (simp_all add: c_def [symmetric] a_def [symmetric])
  have "ses_wf s'" using wf alt_below [of i] by (simp add: s'_def ses_wf_def)
  moreover have "tx_pair (refresh_rate s) (pre_announce s) 0 (ctx_pair s' (alt i)) (ctx_pair s' i)"
    using p k unfolding ctxs by (simp add: tx_pair_def has_flag_def)
  moreover have "same_link s s'" by (simp add: s'_def)
  moreover have "ctx_pkt_cnt (ctx_pair s' (alt i)) = 0" using p k by (simp add: ctxs tx_pair_def)
  ultimately show ?thesis using run st
    by (intro exI [of _ s']) (simp add: tx_state_def s'_def alt_alt)
qed

lemma Announce_step:
  assumes s: "tx_state m i k s" and cnt: "unat (ctx_pkt_cnt (ctx_pair s i)) = Suc k" and rate: "Suc k \<le> unat (refresh_rate s)"
    and rnd: "\<And>n w. 0 \<le> fst (prng m n w)"
  shows "\<exists>s'. do { (_, s) \<leftarrow> hcryptCtx_Tx_Refresh m s; (_, s) \<leftarrow> hcryptCtx_Tx_PreSwitch s; Some s } = Some s'
    \<and> tx_state m i (Suc k) s' \<and> same_link s s' \<and> unat (ctx_pkt_cnt (ctx_pair s' i)) = Suc k"
proof -
  have st: "ses_wf s" "ses_ctx s = Own i" "i < 2" "kek_ready m (ses_cb s)" "rates_ok (refresh_rate s) (pre_announce s)"
    and p: "tx_pair (refresh_rate s) (pre_announce s) k (ctx_pair s i) (ctx_pair s (alt i))" using s by (simp_all add: tx_state_def)
  have pre: "ctx_status (ctx_pair s i) = HCRYPT_CTX_S_ACTIVE" "HCRYPT_CTX_S_SARDY \<le> ctx_status (ctx_pair s (alt i))"
    "key_len_ok (cfg_key_len (ctx_cfg (ctx_pair s i)))" using p by (auto simp: tx_pair_def)
  obtain s1 where s1: "hcryptCtx_Tx_Refresh m s = Some (0, s1)" "ses_wf s1" "ses_ctx s1 = Own i" "same_link s s1"
      "ctx_pair s1 i = ctx_pair s i"
    and a: "ctx_status (ctx_pair s1 (alt i)) = HCRYPT_CTX_S_KEYED" "ctx_pkt_cnt (ctx_pair s1 (alt i)) = 0"
        "ctx_cfg (ctx_pair s1 (alt i)) = ctx_cfg (ctx_pair s i)"
        "ctx_sek_len (ctx_pair s1 (alt i)) = cfg_key_len (ctx_cfg (ctx_pair s i))"
        "hcryptMsg_KM_HasBothSek (ctx_KMmsg_cache (ctx_pair s1 (alt i))) = Some True"
    using Refresh_ok [OF st(1-4) pre(1-3) rnd] by (auto simp: Let_def)
  define s2 where "s2 = upd_ctx (alt i) (set_flag HCRYPT_CTX_F_TTSEND) (upd_ctx (alt i) (set_flag HCRYPT_CTX_F_ANNOUNCE) s1)"
  define s3 where "s3 = upd_ctx i (clear_flag HCRYPT_CTX_F_ANNOUNCE) s2"
  have ctxs: "ctx_pair s2 (alt i) = set_flag HCRYPT_CTX_F_TTSEND (set_flag HCRYPT_CTX_F_ANNOUNCE (ctx_pair s1 (alt i)))"
    "ctx_pair s3 (alt i) = set_flag HCRYPT_CTX_F_TTSEND (set_flag HCRYPT_CTX_F_ANNOUNCE (ctx_pair s1 (alt i)))"
    "ctx_pair s3 i = clear_flag HCRYPT_CTX_F_ANNOUNCE (ctx_pair s i)"
    using alt_other [OF st(3)] s1(5) by (simp_all add: s2_def s3_def)
  have run: "hcryptCtx_Tx_PreSwitch s1 = Some (0, s3)"
    using s1(3,5) a pre(1) ctxs(1)
    by (simp add: hcryptCtx_Tx_PreSwitch_def cur_ctx_def s2_def [symmetric] s3_def)
  have wfc: "ctx_wf (ctx_pair s1 i)" "ctx_wf (ctx_pair s1 (alt i))" using ses_wf_ctx [OF s1(2)] by simp_all
  have "ses_wf s3" unfolding s3_def s2_def
    using wfc alt_other [OF st(3)] by (intro ses_wf_upd s1(2)) simp_all
  moreover have "tx_pair (refresh_rate s) (pre_announce s) (Suc k) (ctx_pair s3 i) (ctx_pair s3 (alt i))"
    using p a rate unfolding ctxs by (simp add: tx_pair_def has_set_flag)
  moreover have "same_link s s3" using s1(4) by (simp add: s3_def s2_def)
  moreover have "kek_ready m (ses_cb s3)"
    using st(4) s1(4) by (simp add: s3_def s2_def kek_ready_def same_link_def)
  ultimately show ?thesis using run s1 st cnt ctxs(3)
    by (intro exI [of _ s3]) (simp add: tx_state_def same_link_def s3_def s2_def)
qed

lemma PostSwitch_step:
  assumes s: "tx_state m i k s" and cnt: "unat (ctx_pkt_cnt (ctx_pair s i)) = Suc k"
    and early: "Suc k \<le> unat (refresh_rate s) - unat (pre_announce s)"
  shows "\<exists>s'. hcryptCtx_Tx_PostSwitch m s = Some (0, s') \<and> tx_state m i (Suc k) s' \<and> same_link s s'
    \<and> unat (ctx_pkt_cnt (ctx_pair s' i)) = Suc k"
proof -
  have st: "ses_wf s" "ses_ctx s = Own i" "i < 2" "kek_ready m (ses_cb s)" "rates_ok (refresh_rate s) (pre_announce s)"
    and p: "tx_pair (refresh_rate s) (pre_announce s) k (ctx_pair s i) (ctx_pair s (alt i))" using s by (simp_all add: tx_state_def)
  define s1 where "s1 = upd_ctx (alt i) (\<lambda>c. c\<lparr>ctx_status := HCRYPT_CTX_S_SARDY\<rparr>) (upd_ctx (alt i) (clear_flag HCRYPT_CTX_F_ANNOUNCE) s)"
  have ctxs: "ctx_pair s1 (alt i) = (clear_flag HCRYPT_CTX_F_ANNOUNCE (ctx_pair s (alt i)))\<lparr>ctx_status := HCRYPT_CTX_S_SARDY\<rparr>"
    "ctx_pair s1 i = ctx_pair s i" using alt_other [OF st(3)] by (simp_all add: s1_def)
  have wfc: "ctx_wf (ctx_pair s i)" "ctx_wf (ctx_pair s (alt i))" using ses_wf_ctx [OF st(1)] by simp_all
  have wf1: "ses_wf s1" unfolding s1_def
    using wfc by (intro ses_wf_upd st(1)) simp_all
  have kl: "key_len_ok (ctx_sek_len (ctx_pair s1 i))" using p ctxs by (simp add: tx_pair_def)
  have kek1: "kek_ready m (ses_cb s1)" using st(4) by (simp add: s1_def)
  obtain len cache where asm: "hcryptCtx_Tx_AsmKM m i None s1 =
      Some (0, upd_ctx i (\<lambda>c. c\<lparr>ctx_KMmsg_len := len, ctx_KMmsg_cache := cache\<rparr>) s1)" "length cache = 120 \<and> len \<le> 120"
    using AsmKM_ok [OF wf1 st(3) kl _ kek1, of None] by auto
  obtain both where both: "hcryptMsg_KM_HasBothSek (ctx_KMmsg_cache (ctx_pair s1 i)) = Some both"
    using HasBothSek_total wfc(1) ctxs(2) by metis
  define g :: "hcrypt_Ctx \<Rightarrow> hcrypt_Ctx" where
    "g = (if both then (\<lambda>c. c\<lparr>ctx_KMmsg_len := len, ctx_KMmsg_cache := cache\<rparr>) else (\<lambda>c. c))"
  have id: "upd_ctx i (\<lambda>c. c) s1 = s1" by (rule upd_ctx_id) simp
  have run: "hcryptCtx_Tx_PostSwitch m s = Some (0, upd_ctx i g s1)"
    using st(2) both asm(1) id by (simp add: hcryptCtx_Tx_PostSwitch_def cur_ctx_def s1_def [symmetric] g_def)
  let ?s = "upd_ctx i g s1"
  have wf2: "ses_wf ?s"
    using wfc(1) ctxs(2) asm(2) by (intro ses_wf_upd wf1) (simp_all add: g_def ctx_wf_def)
  have c2: "ctx_pair ?s (alt i) = ctx_pair s1 (alt i)" "ctx_pair ?s i = g (ctx_pair s i)"
    using alt_other [OF st(3)] ctxs(2) by simp_all
  have gk: "ctx_status (g c) = ctx_status c" "ctx_flags (g c) = ctx_flags c" "ctx_sek_len (g c) = ctx_sek_len c"
    "ctx_cfg (g c) = ctx_cfg c" "ctx_pkt_cnt (g c) = ctx_pkt_cnt c" for c by (simp_all add: g_def)
  have tp: "tx_pair (refresh_rate s) (pre_announce s) (Suc k) (ctx_pair ?s i) (ctx_pair ?s (alt i))"
    using p early unfolding c2 ctxs(1)
    by (simp add: tx_pair_def gk has_flag_def clear_flag_def and.assoc)
  have "same_link s ?s" by (simp add: s1_def)
  then show ?thesis using run wf2 tp st cnt kek1 c2(2) gk
    by (intro exI [of _ ?s]) (simp add: tx_state_def same_link_def s1_def)
qed

text \<open>The timer only sets flags that say when to send.\<close>

lemma tx_state_flags:
  assumes "tx_state m i k s" and "j < 2"
    and "f = set_flag HCRYPT_CTX_F_TTSEND \<or> f = clear_flag HCRYPT_CTX_F_TTSEND"
  shows "tx_state m i k (upd_ctx j f s)" and "ctx_pkt_cnt (ctx_pair (upd_ctx j f s) i) = ctx_pkt_cnt (ctx_pair s i)"
proof -
  have st: "ses_wf s" "i < 2" using assms(1) by (simp_all add: tx_state_def)
  have j: "j = i \<or> j = alt i" using st(2) assms(2) by (auto simp: alt_def)
  have bits: "ctx_flags (f c) AND 3 = ctx_flags c AND 3" "ctx_wf (f c) = ctx_wf c"
    "has_flag HCRYPT_CTX_F_ANNOUNCE (f c) = has_flag HCRYPT_CTX_F_ANNOUNCE c"
    "ctx_status (f c) = ctx_status c" "ctx_pkt_cnt (f c) = ctx_pkt_cnt c" "ctx_sek_len (f c) = ctx_sek_len c"
    "ctx_cfg (f c) = ctx_cfg c" for c
    using assms(3) by (auto simp: has_set_flag)
  have ctxs: "ctx_pair (upd_ctx j f s) i = (if j = i then f (ctx_pair s i) else ctx_pair s i)"
    "ctx_pair (upd_ctx j f s) (alt i) = (if j = i then ctx_pair s (alt i) else f (ctx_pair s (alt i)))"
    using j alt_other [OF st(2)] by (auto simp: upd_ctx_def ctx_pair_def)
  have "ses_wf (upd_ctx j f s)" using ses_wf_ctx [OF st(1), of j] bits by (intro ses_wf_upd [OF st(1)]) simp_all
  then show "tx_state m i k (upd_ctx j f s)" "ctx_pkt_cnt (ctx_pair (upd_ctx j f s) i) = ctx_pkt_cnt (ctx_pair s i)"
    using assms(1) by (simp_all add: tx_state_def tx_pair_def ctxs bits)
qed

lemma tx_state_world:
  assumes "tx_state m i k s"
  shows "tx_state m i k (s\<lparr>world := w\<rparr>)" and "tx_state m i k (s\<lparr>tx_last := t\<rparr>)"
  using assms by (simp_all add: tx_state_def ses_wf_def)

lemma ManageKM_step:
  assumes s: "tx_state m i k s" and cnt: "unat (ctx_pkt_cnt (ctx_pair s i)) = Suc k"
    and rnd: "\<And>n w. 0 \<le> fst (prng m n w)"
  shows "\<exists>s' i' k'. hcryptCtx_Tx_ManageKM m sys s = Some (0, s') \<and> tx_state m i' k' s' \<and> same_link s s'
    \<and> unat (ctx_pkt_cnt (ctx_pair s' i')) = k'
    \<and> (if unat (refresh_rate s) < Suc k then i' = alt i \<and> k' = 0 else i' = i \<and> k' = Suc k)"
proof -
  define c where "c = ctx_pair s i"
  define a where "a = ctx_pair s (alt i)"
  define R where "R = refresh_rate s"
  define P where "P = pre_announce s"
  have st: "ses_ctx s = Own i" "rates_ok R P" and p: "tx_pair R P k c a" using s by (simp_all add: tx_state_def c_def a_def R_def P_def)
  define act where "act = (if ctx_pkt_cnt c > R \<or> ctx_pkt_cnt c = 0 then do { (_, s) \<leftarrow> hcryptCtx_Tx_Switch s; Some s }
           else if ctx_pkt_cnt c > R - P \<and> \<not> has_flag HCRYPT_CTX_F_ANNOUNCE a then do {
             (_, s) \<leftarrow> hcryptCtx_Tx_Refresh m s; (_, s) \<leftarrow> hcryptCtx_Tx_PreSwitch s; Some s }
           else if ctx_status a = HCRYPT_CTX_S_DEPRECATED \<and> ctx_pkt_cnt c > P then do {
             (_, s) \<leftarrow> hcryptCtx_Tx_PostSwitch m s; Some s }
           else Some s)"
  have nz: "ctx_pkt_cnt c \<noteq> 0" using cnt by (auto simp: c_def)
  have gt: "ctx_pkt_cnt c > R \<longleftrightarrow> unat R < Suc k" "ctx_pkt_cnt c > P \<longleftrightarrow> unat P < Suc k"
    "ctx_pkt_cnt c > R - P \<longleftrightarrow> unat R - unat P < Suc k"
    using cnt unat_rate_diff [OF st(2)] by (simp_all add: word_gt_nat c_def)
  have "\<exists>s1 i' k'. act = Some s1 \<and> tx_state m i' k' s1 \<and> same_link s s1 \<and> unat (ctx_pkt_cnt (ctx_pair s1 i')) = k'
    \<and> (if unat R < Suc k then i' = alt i \<and> k' = 0 else i' = i \<and> k' = Suc k)"
  proof (cases "unat R < Suc k")
    case True
    then show ?thesis
      using Switch_step [OF s cnt] gt by (auto simp: act_def R_def)
  next
    case over: False
    then have rate: "Suc k \<le> unat (refresh_rate s)" by (simp add: R_def)
    show ?thesis
    proof (cases "unat R - unat P < Suc k \<and> \<not> has_flag HCRYPT_CTX_F_ANNOUNCE a")
      case True
      then show ?thesis
        using Announce_step [OF s cnt rate rnd] over nz gt by (auto simp: act_def)
    next
      case not_ann: False
      have keyed: "unat R - unat P < Suc k \<longrightarrow> ctx_status a = HCRYPT_CTX_S_KEYED"
        using p not_ann by (auto simp: tx_pair_def)
      show ?thesis
      proof (cases "ctx_status a = HCRYPT_CTX_S_DEPRECATED \<and> unat P < Suc k")
        case True
        then have early: "Suc k \<le> unat (refresh_rate s) - unat (pre_announce s)" using keyed by (auto simp: R_def P_def)
        show ?thesis using PostSwitch_step [OF s cnt early] over nz gt not_ann True by (auto simp: act_def)
      next
        case False
        have "tx_state m i (Suc k) s"
          using s p keyed rate by (simp add: tx_state_def tx_pair_def c_def a_def R_def P_def)
        then show ?thesis using over nz gt not_ann False cnt by (auto simp: act_def)
      qed
    qed
  qed
  then obtain s1 i' k' where a1: "act = Some s1" "tx_state m i' k' s1" "same_link s s1" "unat (ctx_pkt_cnt (ctx_pair s1 i')) = k'"
    "if unat R < Suc k then i' = alt i \<and> k' = 0 else i' = i \<and> k' = Suc k" by blast
  have cur: "cur_ctx s = Some i" using st(1) by (simp add: cur_ctx_def)
  have man: "hcryptCtx_Tx_ManageKM m sys s = (if timerisset (tx_period s1) then do {
       let (now, w) = sys_gettimeofday sys (world s1);
       let s = s1\<lparr>world := w\<rparr>;
       if timercmp_gt now (timeradd (tx_last s) (tx_period s)) then do {
         let s = (if has_flag HCRYPT_CTX_F_ANNOUNCE (ctx_even s) then upd_ctx 0 (set_flag HCRYPT_CTX_F_TTSEND) s else s);
         Some (0, if has_flag HCRYPT_CTX_F_ANNOUNCE (ctx_odd s) then upd_ctx 1 (set_flag HCRYPT_CTX_F_TTSEND) s else s) }
       else Some (0, s) }
     else Some (0, s1))"
    unfolding hcryptCtx_Tx_ManageKM_def cur bind.bind_lunit Let_def c_def [symmetric] a_def [symmetric]
      R_def [symmetric] P_def [symmetric] act_def [symmetric] a1(1) ..
  define Q where "Q = (\<lambda>s2. tx_state m i' k' s2 \<and> same_link s s2 \<and> unat (ctx_pkt_cnt (ctx_pair s2 i')) = k')"
  have flag: "Q (if b then upd_ctx j (set_flag HCRYPT_CTX_F_TTSEND) s2 else s2)" if "Q s2" "j < 2" for s2 j b
    using that tx_state_flags [of i' k' s2 j "set_flag HCRYPT_CTX_F_TTSEND"] by (simp add: Q_def)
  obtain now w where now: "sys_gettimeofday sys (world s1) = (now, w)" by fastforce
  define s2 where "s2 = s1\<lparr>world := w\<rparr>"
  define s3 where "s3 = (if has_flag HCRYPT_CTX_F_ANNOUNCE (ctx_even s2) then upd_ctx 0 (set_flag HCRYPT_CTX_F_TTSEND) s2 else s2)"
  define s4 where "s4 = (if has_flag HCRYPT_CTX_F_ANNOUNCE (ctx_odd s3) then upd_ctx 1 (set_flag HCRYPT_CTX_F_TTSEND) s3 else s3)"
  have Q: "Q s1" "Q s2" using a1(2,3,4) tx_state_world by (simp_all add: Q_def s2_def)
  have "Q s3" unfolding s3_def by (rule flag [OF Q(2)]) simp
  then have "Q s4" unfolding s4_def by (rule flag) simp
  moreover have "hcryptCtx_Tx_ManageKM m sys s = Some (0, if timerisset (tx_period s1) then
      (if timercmp_gt now (timeradd (tx_last s2) (tx_period s2)) then s4 else s2) else s1)"
    unfolding man now Let_def prod.case s2_def [symmetric] s3_def [symmetric] s4_def [symmetric] by simp
  ultimately obtain s' where "hcryptCtx_Tx_ManageKM m sys s = Some (0, s')" "Q s'" using Q by metis
  then show ?thesis using a1(5) by (intro exI [of _ s'] exI [of _ i'] exI [of _ k']) (simp add: R_def Q_def)
qed

lemma inject_one_step:
  assumes "tx_state m i k s" and "j < 2"
  shows "\<exists>s' outs'. inject_one j (s, outs) = (s', outs') \<and> tx_state m i k s' \<and> same_link s s' \<and> ses_cb s' = ses_cb s
    \<and> ctx_pkt_cnt (ctx_pair s' i) = ctx_pkt_cnt (ctx_pair s i) \<and> length outs' \<le> Suc (length outs)"
  using assms tx_state_flags [OF assms, of "clear_flag HCRYPT_CTX_F_TTSEND"] by (auto simp: inject_one_def)

lemma InjectKM_step:
  assumes s: "tx_state m i k s" and "2 \<le> maxout"
  shows "\<exists>s' outs. hcryptCtx_Tx_InjectKM sys maxout s = Some (outs, s') \<and> tx_state m i k s' \<and> same_link s s' \<and> ses_cb s' = ses_cb s
    \<and> ctx_pkt_cnt (ctx_pair s' i) = ctx_pkt_cnt (ctx_pair s i) \<and> length outs \<le> 2"
proof -
  obtain s1 o1 where 1: "inject_one 0 (s, []) = (s1, o1)" "tx_state m i k s1" "same_link s s1" "ses_cb s1 = ses_cb s"
    "ctx_pkt_cnt (ctx_pair s1 i) = ctx_pkt_cnt (ctx_pair s i)" "length o1 \<le> 1"
    using inject_one_step [OF s, of 0 "[]"] by auto
  obtain s2 o2 where 2: "inject_one 1 (s1, o1) = (s2, o2)" "tx_state m i k s2" "same_link s1 s2" "ses_cb s2 = ses_cb s1"
    "ctx_pkt_cnt (ctx_pair s2 i) = ctx_pkt_cnt (ctx_pair s1 i)" "length o2 \<le> Suc (length o1)"
    using inject_one_step [OF 1(2), of 1 o1] by auto
  have run: "hcryptCtx_Tx_InjectKM sys maxout s = (if o2 \<noteq> [] then do {
       let (now, w) = sys_gettimeofday sys (world s2);
       Some (o2, s2\<lparr>world := w, tx_last := now\<rparr>) }
     else Some (o2, s2))"
    using assms(2) 1(1) 2(1) by (simp add: hcryptCtx_Tx_InjectKM_def)
  have st: "tx_state m i k (s2\<lparr>world := w, tx_last := t\<rparr>)" for w t using tx_state_world 2(2) by blast
  show ?thesis
    unfolding run using 1 2 st same_link_trans [OF 1(3) 2(3)] by (auto simp: Let_def split: prod.splits)
qed

text \<open>One packet.\<close>

lemma Tx_Process_step:
  assumes s: "tx_state m i k s" and cnt: "unat (ctx_pkt_cnt (ctx_pair s i)) = Suc k"
    and rnd: "\<And>n w. 0 \<le> fst (prng m n w)" and max: "3 \<le> maxout"
    and msg: "16 < length msg" "length msg \<le> outbuf_siz (ses_cb s)" "length msg < 2 ^ 64"
  shows "\<exists>outs ofs s' i' k'. HaiCrypt_Tx_Process m sys (Some s) msg True maxout =
      Some (int (length outs) + 1, outs @ [(Outbuf ofs, length msg)], s')
    \<and> length outs \<le> 2 \<and> tx_state m i' k' s' \<and> same_link s s' \<and> unat (ctx_pkt_cnt (ctx_pair s' i')) = Suc k'
    \<and> (if unat (refresh_rate s) < Suc k then i' = alt i \<and> k' = 0 else i' = i \<and> k' = Suc k)
    \<and> (\<exists>cipher. rd_slice (outbuf (ses_cb s')) ofs (length msg) = Some (take 16 msg @ cipher) \<and> length cipher = length msg - 16)"
proof -
  obtain s1 i' k' where 1: "hcryptCtx_Tx_ManageKM m sys s = Some (0, s1)" "tx_state m i' k' s1" "same_link s s1"
    "unat (ctx_pkt_cnt (ctx_pair s1 i')) = k'"
    "if unat (refresh_rate s) < Suc k then i' = alt i \<and> k' = 0 else i' = i \<and> k' = Suc k"
    using ManageKM_step [OF s cnt rnd] by metis
  have 2: "2 \<le> maxout" using max by simp
  obtain s2 outs where 2: "hcryptCtx_Tx_InjectKM sys maxout s1 = Some (outs, s2)" "tx_state m i' k' s2" "same_link s1 s2"
    "ses_cb s2 = ses_cb s1" "ctx_pkt_cnt (ctx_pair s2 i') = ctx_pkt_cnt (ctx_pair s1 i')" "length outs \<le> 2"
    using InjectKM_step [OF 1(2) 2, of sys] by blast
  define c where "c = ctx_pair s2 i'"
  have st2: "ses_wf s2" "ses_ctx s2 = Own i'" "i' < 2" using 2(2) by (simp_all add: tx_state_def)
  have cw: "ctx_wf c" using ses_wf_ctx [OF st2(1)] by (simp add: c_def)
  have mi: "ctx_msg_info c = Some hcryptMsg_SRT_MsgInfo" using cw by (simp add: ctx_wf_def)
  obtain iv where iv: "packet_iv c msg = Some iv" "length iv = 16" using packet_iv_total [of c msg] cw msg(1) by auto
  have len: "size_sub (length msg) 16 = length msg - 16" using msg by (intro size_sub_le) simp_all
  let ?dd = "\<lparr>dd_pfx = msg, dd_payload = drop 16 msg, dd_len = length msg - 16\<rparr>"
  have out: "outbuf_siz (ses_cb s2) = outbuf_siz (ses_cb s)" using 1(3) 2(3) by (simp add: same_link_def)
  have fit: "16 + dd_len ?dd = length msg" using msg(1) by simp
  obtain ofs cb where enc: "crysprFallback_MsEncrypt m (ses_cb s2) c ?dd True = Some (0, cb, ?dd, Some (ofs, length msg))"
    and cb: "cb_wf cb" "outbuf_siz cb = outbuf_siz (ses_cb s2)" "aes_kek cb = aes_kek (ses_cb s2)"
      "rd_slice (outbuf cb) ofs (length msg) = Some (take 16 msg @ packet_crypt m True (ses_cb s2) c iv (drop 16 msg))"
    using MsEncrypt_out [OF ses_wf_cbD [OF st2(1)] ctx_wf_ready [OF cw], of ?dd iv] iv(1) msg out fit by auto
  define s3 where "s3 = upd_ctx i' (\<lambda>c. c\<lparr>ctx_pkt_cnt := ctx_pkt_cnt c + 1\<rparr>) (s2\<lparr>ses_cb := cb\<rparr>)"
  have c1: "cur_ctx s1 = Some i'" "ctx_status (ctx_pair s1 i') = HCRYPT_CTX_S_ACTIVE"
    using 1(2) by (simp_all add: tx_state_def cur_ctx_def tx_pair_def)
  have own: "ses_ctx s \<noteq> Null" using s by (simp add: tx_state_def)
  have pay: "rd_slice msg 16 (length msg - 16) = Some (drop 16 msg)" using msg(1) by (simp add: rd_slice_in)
  have "length outs < maxout" using 2(6) max by simp
  then have run: "HaiCrypt_Tx_Process m sys (Some s) msg True maxout = Some (int (length outs) + 1, outs @ [(Outbuf ofs, length msg)], s3)"
    using own 1(1) c1 2(1) mi enc pay len
    by (simp add: HaiCrypt_Tx_Process_def c_def [symmetric] srt_mi.index_keeps s3_def)
  have k': "k' < 2 ^ 32 - 1"
    using 2(2) by (auto simp: tx_state_def tx_pair_def rates_ok_def)
  have p2: "unat (ctx_pkt_cnt c) = k'" using 1(4) 2(5) by (simp add: c_def)
  have p3: "unat (ctx_pkt_cnt c + 1) = Suc k'"
    using k' p2 by (simp add: unat_plus_if' )
  have ctxs: "ctx_pair s3 i' = c\<lparr>ctx_pkt_cnt := ctx_pkt_cnt c + 1\<rparr>" "ctx_pair s3 (alt i') = ctx_pair s2 (alt i')"
    using alt_other [OF st2(3)] by (simp_all add: s3_def c_def)
  have wf3: "ses_wf s3" unfolding s3_def
    using cw by (intro ses_wf_upd ses_wf_cb [OF st2(1) cb(1)]) (simp_all add: c_def)
  have l23: "same_link s2 s3" using cb by (simp add: s3_def same_link_def)
  have st3: "tx_state m i' k' s3"
    using 2(2) wf3 cb(3) l23 unfolding tx_state_def same_link_def ctxs
    by (simp add: s3_def tx_pair_def c_def kek_ready_def has_flag_def)
  have "length (packet_crypt m True (ses_cb s2) c iv (drop 16 msg)) = length msg - 16"
    by (simp add: length_packet_crypt iv(2))
  then show ?thesis
    using run 2(6) st3 same_link_trans [OF same_link_trans [OF 1(3) 2(3)] l23] 1(5) p3 ctxs(1) cb(4)
    by (intro exI [of _ outs] exI [of _ ofs] exI [of _ s3] exI [of _ i'] exI [of _ k']) (simp add: s3_def)
qed

end

section \<open>A stream of packets\<close>

text \<open>\<open>HaiCrypt_Tx_Process\<close> on one message after the other; the output entries of each call.\<close>

fun tx_run ::
    "('k, 'w) CRYSPR_methods \<Rightarrow> 'w system \<Rightarrow> nat \<Rightarrow> bytes list \<Rightarrow> ('k, 'w) hcrypt_Session
      \<Rightarrow> ((out_ptr \<times> nat) list list \<times> ('k, 'w) hcrypt_Session) option" where
  "tx_run m sys maxout [] s = Some ([], s)"
| "tx_run m sys maxout (msg # msgs) s = do {
     (_, outs, s) \<leftarrow> HaiCrypt_Tx_Process m sys (Some s) msg True maxout;
     (outss, s) \<leftarrow> tx_run m sys maxout msgs s;
     Some (outs # outss, s) }"

text \<open>The position in the crypto period, and the context in use, after \<open>n\<close> packets.\<close>

lemma rekey_count:
  fixes R k :: nat
  assumes "k \<le> R" and "i < 2"
  shows "(if R < Suc k then (0 + n) mod Suc R else (Suc k + n) mod Suc R) = (k + Suc n) mod Suc R"
    and "((if R < Suc k then alt i else i) + (if R < Suc k then 0 + n else Suc k + n) div Suc R) mod 2 = (i + (k + Suc n) div Suc R) mod 2"
proof -
  have d: "k + Suc n = n + Suc R" if "R < Suc k" using that assms(1) by simp
  show "(if R < Suc k then (0 + n) mod Suc R else (Suc k + n) mod Suc R) = (k + Suc n) mod Suc R"
  proof (cases "R < Suc k")
    case True
    show ?thesis unfolding d [OF True] mod_add_self2 using True by simp
  qed simp
  have q: "(n + Suc R) div Suc R = Suc (n div Suc R)"
    by (subst div_add_self2) simp_all
  show "((if R < Suc k then alt i else i) + (if R < Suc k then 0 + n else Suc k + n) div Suc R) mod 2 = (i + (k + Suc n) div Suc R) mod 2"
  proof (cases "R < Suc k")
    case True
    have "i = 0 \<or> i = 1" using assms(2) by auto
    then show ?thesis unfolding d [OF True] q using True by (elim disjE) (simp_all add: alt_def)
  qed simp
qed

context haicrypt
begin

lemma tx_run_ok:
  assumes "tx_state m i k s" and "unat (ctx_pkt_cnt (ctx_pair s i)) = Suc k"
    and rnd: "\<And>n w. 0 \<le> fst (prng m n w)" and max: "3 \<le> maxout"
    and "\<forall>msg \<in> set msgs. 16 < length msg \<and> length msg \<le> outbuf_siz (ses_cb s) \<and> length msg < 2 ^ 64"
  shows "\<exists>outss s'. tx_run m sys maxout msgs s = Some (outss, s')
    \<and> list_all2 (\<lambda>msg outs. \<exists>kms ofs. outs = kms @ [(Outbuf ofs, length msg)] \<and> length kms \<le> 2) msgs outss
    \<and> tx_state m ((i + (k + length msgs) div Suc (unat (refresh_rate s))) mod 2) ((k + length msgs) mod Suc (unat (refresh_rate s))) s'
    \<and> unat (ctx_pkt_cnt (ctx_pair s' ((i + (k + length msgs) div Suc (unat (refresh_rate s))) mod 2))) =
        Suc ((k + length msgs) mod Suc (unat (refresh_rate s)))
    \<and> refresh_rate s' = refresh_rate s \<and> pre_announce s' = pre_announce s"
  using assms(1,2,5)
proof (induction msgs arbitrary: i k s)
  case Nil
  have "k < Suc (unat (refresh_rate s))" "i < 2" using Nil.prems(1) by (auto simp: tx_state_def tx_pair_def)
  with Nil.prems show ?case by simp
next
  case (Cons msg msgs)
  define R where "R = unat (refresh_rate s)"
  have ki: "k \<le> R" "i < 2" using Cons.prems(1) by (auto simp: tx_state_def tx_pair_def R_def)
  obtain kms ofs s1 i' k' where 1: "HaiCrypt_Tx_Process m sys (Some s) msg True maxout =
      Some (int (length kms) + 1, kms @ [(Outbuf ofs, length msg)], s1)" "length kms \<le> 2"
    and s1: "tx_state m i' k' s1" "unat (ctx_pkt_cnt (ctx_pair s1 i')) = Suc k'" and l: "same_link s s1"
    and ik: "if R < Suc k then i' = alt i \<and> k' = 0 else i' = i \<and> k' = Suc k"
    using Tx_Process_step [OF Cons.prems(1,2) rnd max, of msg sys] Cons.prems(3) unfolding R_def by auto
  have R1: "unat (refresh_rate s1) = R" and same: "refresh_rate s1 = refresh_rate s" "pre_announce s1 = pre_announce s" and out: "outbuf_siz (ses_cb s1) = outbuf_siz (ses_cb s)"
    using l by (simp_all add: R_def same_link_def)
  have "\<forall>msg \<in> set msgs. 16 < length msg \<and> length msg \<le> outbuf_siz (ses_cb s1) \<and> length msg < 2 ^ 64"
    using Cons.prems(3) out by simp
  from Cons.IH [OF s1 this] obtain outss s2 where 2: "tx_run m sys maxout msgs s1 = Some (outss, s2)"
    "list_all2 (\<lambda>msg outs. \<exists>kms ofs. outs = kms @ [(Outbuf ofs, length msg)] \<and> length kms \<le> 2) msgs outss"
    "tx_state m ((i' + (k' + length msgs) div Suc R) mod 2) ((k' + length msgs) mod Suc R) s2"
    "unat (ctx_pkt_cnt (ctx_pair s2 ((i' + (k' + length msgs) div Suc R) mod 2))) = Suc ((k' + length msgs) mod Suc R)"
    "refresh_rate s2 = refresh_rate s1" "pre_announce s2 = pre_announce s1"
    unfolding R1 by blast
  have "(k' + length msgs) mod Suc R = (k + Suc (length msgs)) mod Suc R"
    "(i' + (k' + length msgs) div Suc R) mod 2 = (i + (k + Suc (length msgs)) div Suc R) mod 2"
    using rekey_count [OF ki, of "length msgs"] ik by (auto split: if_splits)
  with 1 2 same show ?case unfolding R_def [symmetric]
    by (intro exI [of _ "(kms @ [(Outbuf ofs, length msg)]) # outss"] exI [of _ s2]) (auto simp: list_all2_Cons1)
qed

end

section \<open>Creating a sender\<close>

context haicrypt
begin

text \<open>
  Handing a fresh key to the library and announcing it, as \<open>hcryptCtx_Tx_Rekey\<close> and
  \<open>hcryptCtx_Tx_CloneKey\<close> do, when the other context has no key yet.
\<close>

lemma install_key_ok:
  assumes wf: "ses_wf s" and i: "i < 2" and kl: "key_len_ok (ctx_sek_len (ctx_pair s i))" and sl: "ctx_salt_len (ctx_pair s i) = 16"
    and pwd: "cfg_pwd_len (ctx_cfg (ctx_pair s i)) \<noteq> 0" and enc: "has_flag HCRYPT_CTX_F_ENCRYPT (ctx_pair s i)"
    and dk: "fst (derived_kek m (ctx_pair s i)) = 0" and alt: "ctx_status (ctx_pair s (alt i)) < HCRYPT_CTX_S_KEYED"
  shows "\<exists>cb len cache. tx_install_key m i s = Some (0, upd_ctx i (\<lambda>c. c\<lparr>ctx_KMmsg_len := len, ctx_KMmsg_cache := cache,
        ctx_pkt_cnt := 1, ctx_status := HCRYPT_CTX_S_KEYED\<rparr>) (s\<lparr>ses_cb := cb\<rparr>))
    \<and> length cache = 120 \<and> len \<le> 120 \<and> cb_wf cb \<and> outbuf_siz cb = outbuf_siz (ses_cb s)
    \<and> hcryptCtx_Tx_AsmKM m i None (s\<lparr>ses_cb := cb\<rparr>) =
        Some (0, upd_ctx i (\<lambda>c. c\<lparr>ctx_KMmsg_len := len, ctx_KMmsg_cache := cache\<rparr>) (s\<lparr>ses_cb := cb\<rparr>))
    \<and> keyed m True (snd (derived_kek m (ctx_pair s i))) (aes_kek cb)
    \<and> keyed m True (take (ctx_sek_len (ctx_pair s i)) (ctx_sek (ctx_pair s i))) (aes_sek cb i)"
proof -
  define c where "c = ctx_pair s i"
  define sek where "sek = take (ctx_sek_len c) (ctx_sek c)"
  have cw: "ctx_wf c" using ses_wf_ctx [OF wf] by (simp add: c_def)
  have "ctx_sek_len c \<le> 32" using kl by (auto simp: key_len_ok_def c_def)
  then have sek: "rd_slice (ctx_sek c) 0 (ctx_sek_len c) = Some sek" "length sek = ctx_sek_len c"
    using cw by (simp_all add: ctx_wf_def rd_slice_in sek_def)
  have ki: "hcryptCtx_GetKeyIndex c = i" using key_index_pair [OF wf i] by (simp add: c_def)
  obtain cb1 where 1: "crysprFallback_MsSetKey m (ses_cb s) c sek = (0, cb1)" "cb_wf cb1" "outbuf_siz cb1 = outbuf_siz (ses_cb s)"
    "keyed m True sek (aes_sek cb1 i)"
    using MsSetKey_ok [of sek "ses_cb s" c] sek(2) kl ses_wf_cbD [OF wf] cw ki by (auto simp: c_def ctx_wf_def)
  define s1 where "s1 = s\<lparr>ses_cb := cb1\<rparr>"
  have wf1: "ses_wf s1" unfolding s1_def by (rule ses_wf_cb [OF wf 1(2)])
  have c1: "ctx_pair s1 j = ctx_pair s j" for j by (simp add: s1_def)
  obtain cb2 where 2: "hcryptCtx_GenSecret m i s1 = Some (0, s1\<lparr>ses_cb := cb2\<rparr>)" "cb_wf cb2" "aes_sek cb2 = aes_sek cb1"
    "outbuf_siz cb2 = outbuf_siz cb1" "keyed m True (snd (derived_kek m c)) (aes_kek cb2)"
  proof -
    have kl1: "key_len_ok (ctx_sek_len (ctx_pair s1 i))" using kl c1 by simp
    show thesis using GenSecret_spec [OF wf1 kl1] dk enc by (auto simp: c1 c_def [symmetric] s1_def intro: that)
  qed
  define s2 where "s2 = s1\<lparr>ses_cb := cb2\<rparr>"
  have wf2: "ses_wf s2" unfolding s2_def by (rule ses_wf_cb [OF wf1 2(2)])
  have c2: "ctx_pair s2 j = ctx_pair s j" for j by (simp add: s2_def c1)
  have "length (snd (derived_kek m c)) = ctx_sek_len c" using kl dk by (simp add: derived_kek_length c_def)
  then have kek2: "kek_ready m (ses_cb s2)" using 2(5) kl
    unfolding kek_ready_def by (intro exI [of _ "snd (derived_kek m c)"]) (simp add: s2_def c_def)
  have kl2: "key_len_ok (ctx_sek_len (ctx_pair s2 i))" using kl c2 by simp
  obtain len cache where asm: "hcryptCtx_Tx_AsmKM m i None s2 =
      Some (0, upd_ctx i (\<lambda>c. c\<lparr>ctx_KMmsg_len := len, ctx_KMmsg_cache := cache\<rparr>) s2)" "length cache = 120 \<and> len \<le> 120"
    using AsmKM_ok [OF wf2 i kl2 _ kek2, of None] by auto
  define s3 where "s3 = upd_ctx i (\<lambda>c. c\<lparr>ctx_KMmsg_len := len, ctx_KMmsg_cache := cache\<rparr>) s2"
  have c3: "ctx_pair s3 i = c\<lparr>ctx_KMmsg_len := len, ctx_KMmsg_cache := cache\<rparr>" "ctx_pair s3 (alt i) = ctx_pair s (alt i)"
    using alt_other [OF i] by (simp_all add: s3_def c2 c_def)
  have mi: "ctx_msg_info (ctx_pair s3 i) = Some hcryptMsg_SRT_MsgInfo" using cw by (simp add: c3 ctx_wf_def)
  have ap: "\<not> HCRYPT_CTX_S_KEYED \<le> ctx_status (ctx_pair s (alt i))" using assms(8) by simp
  have pw: "0 < cfg_pwd_len (ctx_cfg c)" using pwd by (simp add: c_def)
  have run: "tx_install_key m i s = Some (0, upd_ctx i (\<lambda>c. c\<lparr>ctx_MSpfx_cache := ctx_MSpfx_cache (ctx_pair s3 i), ctx_pkt_cnt := 1,
      ctx_status := HCRYPT_CTX_S_KEYED\<rparr>) s3)"
    unfolding tx_install_key_def Let_def c_def [symmetric] sek(1) bind.bind_lunit 1(1) prod.case s1_def [symmetric] if_P [OF pw]
      2(1) s2_def [symmetric] asm(1) s3_def [symmetric] c3(2) if_not_P [OF ap] mi srt_mi.reset_ms by simp
  have s2_eq: "s2 = s\<lparr>ses_cb := cb2\<rparr>" by (simp add: s2_def s1_def)
  note asm' = asm(1) [unfolded s2_eq]
  have fold: "upd_ctx i (\<lambda>c. c\<lparr>ctx_MSpfx_cache := ctx_MSpfx_cache (ctx_pair s3 i), ctx_pkt_cnt := 1, ctx_status := HCRYPT_CTX_S_KEYED\<rparr>) s3
      = upd_ctx i (\<lambda>c. c\<lparr>ctx_KMmsg_len := len, ctx_KMmsg_cache := cache, ctx_pkt_cnt := 1, ctx_status := HCRYPT_CTX_S_KEYED\<rparr>) (s\<lparr>ses_cb := cb2\<rparr>)"
    by (simp add: s3_def s2_def s1_def upd_ctx_def ctx_pair_def)
  show ?thesis
    using run 1 2 asm asm' unfolding fold
    by (intro exI [of _ cb2] exI [of _ len] exI [of _ cache]) (simp add: c_def [symmetric] sek_def)
qed

end

end
