(* ===== verification/HcCreate.thy ===== *)
theory HcCreate
  imports HcTx
begin

text \<open>
  Creating the two ends of a link: what \<open>HaiCrypt_Create\<close> returns for a configuration with a
  passphrase, and that the two ends then understand each other.
\<close>

section \<open>The fresh session\<close>

definition passphrase_cfg :: "HaiCrypt_Cfg \<Rightarrow> bool" where
  "passphrase_cfg cfg \<longleftrightarrow> \<not> cfg_rejected cfg \<and> sec_typ (hc_secret cfg) = HAICRYPT_SECTYP_PASSPHRASE
     \<and> length (sec_str (hc_secret cfg)) = HAICRYPT_SECRET_MAX_SZ \<and> hc_xport cfg = HAICRYPT_XPT_SRT
     \<and> hc_data_max_len cfg < 2 ^ 32"

definition passphrase_of :: "HaiCrypt_Cfg \<Rightarrow> bytes" where
  "passphrase_of cfg = take (sec_len (hc_secret cfg)) (sec_str (hc_secret cfg))"

text \<open>A context after it was given the passphrase.\<close>

definition init_ctx :: "HaiCrypt_Cfg \<Rightarrow> nat \<Rightarrow> hcrypt_Ctx \<Rightarrow> hcrypt_Ctx" where
  "init_ctx cfg key_len c = c\<lparr>ctx_cfg := \<lparr>cfg_key_len = key_len, cfg_pwd_len = sec_len (hc_secret cfg),
       cfg_pwd = passphrase_of cfg @ drop (sec_len (hc_secret cfg)) (cfg_pwd (ctx_cfg c))\<rparr>,
     ctx_mode := HCRYPT_CTX_MODE_AESCTR, ctx_status := HCRYPT_CTX_S_SARDY, ctx_msg_info := Some hcryptMsg_SRT_MsgInfo\<rparr>"

lemma passphrase_cfg_facts:
  assumes "passphrase_cfg cfg"
  shows "key_len_ok (hc_key_len cfg)" and "sec_len (hc_secret cfg) \<noteq> 0" and "sec_len (hc_secret cfg) \<le> 80"
    and "length (passphrase_of cfg) = sec_len (hc_secret cfg)"
  using assms by (auto simp: passphrase_cfg_def cfg_rejected_def key_len_ok_def passphrase_of_def)

lemma SetSecret_ok:
  assumes cfg: "passphrase_cfg cfg" and pw: "length (cfg_pwd (ctx_cfg (ctx_pair s i))) = 80"
  shows "hcryptCtx_SetSecret m i (hc_secret cfg) s = Some (0, upd_ctx i (\<lambda>c. c\<lparr>ctx_cfg := \<lparr>cfg_key_len = cfg_key_len (ctx_cfg c),
      cfg_pwd_len = sec_len (hc_secret cfg), cfg_pwd = passphrase_of cfg @ drop (sec_len (hc_secret cfg)) (cfg_pwd (ctx_cfg c))\<rparr>,
      ctx_status := HCRYPT_CTX_S_SARDY\<rparr>) s)"
proof -
  note f = passphrase_cfg_facts [OF cfg]
  have ty: "sec_typ (hc_secret cfg) = HAICRYPT_SECTYP_PASSPHRASE" using cfg by (simp add: passphrase_cfg_def)
  have str: "rd_slice (sec_str (hc_secret cfg)) 0 (sec_len (hc_secret cfg)) = Some (passphrase_of cfg)"
    using cfg f(3) by (simp add: rd_slice_in passphrase_cfg_def passphrase_of_def)
  have wr: "wr (cfg_pwd (ctx_cfg (ctx_pair s i))) 0 (passphrase_of cfg) =
      Some (passphrase_of cfg @ drop (sec_len (hc_secret cfg)) (cfg_pwd (ctx_cfg (ctx_pair s i))))"
    using pw f by (simp add: wr_in)
  show ?thesis
    using ty str wr f(3) by (simp add: hcryptCtx_SetSecret_def upd_ctx_def ctx_pair_def)
qed

lemma Tx_Init_ok:
  assumes "passphrase_cfg cfg" and "ses_msg_info s = hcryptMsg_SRT_MsgInfo" and "length (cfg_pwd (ctx_cfg (ctx_pair s i))) = 80"
  shows "hcryptCtx_Tx_Init m i cfg s = Some (0, upd_ctx i (init_ctx cfg (hc_key_len cfg)) s)"
  using assms by (simp add: hcryptCtx_Tx_Init_def SetSecret_ok) (simp add: upd_ctx_def ctx_pair_def init_ctx_def)

lemma Rx_Init_ok:
  assumes "passphrase_cfg cfg" and "ses_msg_info s = hcryptMsg_SRT_MsgInfo" and "length (cfg_pwd (ctx_cfg (ctx_pair s i))) = 80"
  shows "hcryptCtx_Rx_Init m i (Some cfg) s = Some (0, upd_ctx i (\<lambda>c. init_ctx cfg (cfg_key_len (ctx_cfg c)) c) s)"
  using assms by (simp add: hcryptCtx_Rx_Init_def SetSecret_ok) (simp add: upd_ctx_def ctx_pair_def init_ctx_def)

text \<open>The session as \<open>sHaiCrypt_PrepareHandle\<close> leaves it, with a context before its initialisation.\<close>

definition new_ctx :: "bool \<Rightarrow> nat \<Rightarrow> hcrypt_Ctx" where
  "new_ctx tx i = zero_ctx\<lparr>ctx_flags := (if i = 0 then HCRYPT_MSG_F_eSEK else HCRYPT_MSG_F_oSEK) OR (if tx then HCRYPT_CTX_F_ENCRYPT else 0)\<rparr>"

definition new_session :: "HaiCrypt_Cfg \<Rightarrow> bool \<Rightarrow> 'w \<Rightarrow> ('k, 'w) hcrypt_Session \<Rightarrow> bool" where
  "new_session cfg tx w s \<longleftrightarrow> ctx_even s = new_ctx tx 0 \<and> ctx_odd s = new_ctx tx 1 \<and> ses_ctx s = Null
     \<and> ses_msg_info s = hcryptMsg_SRT_MsgInfo \<and> ses_se s = HCRYPT_SE_TSSRT \<and> world s = w \<and> cb_wf (ses_cb s)
     \<and> outbuf_siz (ses_cb s) = 6 * hcryptMsg_PaddedLen (hc_data_max_len cfg) 16
     \<and> refresh_rate s = hc_km_refresh_rate_pkt cfg \<and> pre_announce s = hc_km_pre_announce_pkt cfg"

lemma PaddedLen_bounds: "len \<le> hcryptMsg_PaddedLen len 16" "hcryptMsg_PaddedLen len 16 \<le> len + 15"
  unfolding hcryptMsg_PaddedLen_def by linarith+

lemma padded_room: "0 < n \<Longrightarrow> n \<le> len \<Longrightarrow> 16 + n \<le> 6 * hcryptMsg_PaddedLen len 16"
proof -
  assume n: "0 < n" "n \<le> len"
  then have "0 < (len + 16 - 1) div 16" by (simp add: div_greater_zero_iff)
  then have "16 \<le> hcryptMsg_PaddedLen len 16" by (simp add: hcryptMsg_PaddedLen_def)
  then show ?thesis using n PaddedLen_bounds(1) [of len] by simp
qed

lemma PrepareHandle_ok:
  assumes mal: "sys_malloc sys w = (True, w1)" "sys_malloc sys w1 = (True, w2)" and cfg: "passphrase_cfg cfg"
  shows "\<exists>s. sHaiCrypt_PrepareHandle m sys cfg tx w = Some (Some s, w2) \<and> new_session cfg tx w2 s"
proof -
  have "6 * hcryptMsg_PaddedLen (hc_data_max_len cfg) 16 < 2 ^ 64"
    using cfg PaddedLen_bounds(2) [of "hc_data_max_len cfg"] by (simp add: passphrase_cfg_def)
  then show ?thesis using mal cfg
    by (simp add: sHaiCrypt_PrepareHandle_def crysprFallback_Open_def Let_def cb_wf_def new_session_def new_ctx_def passphrase_cfg_def cfg_rejected_def)
qed

lemma init_ctx_wf:
  assumes cfg: "passphrase_cfg cfg"
  shows "ctx_wf (init_ctx cfg n (new_ctx tx i))"
  using passphrase_cfg_facts [OF cfg] by (simp add: ctx_wf_def init_ctx_def new_ctx_def zero_ctx_def)

text \<open>The session once both contexts have the passphrase; \<open>n\<close> is the configured key length, or 0.\<close>

definition ready_session :: "HaiCrypt_Cfg \<Rightarrow> bool \<Rightarrow> nat \<Rightarrow> ('k, 'w) hcrypt_Session \<Rightarrow> ('k, 'w) hcrypt_Session" where
  "ready_session cfg tx n s = s\<lparr>ctx_even := init_ctx cfg n (new_ctx tx 0), ctx_odd := init_ctx cfg n (new_ctx tx 1)\<rparr>"

lemma init_both:
  assumes cfg: "passphrase_cfg cfg" and new: "new_session cfg tx w s"
  shows "tx_init_both m cfg s = Some (0, ready_session cfg tx (hc_key_len cfg) s)"
    and "rx_init_both m (Some cfg) s = Some (0, ready_session cfg tx 0 s)"
proof -
  have c: "ctx_pair s 0 = new_ctx tx 0" "ctx_pair s (Suc 0) = new_ctx tx (Suc 0)" "ctx_pair (upd_ctx 0 f s) (Suc 0) = new_ctx tx (Suc 0)" and mi: "ses_msg_info s = hcryptMsg_SRT_MsgInfo"
    for f using new by (simp_all add: new_session_def ctx_pair_def upd_ctx_def)
  have l: "length (cfg_pwd (ctx_cfg (new_ctx tx i))) = 80" "cfg_key_len (ctx_cfg (new_ctx tx i)) = 0" for i
    by (simp_all add: new_ctx_def zero_ctx_def)
  show "tx_init_both m cfg s = Some (0, ready_session cfg tx (hc_key_len cfg) s)"
    using new by (simp add: tx_init_both_def Tx_Init_ok [OF cfg] c l mi)
      (simp add: ready_session_def upd_ctx_def ctx_pair_def new_session_def)
  show "rx_init_both m (Some cfg) s = Some (0, ready_session cfg tx 0 s)"
    using new by (simp add: rx_init_both_def Rx_Init_ok [OF cfg] c l mi)
      (simp add: ready_session_def upd_ctx_def ctx_pair_def new_session_def l)
qed

lemma ready_session_wf:
  assumes cfg: "passphrase_cfg cfg" and new: "new_session cfg tx w s"
  shows "ses_wf (ready_session cfg tx n s)"
proof -
  have "ctx_flags (init_ctx cfg n (new_ctx tx 0)) AND 3 = 1" "ctx_flags (init_ctx cfg n (new_ctx tx 1)) AND 3 = 2"
    by (cases tx; simp add: init_ctx_def new_ctx_def)+
  then show ?thesis using new init_ctx_wf [OF cfg]
    by (simp add: ses_wf_def ready_session_def new_session_def)
qed

lemma ready_session_simps [simp]:
  "ctx_pair (ready_session cfg tx n s) 0 = init_ctx cfg n (new_ctx tx 0)"
  "ctx_pair (ready_session cfg tx n s) (Suc 0) = init_ctx cfg n (new_ctx tx (Suc 0))"
  "ses_ctx (ready_session cfg tx n s) = ses_ctx s" "world (ready_session cfg tx n s) = world s"
  "ses_cb (ready_session cfg tx n s) = ses_cb s" "refresh_rate (ready_session cfg tx n s) = refresh_rate s"
  "pre_announce (ready_session cfg tx n s) = pre_announce s"
  by (simp_all add: ready_session_def ctx_pair_def)

lemma init_ctx_simps [simp]:
  "cfg_key_len (ctx_cfg (init_ctx cfg n c)) = n" "cfg_pwd_len (ctx_cfg (init_ctx cfg n c)) = sec_len (hc_secret cfg)"
  "ctx_status (init_ctx cfg n c) = HCRYPT_CTX_S_SARDY" "ctx_flags (init_ctx cfg n c) = ctx_flags c"
  "ctx_salt_len (init_ctx cfg n c) = ctx_salt_len c" "ctx_sek_len (init_ctx cfg n c) = ctx_sek_len c"
  by (simp_all add: init_ctx_def)

lemma take_passphrase:
  assumes "passphrase_cfg cfg"
  shows "take (sec_len (hc_secret cfg)) (cfg_pwd (ctx_cfg (init_ctx cfg n c))) = passphrase_of cfg"
  using passphrase_cfg_facts [OF assms] by (simp add: init_ctx_def)

section \<open>The sender\<close>

context haicrypt
begin

text \<open>
  A context with the passphrase is given a random salt and a random key, and the message that
  announces them, when the other context has no key yet.
\<close>

lemma Rekey_ok:
  assumes wf: "ses_wf s" and i: "i < 2" and kl: "key_len_ok (cfg_key_len (ctx_cfg (ctx_pair s i)))"
    and pwd: "cfg_pwd_len (ctx_cfg (ctx_pair s i)) \<noteq> 0" and enc: "has_flag HCRYPT_CTX_F_ENCRYPT (ctx_pair s i)"
    and st: "HCRYPT_CTX_S_SARDY \<le> ctx_status (ctx_pair s i)" and alt: "ctx_status (ctx_pair s (alt i)) < HCRYPT_CTX_S_KEYED"
    and rnd: "\<And>n w. 0 \<le> fst (prng m n w)"
    and pbk: "kdf_works m"
  shows "\<exists>s' c'. hcryptCtx_Tx_Rekey m i s = Some (0, s') \<and> ctx_pair s' i = c' \<and> ctx_pair s' (alt i) = ctx_pair s (alt i)
    \<and> ses_wf s' \<and> ses_ctx s' = ses_ctx s
    \<and> refresh_rate s' = refresh_rate s \<and> pre_announce s' = pre_announce s \<and> outbuf_siz (ses_cb s') = outbuf_siz (ses_cb s)
    \<and> ctx_status c' = HCRYPT_CTX_S_KEYED \<and> ctx_pkt_cnt c' = 1 \<and> ctx_cfg c' = ctx_cfg (ctx_pair s i) \<and> ctx_flags c' = ctx_flags (ctx_pair s i)
    \<and> ctx_sek_len c' = cfg_key_len (ctx_cfg (ctx_pair s i)) \<and> can_announce m s' i
    \<and> keyed m True (take (ctx_sek_len c') (ctx_sek c')) (aes_sek (ses_cb s') i)
    \<and> (\<exists>s2 s3. hcryptCtx_Tx_AsmKM m i None s2 = Some (0, s3) \<and> can_announce m s2 i \<and> kept_message s' i = kept_message s3 i
         \<and> ctx_pair s2 i = (c'\<lparr>ctx_KMmsg_len := ctx_KMmsg_len (ctx_pair s i), ctx_KMmsg_cache := ctx_KMmsg_cache (ctx_pair s i),
              ctx_pkt_cnt := ctx_pkt_cnt (ctx_pair s i), ctx_status := ctx_status (ctx_pair s i)\<rparr>))"
proof -
  define c where "c = ctx_pair s i"
  define kl' where "kl' = cfg_key_len (ctx_cfg c)"
  have cw: "ctx_wf c" using ses_wf_ctx [OF wf] by (simp add: c_def)
  obtain r1 rn1 w1 where 1: "prng m HAICRYPT_SALT_SZ (world s) = (r1, rn1, w1)" by (rule prod_cases3)
  obtain r2 rn2 w2 where 2: "prng m kl' w1 = (r2, rn2, w2)" by (rule prod_cases3)
  have pos: "\<not> 0 > r1" "\<not> 0 > r2" using rnd [of "HAICRYPT_SALT_SZ" "world s"] rnd [of kl' w1] 1 2 by simp_all
  have k32: "kl' \<le> 32" "kl' \<noteq> 0" using kl by (auto simp: kl'_def c_def key_len_ok_def)
  obtain salt where salt: "wr (ctx_salt c) 0 (take HAICRYPT_SALT_SZ rn1) = Some salt" "length salt = 16"
    using cw by (simp add: wr_in ctx_wf_def)
  obtain sek where sek: "wr (ctx_sek c) 0 (take kl' rn2) = Some sek" "length sek = 32"
    using cw k32 by (simp add: wr_in ctx_wf_def)
  define f where "f = (\<lambda>c :: hcrypt_Ctx. c\<lparr>ctx_salt_len := 16, ctx_salt := salt, ctx_sek_len := kl', ctx_sek := sek\<rparr>)"
  define s1 where "s1 = upd_ctx i f (s\<lparr>world := w2\<rparr>)"
  have c1: "ctx_pair s1 i = f c" "ctx_pair s1 (alt i) = ctx_pair s (alt i)"
    using alt_other [OF i] by (simp_all add: s1_def c_def)
  have run: "hcryptCtx_Tx_Rekey m i s = tx_install_key m i s1"
    using 1 2 pos salt(1) sek(1) st unfolding hcryptCtx_Tx_Rekey_def
    by (simp add: c_def [symmetric] kl'_def [symmetric] Let_def) (simp add: s1_def f_def upd_ctx_def)
  have wf1: "ses_wf s1" unfolding s1_def
    using cw wf salt(2) sek(2) by (intro ses_wf_upd_same) (simp_all add: ses_wf_def f_def ctx_wf_def c_def [symmetric])
  have pre: "key_len_ok (ctx_sek_len (ctx_pair s1 i))" "ctx_salt_len (ctx_pair s1 i) = 16"
    "cfg_pwd_len (ctx_cfg (ctx_pair s1 i)) \<noteq> 0" "has_flag HCRYPT_CTX_F_ENCRYPT (ctx_pair s1 i)"
    "ctx_status (ctx_pair s1 (alt i)) < HCRYPT_CTX_S_KEYED"
    using kl pwd enc assms(7) by (simp_all add: c1 f_def kl'_def c_def has_flag_def)
  have dk: "fst (derived_kek m (ctx_pair s1 i)) = 0" by (rule derived_kek_works [OF pbk ses_wf_ctx [OF wf1] pre(1)])
  from install_key_ok [OF wf1 i pre(1-4) dk pre(5)] obtain cb len cache where
    3: "tx_install_key m i s1 = Some (0, upd_ctx i (\<lambda>c. c\<lparr>ctx_KMmsg_len := len, ctx_KMmsg_cache := cache,
        ctx_pkt_cnt := 1, ctx_status := HCRYPT_CTX_S_KEYED\<rparr>) (s1\<lparr>ses_cb := cb\<rparr>))"
    and cache: "length cache = 120" "len \<le> 120" and cb: "cb_wf cb" "outbuf_siz cb = outbuf_siz (ses_cb s1)"
    and asm: "hcryptCtx_Tx_AsmKM m i None (s1\<lparr>ses_cb := cb\<rparr>) =
        Some (0, upd_ctx i (\<lambda>c. c\<lparr>ctx_KMmsg_len := len, ctx_KMmsg_cache := cache\<rparr>) (s1\<lparr>ses_cb := cb\<rparr>))"
    and kek: "keyed m True (snd (derived_kek m (ctx_pair s1 i))) (aes_kek cb)"
      "keyed m True (take (ctx_sek_len (ctx_pair s1 i)) (ctx_sek (ctx_pair s1 i))) (aes_sek cb i)"
    by (elim exE conjE) (rule that)
  define s2 where "s2 = s1\<lparr>ses_cb := cb\<rparr>"
  define s3 where "s3 = upd_ctx i (\<lambda>c. c\<lparr>ctx_KMmsg_len := len, ctx_KMmsg_cache := cache\<rparr>) s2"
  define s' where "s' = upd_ctx i (\<lambda>c. c\<lparr>ctx_KMmsg_len := len, ctx_KMmsg_cache := cache,
        ctx_pkt_cnt := 1, ctx_status := HCRYPT_CTX_S_KEYED\<rparr>) s2"
  have wf2: "ses_wf s2" unfolding s2_def by (rule ses_wf_cb [OF wf1 cb(1)])
  have c2: "ctx_pair s2 i = f c" using c1 by (simp add: s2_def)
  have wf': "ses_wf s'" unfolding s'_def
    using ses_wf_ctx [OF wf2, of i] cache by (intro ses_wf_upd_same [OF wf2]) (simp_all add: ctx_wf_def)
  have ca: "can_announce m s2 i" "can_announce m s' i"
    using wf2 wf' pre dk kek(1) by (simp_all add: can_announce_def Let_def s'_def c2 c1 s2_def derived_kek_def pbkdf_salt_def)
  have sent: "\<exists>s2 s3. hcryptCtx_Tx_AsmKM m i None s2 = Some (0, s3) \<and> can_announce m s2 i \<and> kept_message s' i = kept_message s3 i
      \<and> ctx_pair s2 i = (ctx_pair s' i)\<lparr>ctx_KMmsg_len := ctx_KMmsg_len (ctx_pair s i), ctx_KMmsg_cache := ctx_KMmsg_cache (ctx_pair s i),
           ctx_pkt_cnt := ctx_pkt_cnt (ctx_pair s i), ctx_status := ctx_status (ctx_pair s i)\<rparr>"
    using asm ca(1) by (intro exI [of _ s2] exI [of _ s3])
      (simp add: s3_def s'_def kept_message_def c2 c_def [symmetric], simp add: s2_def f_def)
  have key: "keyed m True (take (ctx_sek_len (ctx_pair s' i)) (ctx_sek (ctx_pair s' i))) (aes_sek (ses_cb s') i)"
    using kek(2) by (simp add: s'_def c2 c1) (simp add: s2_def)
  have run': "hcryptCtx_Tx_Rekey m i s = Some (0, s')" by (simp add: run 3 s'_def s2_def)
  show ?thesis
    by (intro exI [of _ s'] exI [of _ "ctx_pair s' i"] conjI run' refl ca(2) wf' key sent)
      (use cb c1 alt_other [OF i] in \<open>simp_all add: s'_def s2_def s1_def f_def c_def kl'_def\<close>)
qed

text \<open>
  A sender's session: the state the stream of packets starts from, with the message that
  announces the first key ready.
\<close>

lemma Create_tx:
  assumes cfg: "passphrase_cfg cfg" and tx: "(HAICRYPT_CFG_F_TX AND hc_flags cfg) \<noteq> 0"
    and rates: "rates_ok (hc_km_refresh_rate_pkt cfg) (hc_km_pre_announce_pkt cfg)"
    and mal: "sys_malloc sys w = (True, w1)" "sys_malloc sys w1 = (True, w2)"
    and rnd: "\<And>n w. 0 \<le> fst (prng m n w)"
    and pbk: "kdf_works m"
  shows "\<exists>s w'. HaiCrypt_Create m sys cfg w = Some (0, Some s, w') \<and> tx_state m 0 0 s \<and> ctx_pkt_cnt (ctx_pair s 0) = 1
    \<and> outbuf_siz (ses_cb s) = 6 * hcryptMsg_PaddedLen (hc_data_max_len cfg) 16 \<and> refresh_rate s = hc_km_refresh_rate_pkt cfg
    \<and> pre_announce s = hc_km_pre_announce_pkt cfg \<and> has_flag HCRYPT_CTX_F_TTSEND (ctx_pair s 0) \<and> ctx_sek_len (ctx_pair s 0) = hc_key_len cfg
    \<and> take (cfg_pwd_len (ctx_cfg (ctx_pair s 0))) (cfg_pwd (ctx_cfg (ctx_pair s 0))) = passphrase_of cfg
    \<and> keyed m True (take (hc_key_len cfg) (ctx_sek (ctx_pair s 0))) (aes_sek (ses_cb s) 0)
    \<and> (\<exists>s2 s3. hcryptCtx_Tx_AsmKM m 0 None s2 = Some (0, s3) \<and> can_announce m s2 0 \<and> kept_message s 0 = kept_message s3 0
         \<and> (let c = ctx_pair s 0; d = ctx_pair s2 0 in ctx_cfg d = ctx_cfg c \<and> ctx_salt_len d = ctx_salt_len c \<and> ctx_salt d = ctx_salt c
             \<and> ctx_sek_len d = ctx_sek_len c \<and> ctx_sek d = ctx_sek c))"
proof -
  note f = passphrase_cfg_facts [OF cfg]
  obtain s0 where s0: "sHaiCrypt_PrepareHandle m sys cfg True w = Some (Some s0, w2)" "new_session cfg True w2 s0"
    using PrepareHandle_ok [OF mal cfg] by blast
  define s1 where "s1 = ready_session cfg True (hc_key_len cfg) s0"
  have wf1: "ses_wf s1" unfolding s1_def by (rule ready_session_wf [OF cfg s0(2)])
  have c1: "ctx_pair s1 0 = init_ctx cfg (hc_key_len cfg) (new_ctx True 0)"
    "ctx_pair s1 (alt 0) = init_ctx cfg (hc_key_len cfg) (new_ctx True 1)" by (simp_all add: s1_def alt_def)
  have enc: "has_flag HCRYPT_CTX_F_ENCRYPT (ctx_pair s1 0)"
    by (simp add: c1 has_flag_def new_ctx_def bit.conj_disj_distrib2)
  have pre: "(0 :: nat) < 2" "key_len_ok (cfg_key_len (ctx_cfg (ctx_pair s1 0)))" "cfg_pwd_len (ctx_cfg (ctx_pair s1 0)) \<noteq> 0"
    "HCRYPT_CTX_S_SARDY \<le> ctx_status (ctx_pair s1 0)" "ctx_status (ctx_pair s1 (alt 0)) < HCRYPT_CTX_S_KEYED"
    using f unfolding c1 by simp_all
  obtain s2 c' a b where rk: "hcryptCtx_Tx_Rekey m 0 s1 = Some (0, s2)" "ctx_pair s2 0 = c'" "ctx_pair s2 (alt 0) = ctx_pair s1 (alt 0)"
    and wf2: "ses_wf s2" "ses_ctx s2 = ses_ctx s1" "refresh_rate s2 = refresh_rate s1" "pre_announce s2 = pre_announce s1"
      "outbuf_siz (ses_cb s2) = outbuf_siz (ses_cb s1)"
    and c': "ctx_status c' = HCRYPT_CTX_S_KEYED" "ctx_pkt_cnt c' = 1" "ctx_cfg c' = ctx_cfg (ctx_pair s1 0)" "ctx_flags c' = ctx_flags (ctx_pair s1 0)"
      "ctx_sek_len c' = cfg_key_len (ctx_cfg (ctx_pair s1 0))"
    and ann: "can_announce m s2 0" and key: "keyed m True (take (ctx_sek_len c') (ctx_sek c')) (aes_sek (ses_cb s2) 0)"
    and sent: "hcryptCtx_Tx_AsmKM m 0 None a = Some (0, b)" "can_announce m a 0" "kept_message s2 0 = kept_message b 0"
      "ctx_pair a 0 = (c'\<lparr>ctx_KMmsg_len := ctx_KMmsg_len (ctx_pair s1 0), ctx_KMmsg_cache := ctx_KMmsg_cache (ctx_pair s1 0),
              ctx_pkt_cnt := ctx_pkt_cnt (ctx_pair s1 0), ctx_status := ctx_status (ctx_pair s1 0)\<rparr>)"
    using Rekey_ok [OF wf1 pre(1,2,3) enc pre(4,5) rnd pbk] by (elim exE conjE) (rule that)
  define s where "s = tx_activate s2"
  have cr: "HaiCrypt_Create m sys cfg w = Some (0, Some s, world s2)"
    using cfg tx s0(1) init_both(1) [OF cfg s0(2)] rk(1)
    by (simp add: HaiCrypt_Create_def Let_def passphrase_cfg_def s_def s1_def [symmetric])
  have cs: "ctx_pair s 0 = (set_flag (HCRYPT_CTX_F_ANNOUNCE OR HCRYPT_CTX_F_TTSEND) c')\<lparr>ctx_status := HCRYPT_CTX_S_ACTIVE\<rparr>"
    "ctx_pair s (alt 0) = ctx_pair s1 (alt 0)"
    using rk(2,3) by (simp_all add: s_def tx_activate_def ctx_pair_def upd_ctx_def alt_def)
  have sk: "ses_cb s = ses_cb s2" "ses_ctx s = Own 0" "refresh_rate s = hc_km_refresh_rate_pkt cfg" "pre_announce s = hc_km_pre_announce_pkt cfg"
    using wf2 s0(2) by (simp_all add: s_def tx_activate_def s1_def new_session_def)
  have wfs: "ses_wf s"
  proof -
    have "ses_wf (s2\<lparr>ses_ctx := Own 0\<rparr>)" using wf2(1) by (simp add: ses_wf_def)
    then show ?thesis unfolding s_def tx_activate_def
      using ses_wf_ctx [OF wf2(1), of 0] flag_key_bits(3) [of "ctx_pair s2 0"] by (intro ses_wf_upd) simp_all
  qed
  have kek: "kek_ready m (ses_cb s)" unfolding kek_ready_def sk(1)
    using ann derived_kek_length [of c'] unfolding can_announce_def Let_def rk(2)
    by (intro exI [of _ "snd (derived_kek m c')"]) simp
  have noann: "\<not> has_flag HCRYPT_CTX_F_ANNOUNCE (ctx_pair s (alt 0))"
    unfolding cs c1 by (simp add: has_flag_def new_ctx_def bit.conj_disj_distrib2)
  have "tx_pair (refresh_rate s) (pre_announce s) 0 (ctx_pair s 0) (ctx_pair s (alt 0))"
    using c' f(1) noann unfolding tx_pair_def cs c1 by (simp add: c1)
  then have st: "tx_state m 0 0 s" using wfs sk kek rates by (simp add: tx_state_def)
  have out: "outbuf_siz (ses_cb s) = 6 * hcryptMsg_PaddedLen (hc_data_max_len cfg) 16"
    using s0(2) wf2 by (simp add: sk s1_def new_session_def)
  have km: "kept_message s 0 = kept_message s2 0" using rk(2) by (simp add: kept_message_def cs) (simp add: set_flag_def)
  have tt: "has_flag HCRYPT_CTX_F_TTSEND (ctx_pair s 0)"
    by (simp add: cs has_flag_def set_flag_def bit.conj_disj_distrib2 and.assoc)
  have sel: "ctx_cfg (ctx_pair s 0) = ctx_cfg (ctx_pair s1 0)" "ctx_sek (ctx_pair s 0) = ctx_sek c'" "ctx_salt (ctx_pair s 0) = ctx_salt c'"
    "ctx_salt_len (ctx_pair s 0) = ctx_salt_len c'" "ctx_sek_len (ctx_pair s 0) = hc_key_len cfg" "ctx_sek_len c' = hc_key_len cfg"
    using c' by (simp_all add: cs c1) (simp_all add: set_flag_def)
  have pw: "take (cfg_pwd_len (ctx_cfg (ctx_pair s 0))) (cfg_pwd (ctx_cfg (ctx_pair s 0))) = passphrase_of cfg"
    by (simp add: sel(1) c1 take_passphrase [OF cfg])
  have ann': "\<exists>s2 s3. hcryptCtx_Tx_AsmKM m 0 None s2 = Some (0, s3) \<and> can_announce m s2 0 \<and> kept_message s 0 = kept_message s3 0
      \<and> (let c = ctx_pair s 0; d = ctx_pair s2 0 in ctx_cfg d = ctx_cfg c \<and> ctx_salt_len d = ctx_salt_len c \<and> ctx_salt d = ctx_salt c
          \<and> ctx_sek_len d = ctx_sek_len c \<and> ctx_sek d = ctx_sek c)"
    unfolding Let_def using sent c'(3) sel km by (intro exI [of _ a] exI [of _ b]) simp
  show ?thesis
    by (intro exI [of _ s] exI [of _ "world s2"] conjI cr st out tt pw ann' sel(5) sk(3,4))
      (use key c'(2) sel(2,6) sk(1) cs(1) in simp_all)
qed

text \<open>A receiver's session takes the message of any sender with the same passphrase.\<close>

lemma Create_rx:
  assumes cfg: "passphrase_cfg cfg" and rx: "(HAICRYPT_CFG_F_TX AND hc_flags cfg) = 0"
    and mal: "sys_malloc sys w = (True, w1)" "sys_malloc sys w1 = (True, w2)"
  shows "\<exists>r. HaiCrypt_Create m sys cfg w = Some (0, Some r, w2) \<and> ses_wf r \<and> ses_ctx r = Null
    \<and> outbuf_siz (ses_cb r) = 6 * hcryptMsg_PaddedLen (hc_data_max_len cfg) 16
    \<and> (\<forall>i. ctx_status (ctx_pair r i) = HCRYPT_CTX_S_SARDY \<and> cfg_pwd_len (ctx_cfg (ctx_pair r i)) \<noteq> 0
         \<and> \<not> has_flag HCRYPT_CTX_F_ENCRYPT (ctx_pair r i))
    \<and> (\<forall>c. take (cfg_pwd_len (ctx_cfg c)) (cfg_pwd (ctx_cfg c)) = passphrase_of cfg \<longrightarrow> ctx_salt_len c \<noteq> 0 \<longrightarrow> can_receive m r c)"
proof -
  note f = passphrase_cfg_facts [OF cfg]
  obtain s0 where s0: "sHaiCrypt_PrepareHandle m sys cfg False w = Some (Some s0, w2)" "new_session cfg False w2 s0"
    using PrepareHandle_ok [OF mal cfg] by blast
  define r where "r = ready_session cfg False 0 s0"
  have wf: "ses_wf r" unfolding r_def by (rule ready_session_wf [OF cfg s0(2)])
  have cr: "HaiCrypt_Create m sys cfg w = Some (0, Some r, w2)"
    using cfg rx s0 init_both(2) [OF cfg s0(2)]
    by (simp add: HaiCrypt_Create_def Let_def passphrase_cfg_def r_def new_session_def)
  have cp: "ctx_pair r i = init_ctx cfg 0 (new_ctx False i)" for i
    by (simp add: r_def ready_session_def ctx_pair_def new_ctx_def)
  have rcv: "can_receive m r c"
    if "take (cfg_pwd_len (ctx_cfg c)) (cfg_pwd (ctx_cfg c)) = passphrase_of cfg" "ctx_salt_len c \<noteq> 0" for c
  proof -
    have "ses_ctx r = Null" using s0(2) by (simp add: r_def new_session_def)
    moreover have "ctx_flags (new_ctx False j) AND HCRYPT_CTX_F_ENCRYPT = 0" "ctx_salt_len (new_ctx False j) = 0" for j
      by (simp_all add: new_ctx_def zero_ctx_def)
    ultimately show ?thesis using wf that f
      by (simp add: can_receive_def cp same_passphrase_def take_passphrase [OF cfg] has_flag_def)
  qed
  have "\<not> has_flag HCRYPT_CTX_F_ENCRYPT (ctx_pair r i)" for i by (simp add: cp has_flag_def new_ctx_def)
  then show ?thesis using cr wf s0(2) rcv f(2) by (intro exI [of _ r]) (auto simp: cp, auto simp: r_def new_session_def)
qed

end

section \<open>A link\<close>

lemma pos2: "(0 :: nat) < 2"
  by simp

text \<open>A Keying Material message is recognised by the receiving API and handed to the parser.\<close>

lemma km_message_nth:
  assumes "i < 16"
  shows "km_message kf se salt n wrap ! i = km_header kf se (length salt) n ! i"
  using assms by (simp add: km_message_def nth_append)

lemma km_message_recognised:
  assumes "bit kf 0 \<or> bit kf 1"
  shows "hcryptMsg_SRT_ParseMsg (km_message kf HCRYPT_SE_TSSRT salt n wrap) = Some 2"
    and "hcryptMsg_GetKeyIndex hcryptMsg_SRT_MsgInfo (km_message kf HCRYPT_SE_TSSRT salt n wrap) = Some 0"
proof -
  have l: "16 \<le> length (km_message kf HCRYPT_SE_TSSRT salt n wrap)" by (simp add: km_message_def)
  show "hcryptMsg_SRT_ParseMsg (km_message kf HCRYPT_SE_TSSRT salt n wrap) = Some 2"
    using assms unfolding hcryptMsg_SRT_ParseMsg_spec [OF l] by (simp add: km_message_nth km_header_def)
  show "hcryptMsg_GetKeyIndex hcryptMsg_SRT_MsgInfo (km_message kf HCRYPT_SE_TSSRT salt n wrap) = Some 0"
    by (simp add: hcryptMsg_GetKeyIndex_def hcryptMsg_SRT_MsgInfo_def hcryptMsg_SRT_base_def hcryptMsg_SRT_GetKeyFlags_def
        load_u32_def rd_def km_message_nth km_header_def km_message_def le32_def)
qed

lemma Rx_Process_KM:
  assumes "hcryptMsg_SRT_ParseMsg msg = Some 2" and "hcryptMsg_GetKeyIndex hcryptMsg_SRT_MsgInfo msg = Some 0"
    and "ses_msg_info r = hcryptMsg_SRT_MsgInfo" and "ctx_status (ctx_pair r 0) < HCRYPT_CTX_S_KEYED"
    and "hcryptCtx_Rx_ParseKM m msg r = Some (iret, r')"
  shows "HaiCrypt_Rx_Process m (Some r) (Some msg) out_p maxout = Some (iret, if out_p then [(Null_out, 0)] else [], Some r')"
  using assms by (simp add: HaiCrypt_Rx_Process_def)

context haicrypt
begin

text \<open>
  Two ends created with the same passphrase: once the receiver was given the message the sender
  keeps for its first key, a packet under that key comes out as it went in.
\<close>

lemma link_up:
  assumes tcfg: "passphrase_cfg tcfg" "(HAICRYPT_CFG_F_TX AND hc_flags tcfg) \<noteq> 0"
      "rates_ok (hc_km_refresh_rate_pkt tcfg) (hc_km_pre_announce_pkt tcfg)"
    and rcfg: "passphrase_cfg rcfg" "(HAICRYPT_CFG_F_TX AND hc_flags rcfg) = 0"
    and same: "passphrase_of tcfg = passphrase_of rcfg"
    and mal: "\<And>w. fst (sys_malloc sys w)"
    and rnd: "\<And>n w. 0 \<le> fst (prng m n w)"
    and pbk: "kdf_works m"
  shows "\<exists>s w' r w'' r'. HaiCrypt_Create m sys tcfg w = Some (0, Some s, w') \<and> HaiCrypt_Create m sys rcfg v = Some (0, Some r, w'')
    \<and> hcryptCtx_Rx_ParseKM m (kept_message s 0) r = Some (0, r') \<and> ses_wf r' \<and> ses_ctx r' = Null
    \<and> HaiCrypt_Rx_Process m (Some r) (Some (kept_message s 0)) False 0 = Some (0, [], Some r')
    \<and> (\<forall>pfx data. 16 \<le> length pfx \<longrightarrow> hcryptMsg_GetKeyIndex hcryptMsg_SRT_MsgInfo pfx = Some 0 \<longrightarrow> data \<noteq> [] \<longrightarrow>
        length data \<le> hc_data_max_len tcfg \<longrightarrow> length data \<le> hc_data_max_len rcfg \<longrightarrow>
        (\<exists>s' cipher r''. HaiCrypt_Tx_Data m (Some s) pfx data = Some (0, s', pfx, cipher) \<and> length cipher = length data
          \<and> HaiCrypt_Rx_Data m (Some r') pfx (Some cipher) = Some (int (length data), Some r'', Some data)))"
proof -
  have mal2: "\<exists>w1 w2. sys_malloc sys w = (True, w1) \<and> sys_malloc sys w1 = (True, w2)" for w
    using mal by (metis prod.collapse)
  obtain w1 w2 where mt: "sys_malloc sys w = (True, w1)" "sys_malloc sys w1 = (True, w2)" using mal2 by blast
  obtain v1 v2 where mr: "sys_malloc sys v = (True, v1)" "sys_malloc sys v1 = (True, v2)" using mal2 by blast
  obtain s w' a b where s: "HaiCrypt_Create m sys tcfg w = Some (0, Some s, w')" "tx_state m 0 0 s"
    and so: "outbuf_siz (ses_cb s) = 6 * hcryptMsg_PaddedLen (hc_data_max_len tcfg) 16" "ctx_sek_len (ctx_pair s 0) = hc_key_len tcfg"
    and pw: "take (cfg_pwd_len (ctx_cfg (ctx_pair s 0))) (cfg_pwd (ctx_cfg (ctx_pair s 0))) = passphrase_of tcfg"
    and key: "keyed m True (take (hc_key_len tcfg) (ctx_sek (ctx_pair s 0))) (aes_sek (ses_cb s) 0)"
    and asm: "hcryptCtx_Tx_AsmKM m 0 None a = Some (0, b)" "can_announce m a 0" "kept_message s 0 = kept_message b 0"
    and ac: "ctx_cfg (ctx_pair a 0) = ctx_cfg (ctx_pair s 0)" "ctx_salt_len (ctx_pair a 0) = ctx_salt_len (ctx_pair s 0)"
      "ctx_salt (ctx_pair a 0) = ctx_salt (ctx_pair s 0)" "ctx_sek_len (ctx_pair a 0) = ctx_sek_len (ctx_pair s 0)"
      "ctx_sek (ctx_pair a 0) = ctx_sek (ctx_pair s 0)"
    using Create_tx [OF tcfg mt rnd pbk] unfolding Let_def by (elim exE conjE) (rule that)
  obtain r where r: "HaiCrypt_Create m sys rcfg v = Some (0, Some r, v2)" "ses_wf r" "ses_ctx r = Null"
    and ro: "outbuf_siz (ses_cb r) = 6 * hcryptMsg_PaddedLen (hc_data_max_len rcfg) 16" "\<forall>i. ctx_status (ctx_pair r i) = HCRYPT_CTX_S_SARDY
        \<and> cfg_pwd_len (ctx_cfg (ctx_pair r i)) \<noteq> 0 \<and> \<not> has_flag HCRYPT_CTX_F_ENCRYPT (ctx_pair r i)"
    and rc: "\<forall>c. take (cfg_pwd_len (ctx_cfg c)) (cfg_pwd (ctx_cfg c)) = passphrase_of rcfg \<longrightarrow> ctx_salt_len c \<noteq> 0 \<longrightarrow> can_receive m r c"
    using Create_rx [OF rcfg mr] by (elim exE conjE) (rule that)
  have asl: "ctx_salt_len (ctx_pair a 0) = 16" using asm(2) by (simp add: can_announce_def Let_def)
  have "can_receive m r (ctx_pair a 0)" using rc pw same asl by (simp add: ac(1))
  then obtain r' where r': "hcryptCtx_Rx_ParseKM m (kept_message s 0) r = Some (0, r')" "ses_wf r'" "same_session r r'"
      "ctx_status (ctx_pair r' 0) = HCRYPT_CTX_S_KEYED"
      "has_key m r' 0 (take (hc_key_len tcfg) (ctx_sek (ctx_pair s 0))) (ctx_salt (ctx_pair s 0))"
    using key_exchange [OF asm(2) pos2 _, of None r] asm(1,3) ac so(2) by auto
  define c where "c = ctx_pair s 0"
  have swf: "ses_wf s" "ses_ctx s = Own 0" using s(2) by (simp_all add: tx_state_def)
  have cw: "ctx_wf c" using ses_wf_ctx [OF swf(1)] by (simp add: c_def)
  have kl: "key_len_ok (hc_key_len tcfg)" by (rule passphrase_cfg_facts(1) [OF tcfg(1)])
  define sek where "sek = take (hc_key_len tcfg) (ctx_sek c)"
  have sekl: "length sek = hc_key_len tcfg" using cw kl by (auto simp: sek_def ctx_wf_def key_len_ok_def)
  have hk: "has_key m s 0 sek (ctx_salt c)"
    using key so(2) asl ac(2) cw sekl by (simp add: has_key_def Let_def c_def [symmetric] ctx_wf_def) (simp add: sek_def)
  have rx: "HaiCrypt_Rx_Process m (Some r) (Some (kept_message s 0)) False 0 = Some (0, [], Some r')"
  proof -
    obtain wrap where km: "kept_message s 0 = km_message (km_kflags (ctx_pair a 0) None) (ses_se a) (ctx_salt (ctx_pair a 0)) (ctx_sek_len (ctx_pair a 0)) wrap"
      using AsmKM_kept [OF asm(2) pos2, of None] asm(1,3) by auto
    have awf: "ses_wf a" using asm(2) by (simp add: can_announce_def)
    then have "ses_se a = HCRYPT_SE_TSSRT" "km_kflags (ctx_pair a 0) None = 1"
      using km_kflags_bits(2) [OF awf pos2, of None] by (simp_all add: ses_wf_def)
    with km have "hcryptMsg_SRT_ParseMsg (kept_message s 0) = Some 2" "hcryptMsg_GetKeyIndex hcryptMsg_SRT_MsgInfo (kept_message s 0) = Some 0"
      using km_message_recognised [of 1] by simp_all
    then show ?thesis using Rx_Process_KM [OF _ _ _ _ r'(1), of False 0] r(2) ro(2) by (simp add: ses_wf_def)
  qed
  have trip: "\<exists>s' cipher r''. HaiCrypt_Tx_Data m (Some s) pfx data = Some (0, s', pfx, cipher) \<and> length cipher = length data
      \<and> HaiCrypt_Rx_Data m (Some r') pfx (Some cipher) = Some (int (length data), Some r'', Some data)"
    if "16 \<le> length pfx" "hcryptMsg_GetKeyIndex hcryptMsg_SRT_MsgInfo pfx = Some 0" "data \<noteq> []"
      "length data \<le> hc_data_max_len tcfg" "length data \<le> hc_data_max_len rcfg" for pfx data
  proof -
    have k: "HCRYPT_CTX_S_KEYED \<le> ctx_status (ctx_pair r' 0)" "key_len_ok (length sek)" "length (ctx_salt c) = 16"
      "has_key m r' 0 sek (ctx_salt c)"
      using r' kl sekl cw by (simp_all add: ctx_wf_def sek_def c_def)
    have room: "16 + length data \<le> outbuf_siz (ses_cb s)" "length data \<le> outbuf_siz (ses_cb r')"
      using that PaddedLen_bounds(1) [of "hc_data_max_len tcfg"] PaddedLen_bounds(1) [of "hc_data_max_len rcfg"] so(1) ro(1) r'(3)
        padded_room [of "length data" "hc_data_max_len tcfg"] by (auto simp: same_session_def)
    show ?thesis using data_round_trip [OF swf hk r'(2) k(1,4) pos2 k(2,3) that(1,2,3) room] by blast
  qed
  have "ses_ctx r' = Null" using r'(3) r(3) by (simp add: same_session_def)
  then show ?thesis using s(1) r(1) rx trip r'(1,2) by blast
qed

end

end
