(* ===== verification/HcRx.thy ===== *)
theory HcRx
  imports HcExchange
begin

text \<open>
  The receiver against the network: whatever messages arrive, within the size the receiver was
  configured for, every access stays within its buffer, no assertion fails and the session
  stays well formed.
\<close>

section \<open>Decryption is total\<close>

context haicrypt
begin

lemma MsDecrypt_total:
  assumes cb: "cb_wf cb" and ctx: "ctx_ready ctx" and pfx: "16 \<le> length (dd_pfx dd)"
    and len: "dd_len dd = length (dd_payload dd)" "dd_len dd \<le> outbuf_siz cb"
  shows "\<exists>iret cb' dd' out. crysprFallback_MsDecrypt m cb ctx dd out_p = Some (iret, cb', dd', out)
    \<and> cb_wf cb' \<and> outbuf_siz cb' = outbuf_siz cb"
proof (cases "dd_len dd = 0")
  case False
  obtain iv where "packet_iv ctx (dd_pfx dd) = Some iv" using packet_iv_total [OF ctx pfx] by metis
  with False show ?thesis using MsDecrypt_out [OF cb ctx pfx len(1) _ len(2)] by (metis neq0_conv)
next
  case True
  obtain iv where iv: "packet_iv ctx (dd_pfx dd) = Some iv" "length iv = 16" using packet_iv_total [OF ctx pfx] by metis
  then obtain pki where pki: "hcryptMsg_SRT_GetPki (dd_pfx dd) True = Some pki" "hcrypt_SetCtrIV pki (ctx_salt ctx) = Some iv"
    by (auto simp: packet_iv_def bind_eq_Some_conv)
  have fits: "0 + dd_len dd \<le> outbuf_siz cb" using len(2) by simp
  obtain ofs cb1 where g: "crysprFallback_GetOutbuf cb 0 (dd_len dd) = (ofs, cb1)"
    and cb1: "cb1 = cb\<lparr>outbuf_ofs := ofs + (0 + dd_len dd)\<rparr>" and wf1: "cb_wf cb1" and room: "ofs \<le> outbuf_siz cb"
    using GetOutbuf_in [OF cb fits] by (metis add_leE)
  have nil: "snd (aes_ctr_cipher m False k iv []) = []" for k using ctr_length [OF iv(2), of False k "[]"] by simp
  have "ms_ctr m False cb1 ctx hcryptMsg_SRT_MsgInfo dd 0 ofs (stack_len m) = Some (Inr (ofs, 0, cb1))"
    using pki True len(1) aesctr room cb by (simp add: ms_ctr_def rd_slice_in nil wr_in cb1 cb_wf_def)
  then have "crysprFallback_MsDecrypt m cb ctx dd out_p = Some (-1, cb1, dd, None)"
    using ctx g by (simp add: crysprFallback_MsDecrypt_def ctx_ready_def)
  then show ?thesis using wf1 cb1 by simp
qed

end

section \<open>Any message\<close>

text \<open>What a receiver keeps between two messages.\<close>

definition rx_state :: "('k, 'w) hcrypt_Session \<Rightarrow> bool" where
  "rx_state r \<longleftrightarrow> ses_wf r \<and> (case ses_ctx r of Foreign _ \<Rightarrow> False | _ \<Rightarrow> True)"

lemma rx_state_own: "rx_state r \<Longrightarrow> ses_ctx r \<noteq> Foreign j"
  by (auto simp: rx_state_def)

lemma rx_state_same: "rx_state r \<Longrightarrow> ses_wf r' \<Longrightarrow> same_session r r' \<Longrightarrow> rx_state r'"
  by (simp add: rx_state_def same_session_def)

lemma rx_state_current:
  assumes "rx_state r" and "i < 2" and "cb_wf cb"
  shows "rx_state (r\<lparr>ses_ctx := Own i, ses_cb := cb\<rparr>)" and "rx_state (r\<lparr>ses_ctx := Own i\<rparr>)"
  using assms by (auto simp: rx_state_def ses_wf_def)

context haicrypt
begin

lemma Rx_Process_safe:
  assumes r: "rx_state r" and len: "16 \<le> length msg" "length msg \<le> outbuf_siz (ses_cb r)"
  shows "\<exists>n outs r'. HaiCrypt_Rx_Process m (Some r) (Some msg) out_p maxout = Some (n, outs, Some r')
    \<and> rx_state r' \<and> outbuf_siz (ses_cb r') = outbuf_siz (ses_cb r)"
proof -
  have wf: "ses_wf r" and mi: "ses_msg_info r = hcryptMsg_SRT_MsgInfo" using r by (simp_all add: rx_state_def ses_wf_def)
  obtain i where i: "hcryptMsg_GetKeyIndex hcryptMsg_SRT_MsgInfo msg = Some i" "i < 2"
    using srt_mi.key_index_total [of msg] srt_mi.key_index_below len(1) by auto
  obtain t where t: "hcryptMsg_SRT_ParseMsg msg = Some t" "t = 2 \<or> t = 1 \<or> t = -1"
    using hcryptMsg_SRT_ParseMsg_spec [OF len(1)] by auto
  define c where "c = ctx_pair r i"
  have cw: "ctx_wf c" using ses_wf_ctx [OF wf] by (simp add: c_def)
  consider "t = -1" | "t = 1" | "t = 2" using t(2) by blast
  then show ?thesis
  proof cases
    case 1
    then show ?thesis using t(1) mi r by (simp add: HaiCrypt_Rx_Process_def)
  next
    case 2
    have sub: "size_sub (length msg) 16 = length msg - 16"
      using len wf by (intro size_sub_le) (auto simp: ses_wf_def cb_wf_def)
    have pay: "rd_slice msg 16 (length msg - 16) = Some (drop 16 msg)" using len(1) by (simp add: rd_slice_in)
    obtain iret cb dd out where d: "crysprFallback_MsDecrypt m (ses_cb r) c
        \<lparr>dd_pfx = msg, dd_payload = drop 16 msg, dd_len = length msg - 16\<rparr> True = Some (iret, cb, dd, out)"
      "cb_wf cb" "outbuf_siz cb = outbuf_siz (ses_cb r)"
      using MsDecrypt_total [OF ses_wf_cbD [OF wf] ctx_wf_ready [OF cw],
          of "\<lparr>dd_pfx = msg, dd_payload = drop 16 msg, dd_len = length msg - 16\<rparr>" True] len
      by (auto simp: le_diff_conv)
    show ?thesis
      using t(1) 2 mi i pay sub d r rx_state_current [OF r i(2) d(2)]
      by (auto simp: HaiCrypt_Rx_Process_def Let_def c_def [symmetric] split: option.splits)
  next
    case 3
    obtain iret r' where p: "hcryptCtx_Rx_ParseKM m msg r = Some (iret, r')" "ses_wf r'" "same_session r r'"
      using ParseKM_safe [OF wf rx_state_own [OF r]] by blast
    have cache: "rd_slice (ctx_KMmsg_cache c) 0 (length msg) = Some (take (length msg) (ctx_KMmsg_cache c))" if "length msg = ctx_KMmsg_len c"
      using cw that by (simp add: ctx_wf_def rd_slice_in)
    show ?thesis
      using t(1) 3 mi i p r rx_state_same [OF r p(2,3)] cache
      by (auto simp: HaiCrypt_Rx_Process_def c_def [symmetric] same_session_def)
  qed
qed

text \<open>Decrypting in place, whatever the header says.\<close>

lemma Rx_Data_safe:
  assumes r: "rx_state r" and len: "16 \<le> length pfx" "length data \<le> outbuf_siz (ses_cb r)"
  shows "\<exists>n r' data'. HaiCrypt_Rx_Data m (Some r) pfx (Some data) = Some (n, Some r', Some data')
    \<and> rx_state r' \<and> outbuf_siz (ses_cb r') = outbuf_siz (ses_cb r)"
proof -
  have wf: "ses_wf r" and mi: "ses_msg_info r = hcryptMsg_SRT_MsgInfo" using r by (simp_all add: rx_state_def ses_wf_def)
  obtain i where i: "hcryptMsg_GetKeyIndex hcryptMsg_SRT_MsgInfo pfx = Some i" "i < 2"
    using srt_mi.key_index_total [of pfx] len(1) by auto
  define c where "c = ctx_pair r i"
  have cw: "ctx_wf c" using ses_wf_ctx [OF wf] by (simp add: c_def)
  obtain iret cb dd out where d: "crysprFallback_MsDecrypt m (ses_cb r) c
      \<lparr>dd_pfx = pfx, dd_payload = data, dd_len = length data\<rparr> False = Some (iret, cb, dd, out)"
    "cb_wf cb" "outbuf_siz cb = outbuf_siz (ses_cb r)"
    using MsDecrypt_total [OF ses_wf_cbD [OF wf] ctx_wf_ready [OF cw],
        of "\<lparr>dd_pfx = pfx, dd_payload = data, dd_len = length data\<rparr>" False] len by auto
  show ?thesis
    using mi i d rx_state_current [OF r i(2) d(2)] by (cases "HCRYPT_CTX_S_KEYED \<le> ctx_status c") (simp_all add: HaiCrypt_Rx_Data_def Let_def c_def [symmetric])
qed

end

section \<open>A stream of messages\<close>

text \<open>The states a receiver can be in, from the one it was created in.\<close>

inductive rx_reach :: "('k, 'w) CRYSPR_methods \<Rightarrow> ('k, 'w) hcrypt_Session \<Rightarrow> ('k, 'w) hcrypt_Session \<Rightarrow> bool"
  for m r0 where
  start: "rx_reach m r0 r0"
| process: "rx_reach m r0 r \<Longrightarrow> 16 \<le> length msg \<Longrightarrow> length msg \<le> outbuf_siz (ses_cb r) \<Longrightarrow>
    HaiCrypt_Rx_Process m (Some r) (Some msg) out_p maxout = Some (n, outs, Some r') \<Longrightarrow> rx_reach m r0 r'"
| data: "rx_reach m r0 r \<Longrightarrow> 16 \<le> length pfx \<Longrightarrow> length data \<le> outbuf_siz (ses_cb r) \<Longrightarrow>
    HaiCrypt_Rx_Data m (Some r) pfx (Some data) = Some (n, Some r', Some data') \<Longrightarrow> rx_reach m r0 r'"

context haicrypt
begin

lemma rx_reach_state:
  assumes "rx_reach m r0 r" and "rx_state r0"
  shows "rx_state r \<and> outbuf_siz (ses_cb r) = outbuf_siz (ses_cb r0)"
  using assms
proof (induction rule: rx_reach.induct)
  case (process r msg out_p maxout n outs r')
  with Rx_Process_safe [of r msg out_p maxout] show ?case by auto
next
  case (data r pfx data n r' data')
  with Rx_Data_safe [of r pfx data] show ?case by auto
qed simp

end

end
