(* ===== verification/HaiCryptProps.thy ===== *)
theory HaiCryptProps
  imports HcCreate HcRx CrysprOpenSSL
begin

text \<open>
  The properties of HaiCrypt over OpenSSL: the two ends of a link, the stream of a sender, and
  what a receiver does with bytes from the network.
\<close>

section \<open>What is relied on\<close>

text \<open>
  \<open>RAND_bytes\<close> returns 1 on success; the memory of the keyed hash is there; allocations succeed.  Where a
  property needs one of these it is a hypothesis.
\<close>

definition rand_works :: "'w rand_bytes \<Rightarrow> bool" where
  "rand_works RAND_bytes \<longleftrightarrow> (\<forall>n w. 0 < fst (RAND_bytes n w))"

definition mem_works :: "hmac_mem \<Rightarrow> bool" where
  "mem_works mem \<longleftrightarrow> (\<forall>site. mem site)"

definition malloc_works :: "'w system \<Rightarrow> bool" where
  "malloc_works sys \<longleftrightarrow> (\<forall>w. fst (sys_malloc sys w))"

lemma Prng_works: "rand_works RAND_bytes \<Longrightarrow> 0 \<le> fst (crysprOpenSSL_Prng RAND_bytes n w)"
  by (simp add: crysprOpenSSL_Prng_def rand_works_def split: prod.splits) (metis fst_conv not_le)

lemma Pbkdf2_works:
  assumes "mem_works mem" and "length pw < 2147483648" and "length salt < 2147483648" and "n < 2147483648"
  shows "fst (crysprOpenSSL_KmPbkdf2 mem pw salt iter n) = 0"
  using assms by (simp add: KmPbkdf2_result hmac_mem_ok_def mem_works_def)

lemma kdf_openssl: "mem_works mem \<Longrightarrow> kdf_works (crysprOpenSSL True kwrap RAND_bytes mem blank junk)"
  unfolding kdf_works_def crysprOpenSSL_fields by (auto intro!: Pbkdf2_works simp: key_len_ok_def)

text \<open>HaiCrypt over OpenSSL, with the key wrap of the library and with HaiCrypt's own.\<close>

interpretation hc_openssl: haicrypt "crysprOpenSSL True True RAND_bytes mem blank junk" for RAND_bytes mem blank junk
  by unfold_locales

interpretation hc_openssl_kw: haicrypt "crysprOpenSSL True False RAND_bytes mem blank junk" for RAND_bytes mem blank junk
  by unfold_locales

section \<open>A link\<close>

text \<open>
  C1: a sender and a receiver created with the same passphrase.  Both are created; the receiver
  accepts the Keying Material message the sender keeps for its first key; and then every packet
  up to the configured size, with the even key in its header, comes out of the receiver's
  \<open>HaiCrypt_Rx_Data\<close> as it went into the sender's \<open>HaiCrypt_Tx_Data\<close>.
\<close>

theorem link_round_trip:
  assumes "passphrase_cfg tcfg" and "(HAICRYPT_CFG_F_TX AND hc_flags tcfg) \<noteq> 0"
    and "rates_ok (hc_km_refresh_rate_pkt tcfg) (hc_km_pre_announce_pkt tcfg)"
    and "passphrase_cfg rcfg" and "(HAICRYPT_CFG_F_TX AND hc_flags rcfg) = 0"
    and "passphrase_of tcfg = passphrase_of rcfg"
    and "malloc_works sys" and "rand_works RAND_bytes" and "mem_works mem"
  shows "let m = crysprOpenSSL True True RAND_bytes mem blank junk in
    \<exists>s w' r w'' r'. HaiCrypt_Create m sys tcfg w = Some (0, Some s, w') \<and> HaiCrypt_Create m sys rcfg v = Some (0, Some r, w'')
    \<and> HaiCrypt_Rx_Process m (Some r) (Some (kept_message s 0)) False 0 = Some (0, [], Some r')
    \<and> (\<forall>pfx data. 16 \<le> length pfx \<longrightarrow> hcryptMsg_GetKeyIndex hcryptMsg_SRT_MsgInfo pfx = Some 0 \<longrightarrow> data \<noteq> [] \<longrightarrow>
        length data \<le> hc_data_max_len tcfg \<longrightarrow> length data \<le> hc_data_max_len rcfg \<longrightarrow>
        (\<exists>s' cipher r''. HaiCrypt_Tx_Data m (Some s) pfx data = Some (0, s', pfx, cipher) \<and> length cipher = length data
          \<and> HaiCrypt_Rx_Data m (Some r') pfx (Some cipher) = Some (int (length data), Some r'', Some data)))"
proof -
  have works: "\<And>w. fst (sys_malloc sys w)" "\<And>n w. 0 \<le> fst (crysprOpenSSL_Prng RAND_bytes n w)"
    "kdf_works (crysprOpenSSL True True RAND_bytes mem blank junk)"
    using assms by (simp_all add: malloc_works_def Prng_works kdf_openssl)
  from hc_openssl.link_up [of tcfg rcfg sys RAND_bytes mem blank junk w v, OF assms(1-6)] works
  show ?thesis unfolding Let_def crysprOpenSSL_fields by blast
qed

text \<open>A passphrase of 16 bytes, and what is relied on, at concrete values.\<close>

definition sample_cfg :: "u32 \<Rightarrow> HaiCrypt_Cfg" where
  "sample_cfg flags = \<lparr>hc_flags = flags, hc_secret = \<lparr>sec_typ = HAICRYPT_SECTYP_PASSPHRASE, sec_len = 16, sec_str = replicate 80 65\<rparr>,
     hc_cryspr = True, hc_key_len = 16, hc_data_max_len = 1456, hc_xport = HAICRYPT_XPT_SRT, hc_km_tx_period_ms = 0,
     hc_km_refresh_rate_pkt = 16, hc_km_pre_announce_pkt = 4\<rparr>"

definition sample_rand :: "unit rand_bytes" where
  "sample_rand n w = (1, replicate n 7, w)"

definition sample_mem :: hmac_mem where
  "sample_mem site = True"

definition sample_sys :: "unit system" where
  "sample_sys = \<lparr>sys_malloc = (\<lambda>w. (True, w)), sys_gettimeofday = (\<lambda>w. (timerclear, w))\<rparr>"

definition sample_lib :: "(CRYSPR_AESCTX, unit) CRYSPR_methods" where
  "sample_lib = crysprOpenSSL True True sample_rand sample_mem (Aes_Ctx blank_key) 0"

lemma sample_works: "malloc_works sample_sys" "rand_works sample_rand" "mem_works sample_mem"
  by (simp_all add: malloc_works_def rand_works_def mem_works_def sample_sys_def sample_rand_def sample_mem_def)

lemma sample_cfg_ok:
  "HAICRYPT_CFG_F_CRYPTO AND flags \<noteq> 0 \<Longrightarrow> passphrase_cfg (sample_cfg flags)"
  "rates_ok (hc_km_refresh_rate_pkt (sample_cfg flags)) (hc_km_pre_announce_pkt (sample_cfg flags))"
  "passphrase_of (sample_cfg flags) = replicate 16 65" "hc_flags (sample_cfg flags) = flags" "hc_data_max_len (sample_cfg flags) = 1456"
  by (simp_all add: sample_cfg_def passphrase_cfg_def cfg_rejected_def rates_ok_def passphrase_of_def)

theorem link_round_trip_witness:
  "\<exists>s w' r w'' r' s' cipher r''. HaiCrypt_Create sample_lib sample_sys (sample_cfg 3) () = Some (0, Some s, w')
    \<and> HaiCrypt_Create sample_lib sample_sys (sample_cfg 2) () = Some (0, Some r, w'')
    \<and> HaiCrypt_Rx_Process sample_lib (Some r) (Some (kept_message s 0)) False 0 = Some (0, [], Some r')
    \<and> HaiCrypt_Tx_Data sample_lib (Some s) (replicate 16 0) [1, 2, 3] = Some (0, s', replicate 16 0, cipher)
    \<and> HaiCrypt_Rx_Data sample_lib (Some r') (replicate 16 0) (Some cipher) = Some (3, Some r'', Some [1, 2, 3])"
proof -
  have t: "passphrase_cfg (sample_cfg 3)" "passphrase_cfg (sample_cfg 2)" by (rule sample_cfg_ok; simp)+
  have f: "HAICRYPT_CFG_F_TX AND hc_flags (sample_cfg 3) \<noteq> 0" "HAICRYPT_CFG_F_TX AND hc_flags (sample_cfg 2) = 0"
    "passphrase_of (sample_cfg 3) = passphrase_of (sample_cfg 2)" by (simp_all add: sample_cfg_ok)
  have ki: "hcryptMsg_GetKeyIndex hcryptMsg_SRT_MsgInfo (replicate 16 0) = Some 0" by code_simp
  note l = link_round_trip [OF t(1) f(1) sample_cfg_ok(2) t(2) f(2) f(3) sample_works, of "Aes_Ctx blank_key" 0 "()" "()",
    unfolded Let_def sample_lib_def [symmetric]]
  from l obtain s w' r w'' r' where 1: "HaiCrypt_Create sample_lib sample_sys (sample_cfg 3) () = Some (0, Some s, w')"
    "HaiCrypt_Create sample_lib sample_sys (sample_cfg 2) () = Some (0, Some r, w'')"
    "HaiCrypt_Rx_Process sample_lib (Some r) (Some (kept_message s 0)) False 0 = Some (0, [], Some r')"
    and trip: "\<And>pfx data. 16 \<le> length pfx \<Longrightarrow> hcryptMsg_GetKeyIndex hcryptMsg_SRT_MsgInfo pfx = Some 0 \<Longrightarrow> data \<noteq> [] \<Longrightarrow>
        length data \<le> 1456 \<Longrightarrow>
        (\<exists>s' cipher r''. HaiCrypt_Tx_Data sample_lib (Some s) pfx data = Some (0, s', pfx, cipher) \<and> length cipher = length data
          \<and> HaiCrypt_Rx_Data sample_lib (Some r') pfx (Some cipher) = Some (int (length data), Some r'', Some data))"
    unfolding sample_cfg_ok(5) by blast
  from trip [of "replicate 16 0" "[1, 2, 3]"] ki 1 show ?thesis by auto
qed

text \<open>The two ends of the sample configurations, and the message between them.\<close>

lemma sample_link:
  obtains s w' r w'' r' where "HaiCrypt_Create sample_lib sample_sys (sample_cfg 3) () = Some (0, Some s, w')"
    and "HaiCrypt_Create sample_lib sample_sys (sample_cfg 2) () = Some (0, Some r, w'')"
    and "hcryptCtx_Rx_ParseKM sample_lib (kept_message s 0) r = Some (0, r')" and "rx_state r'"
proof -
  have t: "passphrase_cfg (sample_cfg 3)" "passphrase_cfg (sample_cfg 2)" by (rule sample_cfg_ok; simp)+
  have f: "HAICRYPT_CFG_F_TX AND hc_flags (sample_cfg 3) \<noteq> 0" "HAICRYPT_CFG_F_TX AND hc_flags (sample_cfg 2) = 0"
    "passphrase_of (sample_cfg 3) = passphrase_of (sample_cfg 2)" by (simp_all add: sample_cfg_ok)
  let ?m = "crysprOpenSSL True True sample_rand sample_mem (Aes_Ctx blank_key) 0"
  have works: "\<And>w. fst (sys_malloc sample_sys w)" "\<And>n w. 0 \<le> fst (prng ?m n w)"
    "kdf_works ?m"
    using sample_works by (simp_all add: malloc_works_def Prng_works kdf_openssl)
  note l = hc_openssl.link_up [OF t(1) f(1) sample_cfg_ok(2) t(2) f(2,3) works, of "()" "()", unfolded sample_lib_def [symmetric]]
  then obtain s w' r w'' r' where 1: "HaiCrypt_Create sample_lib sample_sys (sample_cfg 3) () = Some (0, Some s, w')"
    "HaiCrypt_Create sample_lib sample_sys (sample_cfg 2) () = Some (0, Some r, w'')"
    "hcryptCtx_Rx_ParseKM sample_lib (kept_message s 0) r = Some (0, r')" and 2: "ses_wf r'" "ses_ctx r' = Null"
    by (elim exE conjE) (rule that)
  have "rx_state r'" using 2 by (simp add: rx_state_def)
  with 1 show thesis by (rule that)
qed

text \<open>
  C5: the exchange of keys.  Whenever a sender's context has its salt and key and its key
  encrypting key in place, and a receiver has the same passphrase, the message the sender
  assembles for that context, alone or with the other context's key, is accepted, and the
  receiver's contexts then hold exactly the keys and the salt of the sender's.
\<close>

theorem keys_reach_receiver:
  fixes RAND_bytes mem blank junk
  defines "m \<equiv> crysprOpenSSL True True RAND_bytes mem blank junk"
  assumes "can_announce m s i" and "i < 2" and "case alt_sek of None \<Rightarrow> True | Some as \<Rightarrow> length as = 32"
    and "can_receive m r (ctx_pair s i)"
  shows "\<exists>s' r'. hcryptCtx_Tx_AsmKM m i alt_sek s = Some (0, s') \<and> hcryptCtx_Rx_ParseKM m (kept_message s' i) r = Some (0, r')
    \<and> ses_wf r' \<and> ctx_status (ctx_pair r' i) = HCRYPT_CTX_S_KEYED
    \<and> has_key m r' i (take (ctx_sek_len (ctx_pair s i)) (ctx_sek (ctx_pair s i))) (ctx_salt (ctx_pair s i))
    \<and> (\<forall>as. alt_sek = Some as \<longrightarrow> ctx_status (ctx_pair r' (alt i)) = HCRYPT_CTX_S_KEYED
        \<and> has_key m r' (alt i) (take (ctx_sek_len (ctx_pair s i)) as) (ctx_salt (ctx_pair s i)))"
  using hc_openssl.key_exchange [OF assms(2-5) [unfolded m_def]] unfolding m_def by blast

theorem keys_reach_receiver_witness:
  "\<exists>s r s' r'. can_announce sample_lib s 0 \<and> can_receive sample_lib r (ctx_pair s 0)
    \<and> hcryptCtx_Tx_AsmKM sample_lib 0 (Some (replicate 32 9)) s = Some (0, s')
    \<and> hcryptCtx_Rx_ParseKM sample_lib (kept_message s' 0) r = Some (0, r')
    \<and> has_key sample_lib r' 1 (take (ctx_sek_len (ctx_pair s 0)) (replicate 32 9)) (ctx_salt (ctx_pair s 0))"
proof -
  let ?m = "crysprOpenSSL True True sample_rand sample_mem (Aes_Ctx blank_key) 0"
  have t: "passphrase_cfg (sample_cfg 3)" "passphrase_cfg (sample_cfg 2)" by (rule sample_cfg_ok; simp)+
  have f: "HAICRYPT_CFG_F_TX AND hc_flags (sample_cfg 3) \<noteq> 0" "HAICRYPT_CFG_F_TX AND hc_flags (sample_cfg 2) = 0"
    "passphrase_of (sample_cfg 3) = passphrase_of (sample_cfg 2)" by (simp_all add: sample_cfg_ok)
  have mal: "sys_malloc sample_sys () = (True, ())" by (simp add: sample_sys_def)
  have works: "\<And>n w. 0 \<le> fst (prng ?m n w)" "kdf_works ?m"
    using sample_works by (simp_all add: Prng_works kdf_openssl)
  obtain a and s :: "(CRYSPR_AESCTX, unit) hcrypt_Session" where a: "can_announce ?m a 0" "ctx_cfg (ctx_pair a 0) = ctx_cfg (ctx_pair s 0)"
    "take (cfg_pwd_len (ctx_cfg (ctx_pair s 0))) (cfg_pwd (ctx_cfg (ctx_pair s 0))) = passphrase_of (sample_cfg 3)"
    using hc_openssl.Create_tx [OF t(1) f(1) sample_cfg_ok(2) mal mal works] unfolding Let_def by blast
  obtain r where r: "\<forall>c. take (cfg_pwd_len (ctx_cfg c)) (cfg_pwd (ctx_cfg c)) = passphrase_of (sample_cfg 2) \<longrightarrow> ctx_salt_len c \<noteq> 0
      \<longrightarrow> can_receive ?m r c"
    using hc_openssl.Create_rx [OF t(2) f(2) mal mal, of sample_rand sample_mem "Aes_Ctx blank_key" 0] by blast
  have "ctx_salt_len (ctx_pair a 0) \<noteq> 0" using a(1) by (simp add: can_announce_def Let_def)
  then have r: "can_receive ?m r (ctx_pair a 0)" using r a(2,3) f(3) by simp
  have al: "case Some (replicate 32 9 :: bytes) of None \<Rightarrow> True | Some as \<Rightarrow> length as = 32" by simp
  have "alt 0 = 1" by (simp add: alt_def)
  obtain s' r' where 1: "hcryptCtx_Tx_AsmKM ?m 0 (Some (replicate 32 9)) a = Some (0, s')"
    "hcryptCtx_Rx_ParseKM ?m (kept_message s' 0) r = Some (0, r')"
    and 2: "\<forall>as. Some (replicate 32 9) = Some as \<longrightarrow> ctx_status (ctx_pair r' (alt 0)) = HCRYPT_CTX_S_KEYED
        \<and> has_key ?m r' (alt 0) (take (ctx_sek_len (ctx_pair a 0)) as) (ctx_salt (ctx_pair a 0))"
    using keys_reach_receiver [OF a(1) pos2 al r] by (elim exE conjE) (rule that)
  have "has_key ?m r' 1 (take (ctx_sek_len (ctx_pair a 0)) (replicate 32 9)) (ctx_salt (ctx_pair a 0))"
    using 2 unfolding \<open>alt 0 = 1\<close> by blast
  with 1 a(1) r show ?thesis unfolding sample_lib_def by (intro exI [of _ a] exI [of _ r] exI [of _ s'] exI [of _ r'] conjI)
qed

section \<open>The stream of a sender\<close>

text \<open>
  C3: a sender that is given one message after the other never fails and never runs out of keys.
  With a refresh rate \<open>R\<close> it encrypts \<open>R + 1\<close> packets under a key, alternating between its two
  contexts; each call gives the packet, after at most two Keying Material messages; and when
  fewer than \<open>pre_announce\<close> packets are left the next key is already there and being announced.
\<close>

theorem sender_rekeys_in_time:
  fixes cfg msgs
  defines "R \<equiv> unat (hc_km_refresh_rate_pkt cfg)" and "P \<equiv> unat (hc_km_pre_announce_pkt cfg)" and "n \<equiv> length msgs"
  assumes "passphrase_cfg cfg" and "(HAICRYPT_CFG_F_TX AND hc_flags cfg) \<noteq> 0"
    and "rates_ok (hc_km_refresh_rate_pkt cfg) (hc_km_pre_announce_pkt cfg)"
    and "malloc_works sys" and "rand_works RAND_bytes" and "mem_works mem" and "3 \<le> maxout"
    and "\<forall>msg \<in> set msgs. 16 < length msg \<and> length msg \<le> hc_data_max_len cfg"
  shows "let m = crysprOpenSSL True True RAND_bytes mem blank junk; i = (n div (R + 1)) mod 2 in
    \<exists>s w' outss s'. HaiCrypt_Create m sys cfg w = Some (0, Some s, w') \<and> tx_run m sys maxout msgs s = Some (outss, s')
    \<and> list_all2 (\<lambda>msg outs. \<exists>kms ofs. outs = kms @ [(Outbuf ofs, length msg)] \<and> length kms \<le> 2) msgs outss
    \<and> ses_ctx s' = Own i \<and> ctx_status (ctx_pair s' i) = HCRYPT_CTX_S_ACTIVE
    \<and> unat (ctx_pkt_cnt (ctx_pair s' i)) = n mod (R + 1) + 1
    \<and> (R - P < n mod (R + 1) \<longrightarrow> ctx_status (ctx_pair s' (alt i)) = HCRYPT_CTX_S_KEYED
         \<and> has_flag HCRYPT_CTX_F_ANNOUNCE (ctx_pair s' (alt i)))"
proof -
  let ?m = "crysprOpenSSL True True RAND_bytes mem blank junk"
  have rnd: "\<And>n w. 0 \<le> fst (prng ?m n w)" using assms(8) by (simp add: Prng_works)
  have pbk: "kdf_works ?m" using assms(9) by (rule kdf_openssl)
  obtain w1 w2 where mal: "sys_malloc sys w = (True, w1)" "sys_malloc sys w1 = (True, w2)"
    using assms(7) unfolding malloc_works_def by (metis prod.collapse)
  obtain s w' where s: "HaiCrypt_Create ?m sys cfg w = Some (0, Some s, w')" "tx_state ?m 0 0 s" "ctx_pkt_cnt (ctx_pair s 0) = 1"
    "outbuf_siz (ses_cb s) = 6 * hcryptMsg_PaddedLen (hc_data_max_len cfg) 16" "refresh_rate s = hc_km_refresh_rate_pkt cfg"
    "pre_announce s = hc_km_pre_announce_pkt cfg"
    using hc_openssl.Create_tx [OF assms(4-6) mal rnd pbk] by blast
  have cnt: "unat (ctx_pkt_cnt (ctx_pair s 0)) = Suc 0" using s(3) by simp
  have sizes: "\<forall>msg \<in> set msgs. 16 < length msg \<and> length msg \<le> outbuf_siz (ses_cb s) \<and> length msg < 2 ^ 64"
    using assms(4,11) PaddedLen_bounds(1) [of "hc_data_max_len cfg"] by (fastforce simp: s(4) passphrase_cfg_def)
  from hc_openssl.tx_run_ok [OF s(2) cnt rnd assms(10) sizes, of sys] obtain outss s' where
    r: "tx_run ?m sys maxout msgs s = Some (outss, s')"
    "list_all2 (\<lambda>msg outs. \<exists>kms ofs. outs = kms @ [(Outbuf ofs, length msg)] \<and> length kms \<le> 2) msgs outss"
    and st: "tx_state ?m (n div Suc R mod 2) (n mod Suc R) s'" and c: "unat (ctx_pkt_cnt (ctx_pair s' (n div Suc R mod 2))) = Suc (n mod Suc R)"
    and l: "refresh_rate s' = refresh_rate s" "pre_announce s' = pre_announce s"
    unfolding s(5) R_def [symmetric] n_def [symmetric] by auto
  define i where "i = n div Suc R mod 2"
  from st have cur: "ses_ctx s' = Own i"
    and tp: "tx_pair (hc_km_refresh_rate_pkt cfg) (hc_km_pre_announce_pkt cfg) (n mod Suc R) (ctx_pair s' i) (ctx_pair s' (alt i))"
    using l s(5,6) by (simp_all add: tx_state_def i_def)
  have act: "ctx_status (ctx_pair s' i) = HCRYPT_CTX_S_ACTIVE" using tp by (simp add: tx_pair_def)
  have ann: "R - P < n mod Suc R \<longrightarrow> ctx_status (ctx_pair s' (alt i)) = HCRYPT_CTX_S_KEYED \<and> has_flag HCRYPT_CTX_F_ANNOUNCE (ctx_pair s' (alt i))"
    using tp by (simp add: tx_pair_def R_def P_def)
  show ?thesis unfolding Let_def Suc_eq_plus1 [symmetric] i_def [symmetric]
    by (intro exI [of _ s] exI [of _ w'] exI [of _ outss] exI [of _ s'] conjI s(1) r cur act ann) (use c i_def in simp)
qed

theorem sender_rekeys_in_time_witness:
  "\<exists>s w' outss s'. HaiCrypt_Create sample_lib sample_sys (sample_cfg 3) () = Some (0, Some s, w')
    \<and> tx_run sample_lib sample_sys 3 (replicate 15 (replicate 20 0)) s = Some (outss, s')
    \<and> ses_ctx s' = Own 0 \<and> ctx_status (ctx_pair s' (alt 0)) = HCRYPT_CTX_S_KEYED"
proof -
  have t: "passphrase_cfg (sample_cfg 3)" by (rule sample_cfg_ok) simp
  have f: "HAICRYPT_CFG_F_TX AND hc_flags (sample_cfg 3) \<noteq> 0" by (simp add: sample_cfg_ok)
  have rates: "unat (hc_km_refresh_rate_pkt (sample_cfg 3)) = 16" "unat (hc_km_pre_announce_pkt (sample_cfg 3)) = 4"
    by (simp_all add: sample_cfg_def)
  have msgs: "\<forall>msg \<in> set (replicate 15 (replicate 20 0)). 16 < length msg \<and> length msg \<le> hc_data_max_len (sample_cfg 3)"
    by (simp add: sample_cfg_ok)
  from sender_rekeys_in_time [OF t f sample_cfg_ok(2) sample_works order.refl msgs, of "Aes_Ctx blank_key" 0 "()",
      unfolded Let_def sample_lib_def [symmetric] rates]
  show ?thesis unfolding length_replicate by (simp del: replicate.simps) blast
qed

section \<open>A receiver on the network\<close>

text \<open>
  C2: whatever bytes arrive.  From the session \<open>HaiCrypt_Create\<close> returns for a receiver, through
  any sequence of messages of at least a header and at most the configured size, the next one
  is processed without a read or write outside a buffer and without a failing assertion, by
  \<open>HaiCrypt_Rx_Process\<close> and by \<open>HaiCrypt_Rx_Data\<close>.
\<close>

theorem receiver_survives_any_message:
  assumes "passphrase_cfg cfg" and "(HAICRYPT_CFG_F_TX AND hc_flags cfg) = 0" and "malloc_works sys"
  shows "let m = crysprOpenSSL True True RAND_bytes mem blank junk in
    \<exists>r0 w'. HaiCrypt_Create m sys cfg w = Some (0, Some r0, w')
    \<and> (\<forall>r msg. rx_reach m r0 r \<longrightarrow> 16 \<le> length msg \<longrightarrow> length msg \<le> hc_data_max_len cfg \<longrightarrow>
         (\<forall>out_p maxout. HaiCrypt_Rx_Process m (Some r) (Some msg) out_p maxout \<noteq> None)
         \<and> HaiCrypt_Rx_Data m (Some r) (take 16 msg) (Some (drop 16 msg)) \<noteq> None)"
proof -
  let ?m = "crysprOpenSSL True True RAND_bytes mem blank junk"
  obtain w1 w2 where mal: "sys_malloc sys w = (True, w1)" "sys_malloc sys w1 = (True, w2)"
    using assms(3) unfolding malloc_works_def by (metis prod.collapse)
  obtain r0 where r0: "HaiCrypt_Create ?m sys cfg w = Some (0, Some r0, w2)" "ses_wf r0" "ses_ctx r0 = Null"
    "outbuf_siz (ses_cb r0) = 6 * hcryptMsg_PaddedLen (hc_data_max_len cfg) 16"
    using hc_openssl.Create_rx [OF assms(1,2) mal] by blast
  have st: "rx_state r0" using r0(2,3) by (simp add: rx_state_def)
  have "(\<forall>out_p maxout. HaiCrypt_Rx_Process ?m (Some r) (Some msg) out_p maxout \<noteq> None)
      \<and> HaiCrypt_Rx_Data ?m (Some r) (take 16 msg) (Some (drop 16 msg)) \<noteq> None"
    if r: "rx_reach ?m r0 r" and len: "16 \<le> length msg" "length msg \<le> hc_data_max_len cfg" for r msg
  proof -
    have rs: "rx_state r" "outbuf_siz (ses_cb r) = outbuf_siz (ses_cb r0)" using hc_openssl.rx_reach_state [OF r st] by simp_all
    have room: "length msg \<le> outbuf_siz (ses_cb r)"
      using len(2) PaddedLen_bounds(1) [of "hc_data_max_len cfg"] by (simp add: rs(2) r0(4))
    have "\<exists>n outs r'. HaiCrypt_Rx_Process ?m (Some r) (Some msg) out_p maxout = Some (n, outs, Some r')" for out_p maxout
      using hc_openssl.Rx_Process_safe [OF rs(1) len(1) room] by blast
    moreover have "HaiCrypt_Rx_Data ?m (Some r) (take 16 msg) (Some (drop 16 msg)) \<noteq> None"
    proof -
      have "16 \<le> length (take 16 msg)" "length (drop 16 msg) \<le> outbuf_siz (ses_cb r)" using len(1) room by simp_all
      from hc_openssl.Rx_Data_safe [OF rs(1) this] show ?thesis by (metis option.distinct(1))
    qed
    ultimately show ?thesis by (metis option.distinct(1))
  qed
  then show ?thesis using r0(1) unfolding Let_def by blast
qed

theorem receiver_survives_any_message_witness:
  "\<exists>r0 w'. HaiCrypt_Create sample_lib sample_sys (sample_cfg 2) () = Some (0, Some r0, w')
    \<and> HaiCrypt_Rx_Process sample_lib (Some r0) (Some (replicate 100 0xff)) True 1 \<noteq> None"
proof -
  have t: "passphrase_cfg (sample_cfg 2)" by (rule sample_cfg_ok) simp
  have f: "HAICRYPT_CFG_F_TX AND hc_flags (sample_cfg 2) = 0" by (simp add: sample_cfg_ok)
  obtain r0 w' where 1: "HaiCrypt_Create sample_lib sample_sys (sample_cfg 2) () = Some (0, Some r0, w')"
    and 2: "\<And>r msg out_p maxout. rx_reach sample_lib r0 r \<Longrightarrow> 16 \<le> length msg \<Longrightarrow> length msg \<le> 1456 \<Longrightarrow>
      HaiCrypt_Rx_Process sample_lib (Some r) (Some msg) out_p maxout \<noteq> None"
    using receiver_survives_any_message [OF t f sample_works(1), of sample_rand sample_mem "Aes_Ctx blank_key" 0 "()",
      unfolded Let_def sample_lib_def [symmetric] sample_cfg_ok(5)] by blast
  from 2 [OF rx_reach.start, of "replicate 100 0xff" True 1] have "HaiCrypt_Rx_Process sample_lib (Some r0) (Some (replicate 100 0xff)) True 1 \<noteq> None"
    unfolding length_replicate by linarith
  with 1 show ?thesis by blast
qed

end
