(* ===== verification/HaiCryptErrors.thy ===== *)
theory HaiCryptErrors
  imports HaiCryptProps
begin

text \<open>
  The error paths of HaiCrypt: which configurations and messages are refused and what a refusal
  leaves behind, and where the code relies on its caller.
\<close>

section \<open>Creating\<close>




text \<open>
  C19: a preshared secret longer than a key passes that validation, and then the assertion of
  \<open>hcryptCtx_SetSecret\<close> ends the process.
\<close>

theorem long_preshared_secret_aborts:
  assumes "\<not> cfg_rejected cfg" and "sec_typ (hc_secret cfg) = HAICRYPT_SECTYP_PRESHARED"
    and "HAICRYPT_KEY_MAX_SZ < sec_len (hc_secret cfg)" and "hc_xport cfg = HAICRYPT_XPT_SRT" and "malloc_works sys"
  shows "HaiCrypt_Create m sys cfg w = None"
proof -
  obtain w1 w2 where mal: "sys_malloc sys w = (True, w1)" "sys_malloc sys w1 = (True, w2)"
    using assms(5) unfolding malloc_works_def by (metis prod.collapse)
  have "hcryptCtx_SetSecret m i (hc_secret cfg) s = None" for i s
    using assms(2,3) by (simp add: hcryptCtx_SetSecret_def)
  then have "tx_init_both m cfg s = None" "rx_init_both m (Some cfg) s = None" for s
    by (simp_all add: tx_init_both_def rx_init_both_def hcryptCtx_Tx_Init_def hcryptCtx_Rx_Init_def)
  moreover have "hc_cryspr cfg" using assms(1) by (simp add: cfg_rejected_def)
  ultimately show ?thesis
    using assms(1,4) mal by (simp add: HaiCrypt_Create_def sHaiCrypt_PrepareHandle_def crysprFallback_Open_def Let_def)
qed

theorem long_preshared_secret_aborts_witness:
  "HaiCrypt_Create sample_lib sample_sys ((sample_cfg 2)\<lparr>hc_secret := \<lparr>sec_typ = HAICRYPT_SECTYP_PRESHARED, sec_len = 40,
     sec_str = replicate 80 1\<rparr>\<rparr>) () = None"
  by (rule long_preshared_secret_aborts)
    (simp_all add: sample_cfg_def cfg_rejected_def sample_works(1))

section \<open>Incoming messages\<close>

text \<open>
  How \<open>hcryptMsg_SRT_ParseMsg\<close> classifies a message of at least a header: as Keying Material
  (2) if it starts with version, type and signature, names the SRT encapsulation and flags a
  key; as a media stream (1) if it does not start so and its header flags exactly one key; and
  as invalid otherwise.
\<close>

theorem message_classes:
  assumes "16 \<le> length msg"
  shows "hcryptMsg_SRT_ParseMsg msg = Some
    (if msg ! 0 = 0x12 \<and> msg ! 1 = 0x20 \<and> msg ! 2 = 0x29
     then (if msg ! 10 = HCRYPT_SE_TSSRT \<and> (bit (msg ! 3) 0 \<or> bit (msg ! 3) 1) then 2 else -1)
     else (if bit (msg ! 7) 3 \<noteq> bit (msg ! 7) 4 then 1 else -1))"
  by (rule hcryptMsg_SRT_ParseMsg_spec [OF assms])

theorem message_classes_witness:
  "hcryptMsg_SRT_ParseMsg (replicate 7 0 @ [8] @ replicate 8 0) = Some 1 \<and> hcryptMsg_SRT_ParseMsg (replicate 16 0) = Some (-1)"
proof -
  have b: "bit (8 :: u8) 3" "\<not> bit (8 :: u8) 4" by code_simp+
  show ?thesis
    using message_classes [of "replicate 7 0 @ [8] @ replicate 8 0"] message_classes [of "replicate 16 0"] b
    by (simp add: nth_append)
qed

text \<open>What the validation has read when it accepts.\<close>

lemma km_validate_fields:
  assumes "km_validate se km = Some (Some (salt_len, sek_len, cnt))"
  shows "16 < length km" and "salt_len = unat (km ! 14) * 4" and "sek_len = unat (km ! 15) * 4"
    and "cnt = (if bit (km ! 3) 0 \<and> bit (km ! 3) 1 then 2 else 1)"
    and "km ! 8 = HCRYPT_CIPHER_AES_CTR" and "km ! 9 = HCRYPT_AUTH_NONE" and "km ! 10 = se"
proof -
  show l: "16 < length km" using assms by (auto simp: km_validate_def split: if_splits)
  have r: "rd km i = Some (km ! i)" if "i \<le> 16" for i using l that by (intro rd_in) simp
  have both: "(3 = (ucast (km ! 3) AND (3 :: u32))) = (bit (km ! 3) 0 \<and> bit (km ! 3) 1)"
    by (subst eq_commute, simp only: and_3_bits [where 'a=32, simplified]) (simp add: bit_simps)
  show "salt_len = unat (km ! 14) * 4" "sek_len = unat (km ! 15) * 4"
    "cnt = (if bit (km ! 3) 0 \<and> bit (km ! 3) 1 then 2 else 1)"
    "km ! 8 = HCRYPT_CIPHER_AES_CTR" "km ! 9 = HCRYPT_AUTH_NONE" "km ! 10 = se"
    using assms l both
    by (auto simp: km_validate_def km_get_defs r Let_def bind_eq_Some_conv simp del: rd_eq_Some split: if_splits)
qed

text \<open>
  C11: a Keying Material message the receiver accepts is well formed: it announces AES in counter
  mode without authentication for the receiver's encapsulation, a key length AES has, a salt
  that fits, and its length is that of exactly the parts it announces.
\<close>

theorem accepted_message_well_formed:
  assumes "hcryptCtx_Rx_ParseKM m km r = Some (0, r')"
  shows "16 < length km \<and> unat (km ! 14) * 4 \<le> 16 \<and> unat (km ! 15) * 4 \<in> {16, 24, 32}
    \<and> length km = 16 + unat (km ! 14) * 4 + (if bit (km ! 3) 0 \<and> bit (km ! 3) 1 then 2 else 1) * (unat (km ! 15) * 4) + 8
    \<and> km ! 8 = HCRYPT_CIPHER_AES_CTR \<and> km ! 9 = HCRYPT_AUTH_NONE \<and> km ! 10 = ses_se r"
proof -
  obtain salt_len sek_len cnt where v: "km_validate (ses_se r) km = Some (Some (salt_len, sek_len, cnt))"
    using assms by (auto simp: hcryptCtx_Rx_ParseKM_def bind_eq_Some_conv split: option.splits)
  note f = km_validate_fields [OF v] and acc = km_validate_accepts [OF v]
  from acc(1,2,4) show ?thesis
    unfolding f(2,3,4) key_len_ok_def using f(1,5,6,7) by simp
qed

text \<open>The sender and the receiver of the sample configurations, and the message between them.\<close>

theorem accepted_message_well_formed_witness:
  "\<exists>s w' r w'' r'. HaiCrypt_Create sample_lib sample_sys (sample_cfg 3) () = Some (0, Some s, w')
    \<and> HaiCrypt_Create sample_lib sample_sys (sample_cfg 2) () = Some (0, Some r, w'')
    \<and> hcryptCtx_Rx_ParseKM sample_lib (kept_message s 0) r = Some (0, r') \<and> kept_message s 0 ! 8 = HCRYPT_CIPHER_AES_CTR"
proof -
  obtain s w' r w'' r' where l: "HaiCrypt_Create sample_lib sample_sys (sample_cfg 3) () = Some (0, Some s, w')"
    "HaiCrypt_Create sample_lib sample_sys (sample_cfg 2) () = Some (0, Some r, w'')"
    "hcryptCtx_Rx_ParseKM sample_lib (kept_message s 0) r = Some (0, r')" by (rule sample_link)
  with accepted_message_well_formed [OF l(3)] show ?thesis by blast
qed

text \<open>
  C12: a message that announces one key with a salt that is news to its context, and does not
  unwrap under the passphrase, is refused with -2; but by then the receiver has taken over the
  salt and put the context out of use.  From then on \<open>HaiCrypt_Rx_Data\<close> returns 0 for the packets
  under that key, with the data untouched: no key, on which the caller drops them.  Anyone who
  can send such a message, without knowing the passphrase, stops the stream until the sender's
  message is parsed again.
\<close>

theorem refused_message_stops_stream:
  assumes "rx_state r" and "hcryptCtx_Rx_ParseKM (crysprOpenSSL True True RAND_bytes mem blank junk) km r = Some (-2, r')"
    and "\<not> (bit (km ! 3) 0 \<and> bit (km ! 3) 1)" and "hcryptMsg_KM_GetKeyIndex km = Some i"
    and "cfg_pwd_len (ctx_cfg (ctx_pair r i)) \<noteq> 0"
    and "take (unat (km ! 14) * 4) (ctx_salt (ctx_pair r i)) \<noteq> take (unat (km ! 14) * 4) (drop 16 km)"
  shows "ctx_status (ctx_pair r' i) = HCRYPT_CTX_S_SARDY
    \<and> take (unat (km ! 14) * 4) (ctx_salt (ctx_pair r' i)) = take (unat (km ! 14) * 4) (drop 16 km)
    \<and> (hcryptMsg_GetKeyIndex hcryptMsg_SRT_MsgInfo pfx = Some i \<longrightarrow>
        (\<exists>r''. HaiCrypt_Rx_Data (crysprOpenSSL True True RAND_bytes mem blank junk) (Some r') pfx (Some data) = Some (0, Some r'', Some data)))"
proof -
  let ?m = "crysprOpenSSL True True RAND_bytes mem blank junk"
  have wf: "ses_wf r" using assms(1) by (simp add: rx_state_def)
  obtain salt_len sek_len cnt where v: "km_validate (ses_se r) km = Some (Some (salt_len, sek_len, cnt))"
    using assms(2) by (auto simp: hcryptCtx_Rx_ParseKM_def bind_eq_Some_conv split: option.splits)
  note f = km_validate_fields [OF v]
  have cnt: "cnt = 1" using f(4) assms(3) by simp
  have st: "ctx_status (ctx_pair r' i) = HCRYPT_CTX_S_SARDY" "take salt_len (ctx_salt (ctx_pair r' i)) = take salt_len (drop 16 km)"
    using hc_openssl.ParseKM_refused [OF wf rx_state_own [OF assms(1)] v [unfolded cnt] assms(4,5) _ assms(2)] assms(6) f(2) by auto
  obtain s2 where "hcryptCtx_Rx_ParseKM ?m km r = Some (-2, s2)" "ses_wf s2"
    using hc_openssl.ParseKM_safe [OF wf rx_state_own [OF assms(1)], of RAND_bytes mem blank junk km] assms(2) by auto
  then have mi: "ses_msg_info r' = hcryptMsg_SRT_MsgInfo" using assms(2) by (simp add: ses_wf_def)
  have "\<exists>r''. HaiCrypt_Rx_Data ?m (Some r') pfx (Some data) = Some (0, Some r'', Some data)"
    if "hcryptMsg_GetKeyIndex hcryptMsg_SRT_MsgInfo pfx = Some i"
    using that st(1) mi srt_mi.key_index_below [OF that] by (simp add: HaiCrypt_Rx_Data_def Let_def)
  with st f(2) show ?thesis by simp
qed

text \<open>Most strings of 24 bytes are not a wrapped key of 16 bytes.\<close>

lemma not_wrapped:
  "\<exists>w :: bytes. length w = 24 \<and> (\<forall>out. length out = 16 \<longrightarrow> AES_wrap_key ek None out \<noteq> (24, Some w))"
proof (rule ccontr)
  assume "\<not> ?thesis"
  then have all: "\<exists>out. length out = 16 \<and> AES_wrap_key ek None out = (24, Some w)" if "length w = 24" for w
    using that by blast
  let ?S = "\<lambda>n. {b :: bytes. length b = n}"
  have "?S 24 \<subseteq> (\<lambda>out. the (snd (AES_wrap_key ek None out))) ` ?S 16"
    using all by (force simp: image_iff)
  then have "card (?S 24) \<le> card (?S 16)"
    using surj_card_le [OF finite_blocks] by blast
  moreover have "card (?S n) = 256 ^ n" for n
    using card_lists_length_eq [of "UNIV :: u8 set" n] by (simp add: card_word)
  ultimately show False by simp
qed

text \<open>A message with the even key and a salt of one's choice that a receiver refuses.\<close>

lemma refused_message_exists:
  fixes RAND_bytes :: "'w rand_bytes" and r :: "(CRYSPR_AESCTX, 'w) hcrypt_Session"
  assumes r: "rx_state r" "cfg_pwd_len (ctx_cfg (ctx_pair r 0)) \<noteq> 0" "\<not> has_flag HCRYPT_CTX_F_ENCRYPT (ctx_pair r 0)"
    and salt: "length salt = 16" "ctx_salt (ctx_pair r 0) \<noteq> salt" and mem: "mem_works mem"
  shows "\<exists>w r'. length w = 24
    \<and> hcryptCtx_Rx_ParseKM (crysprOpenSSL True True RAND_bytes mem blank junk) (km_message 1 (ses_se r) salt 16 w) r = Some (-2, r')"
proof -
  let ?m = "crysprOpenSSL True True RAND_bytes mem blank junk"
  have wf: "ses_wf r" using r(1) by (simp add: rx_state_def)
  define kek where "kek = snd (derived_kek ?m ((ctx_pair r 0)\<lparr>ctx_salt := salt, ctx_salt_len := 16, ctx_sek_len := 16\<rparr>))"
  define ek where "ek = snd (crysprOpenSSL_AES_SetKey True kek blank)"
  have k16: "key_len_ok 16" by (simp add: key_len_ok_def)
  have dk0: "fst (derived_kek ?m c) = 0" if "ctx_wf c" "ctx_sek_len c = 16" for c
    using derived_kek_works [OF kdf_openssl [OF mem] that(1)] that(2) k16 by simp
  have "ctx_wf ((ctx_pair r 0)\<lparr>ctx_salt := salt, ctx_salt_len := 16, ctx_sek_len := 16\<rparr>)"
    using ses_wf_ctx [OF wf, of 0] salt(1) by (simp add: ctx_wf_def)
  from dk0 [OF this] have "length kek = 16" unfolding kek_def
    using hc_openssl.derived_kek_length [of "(ctx_pair r 0)\<lparr>ctx_salt := salt, ctx_salt_len := 16, ctx_sek_len := 16\<rparr>"] k16 by simp
  then have kekl: "key_len_ok (length kek)" by (simp add: key_len_ok_def)
  obtain w where w: "length w = 24" "\<And>out. length out = 16 \<Longrightarrow> AES_wrap_key (aes_key_of ek) None out \<noteq> (24, Some w)"
    using not_wrapped by blast
  define km where "km = km_message 1 (ses_se r) salt 16 w"
  have kl: "key_len_ok 16" by (simp add: key_len_ok_def)
  have v: "km_validate (ses_se r) km = Some (Some (16, 16, 1))"
    unfolding km_def using km_validate_message [of salt 16 1 1 w "ses_se r"] salt w(1) kl by simp
  note acc = km_validate_accepts [OF v]
  have kms: "take 16 (drop 16 km) = salt" "drop 32 km = w" and idx: "hcryptMsg_KM_GetKeyIndex km = Some 0"
    using salt(1) by (simp_all add: km_def km_message_def hcryptMsg_KM_GetKeyIndex_def rd_def km_header_def)
  obtain j derive s1 where 1: "j = 0" "ses_wf s1" "same_session r s1" "ctx_salt_len (ctx_pair s1 j) = 16" "ctx_sek_len (ctx_pair s1 j) = 16"
      "take 16 (ctx_salt (ctx_pair s1 j)) = salt"
    and run: "if derive \<and> fst (derived_kek ?m (ctx_pair s1 j)) \<noteq> 0
       then hcryptCtx_Rx_ParseKM ?m km r = Some (-1, s1)
       else hcryptCtx_Rx_ParseKM ?m km r = do {
           wrapped \<leftarrow> rd_slice km (16 + 16) (1 * 16 + 8);
           (iret, out) \<leftarrow> km_unwrap ?m (ses_cb s1) wrapped;
           seks \<leftarrow> wr (replicate 64 0) 0 out;
           if 0 > iret then Some (-2, s1) else km_install ?m j km 16 16 1 derive seks s1 }"
    and keyed: "derive \<and> fst (derived_kek ?m (ctx_pair s1 j)) = 0 \<longrightarrow> keyed ?m (has_flag HCRYPT_CTX_F_ENCRYPT (ctx_pair s1 j))
        (snd (derived_kek ?m (ctx_pair s1 j))) (aes_kek (ses_cb s1))"
    and same: "\<not> derive \<longrightarrow> ses_cb s1 = ses_cb r \<and> (cfg_pwd_len (ctx_cfg (ctx_pair r j)) = 0 \<or> s1 = r)"
    using hc_openssl.ParseKM_prepare [OF wf rx_state_own [OF r(1)] v, of RAND_bytes mem blank junk] idx kms by auto
  have dk1: "fst (derived_kek ?m (ctx_pair s1 j)) = 0" using dk0 [OF ses_wf_ctx [OF 1(2)] 1(5)] .
  have sl: "ctx_salt (ctx_pair s1 0) = salt" using 1 ses_wf_ctx [OF 1(2), of 0] by (simp add: ctx_wf_def)
  have derive: derive using same r(2) salt(2) sl 1(1) by auto
  have "derived_kek ?m (ctx_pair s1 0) = derived_kek ?m ((ctx_pair r 0)\<lparr>ctx_salt := salt, ctx_salt_len := 16, ctx_sek_len := 16\<rparr>)"
    using 1 sl by (intro hc_openssl.derived_kek_same) (simp_all add: same_session_def)
  then have kd: "keyed ?m False kek (aes_kek (ses_cb s1))"
    using keyed derive dk1 1 r(3) by (simp add: kek_def same_session_def has_flag_def)
  have sch: "aes_schedules (aes_key_of ek) (aes_key_of (aes_kek (ses_cb s1)))"
    by (rule keyed_schedules [OF _ kekl _ kd]) (auto simp: keyed_def ek_def)
  have rd: "rd_slice km (16 + 16) (1 * 16 + 8) = Some w" using kms(2) acc(4) w(1) by (simp add: rd_slice_in)
  obtain iret out where u: "crysprOpenSSL_KmUnwrap (ses_cb s1) w = Some (iret, out)" "length out \<le> 16"
    using KmUnwrap_total [of w "ses_cb s1"] w(1) by auto
  have "0 > iret"
  proof (rule ccontr)
    assume ok: "\<not> 0 > iret"
    have lw: "length w < 4294967296" using w(1) by simp
    obtain ret res where a: "CRYPTO_128_unwrap (AES_decrypt (aes_key_of (aes_kek (ses_cb s1)))) None w = (ret, res)" by fastforce
    have ret: "(word_of_nat ret :: u32) = 16" "out = (case res of None \<Rightarrow> [] | Some out \<Rightarrow> out)"
      using u(1) w(1) ok by (auto simp: crysprOpenSSL_KmUnwrap_def AES_wrap_key_in(2) [OF lw] a split: if_splits)
    have "ret \<noteq> 0"
    proof
      assume "ret = 0"
      then have "(0 :: u32) = 16" using ret(1) by simp
      then show False by simp
    qed
    moreover from this have res: "res = Some out"
      using a ret(2) by (auto simp: CRYPTO_128_unwrap_def split: prod.splits option.splits if_splits)
    ultimately have wr: "length out = ret" "CRYPTO_128_wrap (AES_encrypt (aes_key_of ek)) None out = (24, Some w)"
      using block_cipher.unwrap_only_wrapped [OF AES_block_cipher [OF sch] a [unfolded res]] w(1) by simp_all
    then have "unat (word_of_nat ret :: u32) = ret" using u(2) by (intro unat_word_of_nat_u32) simp
    then have "length out = 16" using wr(1) ret(1) by simp
    then show False using w(2) [of out] wr(2) by (simp add: AES_wrap_key_in)
  qed
  moreover obtain seks where "wr (replicate 64 0) 0 out = Some seks" using u(2) by (simp add: wr_in)
  ultimately have "hcryptCtx_Rx_ParseKM ?m km r = Some (-2, s1)" using run dk1 rd u(1) by simp
  with w(1) show ?thesis unfolding km_def by blast
qed

theorem refused_message_stops_stream_witness:
  "\<exists>r w' km r' r''. HaiCrypt_Create sample_lib sample_sys (sample_cfg 2) () = Some (0, Some r, w')
    \<and> hcryptCtx_Rx_ParseKM sample_lib km r = Some (-2, r') \<and> ctx_status (ctx_pair r' 0) = HCRYPT_CTX_S_SARDY
    \<and> HaiCrypt_Rx_Data sample_lib (Some r') (replicate 16 0) (Some [1, 2, 3]) = Some (0, Some r'', Some [1, 2, 3])"
proof -
  have t: "passphrase_cfg (sample_cfg 2)" by (rule sample_cfg_ok) simp
  have f: "HAICRYPT_CFG_F_TX AND hc_flags (sample_cfg 2) = 0" by (simp add: sample_cfg_ok)
  have mal: "sys_malloc sample_sys () = (True, ())" by (simp add: sample_sys_def)
  obtain r where r: "HaiCrypt_Create sample_lib sample_sys (sample_cfg 2) () = Some (0, Some r, ())" "rx_state r"
    "cfg_pwd_len (ctx_cfg (ctx_pair r 0)) \<noteq> 0" "\<not> has_flag HCRYPT_CTX_F_ENCRYPT (ctx_pair r 0)"
  proof -
    obtain r where "HaiCrypt_Create sample_lib sample_sys (sample_cfg 2) () = Some (0, Some r, ())" "ses_wf r" "ses_ctx r = Null"
      "cfg_pwd_len (ctx_cfg (ctx_pair r 0)) \<noteq> 0" "\<not> has_flag HCRYPT_CTX_F_ENCRYPT (ctx_pair r 0)"
      using hc_openssl.Create_rx [OF t f mal mal, of sample_rand sample_mem "Aes_Ctx blank_key" 0] unfolding sample_lib_def by blast
    then show ?thesis by (intro that) (simp_all add: rx_state_def)
  qed
  obtain salt where salt: "length salt = 16" "ctx_salt (ctx_pair r 0) \<noteq> salt"
    by (rule that [of "if ctx_salt (ctx_pair r 0) = replicate 16 1 then replicate 16 2 else replicate 16 1"]) auto
  obtain w r' where w: "length w = 24" "hcryptCtx_Rx_ParseKM sample_lib (km_message 1 (ses_se r) salt 16 w) r = Some (-2, r')"
    using refused_message_exists [OF r(2,3,4) salt sample_works(3)] unfolding sample_lib_def by blast
  let ?km = "km_message 1 (ses_se r) salt 16 w"
  have km: "\<not> (bit (?km ! 3) 0 \<and> bit (?km ! 3) 1)" "hcryptMsg_KM_GetKeyIndex ?km = Some 0" "unat (?km ! 14) * 4 = 16"
    "take 16 (drop 16 ?km) = salt"
    using salt(1) by (simp_all add: km_message_nth km_header_def hcryptMsg_KM_GetKeyIndex_def rd_def) (simp_all add: km_message_def km_header_def)
  have "length (ctx_salt (ctx_pair r 0)) = 16" using r(2) ses_wf_ctx [of r 0] by (simp add: rx_state_def ctx_wf_def)
  then have news: "take (unat (?km ! 14) * 4) (ctx_salt (ctx_pair r 0)) \<noteq> take (unat (?km ! 14) * 4) (drop 16 ?km)"
    using salt(2) unfolding km(3,4) by simp
  have ki: "hcryptMsg_GetKeyIndex hcryptMsg_SRT_MsgInfo (replicate 16 0) = Some 0" by code_simp
  from refused_message_stops_stream [OF r(2) w(2) [unfolded sample_lib_def] km(1,2) r(3) news, of "replicate 16 0" "[1, 2, 3]"] ki r(1) w(2)
  show ?thesis unfolding sample_lib_def [symmetric] by blast
qed

section \<open>The size of a packet\<close>

text \<open>\<open>crysprFallback_GetOutbuf\<close> never reports that the buffer is too small: a packet that does not fit it is written past its end.\<close>

lemma Tx_Data_overrun:
  assumes "ses_wf s" and "ses_ctx s = Own i" and "16 \<le> length pfx"
    and "outbuf_siz (ses_cb s) < 16 + length data"
  shows "HaiCrypt_Tx_Data (crysprOpenSSL True True RAND_bytes mem blank junk) (Some s) pfx data = None"
proof -
  let ?m = "crysprOpenSSL True True RAND_bytes mem blank junk"
  define c where "c = ctx_pair s i"
  have cw: "ctx_wf c" using ses_wf_ctx [OF assms(1)] by (simp add: c_def)
  have mi: "ctx_msg_info c = Some hcryptMsg_SRT_MsgInfo" "ctx_mode c = HCRYPT_CTX_MODE_AESCTR" using cw by (simp_all add: ctx_wf_def)
  have cb: "outbuf_ofs (ses_cb s) \<le> outbuf_siz (ses_cb s)" "outbuf_siz (ses_cb s) < 2 ^ 64" "length (outbuf (ses_cb s)) = outbuf_siz (ses_cb s)"
    using ses_wf_cbD [OF assms(1)] by (simp_all add: cb_wf_def)
  have "size_sub (outbuf_siz (ses_cb s)) (outbuf_ofs (ses_cb s)) < 16 + length data"
    using cb assms(4) by (simp add: size_sub_le)
  then have g: "crysprFallback_GetOutbuf (ses_cb s) 16 (length data) = (0, (ses_cb s)\<lparr>outbuf_ofs := 16 + length data\<rparr>)"
    by (simp add: crysprFallback_GetOutbuf_def)
  obtain iv where iv: "packet_iv c pfx = Some iv" "length iv = 16" using packet_iv_total [OF ctx_wf_ready [OF cw] assms(3)] by metis
  then obtain pki where pki: "hcryptMsg_SRT_GetPki pfx True = Some pki" "hcrypt_SetCtrIV pki (ctx_salt c) = Some iv"
    by (auto simp: packet_iv_def bind_eq_Some_conv)
  have "length (snd (crysprOpenSSL_AES_CtrCipher True k iv data)) = length data" for k
    using openssl.ctr_length [OF iv(2)] by simp
  then have "ms_ctr ?m True ((ses_cb s)\<lparr>outbuf_ofs := 16 + length data\<rparr>) c hcryptMsg_SRT_MsgInfo
      \<lparr>dd_pfx = pfx, dd_payload = data, dd_len = length data\<rparr> 16 0 0 = None"
    using pki assms(4) cb(3) by (simp add: ms_ctr_def rd_slice_in wr_def)
  then have "crysprFallback_MsEncrypt ?m (ses_cb s) c \<lparr>dd_pfx = pfx, dd_payload = data, dd_len = length data\<rparr> False = None"
    using g mi by (simp add: crysprFallback_MsEncrypt_def)
  then show ?thesis
    using assms(2) mi by (simp add: HaiCrypt_Tx_Data_def cur_ctx_def c_def [symmetric] srt_mi.index_keeps)
qed

text \<open>
  C20: what size of packet \<open>HaiCrypt_Tx_Data\<close> takes.  A sender's output buffer has room for six packets of the
  configured maximum, padded to whole blocks; the size of a packet is not checked against that maximum.  A packet that
  fits the buffer with its header of 16 bytes is encrypted, also when it is larger than the maximum; a larger one
  is not refused but written past the end of the buffer.
\<close>

theorem oversized_packet_overruns:
  assumes "passphrase_cfg cfg" and "(HAICRYPT_CFG_F_TX AND hc_flags cfg) \<noteq> 0"
    and "rates_ok (hc_km_refresh_rate_pkt cfg) (hc_km_pre_announce_pkt cfg)"
    and "malloc_works sys" and "rand_works RAND_bytes" and "mem_works mem"
  shows "let m = crysprOpenSSL True True RAND_bytes mem blank junk in
    \<exists>s w'. HaiCrypt_Create m sys cfg w = Some (0, Some s, w')
    \<and> (\<forall>pfx data. 16 \<le> length pfx \<longrightarrow> data \<noteq> [] \<longrightarrow>
        (if 16 + length data \<le> 6 * (16 * ((hc_data_max_len cfg + 15) div 16))
         then \<exists>s' cipher. HaiCrypt_Tx_Data m (Some s) pfx data = Some (0, s', pfx, cipher) \<and> length cipher = length data
         else HaiCrypt_Tx_Data m (Some s) pfx data = None))"
proof -
  let ?m = "crysprOpenSSL True True RAND_bytes mem blank junk"
  have rnd: "\<And>n w. 0 \<le> fst (prng ?m n w)" using assms(5) by (simp add: Prng_works)
  obtain w1 w2 where mal: "sys_malloc sys w = (True, w1)" "sys_malloc sys w1 = (True, w2)"
    using assms(4) unfolding malloc_works_def by (metis prod.collapse)
  obtain s w' where s: "HaiCrypt_Create ?m sys cfg w = Some (0, Some s, w')" "tx_state ?m 0 0 s"
    "outbuf_siz (ses_cb s) = 6 * hcryptMsg_PaddedLen (hc_data_max_len cfg) 16"
    using hc_openssl.Create_tx [OF assms(1-3) mal rnd kdf_openssl [OF assms(6)]] by blast
  have siz: "outbuf_siz (ses_cb s) = 6 * (16 * ((hc_data_max_len cfg + 15) div 16))"
    using s(3) by (simp add: hcryptMsg_PaddedLen_def)
  have wf: "ses_wf s" "ses_ctx s = Own 0" using s(2) by (simp_all add: tx_state_def)
  have "if 16 + length data \<le> 6 * (16 * ((hc_data_max_len cfg + 15) div 16))
      then \<exists>s' cipher. HaiCrypt_Tx_Data ?m (Some s) pfx data = Some (0, s', pfx, cipher) \<and> length cipher = length data
      else HaiCrypt_Tx_Data ?m (Some s) pfx data = None" if "16 \<le> length pfx" "data \<noteq> []" for pfx data
    using hc_openssl.Tx_Data_fits [OF wf that] Tx_Data_overrun [OF wf that(1), of data] unfolding siz by (simp add: not_le)
  with s(1) show ?thesis unfolding Let_def by blast
qed

theorem oversized_packet_overruns_witness:
  "\<exists>s w'. HaiCrypt_Create sample_lib sample_sys (sample_cfg 3) () = Some (0, Some s, w')
    \<and> (\<exists>s' cipher. HaiCrypt_Tx_Data sample_lib (Some s) (replicate 16 0) (replicate 8720 0) = Some (0, s', replicate 16 0, cipher))
    \<and> HaiCrypt_Tx_Data sample_lib (Some s) (replicate 16 0) (replicate 8721 0) = None"
proof -
  have t: "passphrase_cfg (sample_cfg 3)" by (rule sample_cfg_ok) simp
  have f: "HAICRYPT_CFG_F_TX AND hc_flags (sample_cfg 3) \<noteq> 0" by (simp add: sample_cfg_ok)
  obtain s w' where s: "HaiCrypt_Create sample_lib sample_sys (sample_cfg 3) () = Some (0, Some s, w')"
    and d: "\<And>pfx data. 16 \<le> length pfx \<Longrightarrow> data \<noteq> [] \<Longrightarrow>
        if 16 + length data \<le> 6 * (16 * ((1456 + 15) div 16))
        then \<exists>s' cipher. HaiCrypt_Tx_Data sample_lib (Some s) pfx data = Some (0, s', pfx, cipher) \<and> length cipher = length data
        else HaiCrypt_Tx_Data sample_lib (Some s) pfx data = None"
    using oversized_packet_overruns [OF t f sample_cfg_ok(2) sample_works, of "Aes_Ctx blank_key" 0 "()",
      unfolded Let_def sample_lib_def [symmetric] sample_cfg_ok(5)] by blast
  have n: "16 + length (replicate 8720 (0 :: u8)) \<le> 6 * (16 * ((1456 + 15) div 16))"
    "\<not> 16 + length (replicate 8721 (0 :: u8)) \<le> 6 * (16 * ((1456 + 15) div 16))" "16 \<le> length (replicate 16 (0 :: u8))"
    "replicate 8720 (0 :: u8) \<noteq> []" "replicate 8721 (0 :: u8) \<noteq> []"
    unfolding length_replicate replicate_empty by simp_all
  from d [OF n(3,4)] d [OF n(3,5)] s show ?thesis unfolding if_P [OF n(1)] if_not_P [OF n(2)] by blast
qed

end
