(* ===== verification/SeqNo.thy ===== *)
theory SeqNo
  imports Prelude
begin

text \<open>
  Circular sequence numbers, class \<open>CSeqNo\<close> of \<open>srtcore/common.h\<close>.  A value is an \<open>int32_t\<close>; signed overflow is
  undefined behaviour and the value \<^term>\<open>None\<close>, and so is a failing assertion.  The meaning of the operations is
  given by unbounded numbers, of which a sequence number is the residue modulo \<open>2^31\<close>.
\<close>

section \<open>The operations\<close>

abbreviation (input) m_iSeqNoTH :: int where "m_iSeqNoTH \<equiv> 0x3FFFFFFF"
abbreviation (input) m_iMaxSeqNo :: int where "m_iMaxSeqNo \<equiv> 0x7FFFFFFF"
abbreviation (input) SRT_SEQNO_NONE :: int where "SRT_SEQNO_NONE \<equiv> -1"

text \<open>\<open>abs(seq1 - seq2) < m_iSeqNoTH\<close>\<close>

definition seq_near :: "int \<Rightarrow> int \<Rightarrow> bool option" where
  "seq_near seq1 seq2 = do { d \<leftarrow> int32 (seq1 - seq2); a \<leftarrow> int32 \<bar>d\<bar>; Some (a < m_iSeqNoTH) }"

definition seqcmp :: "int \<Rightarrow> int \<Rightarrow> int option" where
  "seqcmp seq1 seq2 = do { near \<leftarrow> seq_near seq1 seq2; if near then int32 (seq1 - seq2) else int32 (seq2 - seq1) }"

definition seqlen :: "int \<Rightarrow> int \<Rightarrow> int option" where
  "seqlen seq1 seq2 =
    (if \<not> (0 \<le> seq1 \<and> seq1 \<le> m_iMaxSeqNo) \<or> \<not> (0 \<le> seq2 \<and> seq2 \<le> m_iMaxSeqNo) then None
     else do {
       d \<leftarrow> int32 (seq2 - seq1);
       if seq1 \<le> seq2 then int32 (d + 1)
       else do { d \<leftarrow> int32 (d + m_iMaxSeqNo); int32 (d + 2) } })"

definition seqoff :: "int \<Rightarrow> int \<Rightarrow> int option" where
  "seqoff seq1 seq2 = do {
     near \<leftarrow> seq_near seq1 seq2;
     d \<leftarrow> int32 (seq2 - seq1);
     if near then Some d
     else if seq1 < seq2 then do { d \<leftarrow> int32 (d - m_iMaxSeqNo); int32 (d - 1) }
     else do { d \<leftarrow> int32 (d + m_iMaxSeqNo); int32 (d + 1) } }"

definition incseq :: "int \<Rightarrow> int option" where
  "incseq seq = (if seq = m_iMaxSeqNo then Some 0 else int32 (seq + 1))"

definition decseq :: "int \<Rightarrow> int option" where
  "decseq seq = (if seq = 0 then Some m_iMaxSeqNo else int32 (seq - 1))"

definition incseq_by :: "int \<Rightarrow> int \<Rightarrow> int option" where
  "incseq_by seq inc = do {
     d \<leftarrow> int32 (m_iMaxSeqNo - seq);
     if d \<ge> inc then int32 (seq + inc)
     else do { x \<leftarrow> int32 (seq - m_iMaxSeqNo); x \<leftarrow> int32 (x + inc); int32 (x - 1) } }"

definition decseq_by :: "int \<Rightarrow> int \<Rightarrow> int option" where
  "decseq_by seq dec =
    (if seq < dec then do { left \<leftarrow> int32 (dec - seq); x \<leftarrow> int32 (m_iMaxSeqNo - left); int32 (x + 1) }
     else int32 (seq - dec))"

definition maxseq :: "int \<Rightarrow> int \<Rightarrow> int option" where
  "maxseq seq1 seq2 = do { c \<leftarrow> seqcmp seq1 seq2; Some (if c < 0 then seq2 else seq1) }"

section \<open>The meaning\<close>

text \<open>The sequence number of the \<open>a\<close>-th packet.\<close>

definition sn :: "int \<Rightarrow> int" where
  "sn a = a mod 0x80000000"

lemma sn_range: "0 \<le> sn a" "sn a < 0x80000000" "sn a \<noteq> -1" "\<not> sn a < 0" "sn a \<le> m_iMaxSeqNo"
proof -
  show "0 \<le> sn a" "sn a < 0x80000000" by (simp_all add: sn_def)
  then show "sn a \<noteq> -1" "\<not> sn a < 0" "sn a \<le> m_iMaxSeqNo" by linarith+
qed

lemma sn_not_none [simp]: "sn a \<noteq> -1" "-1 \<noteq> sn a"
  using sn_range(3) [of a] by simp_all

lemma sn_diff:
  assumes "\<bar>b - a\<bar> < 0x80000000"
  obtains "sn b - sn a = b - a" | "sn b - sn a = b - a + 0x80000000" | "sn b - sn a = b - a - 0x80000000"
proof -
  have "\<exists>q. sn b - sn a = b - a + 0x80000000 * q"
    by (rule exI [of _ "a div 0x80000000 - b div 0x80000000"]) (simp add: sn_def minus_mult_div_eq_mod [symmetric] algebra_simps)
  then obtain q where q: "sn b - sn a = b - a + 0x80000000 * q" by blast
  have "sn b - sn a < 0x80000000" "- 0x80000000 < sn b - sn a" using sn_range [of a] sn_range [of b] by linarith+
  with q assms have "q < 2" "-2 < q" by linarith+
  then consider "q = 0" | "q = 1" | "q = -1" by linarith
  then show thesis using q that by cases simp_all
qed

lemma sn_sub: "sn a - sn b < 2147483648" "- 2147483648 < sn a - sn b" "sn b - sn a < 2147483648"
  using sn_range [of a] sn_range [of b] by linarith+

lemma near_sn: "seq_near (sn a) (sn b) = Some (\<bar>sn a - sn b\<bar> < m_iSeqNoTH)"
proof -
  have "- 2147483648 \<le> sn a - sn b" "\<bar>sn a - sn b\<bar> < 2147483648" using sn_sub [of a b] by linarith+
  then show ?thesis using sn_sub [of a b] by (simp add: seq_near_def)
qed

lemma seqoff_sn: "\<bar>b - a\<bar> < m_iSeqNoTH \<Longrightarrow> seqoff (sn a) (sn b) = Some (b - a)"
proof -
  assume near: "\<bar>b - a\<bar> < m_iSeqNoTH"
  then have "\<bar>b - a\<bar> < 0x80000000" by simp
  then show ?thesis
  proof (cases rule: sn_diff)
    case 1
    then have "\<bar>sn a - sn b\<bar> < m_iSeqNoTH" using near by linarith
    with 1 near show ?thesis by (simp add: seqoff_def near_sn)
  next
    case 2
    then have "\<not> \<bar>sn a - sn b\<bar> < m_iSeqNoTH" "sn a < sn b" using near by linarith+
    with 2 near sn_sub [of b a] show ?thesis by (simp add: seqoff_def near_sn)
  next
    case 3
    then have "\<not> \<bar>sn a - sn b\<bar> < m_iSeqNoTH" "\<not> sn a < sn b" using near by linarith+
    with 3 near sn_sub [of b a] show ?thesis by (simp add: seqoff_def near_sn)
  qed
qed

lemma seqcmp_near:
  assumes "\<bar>a - b\<bar> < m_iSeqNoTH"
  shows "seqcmp (sn a) (sn b) = Some (if \<bar>sn a - sn b\<bar> < m_iSeqNoTH then sn a - sn b else sn b - sn a)"
  using sn_sub [of a b] by (simp add: seqcmp_def near_sn)

text \<open>Only the sign of \<open>seqcmp\<close> has a meaning.\<close>

lemma seqcmp_sn:
  assumes "\<bar>a - b\<bar> < m_iSeqNoTH"
  obtains c where "seqcmp (sn a) (sn b) = Some c" "c < 0 \<longleftrightarrow> a < b" "c = 0 \<longleftrightarrow> a = b" "c > 0 \<longleftrightarrow> a > b"
proof -
  let ?c = "if \<bar>sn a - sn b\<bar> < m_iSeqNoTH then sn a - sn b else sn b - sn a"
  have "\<bar>a - b\<bar> < 0x80000000" using assms by simp
  then have "?c < 0 \<and> a < b \<or> ?c = 0 \<and> a = b \<or> ?c > 0 \<and> a > b"
  proof (cases rule: sn_diff)
    case 1
    then have "?c = a - b" using assms by auto
    then show ?thesis by linarith
  next
    case 2
    then have "?c = sn b - sn a" using assms by auto
    then show ?thesis using 2 assms sn_sub [of a b] by linarith
  next
    case 3
    then have "?c = sn b - sn a" using assms by auto
    then show ?thesis using 3 assms sn_sub [of a b] by linarith
  qed
  with that [of ?c] seqcmp_near [OF assms] show thesis by linarith
qed

lemma sn_unique: "0 \<le> y \<Longrightarrow> y \<le> m_iMaxSeqNo \<Longrightarrow> x = y + 0x80000000 * q \<Longrightarrow> sn x = y"
  by (simp add: sn_def)

lemma sn_shift:
  assumes "0 \<le> d" "d < 0x80000000"
  shows "sn (a + d) = (if sn a + d \<le> m_iMaxSeqNo then sn a + d else sn a + d - 0x80000000)"
    and "sn (a - d) = (if d \<le> sn a then sn a - d else sn a - d + 0x80000000)"
proof -
  define q where "q = a div 0x80000000"
  have a: "a = sn a + 0x80000000 * q" unfolding q_def sn_def by simp
  have r: "0 \<le> sn a" "sn a < 0x80000000" by (rule sn_range)+
  have "sn (a + d) = sn a + d" if "sn a + d \<le> m_iMaxSeqNo"
    by (rule sn_unique [of _ _ q]) (use a r assms that in linarith)+
  moreover have "sn (a + d) = sn a + d - 0x80000000" if "\<not> sn a + d \<le> m_iMaxSeqNo"
    by (rule sn_unique [of _ _ "q + 1"]) (simp_all only: distrib_left, (use a r assms that in linarith)+)
  ultimately show "sn (a + d) = (if sn a + d \<le> m_iMaxSeqNo then sn a + d else sn a + d - 0x80000000)" by presburger
  have "sn (a - d) = sn a - d" if "d \<le> sn a"
    by (rule sn_unique [of _ _ q]) (use a r assms that in linarith)+
  moreover have "sn (a - d) = sn a - d + 0x80000000" if "\<not> d \<le> sn a"
    by (rule sn_unique [of _ _ "q - 1"]) (simp_all only: right_diff_distrib, (use a r assms that in linarith)+)
  ultimately show "sn (a - d) = (if d \<le> sn a then sn a - d else sn a - d + 0x80000000)" by presburger
qed

lemma incseq_by_sn: "0 \<le> d \<Longrightarrow> d \<le> m_iMaxSeqNo \<Longrightarrow> incseq_by (sn a) d = Some (sn (a + d))"
  and decseq_by_sn: "0 \<le> d \<Longrightarrow> d \<le> m_iMaxSeqNo \<Longrightarrow> decseq_by (sn a) d = Some (sn (a - d))"
proof -
  assume "0 \<le> d" "d \<le> m_iMaxSeqNo"
  moreover have "0 \<le> sn a" "sn a < 0x80000000" by (rule sn_range)+
  ultimately show "incseq_by (sn a) d = Some (sn (a + d))" "decseq_by (sn a) d = Some (sn (a - d))"
    using sn_shift [of d a] by (auto simp: incseq_by_def decseq_by_def int32_def)
qed

lemma seq_sn: "incseq (sn a) = Some (sn (a + 1))" "decseq (sn a) = Some (sn (a - 1))"
proof -
  have "0 \<le> sn a" "sn a < 0x80000000" by (rule sn_range)+
  then show "incseq (sn a) = Some (sn (a + 1))" "decseq (sn a) = Some (sn (a - 1))"
    using sn_shift [of 1 a] by (auto simp: incseq_def decseq_def int32_def)
qed

lemma seqlen_sn: "a \<le> b \<Longrightarrow> b - a < m_iMaxSeqNo \<Longrightarrow> seqlen (sn a) (sn b) = Some (b - a + 1)"
proof -
  assume ab: "a \<le> b" "b - a < m_iMaxSeqNo"
  then have "\<bar>b - a\<bar> < 0x80000000" by simp
  then show ?thesis
    using ab sn_sub [of a b] sn_sub [of b a] by (cases rule: sn_diff) (auto simp: seqlen_def not_le sn_range)
qed

text \<open>
  C28: on the residues of unbounded packet numbers the operations of \<open>CSeqNo\<close> are the arithmetic of those numbers,
  without signed overflow: stepping by one or by any distance in either direction, the offset, the sign of the comparison
  and the maximum of two numbers less than \<open>m_iSeqNoTH\<close> apart, and the length of a range.
\<close>

theorem seq_arithmetic:
  assumes near: "\<bar>b - a\<bar> < m_iSeqNoTH" and d: "0 \<le> d" "d \<le> m_iMaxSeqNo"
  shows "incseq (sn a) = Some (sn (a + 1)) \<and> decseq (sn a) = Some (sn (a - 1))
    \<and> incseq_by (sn a) d = Some (sn (a + d)) \<and> decseq_by (sn a) d = Some (sn (a - d))
    \<and> seqoff (sn a) (sn b) = Some (b - a) \<and> (\<exists>c. seqcmp (sn a) (sn b) = Some c \<and> sgn c = sgn (a - b))
    \<and> maxseq (sn a) (sn b) = Some (sn (max a b)) \<and> (a \<le> b \<longrightarrow> seqlen (sn a) (sn b) = Some (b - a + 1))"
proof -
  have "\<bar>a - b\<bar> < m_iSeqNoTH" using near by linarith
  from seqcmp_sn [OF this] obtain c where c: "seqcmp (sn a) (sn b) = Some c" "c < 0 \<longleftrightarrow> a < b" "c = 0 \<longleftrightarrow> a = b" "c > 0 \<longleftrightarrow> a > b" .
  then have "sgn c = sgn (a - b)" by (auto simp: sgn_if)
  moreover have "maxseq (sn a) (sn b) = Some (sn (max a b))" using c by (simp add: maxseq_def max_def)
  moreover have "a \<le> b \<longrightarrow> seqlen (sn a) (sn b) = Some (b - a + 1)" using near by (intro impI seqlen_sn) linarith+
  ultimately show ?thesis using c(1) near d by (simp add: seq_sn incseq_by_sn decseq_by_sn seqoff_sn)
qed

theorem seq_arithmetic_witness:
  "seqoff 0x7FFFFFFE 3 = Some 5 \<and> seqlen 0x7FFFFFFE 3 = Some 6 \<and> maxseq 0x7FFFFFFE 3 = Some 3 \<and> incseq_by 0x7FFFFFFE 5 = Some 3"
  using seq_arithmetic [of "0x80000003" "0x7FFFFFFE" 5] by (simp add: sn_def)

end
