(* ===== verification/RcvLoss.thy ===== *)
theory RcvLoss
  imports SeqNo
begin

text \<open>
  The receiver's loss list of SRT, class \<open>CRcvLossList\<close> of \<open>srtcore/list.cpp\<close>: the ranges of lost sequence numbers as a
  doubly linked list in an array, in which the node of a range stands at the distance of its first number from the head.
  An operation gives \<^term>\<open>None\<close> where it would index outside the array, overflow an \<open>int\<close> or never end.
\<close>

section \<open>Nodes and indices\<close>

record seq_node =
  seqstart :: int
  seqend :: int
  inext :: int
  iprior :: int

definition node_at :: "'a list \<Rightarrow> int \<Rightarrow> 'a option" where
  "node_at A i = (if 0 \<le> i \<and> i < int (length A) then Some (A ! nat i) else None)"

definition set_node :: "'a list \<Rightarrow> int \<Rightarrow> ('a \<Rightarrow> 'a) \<Rightarrow> 'a list option" where
  "set_node A i f = (if 0 \<le> i \<and> i < int (length A) then Some (A[nat i := f (A ! nat i)]) else None)"

text \<open>The operator \<open>%\<close> on \<open>int\<close>: the remainder has the sign of the dividend.\<close>

definition c_rem :: "int \<Rightarrow> int \<Rightarrow> int option" where
  "c_rem a b = (if b = 0 then None else Some (if 0 \<le> a then a mod \<bar>b\<bar> else - ((- a) mod \<bar>b\<bar>)))"

text \<open>\<open>(i + d) % m_iSize\<close>\<close>

definition ring :: "int \<Rightarrow> int \<Rightarrow> int \<Rightarrow> int option" where
  "ring i d sz = do { x \<leftarrow> int32 (i + d); c_rem x sz }"

text \<open>\<open>(i - 1 + m_iSize) % m_iSize\<close>\<close>

definition ring_back :: "int \<Rightarrow> int \<Rightarrow> int option" where
  "ring_back i sz = do { x \<leftarrow> int32 (i - 1); ring x sz sz }"

section \<open>The list\<close>

record rcv_loss =
  m_caSeq :: "seq_node list"
  m_iHead :: int
  m_iTail :: int
  m_iLength :: int
  m_iSize :: int

text \<open>The constructor leaves the links of the nodes as the memory has them.\<close>

definition CRcvLossList :: "(nat \<Rightarrow> int \<times> int) \<Rightarrow> nat \<Rightarrow> rcv_loss" where
  "CRcvLossList junk sz = \<lparr>m_caSeq = map (\<lambda>i. \<lparr>seqstart = SRT_SEQNO_NONE, seqend = SRT_SEQNO_NONE, inext = fst (junk i), iprior = snd (junk i)\<rparr>) [0..<sz],
     m_iHead = -1, m_iTail = -1, m_iLength = 0, m_iSize = int sz\<rparr>"

definition add_length :: "int \<Rightarrow> int \<Rightarrow> rcv_loss \<Rightarrow> rcv_loss option" where
  "add_length seqno1 seqno2 l = do {
     k \<leftarrow> seqlen seqno1 seqno2; n \<leftarrow> int32 (m_iLength l + k); Some (l\<lparr>m_iLength := n\<rparr>) }"

text \<open>The node of a range: its end stays as it is when the range has one number.\<close>

definition put_range :: "int \<Rightarrow> int \<Rightarrow> seq_node \<Rightarrow> seq_node" where
  "put_range seqno1 seqno2 n = (let n = n\<lparr>seqstart := seqno1\<rparr> in if seqno2 \<noteq> seqno1 then n\<lparr>seqend := seqno2\<rparr> else n)"

text \<open>\<open>(SRT_SEQNO_NONE != m_caSeq[m_iTail].seqend) && (CSeqNo::incseq(m_caSeq[m_iTail].seqend) == seqno1)\<close>\<close>

definition adjoins :: "seq_node \<Rightarrow> int \<Rightarrow> bool option" where
  "adjoins t seqno1 = (if seqend t \<noteq> SRT_SEQNO_NONE then do { e \<leftarrow> incseq (seqend t); Some (e = seqno1) } else Some False)"

definition insert_rcv :: "int \<Rightarrow> int \<Rightarrow> rcv_loss \<Rightarrow> rcv_loss option" where
  "insert_rcv seqno1 seqno2 l =
    (if m_iLength l = 0 then do {
       A \<leftarrow> set_node (m_caSeq l) 0 (\<lambda>n. (put_range seqno1 seqno2 n)\<lparr>inext := -1, iprior := -1\<rparr>);
       add_length seqno1 seqno2 (l\<lparr>m_iHead := 0, m_iTail := 0, m_caSeq := A\<rparr>) }
     else do {
       h \<leftarrow> node_at (m_caSeq l) (m_iHead l);
       offset \<leftarrow> seqoff (seqstart h) seqno1;
       if offset < 0 then Some l
       else do {
         loc \<leftarrow> ring (m_iHead l) offset (m_iSize l);
         t \<leftarrow> node_at (m_caSeq l) (m_iTail l);
         coalesce \<leftarrow> adjoins t seqno1;
         l \<leftarrow> (if coalesce then do {
                A \<leftarrow> set_node (m_caSeq l) (m_iTail l) (\<lambda>n. n\<lparr>seqend := seqno2\<rparr>);
                Some (l\<lparr>m_caSeq := A\<rparr>) }
              else do {
                A \<leftarrow> set_node (m_caSeq l) loc (put_range seqno1 seqno2);
                A \<leftarrow> set_node A (m_iTail l) (\<lambda>n. n\<lparr>inext := loc\<rparr>);
                A \<leftarrow> set_node A loc (\<lambda>n. n\<lparr>iprior := m_iTail l, inext := -1\<rparr>);
                Some (l\<lparr>m_caSeq := A, m_iTail := loc\<rparr>) });
         add_length seqno1 seqno2 l } })"

section \<open>Removal\<close>

text \<open>The number starts a range of one: its node leaves the list.\<close>

definition unlink :: "int \<Rightarrow> rcv_loss \<Rightarrow> rcv_loss option" where
  "unlink loc l = do {
     n \<leftarrow> node_at (m_caSeq l) loc;
     l \<leftarrow> (if m_iHead l = loc then do {
            A \<leftarrow> (if inext n \<noteq> -1 then set_node (m_caSeq l) (inext n) (\<lambda>n. n\<lparr>iprior := -1\<rparr>) else Some (m_caSeq l));
            Some (l\<lparr>m_iHead := inext n, m_caSeq := A\<rparr>) }
          else do {
            A \<leftarrow> set_node (m_caSeq l) (iprior n) (\<lambda>p. p\<lparr>inext := inext n\<rparr>);
            n \<leftarrow> node_at A loc;
            if inext n \<noteq> -1 then do {
              A \<leftarrow> set_node A (inext n) (\<lambda>p. p\<lparr>iprior := iprior n\<rparr>);
              Some (l\<lparr>m_caSeq := A\<rparr>) }
            else Some (l\<lparr>m_caSeq := A, m_iTail := iprior n\<rparr>) });
     A \<leftarrow> set_node (m_caSeq l) loc (\<lambda>n. n\<lparr>seqstart := SRT_SEQNO_NONE\<rparr>);
     Some (l\<lparr>m_caSeq := A\<rparr>) }"

text \<open>The number starts a longer range, whose rest moves to the next index.\<close>

definition advance :: "int \<Rightarrow> rcv_loss \<Rightarrow> rcv_loss option" where
  "advance loc l = do {
     i \<leftarrow> ring loc 1 (m_iSize l);
     n \<leftarrow> node_at (m_caSeq l) loc;
     s \<leftarrow> incseq (seqstart n);
     A \<leftarrow> set_node (m_caSeq l) i (\<lambda>n. n\<lparr>seqstart := s\<rparr>);
     n \<leftarrow> node_at A loc;
     s \<leftarrow> incseq (seqstart n);
     c \<leftarrow> seqcmp (seqend n) s;
     A \<leftarrow> (if c > 0 then set_node A i (\<lambda>p. p\<lparr>seqend := seqend n\<rparr>) else Some A);
     A \<leftarrow> set_node A loc (\<lambda>n. n\<lparr>seqstart := SRT_SEQNO_NONE, seqend := SRT_SEQNO_NONE\<rparr>);
     n \<leftarrow> node_at A loc;
     A \<leftarrow> set_node A i (\<lambda>p. p\<lparr>inext := inext n\<rparr>);
     n \<leftarrow> node_at A loc;
     A \<leftarrow> set_node A i (\<lambda>p. p\<lparr>iprior := iprior n\<rparr>);
     n \<leftarrow> node_at A i;
     (A, h) \<leftarrow> (if m_iHead l = loc then Some (A, i)
        else do { A \<leftarrow> set_node A (iprior n) (\<lambda>p. p\<lparr>inext := i\<rparr>); Some (A, m_iHead l) });
     n \<leftarrow> node_at A i;
     (A, t) \<leftarrow> (if m_iTail l = loc then Some (A, i)
        else do { A \<leftarrow> set_node A (inext n) (\<lambda>p. p\<lparr>iprior := i\<rparr>); Some (A, m_iTail l) });
     Some (l\<lparr>m_caSeq := A, m_iHead := h, m_iTail := t\<rparr>) }"

text \<open>
  \<open>while (SRT_SEQNO_NONE == m_caSeq[i].seqstart) i = (i - 1 + m_iSize) % m_iSize\<close>, with fuel for one turn around the
  array: a loop that has seen only empty nodes by then never ends.
\<close>

fun search_back :: "nat \<Rightarrow> seq_node list \<Rightarrow> int \<Rightarrow> int \<Rightarrow> int option" where
  "search_back 0 A sz i = None"
| "search_back (Suc k) A sz i = do {
     n \<leftarrow> node_at A i;
     if seqstart n \<noteq> SRT_SEQNO_NONE then Some i
     else do { i \<leftarrow> ring_back i sz; search_back k A sz i } }"

text \<open>The number is the end of the range of node \<open>i\<close>, or splits it.\<close>

definition cut_end :: "int \<Rightarrow> seq_node \<Rightarrow> int option" where
  "cut_end seqno n = do {
     s \<leftarrow> incseq (seqstart n);
     if seqno = s then Some SRT_SEQNO_NONE else decseq seqno }"

definition split_at :: "int \<Rightarrow> int \<Rightarrow> int \<Rightarrow> rcv_loss \<Rightarrow> rcv_loss option" where
  "split_at loc i seqno l = do {
     loc \<leftarrow> ring loc 1 (m_iSize l);
     s \<leftarrow> incseq seqno;
     A \<leftarrow> set_node (m_caSeq l) loc (\<lambda>n. n\<lparr>seqstart := s\<rparr>);
     n \<leftarrow> node_at A i;
     c \<leftarrow> seqcmp (seqend n) s;
     A \<leftarrow> (if c > 0 then set_node A loc (\<lambda>p. p\<lparr>seqend := seqend n\<rparr>) else Some A);
     n \<leftarrow> node_at A i;
     e \<leftarrow> cut_end seqno n;
     A \<leftarrow> set_node A i (\<lambda>n. n\<lparr>seqend := e\<rparr>);
     n \<leftarrow> node_at A i;
     A \<leftarrow> set_node A loc (\<lambda>p. p\<lparr>inext := inext n\<rparr>);
     A \<leftarrow> set_node A i (\<lambda>n. n\<lparr>inext := loc\<rparr>);
     A \<leftarrow> set_node A loc (\<lambda>p. p\<lparr>iprior := i\<rparr>);
     n \<leftarrow> node_at A loc;
     if m_iTail l = i then Some (l\<lparr>m_caSeq := A, m_iTail := loc\<rparr>)
     else do { A \<leftarrow> set_node A (inext n) (\<lambda>p. p\<lparr>iprior := loc\<rparr>); Some (l\<lparr>m_caSeq := A\<rparr>) } }"

definition drop_one :: "rcv_loss \<Rightarrow> (bool \<times> rcv_loss) option" where
  "drop_one l = do { n \<leftarrow> int32 (m_iLength l - 1); Some (True, l\<lparr>m_iLength := n\<rparr>) }"

definition remove_rcv :: "int \<Rightarrow> rcv_loss \<Rightarrow> (bool \<times> rcv_loss) option" where
  "remove_rcv seqno l =
    (if m_iLength l = 0 then Some (False, l)
     else do {
       h \<leftarrow> node_at (m_caSeq l) (m_iHead l);
       offset \<leftarrow> seqoff (seqstart h) seqno;
       if offset < 0 then Some (False, l)
       else do {
         loc \<leftarrow> ring (m_iHead l) offset (m_iSize l);
         n \<leftarrow> node_at (m_caSeq l) loc;
         if seqno = seqstart n then do {
           l \<leftarrow> (if seqend n = SRT_SEQNO_NONE then unlink loc l else advance loc l);
           drop_one l }
         else do {
           i \<leftarrow> ring_back loc (m_iSize l);
           i \<leftarrow> search_back (length (m_caSeq l)) (m_caSeq l) (m_iSize l) i;
           n \<leftarrow> node_at (m_caSeq l) i;
           if seqend n = SRT_SEQNO_NONE then Some (False, l)
           else do {
             c \<leftarrow> seqcmp seqno (seqend n);
             if c > 0 then Some (False, l)
             else do {
               l \<leftarrow> (if seqno = seqend n then do {
                      e \<leftarrow> cut_end seqno n;
                      A \<leftarrow> set_node (m_caSeq l) i (\<lambda>n. n\<lparr>seqend := e\<rparr>);
                      Some (l\<lparr>m_caSeq := A\<rparr>) }
                    else split_at loc i seqno l);
               drop_one l } } } } })"

text \<open>\<open>for (int32_t i = lo; i <= hi; ++i) remove(i)\<close>\<close>

function remove_loop :: "int \<Rightarrow> int \<Rightarrow> rcv_loss \<Rightarrow> rcv_loss option" where
  "remove_loop i hi l =
    (if i \<le> hi then do { (_, l) \<leftarrow> remove_rcv i l; j \<leftarrow> int32 (i + 1); remove_loop (i + 1) hi l } else Some l)"
  by pat_completeness auto
termination by (relation "measure (\<lambda>(i, hi, l). nat (hi + 1 - i))") auto

declare remove_loop.simps [simp del]

definition remove_range :: "int \<Rightarrow> int \<Rightarrow> rcv_loss \<Rightarrow> (bool \<times> rcv_loss) option" where
  "remove_range seqno1 seqno2 l = do {
     l \<leftarrow> (if seqno1 \<le> seqno2 then remove_loop seqno1 seqno2 l
          else do { l \<leftarrow> remove_loop seqno1 (m_iMaxSeqNo - 1) l; remove_loop 0 seqno2 l });
     Some (True, l) }"

section \<open>Queries\<close>

text \<open>
  The walks over the list have fuel for as many nodes as the array has: a walk that is longer is in a cycle.
\<close>

definition node_meets :: "int \<Rightarrow> int \<Rightarrow> seq_node \<Rightarrow> bool option" where
  "node_meets seqno1 seqno2 n = do {
     c1 \<leftarrow> seqcmp (seqstart n) seqno1;
     if c1 = 0 then Some True
     else if c1 > 0 then do { c2 \<leftarrow> seqcmp (seqstart n) seqno2; Some (c2 \<le> 0) }
     else if seqend n \<noteq> SRT_SEQNO_NONE then do { c3 \<leftarrow> seqcmp (seqend n) seqno1; Some (c3 \<ge> 0) }
     else Some False }"

fun find_from :: "nat \<Rightarrow> seq_node list \<Rightarrow> int \<Rightarrow> int \<Rightarrow> int \<Rightarrow> bool option" where
  "find_from 0 A seqno1 seqno2 p = (if p = -1 then Some False else None)"
| "find_from (Suc k) A seqno1 seqno2 p =
    (if p = -1 then Some False
     else do {
       n \<leftarrow> node_at A p;
       m \<leftarrow> node_meets seqno1 seqno2 n;
       if m then Some True else find_from k A seqno1 seqno2 (inext n) })"

definition find_rcv :: "int \<Rightarrow> int \<Rightarrow> rcv_loss \<Rightarrow> bool option" where
  "find_rcv seqno1 seqno2 l =
    (if m_iLength l = 0 then Some False else find_from (length (m_caSeq l)) (m_caSeq l) seqno1 seqno2 (m_iHead l))"

definition getLossLength :: "rcv_loss \<Rightarrow> int" where
  "getLossLength l = m_iLength l"

definition getFirstLostSeq :: "rcv_loss \<Rightarrow> int option" where
  "getFirstLostSeq l =
    (if m_iLength l = 0 then Some SRT_SEQNO_NONE
     else do { n \<leftarrow> node_at (m_caSeq l) (m_iHead l); Some (seqstart n) })"

text \<open>\<open>array[len] |= LOSSDATA_SEQNO_RANGE_FIRST\<close>; the array is what has been written so far.\<close>

definition range_first :: "int \<Rightarrow> int" where
  "range_first s = sint ((word_of_int s :: 32 word) OR 0x80000000)"

fun loss_array_from :: "nat \<Rightarrow> seq_node list \<Rightarrow> int \<Rightarrow> int \<Rightarrow> int list \<Rightarrow> int list option" where
  "loss_array_from 0 A limit i array = (if int (length array) < limit - 1 \<and> i \<noteq> -1 then None else Some array)"
| "loss_array_from (Suc k) A limit i array =
    (if int (length array) < limit - 1 \<and> i \<noteq> -1 then do {
       n \<leftarrow> node_at A i;
       let out = (if seqend n \<noteq> SRT_SEQNO_NONE then [range_first (seqstart n), seqend n] else [seqstart n]);
       loss_array_from k A limit (inext n) (array @ out) }
     else Some array)"

definition getLossArray :: "int \<Rightarrow> rcv_loss \<Rightarrow> int list option" where
  "getLossArray limit l = loss_array_from (length (m_caSeq l)) (m_caSeq l) limit (m_iHead l) []"

end
