(* ===== verification/SndLoss.thy ===== *)
theory SndLoss
  imports RcvLoss
begin

text \<open>
  The sender's loss list of SRT, class \<open>CSndLossList\<close> of \<open>srtcore/list.cpp\<close>: ranges of lost sequence numbers as a singly
  linked list in an array, in which ranges are inserted anywhere and merged, and which is consumed from its head.  As in
  the receiver's list, an operation gives \<^term>\<open>None\<close> where it would index outside the array, overflow, fail an assertion
  or never end.  Every operation holds the list's mutex, so that it is one step.
\<close>

record snd_node =
  nseqstart :: int
  nseqend :: int
  ninext :: int

record snd_loss =
  s_caSeq :: "snd_node list"
  s_iHead :: int
  s_iLength :: int
  s_iSize :: int
  s_iLastInsertPos :: int

definition CSndLossList :: "(nat \<Rightarrow> int) \<Rightarrow> nat \<Rightarrow> snd_loss" where
  "CSndLossList junk sz = \<lparr>s_caSeq = map (\<lambda>i. \<lparr>nseqstart = SRT_SEQNO_NONE, nseqend = SRT_SEQNO_NONE, ninext = junk i\<rparr>) [0..<sz],
     s_iHead = -1, s_iLength = 0, s_iSize = int sz, s_iLastInsertPos = -1\<rparr>"

section \<open>Insertion\<close>

text \<open>\<open>m_iLength += d\<close>\<close>

definition change_length :: "int \<Rightarrow> snd_loss \<Rightarrow> snd_loss option" where
  "change_length d l = do { n \<leftarrow> int32 (s_iLength l + d); Some (l\<lparr>s_iLength := n\<rparr>) }"

text \<open>The fields of a new node, which has to be empty: the start common to \<open>insertHead\<close> and \<open>insertAfter\<close>.\<close>

definition fill_node :: "int \<Rightarrow> int \<Rightarrow> int \<Rightarrow> snd_node list \<Rightarrow> snd_node list option" where
  "fill_node pos seqno1 seqno2 A = do {
     A \<leftarrow> set_node A pos (\<lambda>n. n\<lparr>nseqstart := seqno1\<rparr>);
     n \<leftarrow> node_at A pos;
     if nseqend n \<noteq> SRT_SEQNO_NONE then None
     else if seqno2 \<noteq> seqno1 then set_node A pos (\<lambda>n. n\<lparr>nseqend := seqno2\<rparr>)
     else Some A }"

definition insertHead :: "int \<Rightarrow> int \<Rightarrow> int \<Rightarrow> snd_loss \<Rightarrow> snd_loss option" where
  "insertHead pos seqno1 seqno2 l =
    (if pos < 0 then None
     else do {
       A \<leftarrow> fill_node pos seqno1 seqno2 (s_caSeq l);
       A \<leftarrow> set_node A pos (\<lambda>n. n\<lparr>ninext := s_iHead l\<rparr>);
       k \<leftarrow> seqlen seqno1 seqno2;
       change_length k (l\<lparr>s_caSeq := A, s_iHead := pos, s_iLastInsertPos := pos\<rparr>) })"

definition insertAfter :: "int \<Rightarrow> int \<Rightarrow> int \<Rightarrow> int \<Rightarrow> snd_loss \<Rightarrow> snd_loss option" where
  "insertAfter pos pos_after seqno1 seqno2 l = do {
     A \<leftarrow> fill_node pos seqno1 seqno2 (s_caSeq l);
     n \<leftarrow> node_at A pos_after;
     A \<leftarrow> set_node A pos (\<lambda>p. p\<lparr>ninext := ninext n\<rparr>);
     A \<leftarrow> set_node A pos_after (\<lambda>n. n\<lparr>ninext := pos\<rparr>);
     k \<leftarrow> seqlen seqno1 seqno2;
     change_length k (l\<lparr>s_caSeq := A, s_iLastInsertPos := pos\<rparr>) }"

text \<open>
  One turn of the loop of \<open>coalesce\<close>: the node \<open>i\<close> behind \<open>loc\<close>, which it overlaps or adjoins, is merged into it, first its
  range and then its link.
\<close>

definition absorb_next :: "int \<Rightarrow> int \<Rightarrow> snd_loss \<Rightarrow> snd_loss option" where
  "absorb_next loc i l = do {
     p \<leftarrow> node_at (s_caSeq l) loc;
     n \<leftarrow> node_at (s_caSeq l) i;
     if nseqend n \<noteq> SRT_SEQNO_NONE then do {
       c \<leftarrow> seqcmp (nseqend n) (nseqend p);
       if c > 0 then do {
         c \<leftarrow> seqcmp (nseqend p) (nseqstart n);
         l \<leftarrow> (if c \<ge> 0 then do { k \<leftarrow> seqlen (nseqstart n) (nseqend p); change_length (- k) l } else Some l);
         A \<leftarrow> set_node (s_caSeq l) loc (\<lambda>p. p\<lparr>nseqend := nseqend n\<rparr>);
         Some (l\<lparr>s_caSeq := A\<rparr>) }
       else do { k \<leftarrow> seqlen (nseqstart n) (nseqend n); change_length (- k) l } }
     else do {
       e \<leftarrow> incseq (nseqend p);
       if nseqstart n = e then do {
         A \<leftarrow> set_node (s_caSeq l) loc (\<lambda>p. p\<lparr>nseqend := nseqstart n\<rparr>);
         Some (l\<lparr>s_caSeq := A\<rparr>) }
       else change_length (-1) l } }"

definition merge_next :: "int \<Rightarrow> int \<Rightarrow> snd_loss \<Rightarrow> snd_loss option" where
  "merge_next loc i l = do {
     l \<leftarrow> absorb_next loc i l;
     A \<leftarrow> set_node (s_caSeq l) i (\<lambda>n. n\<lparr>nseqstart := SRT_SEQNO_NONE, nseqend := SRT_SEQNO_NONE\<rparr>);
     n \<leftarrow> node_at A i;
     A \<leftarrow> set_node A loc (\<lambda>p. p\<lparr>ninext := ninext n\<rparr>);
     Some (l\<lparr>s_caSeq := A\<rparr>) }"

text \<open>The loops over the list have fuel for as many nodes as the array has, which are enough unless the list is a cycle.\<close>

fun coalesce_loop :: "nat \<Rightarrow> int \<Rightarrow> snd_loss \<Rightarrow> snd_loss option" where
  "coalesce_loop 0 loc l = None"
| "coalesce_loop (Suc k) loc l = do {
     p \<leftarrow> node_at (s_caSeq l) loc;
     if ninext p \<noteq> -1 \<and> nseqend p \<noteq> SRT_SEQNO_NONE then do {
       n \<leftarrow> node_at (s_caSeq l) (ninext p);
       e \<leftarrow> incseq (nseqend p);
       c \<leftarrow> seqcmp (nseqstart n) e;
       if c > 0 then Some l
       else do { l \<leftarrow> merge_next loc (ninext p) l; coalesce_loop k loc l } }
     else Some l }"

definition coalesce :: "int \<Rightarrow> snd_loss \<Rightarrow> snd_loss option" where
  "coalesce loc l = coalesce_loop (length (s_caSeq l)) loc l"

text \<open>The range of node \<open>pos\<close>, which ends at \<open>end1\<close>, is extended: also the end of \<open>insert\<close> on an overlap.\<close>

definition extend_node :: "int \<Rightarrow> int \<Rightarrow> int \<Rightarrow> snd_loss \<Rightarrow> snd_loss option" where
  "extend_node pos end1 seqno2 l = do {
     k \<leftarrow> seqlen end1 seqno2;
     d \<leftarrow> int32 (k - 1);
     l \<leftarrow> change_length d l;
     A \<leftarrow> set_node (s_caSeq l) pos (\<lambda>n. n\<lparr>nseqend := seqno2\<rparr>);
     Some (l\<lparr>s_caSeq := A\<rparr>) }"

definition updateElement :: "int \<Rightarrow> int \<Rightarrow> int \<Rightarrow> snd_loss \<Rightarrow> (bool \<times> snd_loss) option" where
  "updateElement pos seqno1 seqno2 l = (let l = l\<lparr>s_iLastInsertPos := pos\<rparr> in
     if seqno2 = SRT_SEQNO_NONE \<or> seqno2 = seqno1 then Some (False, l)
     else do {
       n \<leftarrow> node_at (s_caSeq l) pos;
       if nseqend n = SRT_SEQNO_NONE then do { l \<leftarrow> extend_node pos seqno1 seqno2 l; Some (True, l) }
       else do {
         c \<leftarrow> seqcmp seqno2 (nseqend n);
         if c \<le> 0 then Some (False, l)
         else do { l \<leftarrow> extend_node pos (nseqend n) seqno2 l; Some (True, l) } } })"

text \<open>
  \<open>while (m_caSeq[i].inext != -1 && CSeqNo::seqcmp(m_caSeq[m_caSeq[i].inext].seqstart, seqno) < 0) i = m_caSeq[i].inext\<close>,
  in \<open>insert\<close> and in \<open>removeUpTo\<close>
\<close>

fun prior_node :: "nat \<Rightarrow> snd_node list \<Rightarrow> int \<Rightarrow> int \<Rightarrow> int option" where
  "prior_node 0 A seqno i = None"
| "prior_node (Suc k) A seqno i = do {
     n \<leftarrow> node_at A i;
     if ninext n \<noteq> -1 then do {
       m \<leftarrow> node_at A (ninext n);
       c \<leftarrow> seqcmp (nseqstart m) seqno;
       if c < 0 then prior_node k A seqno (ninext n) else Some i }
     else Some i }"

text \<open>Where the search for the prior node begins.\<close>

definition search_start :: "int \<Rightarrow> snd_loss \<Rightarrow> int option" where
  "search_start seqno1 l =
    (if s_iLastInsertPos l \<noteq> -1 then do {
       n \<leftarrow> node_at (s_caSeq l) (s_iLastInsertPos l);
       c \<leftarrow> seqcmp (nseqstart n) seqno1;
       Some (if c < 0 then s_iLastInsertPos l else s_iHead l) }
     else Some (s_iHead l))"

text \<open>
  A range behind the head that starts where no node does.  The result has the location to coalesce from, or none where
  the code returns early.
\<close>

definition insert_behind_prior :: "int \<Rightarrow> int \<Rightarrow> int \<Rightarrow> snd_loss \<Rightarrow> (int option \<times> snd_loss) option" where
  "insert_behind_prior loc seqno1 seqno2 l = do {
     i \<leftarrow> search_start seqno1 l;
     i \<leftarrow> prior_node (length (s_caSeq l)) (s_caSeq l) seqno1 i;
     n \<leftarrow> node_at (s_caSeq l) i;
     let end1 = (if nseqend n = SRT_SEQNO_NONE then nseqstart n else nseqend n);
     c \<leftarrow> seqcmp end1 seqno1;
     apart \<leftarrow> (if c < 0 then do { e \<leftarrow> incseq end1; Some (e \<noteq> seqno1) } else Some False);
     if apart then do { l \<leftarrow> insertAfter loc i seqno1 seqno2 l; Some (Some loc, l) }
     else do {
       let l = l\<lparr>s_iLastInsertPos := i\<rparr>;
       c \<leftarrow> seqcmp end1 seqno2;
       if c \<ge> 0 then Some (None, l)
       else do { l \<leftarrow> extend_node i end1 seqno2 l; Some (Some i, l) } } }"

definition updated_at :: "int \<Rightarrow> (bool \<times> snd_loss) \<Rightarrow> int option \<times> snd_loss" where
  "updated_at loc = (\<lambda>(updated, l). (if updated then Some loc else None, l))"

definition place :: "int \<Rightarrow> int \<Rightarrow> int \<Rightarrow> int \<Rightarrow> snd_loss \<Rightarrow> (int option \<times> snd_loss) option" where
  "place offset loc seqno1 seqno2 l =
    (if offset < 0 then do { l \<leftarrow> insertHead loc seqno1 seqno2 l; Some (Some loc, l) }
     else if offset > 0 then do {
       n \<leftarrow> node_at (s_caSeq l) loc;
       if seqno1 = nseqstart n then map_option (updated_at loc) (updateElement loc seqno1 seqno2 l)
       else insert_behind_prior loc seqno1 seqno2 l }
     else map_option (updated_at loc) (updateElement (s_iHead l) seqno1 seqno2 l))"

text \<open>\<open>(m_iHead + offset + m_iSize) % m_iSize\<close>\<close>

definition ring_any :: "int \<Rightarrow> int \<Rightarrow> int \<Rightarrow> int option" where
  "ring_any i d sz = do { x \<leftarrow> int32 (i + d); ring x sz sz }"

definition insert_snd :: "int \<Rightarrow> int \<Rightarrow> snd_loss \<Rightarrow> (int \<times> snd_loss) option" where
  "insert_snd seqno1 seqno2 l =
    (if seqno1 < 0 \<or> seqno2 < 0 then Some (0, l)
     else do {
       inserted_range \<leftarrow> seqlen seqno1 seqno2;
       if inserted_range \<le> 0 \<or> inserted_range \<ge> s_iSize l then Some (0, l)
       else if s_iLength l = 0 then do { l \<leftarrow> insertHead 0 seqno1 seqno2 l; Some (s_iLength l, l) }
       else do {
         h \<leftarrow> node_at (s_caSeq l) (s_iHead l);
         offset \<leftarrow> seqoff (nseqstart h) seqno1;
         if offset \<ge> s_iSize l then Some (0, l)
         else do {
           loc \<leftarrow> ring_any (s_iHead l) offset (s_iSize l);
           loc \<leftarrow> (if loc < 0 then do {
                    offset_seqno2 \<leftarrow> seqoff (nseqstart h) seqno2;
                    ring_any (s_iHead l) offset_seqno2 (s_iSize l) }
                  else Some loc);
           if loc < 0 then Some (0, l)
           else do {
             (at, l') \<leftarrow> place offset loc seqno1 seqno2 l;
             case at of
               None \<Rightarrow> Some (0, l')
             | Some loc \<Rightarrow> do { l' \<leftarrow> coalesce loc l'; d \<leftarrow> int32 (s_iLength l' - s_iLength l); Some (d, l') } } } } })"

section \<open>Removal\<close>

text \<open>\<open>if (m_iLastInsertPos == pos) m_iLastInsertPos = -1\<close>\<close>

definition forget_pos :: "int \<Rightarrow> snd_loss \<Rightarrow> snd_loss" where
  "forget_pos pos l = (if s_iLastInsertPos l = pos then l\<lparr>s_iLastInsertPos := -1\<rparr> else l)"

text \<open>
  The rest of the range of node \<open>i\<close>, behind \<open>seqno\<close>, becomes the node \<open>loc\<close>: the statements that \<open>popLostSeq\<close> and the
  branches of \<open>removeUpTo\<close> share.
\<close>

definition rest_node :: "int \<Rightarrow> int \<Rightarrow> int \<Rightarrow> snd_node list \<Rightarrow> snd_node list option" where
  "rest_node loc i seqno A = do {
     s \<leftarrow> incseq seqno;
     A \<leftarrow> set_node A loc (\<lambda>n. n\<lparr>nseqstart := s\<rparr>);
     n \<leftarrow> node_at A i;
     c \<leftarrow> seqcmp (nseqend n) s;
     if c > 0 then set_node A loc (\<lambda>p. p\<lparr>nseqend := nseqend n\<rparr>) else Some A }"

text \<open>\<open>m_caSeq[loc].inext = m_caSeq[i].inext\<close>\<close>

definition copy_next :: "int \<Rightarrow> int \<Rightarrow> snd_node list \<Rightarrow> snd_node list option" where
  "copy_next loc i A = do { n \<leftarrow> node_at A i; set_node A loc (\<lambda>p. p\<lparr>ninext := ninext n\<rparr>) }"

definition remove_head :: "int \<Rightarrow> int \<Rightarrow> snd_loss \<Rightarrow> snd_loss option" where
  "remove_head loc seqno l = do {
     loc \<leftarrow> ring loc 1 (s_iSize l);
     h \<leftarrow> node_at (s_caSeq l) (s_iHead l);
     (loc, A) \<leftarrow> (if nseqend h = SRT_SEQNO_NONE then Some (ninext h, s_caSeq l)
        else do {
          A \<leftarrow> rest_node loc (s_iHead l) seqno (s_caSeq l);
          A \<leftarrow> set_node A (s_iHead l) (\<lambda>n. n\<lparr>nseqend := SRT_SEQNO_NONE\<rparr>);
          A \<leftarrow> copy_next loc (s_iHead l) A;
          Some (loc, A) });
     A \<leftarrow> set_node A (s_iHead l) (\<lambda>n. n\<lparr>nseqstart := SRT_SEQNO_NONE\<rparr>);
     change_length (-1) ((forget_pos (s_iHead l) l)\<lparr>s_caSeq := A, s_iHead := loc\<rparr>) }"

text \<open>The new head, and the array with the node of a range that is cut.\<close>

definition new_head :: "int \<Rightarrow> int \<Rightarrow> snd_loss \<Rightarrow> (int \<times> snd_node list) option" where
  "new_head loc seqno l = do {
     n \<leftarrow> node_at (s_caSeq l) loc;
     if seqno = nseqstart n then do {
       let temp = loc;
       loc \<leftarrow> ring loc 1 (s_iSize l);
       if nseqend n = SRT_SEQNO_NONE then Some (ninext n, s_caSeq l)
       else do {
         A \<leftarrow> rest_node loc temp seqno (s_caSeq l);
         A \<leftarrow> copy_next loc temp A;
         A \<leftarrow> set_node A temp (\<lambda>n. n\<lparr>ninext := loc\<rparr>);
         A \<leftarrow> set_node A temp (\<lambda>n. n\<lparr>nseqend := SRT_SEQNO_NONE\<rparr>);
         Some (loc, A) } }
     else do {
       i \<leftarrow> prior_node (length (s_caSeq l)) (s_caSeq l) seqno (s_iHead l);
       loc \<leftarrow> ring loc 1 (s_iSize l);
       n \<leftarrow> node_at (s_caSeq l) i;
       if nseqend n = SRT_SEQNO_NONE then Some (ninext n, s_caSeq l)
       else do {
         c \<leftarrow> seqcmp (nseqend n) seqno;
         if c > 0 then do {
           A \<leftarrow> rest_node loc i seqno (s_caSeq l);
           A \<leftarrow> set_node A i (\<lambda>n. n\<lparr>nseqend := seqno\<rparr>);
           A \<leftarrow> copy_next loc i A;
           A \<leftarrow> set_node A i (\<lambda>n. n\<lparr>ninext := loc\<rparr>);
           Some (loc, A) }
         else Some (ninext n, s_caSeq l) } } }"

text \<open>\<open>while (h != m_iHead)\<close>: the nodes prior to the new head are emptied.\<close>

definition empty_out :: "int \<Rightarrow> snd_loss \<Rightarrow> (int \<times> snd_loss) option" where
  "empty_out h l = do {
     n \<leftarrow> node_at (s_caSeq l) h;
     l \<leftarrow> (if nseqend n \<noteq> SRT_SEQNO_NONE then do {
            k \<leftarrow> seqlen (nseqstart n) (nseqend n);
            l \<leftarrow> change_length (- k) l;
            A \<leftarrow> set_node (s_caSeq l) h (\<lambda>n. n\<lparr>nseqend := SRT_SEQNO_NONE\<rparr>);
            Some (l\<lparr>s_caSeq := A\<rparr>) }
          else change_length (-1) l);
     A \<leftarrow> set_node (s_caSeq l) h (\<lambda>n. n\<lparr>nseqstart := SRT_SEQNO_NONE\<rparr>);
     n \<leftarrow> node_at A h;
     Some (ninext n, (forget_pos h l)\<lparr>s_caSeq := A\<rparr>) }"

fun empty_loop :: "nat \<Rightarrow> int \<Rightarrow> snd_loss \<Rightarrow> snd_loss option" where
  "empty_loop 0 h l = (if h = s_iHead l then Some l else None)"
| "empty_loop (Suc k) h l =
    (if h = s_iHead l then Some l else do { (h, l) \<leftarrow> empty_out h l; empty_loop k h l })"

definition removeUpTo :: "int \<Rightarrow> snd_loss \<Rightarrow> snd_loss option" where
  "removeUpTo seqno l =
    (if s_iLength l = 0 then Some l
     else do {
       h \<leftarrow> node_at (s_caSeq l) (s_iHead l);
       offset \<leftarrow> seqoff (nseqstart h) seqno;
       loc \<leftarrow> ring_any (s_iHead l) offset (s_iSize l);
       if offset = 0 then remove_head loc seqno l
       else if offset > 0 then do {
         (h, A) \<leftarrow> new_head loc seqno l;
         empty_loop (length A) (s_iHead l) (l\<lparr>s_caSeq := A, s_iHead := h\<rparr>) }
       else Some l })"

definition getLossLength_snd :: "snd_loss \<Rightarrow> int" where
  "getLossLength_snd l = s_iLength l"

definition popLostSeq :: "snd_loss \<Rightarrow> (int \<times> snd_loss) option" where
  "popLostSeq l =
    (if s_iLength l = 0 then (if s_iHead l = -1 then Some (SRT_SEQNO_NONE, l) else None)
     else do {
       let l = forget_pos (s_iHead l) l;
       h \<leftarrow> node_at (s_caSeq l) (s_iHead l);
       let seqno = nseqstart h;
       (A, head) \<leftarrow> (if nseqend h = SRT_SEQNO_NONE then do {
            A \<leftarrow> set_node (s_caSeq l) (s_iHead l) (\<lambda>n. n\<lparr>nseqstart := SRT_SEQNO_NONE\<rparr>);
            Some (A, ninext h) }
          else do {
            loc \<leftarrow> ring (s_iHead l) 1 (s_iSize l);
            A \<leftarrow> rest_node loc (s_iHead l) seqno (s_caSeq l);
            A \<leftarrow> set_node A (s_iHead l) (\<lambda>n. n\<lparr>nseqstart := SRT_SEQNO_NONE, nseqend := SRT_SEQNO_NONE\<rparr>);
            A \<leftarrow> copy_next loc (s_iHead l) A;
            Some (A, loc) });
       l \<leftarrow> change_length (-1) (l\<lparr>s_caSeq := A, s_iHead := head\<rparr>);
       Some (seqno, l) })"

end
