(* ===== verification/RcvLossInv.thy ===== *)
theory RcvLossInv
  imports RcvLoss
begin

text \<open>
  What the receiver's loss list means: a list of disjoint ranges of unbounded numbers in a window that the array covers,
  and the nodes that represent it.
\<close>

section \<open>Ranges\<close>

type_synonym ranges = "(int \<times> int) list"

definition lost :: "ranges \<Rightarrow> int set" where
  "lost rs = (\<Union>(lo, hi)\<in>set rs. {lo..hi})"

definition sorted_ranges :: "ranges \<Rightarrow> bool" where
  "sorted_ranges rs \<longleftrightarrow> (\<forall>(lo, hi)\<in>set rs. lo \<le> hi) \<and> sorted_wrt (\<lambda>(a, b) (c, d). b < c) rs"

text \<open>All numbers fit into a window of \<open>N\<close>.\<close>

definition narrow :: "int \<Rightarrow> int set \<Rightarrow> bool" where
  "narrow N S \<longleftrightarrow> (\<forall>a\<in>S. \<forall>b\<in>S. \<bar>a - b\<bar> < N)"

lemma lost_simps [simp]:
  "lost [] = {}" "lost ((lo, hi) # rs) = {lo..hi} \<union> lost rs" "lost (rs @ ss) = lost rs \<union> lost ss"
  by (auto simp: lost_def)

lemma lost_iff: "y \<in> lost rs \<longleftrightarrow> (\<exists>u d. (u, d) \<in> set rs \<and> u \<le> y \<and> y \<le> d)"
  by (force simp: lost_def)

lemma sorted_ranges_simps [simp]:
  "sorted_ranges []"
  "sorted_ranges ((lo, hi) # rs) \<longleftrightarrow> lo \<le> hi \<and> (\<forall>(c, d)\<in>set rs. hi < c) \<and> sorted_ranges rs"
  "sorted_ranges (rs @ ss) \<longleftrightarrow> sorted_ranges rs \<and> sorted_ranges ss \<and> (\<forall>(a, b)\<in>set rs. \<forall>(c, d)\<in>set ss. b < c)"
  by (auto simp: sorted_ranges_def sorted_wrt_append)

lemma narrow_subset: "narrow N S \<Longrightarrow> T \<subseteq> S \<Longrightarrow> narrow N T"
  by (auto simp: narrow_def)

section \<open>Segments\<close>

definition seq_end :: "int \<Rightarrow> int \<Rightarrow> int" where
  "seq_end lo hi = (if lo = hi then -1 else sn hi)"

definition head_pos :: "(int \<Rightarrow> int) \<Rightarrow> ranges \<Rightarrow> int \<Rightarrow> int" where
  "head_pos P rs nx = (case rs of [] \<Rightarrow> nx | (lo, hi) # _ \<Rightarrow> P lo)"

definition last_pos :: "(int \<Rightarrow> int) \<Rightarrow> int \<Rightarrow> ranges \<Rightarrow> int" where
  "last_pos P pr rs = (if rs = [] then pr else P (fst (last rs)))"

lemma pos_simps [simp]:
  "head_pos P [] nx = nx" "head_pos P ((lo, hi) # rs) nx = P lo"
  "last_pos P pr [] = pr" "last_pos P pr (rs @ [(lo, hi)]) = P lo" "last_pos P pr [(lo, hi)] = P lo"
  "rs \<noteq> [] \<Longrightarrow> last_pos P pr (r # rs) = last_pos P q rs"
  by (simp_all add: head_pos_def last_pos_def)

lemma head_pos_append [simp]: "head_pos P (rs @ ss) nx = head_pos P rs (head_pos P ss nx)"
  by (cases rs) auto

lemma last_pos_append [simp]: "last_pos P pr (rs @ ss) = last_pos P (last_pos P pr rs) ss"
  by (simp add: last_pos_def)

lemma last_pos_Cons [simp]: "last_pos P pr ((lo, hi) # rs) = last_pos P (P lo) rs"
  by (simp add: last_pos_def)

fun seg :: "(int \<Rightarrow> int) \<Rightarrow> seq_node list \<Rightarrow> int \<Rightarrow> ranges \<Rightarrow> int \<Rightarrow> bool" where
  "seg P A pr [] nx \<longleftrightarrow> True"
| "seg P A pr ((lo, hi) # rs) nx \<longleftrightarrow>
     A ! nat (P lo) = \<lparr>seqstart = sn lo, seqend = seq_end lo hi, inext = head_pos P rs nx, iprior = pr\<rparr> \<and> seg P A (P lo) rs nx"

lemma seg_append [simp]:
  "seg P A pr (rs @ ss) nx \<longleftrightarrow> seg P A pr rs (head_pos P ss nx) \<and> seg P A (last_pos P pr rs) ss nx"
  by (induction rs arbitrary: pr) auto

definition starts :: "ranges \<Rightarrow> int set" where
  "starts rs = fst ` set rs"

lemma starts_simps [simp]: "starts [] = {}" "starts ((lo, hi) # rs) = insert lo (starts rs)" "starts (rs @ ss) = starts rs \<union> starts ss"
  by (auto simp: starts_def)

lemma starts_lost: "sorted_ranges rs \<Longrightarrow> starts rs \<subseteq> lost rs"
  by (induction rs) auto

lemma starts_order: "sorted_ranges (xs @ (c, d) # ys) \<Longrightarrow> (\<forall>x\<in>starts xs. x < c) \<and> (\<forall>y\<in>starts ys. d < y)"
  by (force simp: starts_def sorted_ranges_def sorted_wrt_append)

lemma seg_frame: "\<forall>a\<in>starts rs. nat (P a) \<noteq> p \<Longrightarrow> seg P (A[p := n]) pr rs nx = seg P A pr rs nx"
proof (induction rs arbitrary: pr)
  case (Cons r rs)
  obtain lo hi where "r = (lo, hi)" by (cases r)
  with Cons show ?case by (simp add: nth_list_update_neq [symmetric])
qed simp

section \<open>Positions\<close>

definition pos :: "int \<Rightarrow> int \<Rightarrow> int \<Rightarrow> int" where
  "pos N k a = (a + k) mod N"

lemma pos_range: "0 < N \<Longrightarrow> 0 \<le> pos N k a \<and> pos N k a < N"
  by (simp add: pos_def)

lemma pos_inj:
  assumes "\<bar>a - b\<bar> < N"
  shows "pos N k a = pos N k b \<longleftrightarrow> a = b"
proof
  assume "pos N k a = pos N k b"
  then have "N dvd (a + k) - (b + k)" by (simp add: pos_def mod_eq_dvd_iff)
  then have "N dvd \<bar>a - b\<bar>" by simp
  with assms show "a = b" using zdvd_imp_le [of N "\<bar>a - b\<bar>"] by linarith
qed simp

lemma nat_pos_inj: "\<bar>a - b\<bar> < N \<Longrightarrow> nat (pos N k a) = nat (pos N k b) \<longleftrightarrow> a = b"
proof -
  assume n: "\<bar>a - b\<bar> < N"
  then have "0 \<le> pos N k a" "0 \<le> pos N k b" by (simp_all add: pos_def)
  then show ?thesis using pos_inj [OF n] by (metis int_nat_eq)
qed

lemma pos_shift: "(pos N k a + d) mod N = pos N k (a + d)"
proof -
  have "((a + k) mod N + d) mod N = (a + k + d) mod N" by (rule mod_add_left_eq)
  then show ?thesis by (simp add: pos_def ac_simps)
qed

lemma ring_pos:
  assumes "0 < N" "N \<le> m_iSeqNoTH" "0 \<le> d" "d \<le> m_iSeqNoTH"
  shows "ring (pos N k a) d N = Some (pos N k (a + d))"
proof -
  have "0 \<le> pos N k a" "pos N k a < N" using pos_range assms by blast+
  then show ?thesis using assms pos_shift [of N k a d] by (simp add: ring_def c_rem_def)
qed

lemma ring_back_pos:
  assumes "0 < N" "N \<le> m_iSeqNoTH"
  shows "ring_back (pos N k a) N = Some (pos N k (a - 1))"
proof -
  have p: "0 \<le> pos N k a" "pos N k a < N" using pos_range assms by blast+
  then have "(pos N k a - 1 + N) mod N = pos N k (a - 1)" using assms pos_shift [of N k a "-1"] by simp
  then show ?thesis using p assms by (simp add: ring_back_def ring_def c_rem_def)
qed

lemma node_at_pos: "0 < N \<Longrightarrow> int (length A) = N \<Longrightarrow> node_at A (pos N k a) = Some (A ! nat (pos N k a))"
  using pos_range [of N k a] by (simp add: node_at_def)

lemma set_node_pos: "0 < N \<Longrightarrow> int (length A) = N \<Longrightarrow> set_node A (pos N k a) f = Some (A[nat (pos N k a) := f (A ! nat (pos N k a))])"
  using pos_range [of N k a] by (simp add: set_node_def)

section \<open>The representation\<close>

definition empty_node :: "seq_node \<Rightarrow> bool" where
  "empty_node n \<longleftrightarrow> seqstart n = -1 \<and> seqend n = -1"

definition rest_empty :: "(int \<Rightarrow> int) \<Rightarrow> seq_node list \<Rightarrow> ranges \<Rightarrow> bool" where
  "rest_empty P A rs \<longleftrightarrow> (\<forall>p < length A. (\<forall>a\<in>starts rs. nat (P a) \<noteq> p) \<longrightarrow> empty_node (A ! p))"

definition total_length :: "ranges \<Rightarrow> int" where
  "total_length rs = sum_list (map (\<lambda>(lo, hi). hi - lo + 1) rs)"

definition holds_at :: "int \<Rightarrow> rcv_loss \<Rightarrow> ranges \<Rightarrow> bool" where
  "holds_at k l rs \<longleftrightarrow> 0 < m_iSize l \<and> m_iSize l \<le> m_iSeqNoTH \<and> int (length (m_caSeq l)) = m_iSize l
     \<and> sorted_ranges rs \<and> narrow (m_iSize l) (lost rs)
     \<and> seg (pos (m_iSize l) k) (m_caSeq l) (-1) rs (-1) \<and> rest_empty (pos (m_iSize l) k) (m_caSeq l) rs
     \<and> m_iHead l = head_pos (pos (m_iSize l) k) rs (-1) \<and> (rs \<noteq> [] \<longrightarrow> m_iTail l = last_pos (pos (m_iSize l) k) (-1) rs)
     \<and> m_iLength l = total_length rs"

definition holds :: "rcv_loss \<Rightarrow> ranges \<Rightarrow> bool" where
  "holds l rs \<longleftrightarrow> (\<exists>k. holds_at k l rs)"

lemma total_length_simps [simp]: "total_length [] = 0" "total_length ((lo, hi) # rs) = hi - lo + 1 + total_length rs"
    "total_length (rs @ ss) = total_length rs + total_length ss"
  by (simp_all add: total_length_def)

lemma total_length_card: "sorted_ranges rs \<Longrightarrow> total_length rs = int (card (lost rs)) \<and> finite (lost rs)"
proof (induction rs)
  case (Cons r rs)
  obtain lo hi where r: "r = (lo, hi)" by (cases r)
  have "{lo..hi} \<inter> lost rs = {}" using Cons.prems by (fastforce simp: r lost_def)
  with Cons show ?case by (auto simp: r card_Un_disjoint)
qed simp

lemma total_length_pos: "sorted_ranges rs \<Longrightarrow> 0 \<le> total_length rs \<and> (total_length rs = 0 \<longleftrightarrow> rs = [])"
  using total_length_card [of rs] by (cases rs) auto

lemma sn_inj: "\<bar>a - b\<bar> < 0x80000000 \<Longrightarrow> sn a = sn b \<longleftrightarrow> a = b"
  by (cases rule: sn_diff [of a b]) auto

lemma holds_size:
  assumes "holds_at k l rs"
  shows "0 < m_iSize l" "m_iSize l \<le> m_iSeqNoTH" "int (length (m_caSeq l)) = m_iSize l" "sorted_ranges rs" "narrow (m_iSize l) (lost rs)"
    "m_iLength l = 0 \<longleftrightarrow> rs = []" "m_iLength l = total_length rs"
  using assms total_length_pos [of rs] by (auto simp: holds_at_def)

lemma holds_head:
  assumes "holds_at k l ((lo, hi) # rs)"
  shows "m_iHead l = pos (m_iSize l) k lo" "node_at (m_caSeq l) (m_iHead l) = Some (m_caSeq l ! nat (pos (m_iSize l) k lo))"
    "seqstart (m_caSeq l ! nat (pos (m_iSize l) k lo)) = sn lo"
  using assms node_at_pos [of "m_iSize l" "m_caSeq l" k lo] by (auto simp: holds_at_def)

lemma add_length_sn:
  assumes "a \<le> b" "b - a < m_iSize l" "0 \<le> m_iLength l" "m_iLength l \<le> m_iSize l" "m_iSize l \<le> m_iSeqNoTH"
  shows "add_length (sn a) (sn b) l = Some (l\<lparr>m_iLength := m_iLength l + (b - a + 1)\<rparr>)"
proof -
  have "seqlen (sn a) (sn b) = Some (b - a + 1)" using assms by (intro seqlen_sn) linarith+
  moreover have "int32 (m_iLength l + (b - a + 1)) = Some (m_iLength l + (b - a + 1))" using assms by (intro int32_in) linarith+
  ultimately show ?thesis by (simp add: add_length_def)
qed

lemma put_range_sn:
  assumes "\<bar>a - b\<bar> < 0x80000000" "seqend n = -1"
  shows "put_range (sn a) (sn b) n = n\<lparr>seqstart := sn a, seqend := seq_end a b\<rparr>"
  using assms sn_inj [OF assms(1)] by (cases n) (auto simp: put_range_def seq_end_def Let_def)

lemma insert_into_empty:
  assumes h: "holds_at k l []" and ab: "a \<le> b" "b - a < m_iSize l"
  shows "\<exists>l'. insert_rcv (sn a) (sn b) l = Some l' \<and> m_iSize l' = m_iSize l \<and> holds_at (- a) l' [(a, b)]"
proof -
  let ?N = "m_iSize l"
  note sz = holds_size [OF h]
  have P: "pos ?N (- a) a = 0" by (simp add: pos_def)
  have all: "\<forall>p < length (m_caSeq l). empty_node (m_caSeq l ! p)" using h by (simp add: holds_at_def rest_empty_def)
  have len: "0 < length (m_caSeq l)" using sz by linarith
  then have e: "seqend (m_caSeq l ! 0) = -1" using all by (simp add: empty_node_def)
  have "\<bar>a - b\<bar> < 0x80000000" using ab sz(2) by linarith
  note put = put_range_sn [OF this e]
  have s0: "set_node (m_caSeq l) 0 f = Some ((m_caSeq l)[0 := f (m_caSeq l ! 0)])" for f using len by (simp add: set_node_def)
  define l1 where "l1 = l\<lparr>m_iHead := 0, m_iTail := 0, m_caSeq := (m_caSeq l)[0 := (m_caSeq l ! 0)\<lparr>seqstart := sn a, seqend := seq_end a b, inext := -1, iprior := -1\<rparr>]\<rparr>"
  have "add_length (sn a) (sn b) l1 = Some (l1\<lparr>m_iLength := b - a + 1\<rparr>)"
    using add_length_sn [of a b l1] ab sz by (simp add: l1_def)
  moreover have "insert_rcv (sn a) (sn b) l = add_length (sn a) (sn b) l1"
    using sz(6) s0 by (simp add: insert_rcv_def put l1_def)
  moreover have "narrow ?N {a..b}" using ab by (auto simp: narrow_def)
  then have "holds_at (- a) (l1\<lparr>m_iLength := b - a + 1\<rparr>) [(a, b)]"
    using sz len all ab by (auto simp: holds_at_def l1_def P rest_empty_def nth_list_update)
  ultimately show ?thesis by (auto simp: l1_def)
qed

lemma empty_seqend:
  assumes "holds_at k l rs" "a \<notin> starts rs" "\<forall>b\<in>starts rs. \<bar>a - b\<bar> < m_iSize l"
  shows "empty_node (m_caSeq l ! nat (pos (m_iSize l) k a))"
proof -
  have "nat (pos (m_iSize l) k a) < length (m_caSeq l)"
    using holds_size [OF assms(1)] pos_range [of "m_iSize l" k a] by linarith
  moreover have "\<forall>b\<in>starts rs. nat (pos (m_iSize l) k b) \<noteq> nat (pos (m_iSize l) k a)"
    using assms(2,3) nat_pos_inj by (metis abs_minus_commute)
  ultimately show ?thesis using assms(1) by (simp add: holds_at_def rest_empty_def)
qed

text \<open>What stays empty when the node of \<open>b\<close> changes.\<close>

lemma rest_empty_update:
  assumes "rest_empty P A rs" "starts rs \<subseteq> insert b (starts rs')" "b \<in> starts rs' \<or> empty_node n"
  shows "rest_empty P (A[nat (P b) := n]) rs'"
  unfolding rest_empty_def
proof (intro allI impI)
  fix p assume p: "p < length (A[nat (P b) := n])" "\<forall>a\<in>starts rs'. nat (P a) \<noteq> p"
  show "empty_node (A[nat (P b) := n] ! p)"
  proof (cases "p = nat (P b)")
    case True
    with assms(3) p show ?thesis by auto
  next
    case False
    with assms(1,2) p show ?thesis by (auto simp: rest_empty_def)
  qed
qed

text \<open>Positions of numbers in one window.\<close>

lemma window_facts:
  assumes "holds_at k l rs" "narrow (m_iSize l) (insert x (lost rs))"
  shows "nat (pos (m_iSize l) k x) < length (m_caSeq l)"
    "x \<notin> starts rs \<Longrightarrow> \<forall>a\<in>starts rs. nat (pos (m_iSize l) k a) \<noteq> nat (pos (m_iSize l) k x)"
    "x \<notin> starts rs \<Longrightarrow> empty_node (m_caSeq l ! nat (pos (m_iSize l) k x))"
proof -
  note sz = holds_size [OF assms(1)]
  show "nat (pos (m_iSize l) k x) < length (m_caSeq l)" using sz pos_range [of "m_iSize l" k x] by linarith
  have near: "\<forall>a\<in>starts rs. \<bar>x - a\<bar> < m_iSize l"
    using assms(2) starts_lost [OF sz(4)] by (auto simp: narrow_def)
  show "x \<notin> starts rs \<Longrightarrow> \<forall>a\<in>starts rs. nat (pos (m_iSize l) k a) \<noteq> nat (pos (m_iSize l) k x)"
    using near nat_pos_inj by (metis abs_minus_commute)
  show "x \<notin> starts rs \<Longrightarrow> empty_node (m_caSeq l ! nat (pos (m_iSize l) k x))"
    using near empty_seqend [OF assms(1)] by blast
qed

lemma nat_pos_inj_in: "narrow N S \<Longrightarrow> x \<in> S \<Longrightarrow> y \<in> S \<Longrightarrow> nat (pos N k x) = nat (pos N k y) \<longleftrightarrow> x = y"
  by (simp add: narrow_def nat_pos_inj)

lemma append_range:
  assumes h: "holds_at k l (rs @ [(c, d)])" and a: "d < a" "a \<le> b" and n: "narrow (m_iSize l) (lost (rs @ [(c, d)]) \<union> {a..b})"
    and A': "A' = ((m_caSeq l)[nat (pos (m_iSize l) k a) := \<lparr>seqstart = sn a, seqend = seq_end a b, inext = -1, iprior = pos (m_iSize l) k c\<rparr>])
      [nat (pos (m_iSize l) k c) := (m_caSeq l ! nat (pos (m_iSize l) k c))\<lparr>inext := pos (m_iSize l) k a\<rparr>]"
  shows "holds_at k (l\<lparr>m_caSeq := A', m_iTail := pos (m_iSize l) k a, m_iLength := m_iLength l + (b - a + 1)\<rparr>) (rs @ [(c, d), (a, b)])"
proof -
  let ?N = "m_iSize l" and ?P = "pos (m_iSize l) k" and ?A = "m_caSeq l" and ?rs = "rs @ [(c, d)]"
  let ?S = "lost ?rs \<union> {a..b}"
  note sz = holds_size [OF h]
  have sr: "sorted_ranges rs" "c \<le> d" "\<forall>(x, y)\<in>set rs. y < c" using sz(4) by auto
  have lt: "\<forall>x\<in>starts rs. x \<in> ?S \<and> x \<noteq> c \<and> x \<noteq> a" "c \<noteq> a" "c \<in> ?S" "a \<in> ?S"
    using sr a starts_lost [OF sr(1)] by (fastforce simp: starts_def sorted_ranges_def)+
  note inj = nat_pos_inj_in [OF n, of _ _ k]
  have fr: "\<forall>x\<in>starts rs. nat (?P x) \<noteq> nat (?P c)" "\<forall>x\<in>starts rs. nat (?P x) \<noteq> nat (?P a)" "nat (?P c) \<noteq> nat (?P a)"
    using lt inj by blast+
  have len: "nat (?P x) < length ?A" for x using sz pos_range [of ?N k x] by linarith
  have sg: "seg ?P ?A (-1) rs (?P c)" "?A ! nat (?P c) = \<lparr>seqstart = sn c, seqend = seq_end c d, inext = -1, iprior = last_pos ?P (-1) rs\<rparr>"
    and re: "rest_empty ?P ?A ?rs" and hd: "m_iHead l = head_pos ?P ?rs (-1)"
    using h by (simp_all add: holds_at_def)
  have "seg ?P A' (-1) (rs @ [(c, d), (a, b)]) (-1)"
    using sg fr len by (simp add: A' seg_frame)
  moreover have "rest_empty ?P A' (rs @ [(c, d), (a, b)])"
    unfolding A' by (intro rest_empty_update [where rs = "rs @ [(c, d), (a, b)]"] rest_empty_update [where rs = ?rs] re) auto
  moreover have "sorted_ranges (rs @ [(c, d), (a, b)])" using sz(4) a by fastforce
  ultimately show ?thesis
    using sz n hd by (simp add: holds_at_def A' Un_assoc)
qed

text \<open>A node whose start stays and whose end moves.\<close>

lemma change_end:
  assumes h: "holds_at k l (xs @ (c, d) # ys)" and c: "c \<le> e" and s: "sorted_ranges (xs @ (c, e) # ys)"
    and n: "narrow (m_iSize l) (lost (xs @ (c, e) # ys))"
    and A': "A' = (m_caSeq l)[nat (pos (m_iSize l) k c) := (m_caSeq l ! nat (pos (m_iSize l) k c))\<lparr>seqend := seq_end c e\<rparr>]"
  shows "holds_at k (l\<lparr>m_caSeq := A', m_iLength := m_iLength l + (e - d)\<rparr>) (xs @ (c, e) # ys)"
proof -
  let ?N = "m_iSize l" and ?P = "pos (m_iSize l) k" and ?A = "m_caSeq l"
  note sz = holds_size [OF h]
  have sl: "starts (xs @ (c, e) # ys) \<subseteq> lost (xs @ (c, e) # ys)" using starts_lost [OF s] .
  have ne: "\<forall>x\<in>starts xs \<union> starts ys. x \<noteq> c" using starts_order [OF s] c by fastforce
  then have fr: "\<forall>x\<in>starts xs. nat (?P x) \<noteq> nat (?P c)" "\<forall>x\<in>starts ys. nat (?P x) \<noteq> nat (?P c)"
    using nat_pos_inj_in [OF n, of _ _ k] sl by auto
  have len: "nat (?P x) < length ?A" for x using sz pos_range [of ?N k x] by linarith
  have sg: "seg ?P ?A (-1) (xs @ (c, d) # ys) (-1)" and re: "rest_empty ?P ?A (xs @ (c, d) # ys)"
    and ht: "m_iHead l = head_pos ?P (xs @ (c, d) # ys) (-1)" "m_iTail l = last_pos ?P (-1) (xs @ (c, d) # ys)"
    using h by (simp_all add: holds_at_def)
  have "seg ?P A' (-1) (xs @ (c, e) # ys) (-1)"
    using sg fr len by (simp add: A' seg_frame)
  moreover have "rest_empty ?P A' (xs @ (c, e) # ys)"
    unfolding A' by (intro rest_empty_update [OF re]) auto
  ultimately show ?thesis
    using sz n s ht by (simp add: holds_at_def A')
qed

lemma node_full: "n\<lparr>seqstart := a, seqend := b, inext := c, iprior := d\<rparr> = \<lparr>seqstart = a, seqend = b, inext = c, iprior = d\<rparr>"
    "n\<lparr>seqstart := a, seqend := b, iprior := d, inext := c\<rparr> = \<lparr>seqstart = a, seqend = b, inext = c, iprior = d\<rparr>"
  by (cases n; simp)+

lemma insert_behind:
  assumes h: "holds_at k l (rs @ [(c, d)])" and a: "d < a" "a \<le> b" and n: "narrow (m_iSize l) (lost (rs @ [(c, d)]) \<union> {a..b})"
  shows "\<exists>l' rs'. insert_rcv (sn a) (sn b) l = Some l' \<and> m_iSize l' = m_iSize l \<and> holds_at k l' rs'
    \<and> lost rs' = lost (rs @ [(c, d)]) \<union> {a..b}"
proof -
  let ?N = "m_iSize l" and ?P = "pos (m_iSize l) k" and ?A = "m_caSeq l" and ?rs = "rs @ [(c, d)]"
  note sz = holds_size [OF h]
  obtain w v rs2 where hd: "?rs = (w, v) # rs2" by (cases ?rs) auto
  note head = holds_head [OF h [unfolded hd]]
  have inN: "\<bar>x - y\<bar> < ?N" if "x \<in> lost ?rs \<union> {a..b}" "y \<in> lost ?rs \<union> {a..b}" for x y
    using n that by (simp only: narrow_def)
  have wl: "w \<in> lost ?rs" using sz(4) unfolding hd by auto
  have cd: "c \<le> d" "c \<in> lost ?rs" "d \<in> lost ?rs" "\<forall>(x, y)\<in>set rs. y < c" using sz(4) by auto
  have wc: "w \<le> c" using hd cd(4) sz(4) by (cases rs) auto
  have m: "a \<in> lost ?rs \<union> {a..b}" "b \<in> lost ?rs \<union> {a..b}" "c \<in> lost ?rs \<union> {a..b}" "d \<in> lost ?rs \<union> {a..b}" "w \<in> lost ?rs \<union> {a..b}"
    using a wl cd by auto
  have near: "\<bar>a - w\<bar> < ?N" "\<bar>b - a\<bar> < ?N" "\<bar>a - d\<bar> < ?N" "\<bar>c - d\<bar> < ?N" by (rule inN; rule m)+
  have off: "seqoff (sn w) (sn a) = Some (a - w)" using near sz(2) by (intro seqoff_sn) linarith
  have loc: "ring (m_iHead l) (a - w) ?N = Some (?P a)"
    using ring_pos [of ?N "a - w" k w] near sz wc cd a by (simp add: head(1))
  have tail: "m_iTail l = ?P c" "?A ! nat (?P c) = \<lparr>seqstart = sn c, seqend = seq_end c d, inext = -1, iprior = last_pos ?P (-1) rs\<rparr>"
    using h by (simp_all add: holds_at_def)
  have "total_length ?rs \<le> ?N"
  proof -
    have "lost ?rs \<subseteq> {w..<w + ?N}"
    proof
      fix x assume "x \<in> lost ?rs"
      moreover from this have "w \<le> x" using sz(4) unfolding hd by (fastforce simp: lost_def)
      ultimately show "x \<in> {w..<w + ?N}" using inN [of x w] wl by auto
    qed
    then have "card (lost ?rs) \<le> card {w..<w + ?N}" by (intro card_mono) auto
    then show ?thesis using total_length_card [OF sz(4)] sz(1) by simp
  qed
  then have al: "add_length (sn a) (sn b) l' = Some (l'\<lparr>m_iLength := m_iLength l + (b - a + 1)\<rparr>)"
    if "m_iSize l' = ?N" "m_iLength l' = m_iLength l" for l'
    using add_length_sn [of a b l'] that a near sz(1,2,7) total_length_pos [OF sz(4)] by simp
  have wa: "\<not> a < w" using wc cd a by linarith
  show ?thesis
  proof (cases "c \<noteq> d \<and> a = d + 1")
    case True
    then have "c < d" "a = d + 1" using cd by auto
    then have e: "seq_end c d = sn d" "seq_end c b = sn b" using a by (simp_all add: seq_end_def)
    let ?A' = "?A[nat (?P c) := (?A ! nat (?P c))\<lparr>seqend := seq_end c b\<rparr>]"
    have co: "adjoins (?A ! nat (?P c)) (sn a) = Some True"
      using e seq_sn(1) [of d] \<open>a = d + 1\<close> by (simp add: tail adjoins_def)
    have lost: "lost (rs @ [(c, b)]) = lost ?rs \<union> {a..b}" using \<open>c < d\<close> \<open>a = d + 1\<close> a by auto
    have "sorted_ranges (rs @ [(c, b)])" using sz(4) a cd by auto
    then have "holds_at k (l\<lparr>m_caSeq := ?A', m_iLength := m_iLength l + (b - d)\<rparr>) (rs @ [(c, b)])"
      using change_end [of k l rs c d "[]" b] h n a cd lost by simp
    moreover have "insert_rcv (sn a) (sn b) l = Some (l\<lparr>m_caSeq := ?A', m_iLength := m_iLength l + (b - d)\<rparr>)"
      using sz(1,3,6) head off loc tail(1) co al [of "l\<lparr>m_caSeq := ?A'\<rparr>"] wa \<open>a = d + 1\<close>
      by (simp add: insert_rcv_def node_at_pos set_node_pos e)
    ultimately show ?thesis using lost by auto
  next
    case False
    let ?A' = "(?A[nat (?P a) := \<lparr>seqstart = sn a, seqend = seq_end a b, inext = -1, iprior = ?P c\<rparr>])
      [nat (?P c) := (?A ! nat (?P c))\<lparr>inext := ?P a\<rparr>]"
    have nc: "nat (?P a) \<noteq> nat (?P c)" using nat_pos_inj_in [OF n, of a c k] cd a by auto
    have "a \<notin> starts ?rs" using starts_order [of rs c d "[]"] sz(4) a cd by auto
    then have em: "seqend (?A ! nat (?P a)) = -1"
      using window_facts(3) [OF h, of a] n a narrow_subset [of ?N "lost ?rs \<union> {a..b}" "insert a (lost ?rs)"] by (auto simp: empty_node_def)
    have dist: "sn (d + 1) \<noteq> sn a" if "c \<noteq> d" using sn_inj [of "d + 1" a] that False near sz(2) by auto
    have co: "adjoins (?A ! nat (?P c)) (sn a) = Some False"
      using dist seq_sn(1) [of d] by (simp add: tail adjoins_def seq_end_def)
    have put: "put_range (sn a) (sn b) (?A ! nat (?P a)) = (?A ! nat (?P a))\<lparr>seqstart := sn a, seqend := seq_end a b\<rparr>"
      using near sz(2) em by (intro put_range_sn) linarith+
    have len: "nat (?P x) < length ?A" for x using sz pos_range [of ?N k x] by linarith
    have swap: "i \<noteq> j \<Longrightarrow> ?A[j := x, i := y, j := z] = ?A[j := z, i := y]" for i j and x y z :: seq_node
      by (metis list_update_overwrite list_update_swap)
    have "insert_rcv (sn a) (sn b) l = Some (l\<lparr>m_caSeq := ?A', m_iTail := ?P a, m_iLength := m_iLength l + (b - a + 1)\<rparr>)"
      using sz(1,3,6) head off loc tail(1) al [of "l\<lparr>m_caSeq := ?A', m_iTail := ?P a\<rparr>"] wa len nc co swap [of "nat (?P c)" "nat (?P a)"]
      by (simp add: insert_rcv_def node_at_pos set_node_pos put node_full)
    moreover have "lost (rs @ [(c, d), (a, b)]) = lost ?rs \<union> {a..b}" by auto
    ultimately show ?thesis using append_range [OF h a n refl] by auto
  qed
qed

end
