(* ===== verification/RcvLossRemove.thy ===== *)
theory RcvLossRemove
  imports RcvLossInv
begin

text \<open>
  The removal of a number from the receiver's loss list: the cases of \<open>CRcvLossList::remove\<close> one by one.
\<close>

section \<open>The node of a number\<close>

lemma holds_frames:
  assumes "holds_at k l (xs @ (c, d) # ys)"
  shows "\<forall>u\<in>starts xs. nat (pos (m_iSize l) k u) \<noteq> nat (pos (m_iSize l) k c)"
    "\<forall>u\<in>starts ys. nat (pos (m_iSize l) k u) \<noteq> nat (pos (m_iSize l) k c)"
    "nat (pos (m_iSize l) k c) < length (m_caSeq l)"
proof -
  note sz = holds_size [OF assms]
  have sl: "starts (xs @ (c, d) # ys) \<subseteq> lost (xs @ (c, d) # ys)" using starts_lost [OF sz(4)] .
  have "\<forall>u\<in>starts xs \<union> starts ys. u \<noteq> c" using starts_order [OF sz(4)] sz(4) by fastforce
  then show "\<forall>u\<in>starts xs. nat (pos (m_iSize l) k u) \<noteq> nat (pos (m_iSize l) k c)"
    "\<forall>u\<in>starts ys. nat (pos (m_iSize l) k u) \<noteq> nat (pos (m_iSize l) k c)"
    using nat_pos_inj_in [OF sz(5), of _ _ k] sl by auto
  show "nat (pos (m_iSize l) k c) < length (m_caSeq l)" using sz pos_range [of "m_iSize l" k c] by linarith
qed

lemma holds_links:
  assumes "holds_at k l (xs @ (c, d) # ys)"
  shows "seg (pos (m_iSize l) k) (m_caSeq l) (-1) xs (pos (m_iSize l) k c)" "seg (pos (m_iSize l) k) (m_caSeq l) (pos (m_iSize l) k c) ys (-1)"
    "m_caSeq l ! nat (pos (m_iSize l) k c) = \<lparr>seqstart = sn c, seqend = seq_end c d,
       inext = head_pos (pos (m_iSize l) k) ys (-1), iprior = last_pos (pos (m_iSize l) k) (-1) xs\<rparr>"
    "m_iHead l = head_pos (pos (m_iSize l) k) xs (pos (m_iSize l) k c)" "m_iTail l = last_pos (pos (m_iSize l) k) (pos (m_iSize l) k c) ys"
    "rest_empty (pos (m_iSize l) k) (m_caSeq l) (xs @ (c, d) # ys)"
  using assms by (simp_all add: holds_at_def)

lemma pos_not_none: "0 < N \<Longrightarrow> pos N k a \<noteq> -1"
  using pos_range [of N k a] by simp

text \<open>The head is the node of \<open>c\<close> only when nothing comes before, the tail only when nothing comes behind.\<close>

lemma head_is:
  assumes "holds_at k l (xs @ (c, d) # ys)"
  shows "m_iHead l = pos (m_iSize l) k c \<longleftrightarrow> xs = []" "m_iTail l = pos (m_iSize l) k c \<longleftrightarrow> ys = []"
proof -
  note fr = holds_frames [OF assms] and li = holds_links [OF assms]
  show "m_iHead l = pos (m_iSize l) k c \<longleftrightarrow> xs = []"
    using fr(1) li(4) by (cases xs) auto
  show "m_iTail l = pos (m_iSize l) k c \<longleftrightarrow> ys = []"
    using fr(2) li(5) by (cases ys rule: rev_cases) auto
qed

section \<open>Changing the links around a node\<close>

definition link_next :: "(int \<Rightarrow> int) \<Rightarrow> seq_node list \<Rightarrow> ranges \<Rightarrow> int \<Rightarrow> seq_node list" where
  "link_next P A xs q = (if xs = [] then A else A[nat (P (fst (last xs))) := (A ! nat (P (fst (last xs))))\<lparr>inext := q\<rparr>])"

definition link_prior :: "(int \<Rightarrow> int) \<Rightarrow> seq_node list \<Rightarrow> ranges \<Rightarrow> int \<Rightarrow> seq_node list" where
  "link_prior P A ys q = (if ys = [] then A else A[nat (P (fst (hd ys))) := (A ! nat (P (fst (hd ys))))\<lparr>iprior := q\<rparr>])"

lemma link_length [simp]: "length (link_next P A xs q) = length A" "length (link_prior P A ys q) = length A"
  by (simp_all add: link_next_def link_prior_def)

lemma last_start: "xs \<noteq> [] \<Longrightarrow> fst (last xs) \<in> starts xs" and hd_start: "xs \<noteq> [] \<Longrightarrow> fst (hd xs) \<in> starts xs"
  by (auto simp: starts_def)

lemma link_nth:
  "\<forall>v\<in>starts xs. nat (P v) \<noteq> p \<Longrightarrow> link_next P A xs q ! p = A ! p"
  "\<forall>v\<in>starts xs. nat (P v) \<noteq> p \<Longrightarrow> link_prior P A xs q ! p = A ! p"
  using last_start [of xs] hd_start [of xs] by (auto simp: link_next_def link_prior_def)

lemma link_frame:
  "\<forall>u\<in>starts zs. \<forall>v\<in>starts xs. nat (P u) \<noteq> nat (P v) \<Longrightarrow> seg P (link_next P A xs q) pr zs nx = seg P A pr zs nx"
  "\<forall>u\<in>starts zs. \<forall>v\<in>starts xs. nat (P u) \<noteq> nat (P v) \<Longrightarrow> seg P (link_prior P A xs q) pr zs nx = seg P A pr zs nx"
  using last_start [of xs] hd_start [of xs] by (auto simp: link_next_def link_prior_def intro!: seg_frame)

lemma link_empty:
  assumes "rest_empty P A rs" "starts xs \<subseteq> starts rs"
  shows "rest_empty P (link_next P A xs q) rs" "rest_empty P (link_prior P A xs q) rs"
  using assms last_start [of xs] hd_start [of xs]
  by (auto simp: link_next_def link_prior_def intro!: rest_empty_update)

lemma seg_link_next:
  assumes "sorted_ranges xs" "inj_on (\<lambda>u. nat (P u)) (starts xs)" "\<forall>u\<in>starts xs. nat (P u) < length A" "seg P A pr xs nx"
  shows "seg P (link_next P A xs q) pr xs q"
proof (cases xs rule: rev_cases)
  case (snoc xs2 r)
  obtain a b where r: "r = (a, b)" by (cases r)
  have "\<forall>u\<in>starts xs2. u \<noteq> a" using starts_order [of xs2 a b "[]"] assms(1) snoc r by fastforce
  then have "\<forall>u\<in>starts xs2. nat (P u) \<noteq> nat (P a)" using assms(2) by (auto simp: snoc r inj_on_def)
  with assms snoc r show ?thesis by (simp add: link_next_def seg_frame)
qed (simp add: link_next_def)

lemma seg_link_prior:
  assumes "sorted_ranges ys" "inj_on (\<lambda>u. nat (P u)) (starts ys)" "\<forall>u\<in>starts ys. nat (P u) < length A" "seg P A pr ys nx"
  shows "seg P (link_prior P A ys q) q ys nx"
proof (cases ys)
  case (Cons r ys2)
  obtain a b where r: "r = (a, b)" by (cases r)
  have "\<forall>u\<in>starts ys2. u \<noteq> a" using starts_order [of "[]" a b ys2] assms(1) Cons r by fastforce
  then have "\<forall>u\<in>starts ys2. nat (P u) \<noteq> nat (P a)" using assms(2) by (auto simp: Cons r inj_on_def)
  with assms Cons r show ?thesis by (simp add: link_prior_def seg_frame)
qed (simp add: link_prior_def)

text \<open>The code sets a link of the neighbour where there is one.\<close>

lemma set_next:
  assumes "0 < N" "int (length A) = N" "xs \<noteq> []"
  shows "set_node A (last_pos (pos N k) p xs) (\<lambda>n. n\<lparr>inext := q\<rparr>) = Some (link_next (pos N k) A xs q)"
  using assms by (simp add: last_pos_def set_node_pos link_next_def)

lemma set_prior:
  assumes "0 < N" "int (length A) = N" "ys \<noteq> []"
  shows "set_node A (head_pos (pos N k) ys p) (\<lambda>n. n\<lparr>iprior := q\<rparr>) = Some (link_prior (pos N k) A ys q)"
  using assms by (cases ys) (auto simp: set_node_pos link_prior_def)

lemma seg_cong: "\<forall>u\<in>starts rs. B ! nat (P u) = A ! nat (P u) \<Longrightarrow> seg P B pr rs nx = seg P A pr rs nx"
  by (induction rs arbitrary: pr) auto

text \<open>
  A node replaced by nodes for part of its range: it is enough that the new nodes are in place and the links of the
  neighbours set.
\<close>

lemma starts_less: "sorted_ranges (xs @ ys) \<Longrightarrow> u \<in> starts xs \<Longrightarrow> v \<in> starts ys \<Longrightarrow> u < v"
proof -
  assume s: "sorted_ranges (xs @ ys)" and "u \<in> starts xs" "v \<in> starts ys"
  then obtain b d where "(u, b) \<in> set xs" "(v, d) \<in> set ys" by (auto simp: starts_def)
  with s have "u \<le> b" "b < v" by (auto simp: sorted_ranges_def sorted_wrt_append)
  then show ?thesis by simp
qed

lemma relink:
  assumes h: "holds_at k l (xs @ (c, d) # ys)"
    and mid: "sorted_ranges mid" "lost mid \<subseteq> {c..d}"
    and len: "length B = length (m_caSeq l)"
    and agree: "\<forall>u\<in>starts xs \<union> starts ys. B ! nat (pos (m_iSize l) k u) = m_caSeq l ! nat (pos (m_iSize l) k u)"
    and nodes: "seg (pos (m_iSize l) k) B (last_pos (pos (m_iSize l) k) (-1) xs) mid (head_pos (pos (m_iSize l) k) ys (-1))"
    and empty: "rest_empty (pos (m_iSize l) k) B (xs @ mid @ ys)"
    and A': "A' = link_prior (pos (m_iSize l) k) (link_next (pos (m_iSize l) k) B xs (head_pos (pos (m_iSize l) k) (mid @ ys) (-1))) ys
       (last_pos (pos (m_iSize l) k) (-1) (xs @ mid))"
    and t: "xs @ mid @ ys \<noteq> [] \<Longrightarrow> t = last_pos (pos (m_iSize l) k) (-1) (xs @ mid @ ys)"
    and n: "n = m_iLength l - (d - c + 1) + total_length mid"
  shows "holds_at k (l\<lparr>m_caSeq := A', m_iHead := head_pos (pos (m_iSize l) k) (xs @ mid @ ys) (-1), m_iTail := t, m_iLength := n\<rparr>) (xs @ mid @ ys)"
proof -
  let ?N = "m_iSize l" and ?P = "pos (m_iSize l) k" and ?rs = "xs @ mid @ ys"
  let ?A1 = "link_next ?P B xs (head_pos ?P (mid @ ys) (-1))"
  note sz = holds_size [OF h] and li = holds_links [OF h]
  have so: "sorted_ranges ?rs"
  proof -
    have "\<forall>(a, b)\<in>set mid. c \<le> a \<and> b \<le> d" using mid by (fastforce simp: sorted_ranges_def lost_def)
    then show ?thesis using sz(4) mid(1) by fastforce
  qed
  have sub: "narrow ?N (lost ?rs)" using sz(5) by (rule narrow_subset) (use mid in auto)
  have sl: "starts ?rs \<subseteq> lost ?rs" by (rule starts_lost [OF so])
  have inj: "inj_on (\<lambda>u. nat (?P u)) (starts ?rs)" 
    by (rule inj_onI) (use nat_pos_inj_in [OF sub] sl in blast)
  have "nat (?P u) < length B" for u using sz(1,3) len pos_range [of ?N k u] by linarith
  then have rng: "\<forall>u\<in>X. nat (?P u) < length B" for X by blast
  have ne: "\<forall>u\<in>starts xs. \<forall>v\<in>starts mid \<union> starts ys. u \<noteq> v" "\<forall>u\<in>starts mid. \<forall>v\<in>starts ys. u \<noteq> v"
  proof -
    have "sorted_ranges (mid @ ys)" using so by simp
    then show "\<forall>u\<in>starts mid. \<forall>v\<in>starts ys. u \<noteq> v" using starts_less [of mid ys] by blast
    show "\<forall>u\<in>starts xs. \<forall>v\<in>starts mid \<union> starts ys. u \<noteq> v" using starts_less [OF so] by (auto simp: less_le)
  qed
  have inj': "nat (?P u) \<noteq> nat (?P v)" if "u \<in> starts ?rs" "v \<in> starts ?rs" "u \<noteq> v" for u v
    using inj that by (auto simp only: inj_on_def)
  have dis: "\<forall>u\<in>starts xs. \<forall>v\<in>starts ys. nat (?P u) \<noteq> nat (?P v)" "\<forall>u\<in>starts ys. \<forall>v\<in>starts xs. nat (?P u) \<noteq> nat (?P v)"
      "\<forall>u\<in>starts mid. \<forall>v\<in>starts xs. nat (?P u) \<noteq> nat (?P v)" "\<forall>u\<in>starts mid. \<forall>v\<in>starts ys. nat (?P u) \<noteq> nat (?P v)"
    using ne by (intro ballI inj'; auto)+
  have "seg ?P B (-1) xs (?P c)" "seg ?P B (?P c) ys (-1)" 
    using li(1,2) agree seg_cong [of xs B ?P "m_caSeq l"] seg_cong [of ys B ?P "m_caSeq l"] by simp_all
  then have "seg ?P ?A1 (-1) xs (head_pos ?P (mid @ ys) (-1))" "seg ?P ?A1 (?P c) ys (-1)"
      "seg ?P ?A1 (last_pos ?P (-1) xs) mid (head_pos ?P ys (-1))"
    using nodes dis so rng inj by (auto intro!: seg_link_next simp: link_frame inj_on_Un)
  then have "seg ?P A' (-1) xs (head_pos ?P (mid @ ys) (-1))" "seg ?P A' (last_pos ?P (-1) (xs @ mid)) ys (-1)"
      "seg ?P A' (last_pos ?P (-1) xs) mid (head_pos ?P ys (-1))"
    using dis so rng inj unfolding A' by (auto intro!: seg_link_prior simp: link_frame inj_on_Un)
  then have "seg ?P A' (-1) ?rs (-1)" by simp
  moreover have "rest_empty ?P A' ?rs" unfolding A' by (intro link_empty empty) auto
  ultimately show ?thesis
    using sz so sub t n len by (simp add: holds_at_def A')
qed

lemma link_update:
  "\<forall>v\<in>starts xs. nat (P v) \<noteq> p \<Longrightarrow> link_next P (A[p := n]) xs q = (link_next P A xs q)[p := n]"
  "\<forall>v\<in>starts xs. nat (P v) \<noteq> p \<Longrightarrow> link_prior P (A[p := n]) xs q = (link_prior P A xs q)[p := n]"
proof -
  assume a: "\<forall>v\<in>starts xs. nat (P v) \<noteq> p"
  have "xs \<noteq> [] \<Longrightarrow> p \<noteq> nat (P (fst (last xs))) \<and> p \<noteq> nat (P (fst (hd xs)))" using a last_start [of xs] hd_start [of xs] by blast
  then show "link_next P (A[p := n]) xs q = (link_next P A xs q)[p := n]" "link_prior P (A[p := n]) xs q = (link_prior P A xs q)[p := n]"
    by (cases "xs = []"; simp add: link_next_def link_prior_def list_update_swap)+
qed

lemma link_Nil [simp]: "link_next P A [] q = A" "link_prior P A [] q = A"
  by (simp_all add: link_next_def link_prior_def)

lemma head_pos_none: "0 < N \<Longrightarrow> head_pos (pos N k) ys (-1) = -1 \<longleftrightarrow> ys = []"
  using pos_not_none by (cases ys) auto

section \<open>A range of one\<close>

lemma unlink_holds:
  assumes h: "holds_at k l (xs @ (x, x) # ys)"
  shows "\<exists>l1. unlink (pos (m_iSize l) k x) l = Some l1 \<and> m_iLength l1 = m_iLength l \<and> m_iSize l1 = m_iSize l
    \<and> holds_at k (l1\<lparr>m_iLength := m_iLength l - 1\<rparr>) (xs @ ys)"
proof -
  let ?N = "m_iSize l" and ?P = "pos (m_iSize l) k" and ?A = "m_caSeq l" and ?p = "nat (pos (m_iSize l) k x)"
  note sz = holds_size [OF h] and fr = holds_frames [OF h] and li = holds_links [OF h] and hi = head_is [OF h]
  let ?L = "link_prior ?P (link_next ?P ?A xs (head_pos ?P ys (-1))) ys (last_pos ?P (-1) xs)"
  let ?n = "(?A ! ?p)\<lparr>seqstart := -1\<rparr>"
  let ?B = "?A[?p := ?n]"
  have en: "empty_node ?n" by (simp add: li(3) empty_node_def seq_end_def)
  have L: "link_prior ?P (link_next ?P ?B xs (head_pos ?P ys (-1))) ys (last_pos ?P (-1) xs) = ?L[?p := ?n]"
    using fr by (simp add: link_update)
  have Lp: "?L ! ?p = ?A ! ?p" "link_next ?P ?A xs q ! ?p = ?A ! ?p" for q using fr by (simp_all add: link_nth)
  have hp: "xs \<noteq> [] \<Longrightarrow> head_pos ?P xs q = head_pos ?P xs (-1)" for q by (cases xs) auto
  let ?t = "if ys = [] then if xs = [] then m_iTail l else last_pos ?P (-1) xs else m_iTail l"
  have t: "ys \<noteq> [] \<Longrightarrow> m_iTail l = last_pos ?P q ys" for q using li(5) by (simp add: last_pos_def)
  have "holds_at k (l\<lparr>m_caSeq := ?L[?p := ?n], m_iHead := head_pos ?P (xs @ [] @ ys) (-1), m_iTail := ?t, m_iLength := m_iLength l - 1\<rparr>) (xs @ [] @ ys)"
  proof (rule relink [OF h, where B = ?B])
    show "rest_empty ?P ?B (xs @ [] @ ys)" using en by (intro rest_empty_update [OF li(6)]) auto
    show "\<forall>u\<in>starts xs \<union> starts ys. ?B ! nat (?P u) = ?A ! nat (?P u)" using fr by (auto simp: nth_list_update)
    show "?L[?p := ?n] = link_prior ?P (link_next ?P ?B xs (head_pos ?P ([] @ ys) (-1))) ys (last_pos ?P (-1) (xs @ []))" using L by simp
    show "xs @ [] @ ys \<noteq> [] \<Longrightarrow> ?t = last_pos ?P (-1) (xs @ [] @ ys)" using t by simp
  qed simp_all
  moreover have "unlink (?P x) l = Some (l\<lparr>m_caSeq := ?L[?p := ?n], m_iHead := head_pos ?P (xs @ ys) (-1), m_iTail := ?t\<rparr>)"
    using sz(1,3) li hi Lp hp [of "?P x"] hp [of "head_pos ?P ys (-1)"] by (cases "xs = []"; cases "ys = []")
      (auto simp: unlink_def node_at_pos set_node_pos set_next set_prior head_pos_none intro!: rcv_loss.equality)
  ultimately show ?thesis by auto
qed

section \<open>The first of a longer range\<close>

lemma inner_frames:
  assumes h: "holds_at k l (xs @ (c, d) # ys)" and y: "c < y" "y \<le> d"
  shows "\<forall>u\<in>starts xs. nat (pos (m_iSize l) k u) \<noteq> nat (pos (m_iSize l) k y)"
    "\<forall>u\<in>starts ys. nat (pos (m_iSize l) k u) \<noteq> nat (pos (m_iSize l) k y)"
    "nat (pos (m_iSize l) k c) \<noteq> nat (pos (m_iSize l) k y)"
    "nat (pos (m_iSize l) k y) < length (m_caSeq l)" "empty_node (m_caSeq l ! nat (pos (m_iSize l) k y))"
proof -
  note sz = holds_size [OF h]
  have "y \<in> lost (xs @ (c, d) # ys)" using y by simp
  then have n: "narrow (m_iSize l) (insert y (lost (xs @ (c, d) # ys)))" using sz(5) by (simp only: insert_absorb)
  have "y \<notin> starts (xs @ (c, d) # ys)" using starts_order [OF sz(4)] y by fastforce
  note w = window_facts [OF h n] this
  show "\<forall>u\<in>starts xs. nat (pos (m_iSize l) k u) \<noteq> nat (pos (m_iSize l) k y)"
    "\<forall>u\<in>starts ys. nat (pos (m_iSize l) k u) \<noteq> nat (pos (m_iSize l) k y)"
    "nat (pos (m_iSize l) k c) \<noteq> nat (pos (m_iSize l) k y)"
    using w(2) [OF w(4)] by simp_all
  show "nat (pos (m_iSize l) k y) < length (m_caSeq l)" "empty_node (m_caSeq l ! nat (pos (m_iSize l) k y))"
    using w by simp_all
qed

lemma near_in:
  assumes "holds_at k l rs" "x \<in> lost rs" "y \<in> lost rs"
  shows "\<bar>x - y\<bar> < m_iSeqNoTH"
  using holds_size(2,5) [OF assms(1)] assms(2,3) by (fastforce simp: narrow_def)

text \<open>Writing the end of a range that starts at \<open>y\<close> into an empty node.\<close>

lemma put_end:
  assumes "\<bar>d - y\<bar> < m_iSeqNoTH" "y \<le> d"
  obtains c where "seqcmp (sn d) (sn y) = Some c" "c > 0 \<longleftrightarrow> y < d" "seq_end y d = (if c > 0 then sn d else -1)"
proof -
  obtain c where "seqcmp (sn d) (sn y) = Some c" "c > 0 \<longleftrightarrow> d > y" using seqcmp_sn [OF assms(1)] by metis
  with that assms(2) show thesis by (auto simp: seq_end_def)
qed

lemma node_kept:
  "seqend n = -1 \<Longrightarrow> n\<lparr>seqstart := a, inext := c, iprior := d\<rparr> = \<lparr>seqstart = a, seqend = -1, inext = c, iprior = d\<rparr>"
  by (cases n) simp

lemma swap_update: "p \<noteq> q \<Longrightarrow> A[q := a, p := b, q := c] = A[q := c, p := b]"
  by (metis list_update_overwrite list_update_swap)

lemma advance_holds:
  assumes h: "holds_at k l (xs @ (x, d) # ys)" and x: "x < d"
  shows "\<exists>l1. advance (pos (m_iSize l) k x) l = Some l1 \<and> m_iLength l1 = m_iLength l \<and> m_iSize l1 = m_iSize l
    \<and> holds_at k (l1\<lparr>m_iLength := m_iLength l - 1\<rparr>) (xs @ (x + 1, d) # ys)"
proof -
  let ?N = "m_iSize l" and ?P = "pos (m_iSize l) k" and ?A = "m_caSeq l" and ?p = "nat (pos (m_iSize l) k x)" and ?q = "nat (pos (m_iSize l) k (x + 1))"
  note sz = holds_size [OF h] and fr = holds_frames [OF h] and li = holds_links [OF h] and hi = head_is [OF h]
  have x1: "x < x + 1" "x + 1 \<le> d" using x by simp_all
  note in1 = inner_frames [OF h x1]
  let ?new = "\<lparr>seqstart = sn (x + 1), seqend = seq_end (x + 1) d, inext = head_pos ?P ys (-1), iprior = last_pos ?P (-1) xs\<rparr>"
  let ?old = "(?A ! ?p)\<lparr>seqstart := -1, seqend := -1\<rparr>"
  let ?B = "?A[?q := ?new, ?p := ?old]"
  let ?L = "link_prior ?P (link_next ?P ?B xs (?P (x + 1))) ys (?P (x + 1))"
  let ?t = "last_pos ?P (?P (x + 1)) ys"
  have "holds_at k (l\<lparr>m_caSeq := ?L, m_iHead := head_pos ?P (xs @ [(x + 1, d)] @ ys) (-1), m_iTail := ?t, m_iLength := m_iLength l - 1\<rparr>) (xs @ [(x + 1, d)] @ ys)"
  proof (rule relink [OF h, where B = ?B])
    show "rest_empty ?P ?B (xs @ [(x + 1, d)] @ ys)"
    proof (rule rest_empty_update [where rs = "xs @ [(x, d), (x + 1, d)] @ ys"])
      show "rest_empty ?P (?A[?q := ?new]) (xs @ [(x, d), (x + 1, d)] @ ys)"
        by (rule rest_empty_update [OF li(6)]) auto
    qed (auto simp: empty_node_def)
    show "\<forall>u\<in>starts xs \<union> starts ys. ?B ! nat (?P u) = ?A ! nat (?P u)" using fr in1 by (auto simp: nth_list_update)
    show "seg ?P ?B (last_pos ?P (-1) xs) [(x + 1, d)] (head_pos ?P ys (-1))" using in1 by (simp add: nth_list_update)
  qed (use x in simp_all)
  moreover have "advance (?P x) l = Some (l\<lparr>m_caSeq := ?L, m_iHead := head_pos ?P (xs @ [(x + 1, d)] @ ys) (-1), m_iTail := ?t\<rparr>)"
  proof -
    have "x \<in> lost (xs @ (x, d) # ys)" "x + 1 \<in> lost (xs @ (x, d) # ys)" "d \<in> lost (xs @ (x, d) # ys)" using x by auto
    then obtain c where c: "seqcmp (sn d) (sn (x + 1)) = Some c" "seq_end (x + 1) d = (if c > 0 then sn d else -1)"
      using put_end [of d "x + 1"] near_in [OF h] x1 by metis
    have r: "ring (?P x) 1 ?N = Some (?P (x + 1))" using ring_pos [of ?N 1 k x] sz(1,2) by simp
    have sx: "seqstart (?A ! ?p) = sn x" "seqend (?A ! ?p) = sn d" "inext (?A ! ?p) = head_pos ?P ys (-1)" "iprior (?A ! ?p) = last_pos ?P (-1) xs"
      using li(3) x by (simp_all add: seq_end_def)
    have e: "seqend (?A ! ?q) = -1" using in1(5) by (simp add: empty_node_def)
    have pq: "?p \<noteq> ?q" "?q \<noteq> ?p" using in1(3) by simp_all
    have "advance (?P x) l = do {
       (A, h) \<leftarrow> (if xs = [] then Some (?B, ?P (x + 1))
        else do { A \<leftarrow> set_node ?B (last_pos ?P (-1) xs) (\<lambda>p. p\<lparr>inext := ?P (x + 1)\<rparr>); Some (A, m_iHead l) });
       n \<leftarrow> node_at A (?P (x + 1));
       (A, t) \<leftarrow> (if ys = [] then Some (A, ?P (x + 1))
        else do { A \<leftarrow> set_node A (inext n) (\<lambda>p. p\<lparr>iprior := ?P (x + 1)\<rparr>); Some (A, m_iTail l) });
       Some (l\<lparr>m_caSeq := A, m_iHead := h, m_iTail := t\<rparr>) }"
      using sz(1,3) r c sx e pq hi fr(3) in1(4)
      by (cases "c > 0") (simp_all add: advance_def node_at_pos set_node_pos seq_sn swap_update [OF pq(1)] node_full node_kept)
    moreover have "?B ! ?q = ?new" "link_next ?P ?B xs z ! ?q = ?new" for z
      using in1 pq link_nth(1) [OF in1(1)] by (simp_all add: nth_list_update)
    moreover have "xs \<noteq> [] \<Longrightarrow> m_iHead l = head_pos ?P xs (?P (x + 1))" using li(4) by (cases xs) auto
    moreover have "ys \<noteq> [] \<Longrightarrow> m_iTail l = ?t" using li(5) by (simp add: last_pos_def)
    ultimately show ?thesis using sz(1,3)
      by (cases "xs = []"; cases "ys = []") (auto simp: node_at_pos set_next set_prior intro!: rcv_loss.equality)
  qed
  ultimately show ?thesis by auto
qed

section \<open>Inside a range\<close>

lemma cut_end_sn:
  assumes "seqstart n = sn a" "a < x" "\<bar>x - a\<bar> < m_iSeqNoTH"
  shows "cut_end (sn x) n = Some (seq_end a (x - 1))"
proof -
  have "sn x = sn (a + 1) \<longleftrightarrow> x = a + 1" using assms by (intro sn_inj) linarith
  then show ?thesis using assms(1) by (auto simp: cut_end_def seq_sn seq_end_def)
qed

lemma link_next_id: "seg P A pr xs nx \<Longrightarrow> link_next P A xs nx = A"
proof (cases xs rule: rev_cases)
  assume "seg P A pr xs nx"
  moreover case (snoc ys r)
  moreover obtain a b where "r = (a, b)" by (cases r)
  ultimately show ?thesis by (simp add: link_next_def) (metis list_update_id)
qed simp

lemma split_holds:
  assumes h: "holds_at k l (xs @ (a, d) # ys)" and x: "a < x" "x < d"
  shows "\<exists>l1. split_at (pos (m_iSize l) k x) (pos (m_iSize l) k a) (sn x) l = Some l1 \<and> m_iLength l1 = m_iLength l \<and> m_iSize l1 = m_iSize l
    \<and> holds_at k (l1\<lparr>m_iLength := m_iLength l - 1\<rparr>) (xs @ (a, x - 1) # (x + 1, d) # ys)"
proof -
  let ?N = "m_iSize l" and ?P = "pos (m_iSize l) k" and ?A = "m_caSeq l" and ?p = "nat (pos (m_iSize l) k a)" and ?q = "nat (pos (m_iSize l) k (x + 1))"
  note sz = holds_size [OF h] and fr = holds_frames [OF h] and li = holds_links [OF h] and hi = head_is [OF h]
  have x1: "a < x + 1" "x + 1 \<le> d" using x by simp_all
  note in1 = inner_frames [OF h x1]
  let ?mid = "[(a, x - 1), (x + 1, d)]"
  let ?new = "\<lparr>seqstart = sn (x + 1), seqend = seq_end (x + 1) d, inext = head_pos ?P ys (-1), iprior = ?P a\<rparr>"
  let ?old = "\<lparr>seqstart = sn a, seqend = seq_end a (x - 1), inext = ?P (x + 1), iprior = last_pos ?P (-1) xs\<rparr>"
  let ?B = "?A[?q := ?new, ?p := ?old]"
  let ?L = "link_prior ?P ?B ys (?P (x + 1))"
  let ?t = "last_pos ?P (?P (x + 1)) ys"
  have pq: "?p \<noteq> ?q" "?q \<noteq> ?p" using in1(3) by simp_all
  have agree: "\<forall>u\<in>starts xs \<union> starts ys. ?B ! nat (?P u) = ?A ! nat (?P u)" using fr in1 by (auto simp: nth_list_update)
  have id: "link_next ?P ?B xs (?P a) = ?B"
    using li(1) agree seg_cong [of xs ?B ?P ?A] by (intro link_next_id) auto
  have "holds_at k (l\<lparr>m_caSeq := ?L, m_iHead := head_pos ?P (xs @ ?mid @ ys) (-1), m_iTail := ?t, m_iLength := m_iLength l - 1\<rparr>) (xs @ ?mid @ ys)"
  proof (rule relink [OF h, where B = ?B])
    show "rest_empty ?P ?B (xs @ ?mid @ ys)"
    proof (rule rest_empty_update [where rs = "xs @ ?mid @ ys"])
      show "rest_empty ?P (?A[?q := ?new]) (xs @ ?mid @ ys)"
        by (rule rest_empty_update [OF li(6)]) auto
    qed auto
    show "seg ?P ?B (last_pos ?P (-1) xs) ?mid (head_pos ?P ys (-1))" using in1 fr pq by (simp add: nth_list_update)
    show "?L = link_prior ?P (link_next ?P ?B xs (head_pos ?P (?mid @ ys) (-1))) ys (last_pos ?P (-1) (xs @ ?mid))" using id by simp
  qed (use x agree in simp_all)
  moreover have "split_at (?P x) (?P a) (sn x) l = Some (l\<lparr>m_caSeq := ?L, m_iHead := head_pos ?P (xs @ ?mid @ ys) (-1), m_iTail := ?t\<rparr>)"
  proof -
    have m: "x \<in> lost (xs @ (a, d) # ys)" "x + 1 \<in> lost (xs @ (a, d) # ys)" "d \<in> lost (xs @ (a, d) # ys)" "a \<in> lost (xs @ (a, d) # ys)" using x by auto
    then obtain c where c: "seqcmp (sn d) (sn (x + 1)) = Some c" "seq_end (x + 1) d = (if c > 0 then sn d else -1)"
      using put_end [of d "x + 1"] near_in [OF h] x1 by metis
    have r: "ring (?P x) 1 ?N = Some (?P (x + 1))" using ring_pos [of ?N 1 k x] sz(1,2) by simp
    have sx: "?A ! ?p = \<lparr>seqstart = sn a, seqend = sn d, inext = head_pos ?P ys (-1), iprior = last_pos ?P (-1) xs\<rparr>"
      using li(3) x by (simp add: seq_end_def)
    have e: "seqend (?A ! ?q) = -1" using in1(5) by (simp add: empty_node_def)
    have ce: "cut_end (sn x) n = Some (seq_end a (x - 1))" if "seqstart n = sn a" for n
      using that near_in [OF h m(1,4)] x by (intro cut_end_sn)
    have head: "m_iHead l = head_pos ?P (xs @ ?mid @ ys) (-1)" using li(4) by (cases xs) auto
    have tl: "ys \<noteq> [] \<Longrightarrow> m_iTail l = ?t" using li(5) by (simp add: last_pos_def)
    show ?thesis
      using sz(1,3) r c sx e pq hi fr(3) in1(4) head tl
      by (cases "c > 0"; cases "ys = []")
        (auto simp: split_at_def node_at_pos set_node_pos seq_sn swap_update [OF pq(1)] ce node_full node_kept set_prior intro!: rcv_loss.equality)
  qed
  ultimately show ?thesis by auto
qed

section \<open>The search for the node\<close>

lemma search_back_finds:
  assumes "0 < N" "N \<le> m_iSeqNoTH" "int (length A) = N"
    and "\<And>i. i < j \<Longrightarrow> seqstart (A ! nat (pos N k (y - int i))) = -1" "seqstart (A ! nat (pos N k (y - int j))) \<noteq> -1" "j < fuel"
  shows "search_back fuel A N (pos N k y) = Some (pos N k (y - int j))"
  using assms(4-)
proof (induction j arbitrary: y fuel)
  case 0
  then show ?case using assms(1-3) by (cases fuel) (simp_all add: node_at_pos)
next
  case (Suc j)
  obtain f where f: "fuel = Suc f" using Suc.prems by (cases fuel) auto
  have "search_back f A N (pos N k (y - 1)) = Some (pos N k (y - 1 - int j))"
    using Suc.prems(1) [of "Suc _"] Suc.prems(2,3) f by (intro Suc.IH) (simp_all add: algebra_simps)
  moreover have "seqstart (A ! nat (pos N k y)) = -1" using Suc.prems(1) [of 0] by simp
  ultimately show ?case using assms(1-3) f by (simp add: node_at_pos ring_back_pos algebra_simps)
qed

lemma node_of:
  assumes h: "holds_at k l rs"
  shows "seqstart (m_caSeq l ! nat (pos (m_iSize l) k z)) \<noteq> -1 \<longleftrightarrow> (\<exists>u\<in>starts rs. pos (m_iSize l) k u = pos (m_iSize l) k z)"
    "(u, d) \<in> set rs \<Longrightarrow> pos (m_iSize l) k u = pos (m_iSize l) k z \<Longrightarrow>
       seqstart (m_caSeq l ! nat (pos (m_iSize l) k z)) = sn u \<and> seqend (m_caSeq l ! nat (pos (m_iSize l) k z)) = seq_end u d"
proof -
  let ?P = "pos (m_iSize l) k"
  note sz = holds_size [OF h]
  show n: "(u, d) \<in> set rs \<Longrightarrow> ?P u = ?P z \<Longrightarrow> seqstart (m_caSeq l ! nat (?P z)) = sn u \<and> seqend (m_caSeq l ! nat (?P z)) = seq_end u d" for u d
  proof -
    assume "(u, d) \<in> set rs" and p: "?P u = ?P z"
    then obtain xs ys where "rs = xs @ (u, d) # ys" by (metis split_list)
    with holds_links(3) [of k l xs u d ys] h p show ?thesis by simp
  qed
  have pr: "0 \<le> ?P v \<and> ?P v < m_iSize l" for v using sz(1) by (rule pos_range)
  have r: "nat (?P z) < length (m_caSeq l)" "0 \<le> ?P v" for v using pr [of z] pr [of v] sz(3) by linarith+
  show "seqstart (m_caSeq l ! nat (?P z)) \<noteq> -1 \<longleftrightarrow> (\<exists>u\<in>starts rs. ?P u = ?P z)"
  proof
    assume "seqstart (m_caSeq l ! nat (?P z)) \<noteq> -1"
    then have "\<exists>u\<in>starts rs. nat (?P u) = nat (?P z)"
      using h r(1) unfolding holds_at_def rest_empty_def empty_node_def by blast
    then show "\<exists>u\<in>starts rs. ?P u = ?P z" using r(2) by (metis int_nat_eq)
  next
    assume "\<exists>u\<in>starts rs. ?P u = ?P z"
    then show "seqstart (m_caSeq l ! nat (?P z)) \<noteq> -1" using n by (auto simp: starts_def)
  qed
qed

text \<open>
  The search from before a number that starts no range: it ends, at a node whose range has the number if any has it,
  and otherwise ends before it.
\<close>

lemma range_unique:
  assumes "sorted_ranges rs" "(u', d') \<in> set rs" "(u, d) \<in> set rs" "u' \<le> u" "u \<le> d'"
  shows "u = u' \<and> d = d'"
proof -
  obtain xs ys where rs: "rs = xs @ (u', d') # ys" using assms(2) by (metis split_list)
  have "(u, d) \<notin> set xs"
  proof
    assume "(u, d) \<in> set xs"
    then have "u \<le> d" "d < u'" using assms(1) rs by (auto simp: sorted_ranges_def sorted_wrt_append)
    with assms(4) show False by simp
  qed
  moreover have "(u, d) \<notin> set ys" using assms(1,5) rs by fastforce
  ultimately show ?thesis using assms(3) rs by auto
qed

lemma search_finds:
  assumes h: "holds_at k l ((w, v) # rs)" and x: "w < x" "x \<notin> starts ((w, v) # rs)"
  obtains u d where "search_back (length (m_caSeq l)) (m_caSeq l) (m_iSize l) (pos (m_iSize l) k (x - 1)) = Some (pos (m_iSize l) k u)"
    "(u, d) \<in> set ((w, v) # rs)" "u < x \<and> x \<le> d \<longleftrightarrow> x \<in> lost ((w, v) # rs)" "x \<le> d \<Longrightarrow> x \<in> lost ((w, v) # rs)"
proof -
  let ?N = "m_iSize l" and ?P = "pos (m_iSize l) k" and ?rs = "(w, v) # rs"
  note sz = holds_size [OF h] and no = node_of [OF h]
  have wl: "w \<in> lost ?rs" "w \<in> starts ?rs" using sz(4) by auto
  have sl: "starts ?rs \<subseteq> lost ?rs" by (rule starts_lost [OF sz(4)])
  have wmin: "w \<le> y" if "y \<in> lost ?rs" for y using that sz(4) by (fastforce simp: lost_def)
  have inN: "\<bar>y - z\<bar> < ?N" if "y \<in> lost ?rs" "z \<in> lost ?rs" for y z using sz(5) that by (simp only: narrow_def)
  define Q where "Q i \<longleftrightarrow> (\<exists>u\<in>starts ?rs. ?P u = ?P (x - 1 - int i))" for i
  define i0 where "i0 = nat ((x - 1 - w) mod ?N)"
  have i0: "int i0 = (x - 1 - w) mod ?N" using sz(1) by (simp add: i0_def)
  have "x - 1 - int i0 = w + ?N * ((x - 1 - w) div ?N)"
    unfolding i0 using minus_mod_eq_mult_div [of "x - 1 - w" ?N] by simp
  then have "x - 1 - int i0 + k = w + k + ?N * ((x - 1 - w) div ?N)" by simp
  then have "?P (x - 1 - int i0) = ?P w" unfolding pos_def by (simp only: mod_mult_self2)
  then have Qi0: "Q i0" using wl(2) unfolding Q_def by metis
  define j where "j = (LEAST i. Q i)"
  have Qj: "Q j" unfolding j_def using Qi0 by (rule LeastI)
  have jle: "j \<le> i" if "Q i" for i unfolding j_def using that by (rule Least_le)
  have "int j < ?N" using jle [OF Qi0] i0 sz(1) pos_mod_bound [of ?N "x - 1 - w"] by linarith
  then have jN: "j < length (m_caSeq l)" using sz(3) by linarith
  obtain u where u: "u \<in> starts ?rs" "?P u = ?P (x - 1 - int j)" using Qj unfolding Q_def by blast
  obtain d where d: "(u, d) \<in> set ?rs" using u(1) unfolding starts_def by force
  have sb: "search_back (length (m_caSeq l)) (m_caSeq l) ?N (?P (x - 1)) = Some (?P u)"
    unfolding u(2)
  proof (rule search_back_finds)
    fix i assume "i < j"
    then have "\<not> Q i" using jle by fastforce
    then show "seqstart (m_caSeq l ! nat (?P (x - 1 - int i))) = -1" using no(1) unfolding Q_def by blast
  next
    show "seqstart (m_caSeq l ! nat (?P (x - 1 - int j))) \<noteq> -1" using no(1) Qj unfolding Q_def by blast
  qed (use sz jN in auto)
  let ?z = "x - 1 - int j"
  have Qat: "int j \<le> x - 1 - y" if "y \<in> starts ?rs" "y < x" for y
    using jle [of "nat (x - 1 - y)"] that unfolding Q_def by fastforce
  have covers: "u < x \<and> x \<le> d" if xl: "x \<in> lost ?rs"
  proof -
    obtain u' d' where u': "(u', d') \<in> set ?rs" "u' \<le> x" "x \<le> d'" using xl unfolding lost_iff by blast
    then have "u' \<in> starts ?rs" "u' < x" using x(2) by (force simp: starts_def)+
    then have z: "u' \<le> ?z" "?z \<le> d'" using Qat [of u'] u'(3) by linarith+
    then have "?z \<in> lost ?rs" using u'(1) unfolding lost_iff by blast
    then have "u = ?z" using u pos_inj [OF inN, of u ?z k] sl by blast
    with range_unique [OF sz(4) u'(1) d] z u' \<open>u' < x\<close> show ?thesis by auto
  qed
  have here: "x \<in> lost ?rs" if "x \<le> d"
  proof (rule ccontr)
    assume "x \<notin> lost ?rs"
    then have "x < u" using that d unfolding lost_iff by (meson not_le)
    moreover have "w \<le> ?z" using Qat [OF wl(2) x(1)] by linarith
    moreover have "\<bar>u - w\<bar> < ?N" using inN [of u w] u(1) sl wl by blast
    ultimately have "\<bar>u - ?z\<bar> < ?N" by linarith
    then have "u = ?z" using pos_inj u(2) by blast
    with \<open>x < u\<close> show False by linarith
  qed
  show thesis by (rule that [OF sb d]) (use covers here in auto)
qed

section \<open>Removal of any number\<close>

lemma first_least: "sorted_ranges ((w, v) # rs) \<Longrightarrow> y \<in> lost ((w, v) # rs) \<Longrightarrow> w \<le> y"
  by (fastforce simp: lost_iff)

lemma lost_disjoint:
  assumes "sorted_ranges (xs @ (c, d) # ys)" "c \<le> y" "y \<le> d"
  shows "y \<notin> lost xs" "y \<notin> lost ys"
  using assms by (fastforce simp: lost_iff)+

lemma length_bounds:
  assumes "holds_at k l ((w, v) # rs)"
  shows "0 < m_iLength l" "m_iLength l \<le> m_iSize l"
proof -
  note sz = holds_size [OF assms]
  have "w \<in> lost ((w, v) # rs)" using sz(4) by simp
  then have "\<bar>y - w\<bar> < m_iSize l" if "y \<in> lost ((w, v) # rs)" for y using sz(5) that unfolding narrow_def by blast
  then have "w \<le> y \<and> y < w + m_iSize l" if "y \<in> lost ((w, v) # rs)" for y using first_least [OF sz(4) that] that by fastforce
  then have "lost ((w, v) # rs) \<subseteq> {w..<w + m_iSize l}" by (meson atLeastLessThan_iff subsetI)
  then have "card (lost ((w, v) # rs)) \<le> card {w..<w + m_iSize l}" by (intro card_mono) auto
  then show "m_iLength l \<le> m_iSize l" using total_length_card [OF sz(4)] sz(1,7) by simp
  have "m_iLength l \<noteq> 0" "0 \<le> m_iLength l" using sz(6,7) total_length_pos [OF sz(4)] by simp_all
  then show "0 < m_iLength l" by simp
qed

lemma drop_one_in:
  assumes "0 < m_iLength l" "m_iLength l \<le> m_iSeqNoTH"
  shows "drop_one l = Some (True, l\<lparr>m_iLength := m_iLength l - 1\<rparr>)"
proof -
  have "int32 (m_iLength l - 1) = Some (m_iLength l - 1)" using assms by (intro int32_in) linarith+
  then show ?thesis by (simp add: drop_one_def)
qed

lemma cut_holds:
  assumes h: "holds_at k l (xs @ (a, d) # ys)" and x: "a < d"
  shows "\<exists>l1. do { e \<leftarrow> cut_end (sn d) (m_caSeq l ! nat (pos (m_iSize l) k a));
      A \<leftarrow> set_node (m_caSeq l) (pos (m_iSize l) k a) (\<lambda>n. n\<lparr>seqend := e\<rparr>); Some (l\<lparr>m_caSeq := A\<rparr>) } = Some l1
    \<and> m_iLength l1 = m_iLength l \<and> m_iSize l1 = m_iSize l \<and> holds_at k (l1\<lparr>m_iLength := m_iLength l - 1\<rparr>) (xs @ (a, d - 1) # ys)"
proof -
  note sz = holds_size [OF h] and li = holds_links [OF h]
  have m: "a \<in> lost (xs @ (a, d) # ys)" "d \<in> lost (xs @ (a, d) # ys)" using x by auto
  have "cut_end (sn d) (m_caSeq l ! nat (pos (m_iSize l) k a)) = Some (seq_end a (d - 1))"
    using li(3) x near_in [OF h m(2,1)] by (intro cut_end_sn) simp_all
  moreover have "sorted_ranges (xs @ (a, d - 1) # ys)" using sz(4) x by fastforce
  moreover have "narrow (m_iSize l) (lost (xs @ (a, d - 1) # ys))" using sz(5) by (rule narrow_subset) auto
  ultimately show ?thesis
    using change_end [OF h, of "d - 1"] x sz(1,3) by (simp add: set_node_pos)
qed

text \<open>What the two branches of \<^const>\<open>remove_rcv\<close> that change the list leave behind, and the branch each number takes.\<close>

abbreviation remove_first :: "int \<Rightarrow> rcv_loss \<Rightarrow> rcv_loss option" where
  "remove_first i l \<equiv> (if seqend (m_caSeq l ! nat i) = -1 then unlink i l else advance i l)"

definition remove_inner :: "int \<Rightarrow> int \<Rightarrow> int \<Rightarrow> rcv_loss \<Rightarrow> rcv_loss option" where
  "remove_inner i j seqno l = (if seqno = seqend (m_caSeq l ! nat j) then do {
       e \<leftarrow> cut_end seqno (m_caSeq l ! nat j); A \<leftarrow> set_node (m_caSeq l) j (\<lambda>n. n\<lparr>seqend := e\<rparr>); Some (l\<lparr>m_caSeq := A\<rparr>) }
     else split_at i j seqno l)"

definition loses :: "int \<Rightarrow> rcv_loss \<Rightarrow> (int \<times> int) list \<Rightarrow> int \<Rightarrow> rcv_loss option \<Rightarrow> bool" where
  "loses k l rs x r \<longleftrightarrow> (\<exists>l1 rs'. r = Some l1 \<and> m_iLength l1 = m_iLength l \<and> m_iSize l1 = m_iSize l
     \<and> holds_at k (l1\<lparr>m_iLength := m_iLength l - 1\<rparr>) rs' \<and> lost rs' = lost rs - {x})"

lemma remove_first_loses:
  assumes h: "holds_at k l (xs @ (x, d) # ys)"
  shows "loses k l (xs @ (x, d) # ys) x (remove_first (pos (m_iSize l) k x) l)"
proof (cases "x = d")
  case True
  note dj = lost_disjoint [OF holds_size(4) [OF h], of x]
  have "lost (xs @ ys) = lost (xs @ (x, d) # ys) - {x}" using dj True by auto
  moreover have "seqend (m_caSeq l ! nat (pos (m_iSize l) k x)) = -1" using holds_links(3) [OF h] True by (simp add: seq_end_def)
  ultimately show ?thesis using unlink_holds [of k l xs x ys] h True unfolding loses_def by (simp del: lost_simps) blast
next
  case False
  note dj = lost_disjoint [OF holds_size(4) [OF h], of x]
  have xd: "x < d" using holds_size(4) [OF h] False by auto
  have "lost (xs @ (x + 1, d) # ys) = lost (xs @ (x, d) # ys) - {x}" using dj xd by auto
  moreover have "seqend (m_caSeq l ! nat (pos (m_iSize l) k x)) \<noteq> -1" using holds_links(3) [OF h] False by (simp add: seq_end_def)
  ultimately show ?thesis using advance_holds [OF h xd] unfolding loses_def by (simp del: lost_simps) blast
qed

lemma remove_inner_loses:
  assumes h: "holds_at k l (xs @ (u, d) # ys)" and x: "u < x" "x \<le> d" and close: "\<bar>x - d\<bar> < m_iSeqNoTH"
  shows "loses k l (xs @ (u, d) # ys) x (remove_inner (pos (m_iSize l) k x) (pos (m_iSize l) k u) (sn x) l)"
proof -
  note dj = lost_disjoint [OF holds_size(4) [OF h], of x]
  have e: "seqend (m_caSeq l ! nat (pos (m_iSize l) k u)) = sn d" using holds_links(3) [OF h] x by (simp add: seq_end_def)
  have eq: "sn x = sn d \<longleftrightarrow> x = d" using close by (intro sn_inj) linarith
  show ?thesis
  proof (cases "x = d")
    case True
    have "lost (xs @ (u, d - 1) # ys) = lost (xs @ (u, d) # ys) - {x}" using dj x True by auto
    then show ?thesis using cut_holds [OF h] x e True unfolding loses_def remove_inner_def by (simp del: lost_simps) blast
  next
    case False
    then have xd: "x < d" using x by simp
    have "lost (xs @ (u, x - 1) # (x + 1, d) # ys) = lost (xs @ (u, d) # ys) - {x}" using dj x by auto
    then show ?thesis using split_holds [OF h x(1) xd] e eq False unfolding loses_def remove_inner_def by (simp del: lost_simps) blast
  qed
qed

lemma remove_reads:
  assumes h: "holds_at k l ((w, v) # rs)" and x: "w \<le> x" "x - w < m_iSeqNoTH"
  shows "remove_rcv (sn x) l =
    (let i = pos (m_iSize l) k x; A = m_caSeq l in
     if sn x = seqstart (A ! nat i) then do { l \<leftarrow> remove_first i l; drop_one l }
     else do {
       j \<leftarrow> search_back (length A) A (m_iSize l) (pos (m_iSize l) k (x - 1));
       n \<leftarrow> node_at A j;
       if seqend n = -1 then Some (False, l)
       else do { c \<leftarrow> seqcmp (sn x) (seqend n); if c > 0 then Some (False, l) else do { l \<leftarrow> remove_inner i j (sn x) l; drop_one l } } })"
proof -
  note sz = holds_size [OF h]
  have "seqoff (sn w) (sn x) = Some (x - w)" using x by (intro seqoff_sn) auto
  moreover have "ring (pos (m_iSize l) k w) (x - w) (m_iSize l) = Some (pos (m_iSize l) k x)"
    using ring_pos [of "m_iSize l" "x - w" k w] x sz(1,2) by auto
  moreover have "node_at (m_caSeq l) (pos (m_iSize l) k x) = Some (m_caSeq l ! nat (pos (m_iSize l) k x))"
    using node_at_pos sz(1,3) by blast
  moreover have "ring_back (pos (m_iSize l) k x) (m_iSize l) = Some (pos (m_iSize l) k (x - 1))"
    using ring_back_pos sz(1,2) by blast
  ultimately show ?thesis using holds_head [OF h] length_bounds(1) [OF h] x(1)
    by (auto simp: remove_rcv_def remove_inner_def Let_def node_at_def intro!: Option.bind_cong [OF refl] split: if_splits)
qed

lemma loses_removed:
  assumes "loses k l rs x r" "0 < m_iLength l" "m_iLength l \<le> m_iSeqNoTH"
  obtains l' rs' where "do { l \<leftarrow> r; drop_one l } = Some (True, l')" "m_iSize l' = m_iSize l" "holds_at k l' rs'" "lost rs' = lost rs - {x}"
proof -
  obtain l1 rs' where l1: "r = Some l1" "m_iLength l1 = m_iLength l" "m_iSize l1 = m_iSize l"
      "holds_at k (l1\<lparr>m_iLength := m_iLength l - 1\<rparr>) rs'" "lost rs' = lost rs - {x}"
    using assms(1) unfolding loses_def by blast
  moreover have "drop_one l1 = Some (True, l1\<lparr>m_iLength := m_iLength l - 1\<rparr>)" using drop_one_in [of l1] l1(2) assms by simp
  ultimately show thesis by (intro that) simp_all
qed

text \<open>A number that is no start is no start of the node at its index either.\<close>

lemma not_start:
  assumes h: "holds_at k l rs" and close: "\<forall>y\<in>lost rs. \<bar>x - y\<bar> < m_iSeqNoTH" and x: "x \<notin> starts rs"
  shows "sn x \<noteq> seqstart (m_caSeq l ! nat (pos (m_iSize l) k x))"
proof
  assume e: "sn x = seqstart (m_caSeq l ! nat (pos (m_iSize l) k x))"
  then obtain y where y: "y \<in> starts rs" "pos (m_iSize l) k y = pos (m_iSize l) k x" using node_of(1) [OF h, of x] by (metis sn_not_none(1))
  then obtain b where "(y, b) \<in> set rs" by (auto simp: starts_def)
  then have "sn x = sn y" using e node_of(2) [OF h _ y(2)] by simp
  moreover have "\<bar>x - y\<bar> < 0x80000000" using close y(1) starts_lost [OF holds_size(4) [OF h]] by fastforce
  ultimately show False using sn_inj y(1) x by blast
qed

lemma remove_behind:
  assumes h: "holds_at k l ((w, v) # rs)" and close: "\<forall>y\<in>lost ((w, v) # rs). \<bar>x - y\<bar> < m_iSeqNoTH"
    and x: "w < x" "x \<notin> starts ((w, v) # rs)"
  shows "\<exists>l' rs'. remove_rcv (sn x) l = Some (x \<in> lost ((w, v) # rs), l') \<and> m_iSize l' = m_iSize l \<and> holds_at k l' rs' \<and> lost rs' = lost ((w, v) # rs) - {x}"
proof -
  let ?rs = "(w, v) # rs" and ?P = "pos (m_iSize l) k" and ?A = "m_caSeq l"
  note sz = holds_size [OF h] and len = length_bounds [OF h]
  obtain u d where sb: "search_back (length ?A) ?A (m_iSize l) (?P (x - 1)) = Some (?P u)" and ud: "(u, d) \<in> set ?rs"
      "u < x \<and> x \<le> d \<longleftrightarrow> x \<in> lost ?rs" "x \<le> d \<Longrightarrow> x \<in> lost ?rs"
    using search_finds [OF h x] by metis
  obtain xs ys where rs: "?rs = xs @ (u, d) # ys" using ud(1) by (metis split_list)
  note li = holds_links [OF h [unfolded rs]]
  have dl: "d \<in> lost ?rs" "u \<le> d" using sz(4) rs by auto
  obtain c where c: "seqcmp (sn x) (sn d) = Some c" "c > 0 \<longleftrightarrow> d < x" using seqcmp_sn [of x d] close dl by metis
  have nu: "node_at ?A (?P u) = Some (?A ! nat (?P u))" "seqend (?A ! nat (?P u)) = seq_end u d" using sz(1,3) li(3) by (simp_all add: node_at_pos)
  have "w \<in> lost ?rs" using sz(4) by simp
  then have "x - w < m_iSeqNoTH" using close by fastforce
  note rem = remove_reads [OF h less_imp_le [OF x(1)] this]
  show ?thesis
  proof (cases "u = d \<or> d < x")
    case True
    then have "x \<notin> lost ?rs" using ud(2) by auto
    moreover have "remove_rcv (sn x) l = Some (False, l)"
      using True not_start [OF h close x(2)] c sb nu by (auto simp: rem seq_end_def)
    ultimately show ?thesis using h by auto
  next
    case False
    then have ux: "u < x" "x \<le> d" "x \<in> lost ?rs" "u < d" using dl ud by auto
    have "\<bar>x - d\<bar> < m_iSeqNoTH" using close dl(1) by blast
    note los = remove_inner_loses [OF h [unfolded rs] ux(1,2) this, folded rs]
    obtain l' rs' where "do { l \<leftarrow> remove_inner (?P x) (?P u) (sn x) l; drop_one l } = Some (True, l')" "m_iSize l' = m_iSize l" "holds_at k l' rs'" "lost rs' = lost ?rs - {x}"
      by (rule loses_removed [OF los len(1) order_trans [OF len(2) sz(2)]])
    moreover from this have "remove_rcv (sn x) l = Some (True, l')"
      using ux not_start [OF h close x(2)] c sb nu by (simp add: rem seq_end_def Let_def)
    ultimately show ?thesis using ux(3) by auto
  qed
qed

lemma remove_holds:
  assumes h: "holds_at k l rs" and close: "\<forall>y\<in>lost rs. \<bar>x - y\<bar> < m_iSeqNoTH"
  shows "\<exists>l' rs'. remove_rcv (sn x) l = Some (x \<in> lost rs, l') \<and> m_iSize l' = m_iSize l \<and> holds_at k l' rs' \<and> lost rs' = lost rs - {x}"
proof (cases rs)
  case Nil
  with h show ?thesis using holds_size(6) [OF h] by (auto simp: remove_rcv_def)
next
  case (Cons r rs2)
  obtain w v where r: "rs = (w, v) # rs2" using Cons by (cases r) auto
  note h' = h [unfolded r] and sz = holds_size [OF h]
  note len = length_bounds [OF h']
  have wl: "w \<in> lost rs" and wmin: "\<And>y. y \<in> lost rs \<Longrightarrow> w \<le> y" using sz(4) first_least [of w v rs2] r by auto
  then have off: "seqoff (sn w) (sn x) = Some (x - w)" using close by (intro seqoff_sn) auto
  have near: "x - w < m_iSeqNoTH" using close wl by fastforce
  consider (before) "x < w" | (start) "w \<le> x" "x \<in> starts rs" | (behind) "w < x" "x \<notin> starts rs"
    using r by fastforce
  then show ?thesis
  proof cases
    case before
    then have "x \<notin> lost rs" using wmin by fastforce
    with before h off holds_head [OF h'] len show ?thesis by (auto simp: remove_rcv_def)
  next
    case start
    then obtain d where "(x, d) \<in> set rs" by (auto simp: starts_def)
    then obtain xs ys where rs: "rs = xs @ (x, d) # ys" by (metis split_list)
    have "x \<in> lost rs" using sz(4) rs by auto
    moreover obtain l' rs' where l': "do { l \<leftarrow> remove_first (pos (m_iSize l) k x) l; drop_one l } = Some (True, l')" "m_iSize l' = m_iSize l" "holds_at k l' rs'" "lost rs' = lost rs - {x}"
      by (rule loses_removed [OF remove_first_loses [OF h [unfolded rs], folded rs] len(1) order_trans [OF len(2) sz(2)]])
    moreover from l'(1) have "remove_rcv (sn x) l = Some (True, l')"
      using holds_links(3) [OF h [unfolded rs]] by (simp add: remove_reads [OF h' start(1) near] Let_def)
    ultimately show ?thesis by auto
  next
    case behind
    then show ?thesis using remove_behind [OF h'] close r by blast
  qed
qed

end
