(* ===== verification/LossInterface.thy ===== *)
theory LossInterface
  imports Prelude
begin

text \<open>
  The interface of a collection of lost numbers: an implementation with operations that may fail, and a reference whose
  operations are total, related step by step.  Both loss lists of SRT implement it, each against a set of numbers with
  its own operations and its own contract.
\<close>

fun run :: "('l \<Rightarrow> 'op \<Rightarrow> ('l \<times> 'ans) option) \<Rightarrow> 'l \<Rightarrow> 'op list \<Rightarrow> ('l \<times> 'ans list) option" where
  "run step l [] = Some (l, [])"
| "run step l (oper # ops) = do { (l, a) \<leftarrow> step l oper; (l, as) \<leftarrow> run step l ops; Some (l, a # as) }"

fun spec_run :: "('s \<Rightarrow> 'op \<Rightarrow> 's \<times> 'ans) \<Rightarrow> 's \<Rightarrow> 'op list \<Rightarrow> 's \<times> 'ans list" where
  "spec_run spec S [] = (S, [])"
| "spec_run spec S (oper # ops) = (let (S, a) = spec S oper; (S, as) = spec_run spec S ops in (S, a # as))"

fun in_contract :: "('s \<Rightarrow> 'op \<Rightarrow> bool) \<Rightarrow> ('s \<Rightarrow> 'op \<Rightarrow> 's \<times> 'ans) \<Rightarrow> 's \<Rightarrow> 'op list \<Rightarrow> bool" where
  "in_contract allowed spec S [] \<longleftrightarrow> True"
| "in_contract allowed spec S (oper # ops) \<longleftrightarrow> allowed S oper \<and> in_contract allowed spec (fst (spec S oper)) ops"

locale loss_collection =
  fixes represents :: "'s \<Rightarrow> 'l \<Rightarrow> bool"
    and allowed :: "'s \<Rightarrow> 'op \<Rightarrow> bool"
    and spec :: "'s \<Rightarrow> 'op \<Rightarrow> 's \<times> 'ans"
    and step :: "'l \<Rightarrow> 'op \<Rightarrow> ('l \<times> 'ans) option"
  assumes step_refines: "represents S l \<Longrightarrow> allowed S oper \<Longrightarrow>
    \<exists>l'. step l oper = Some (l', snd (spec S oper)) \<and> represents (fst (spec S oper)) l'"
begin

lemma run_refines:
  "represents S l \<Longrightarrow> in_contract allowed spec S ops \<Longrightarrow>
    \<exists>l'. run step l ops = Some (l', snd (spec_run spec S ops)) \<and> represents (fst (spec_run spec S ops)) l'"
proof (induction ops arbitrary: S l)
  case (Cons oper ops)
  obtain l1 where "step l oper = Some (l1, snd (spec S oper))" "represents (fst (spec S oper)) l1"
    using step_refines [OF Cons.prems(1), of oper] Cons.prems(2) by auto
  moreover from Cons.IH [OF this(2)] Cons.prems obtain l2 where
    "run step l1 ops = Some (l2, snd (spec_run spec (fst (spec S oper)) ops))"
    "represents (fst (spec_run spec (fst (spec S oper)) ops)) l2" by auto
  ultimately show ?case by (auto simp: split_def Let_def)
qed simp

end

end
