(* ===== verification/RcvLossProps.thy ===== *)
theory RcvLossProps
  imports RcvLossRemove LossInterface
begin

text \<open>
  The receiver's loss list implements a set of lost sequence numbers: queries, the interface and its interpretation, and
  the removal of a whole range, which misses a number.
\<close>

section \<open>Queries\<close>

lemma node_meets_sn:
  assumes "lo \<le> hi" "a \<le> b" "\<bar>lo - a\<bar> < m_iSeqNoTH" "\<bar>lo - b\<bar> < m_iSeqNoTH" "\<bar>hi - a\<bar> < m_iSeqNoTH"
  shows "node_meets (sn a) (sn b) \<lparr>seqstart = sn lo, seqend = seq_end lo hi, inext = x, iprior = y\<rparr> = Some (lo \<le> b \<and> a \<le> hi)"
proof -
  obtain c1 where "seqcmp (sn lo) (sn a) = Some c1" "c1 < 0 \<longleftrightarrow> lo < a" "c1 = 0 \<longleftrightarrow> lo = a" "c1 > 0 \<longleftrightarrow> lo > a"
    using seqcmp_sn [OF assms(3)] by metis
  moreover obtain c2 where "seqcmp (sn lo) (sn b) = Some c2" "c2 \<le> 0 \<longleftrightarrow> lo \<le> b"
    using seqcmp_sn [OF assms(4)] by (metis not_le)
  moreover obtain c3 where "seqcmp (sn hi) (sn a) = Some c3" "c3 \<ge> 0 \<longleftrightarrow> hi \<ge> a"
    using seqcmp_sn [OF assms(5)] by (metis not_le)
  ultimately show ?thesis using assms(1,2) by (auto simp: node_meets_def seq_end_def)
qed

lemma find_seg:
  assumes "0 < N" "int (length A) = N" "seg (pos N k) A pr rs (-1)" "length rs \<le> fuel" "sorted_ranges rs" "a \<le> b"
    "\<forall>y\<in>lost rs. \<bar>y - a\<bar> < m_iSeqNoTH \<and> \<bar>y - b\<bar> < m_iSeqNoTH"
  shows "find_from fuel A (sn a) (sn b) (head_pos (pos N k) rs (-1)) = Some (lost rs \<inter> {a..b} \<noteq> {})"
  using assms(3-5,7)
proof (induction rs arbitrary: pr fuel)
  case Nil
  then show ?case by (cases fuel) simp_all
next
  case (Cons r rs)
  obtain lo hi where r: "r = (lo, hi)" by (cases r)
  obtain f where f: "fuel = Suc f" using Cons.prems(2) by (cases fuel) auto
  have lh: "lo \<le> hi" "lo \<in> lost (r # rs)" "hi \<in> lost (r # rs)" using Cons.prems(3) r by auto
  have "node_meets (sn a) (sn b) (A ! nat (pos N k lo)) = Some (lo \<le> b \<and> a \<le> hi)"
    using Cons.prems(1,4) lh r node_meets_sn [OF lh(1) assms(6)] by simp
  moreover have "lost (r # rs) \<inter> {a..b} \<noteq> {} \<longleftrightarrow> (lo \<le> b \<and> a \<le> hi) \<or> lost rs \<inter> {a..b} \<noteq> {}"
  proof -
    have "lo \<le> b \<and> a \<le> hi \<Longrightarrow> max lo a \<in> {lo..hi} \<inter> {a..b}" using lh(1) assms(6) by auto
    moreover have "lo \<le> b \<and> a \<le> hi" if "z \<in> {lo..hi} \<inter> {a..b}" for z using that by auto
    ultimately have "{lo..hi} \<inter> {a..b} \<noteq> {} \<longleftrightarrow> lo \<le> b \<and> a \<le> hi" by blast
    then show ?thesis by (simp only: r lost_simps Int_Un_distrib2 Un_empty) blast
  qed
  moreover have "find_from f A (sn a) (sn b) (head_pos (pos N k) rs (-1)) = Some (lost rs \<inter> {a..b} \<noteq> {})"
    using Cons.prems r f by (intro Cons.IH [of "pos N k lo"]) auto
  ultimately show ?case
    using Cons.prems(1) assms(1,2) r f pos_not_none [of N k lo] by (auto simp: node_at_pos)
qed

lemma length_ranges: "sorted_ranges rs \<Longrightarrow> int (length rs) \<le> total_length rs"
  by (induction rs) auto

lemma ranges_fit:
  assumes h: "holds_at k l rs"
  shows "length rs \<le> length (m_caSeq l)"
proof (cases rs)
  case (Cons r rs2)
  then obtain w v where "rs = (w, v) # rs2" by (cases r) auto
  then show ?thesis
    using length_bounds [of k l w v rs2] h length_ranges [OF holds_size(4) [OF h]] holds_size(3,7) [OF h] by simp
qed simp

lemma find_holds:
  assumes h: "holds_at k l rs" and "a \<le> b" "\<forall>y\<in>lost rs. \<bar>y - a\<bar> < m_iSeqNoTH \<and> \<bar>y - b\<bar> < m_iSeqNoTH"
  shows "find_rcv (sn a) (sn b) l = Some (lost rs \<inter> {a..b} \<noteq> {})"
proof (cases rs)
  case Nil
  then show ?thesis using holds_size(6) [OF h] by (simp add: find_rcv_def)
next
  case (Cons r rs2)
  obtain w v where r: "r = (w, v)" by (cases r)
  note sz = holds_size [OF h] and len = length_bounds [OF h [unfolded Cons r]]
  show ?thesis
    using ranges_fit [OF h] find_seg [OF sz(1,3) _ _ sz(4) assms(2,3), of k "-1"] h len(1) by (simp add: find_rcv_def holds_at_def)
qed

lemma first_holds:
  assumes h: "holds_at k l rs"
  shows "getFirstLostSeq l = Some (if lost rs = {} then -1 else sn (Min (lost rs)))"
proof (cases rs)
  case Nil
  then show ?thesis using holds_size(6) [OF h] by (simp add: getFirstLostSeq_def)
next
  case (Cons r rs2)
  obtain w v where r: "r = (w, v)" by (cases r)
  note h' = h [unfolded Cons r] and sz = holds_size [OF h]
  have "w \<in> lost rs" "finite (lost rs)" using sz(4) Cons r total_length_card [OF sz(4)] by auto
  then have "Min (lost rs) = w" using first_least [of w v rs2] sz(4) Cons r by (intro Min_eqI) auto
  then show ?thesis
    using holds_head [OF h'] length_bounds [OF h'] \<open>w \<in> lost rs\<close> by (auto simp: getFirstLostSeq_def)
qed

section \<open>The interface\<close>

text \<open>
  What the receiver relies on: a collection of lost numbers that grows only at its end and shrinks anywhere.  The
  contract of an operation keeps the numbers within a window that the list has room for; the reference is the set.
\<close>

datatype loss_op = Insert int int | Remove int | Find int int | First | Length

datatype loss_answer = Done | Truth bool | Number int

definition near_all :: "int \<Rightarrow> int set \<Rightarrow> bool" where
  "near_all x S \<longleftrightarrow> (\<forall>y\<in>S. \<bar>x - y\<bar> < m_iSeqNoTH)"

fun allowed :: "int \<Rightarrow> int set \<Rightarrow> loss_op \<Rightarrow> bool" where
  "allowed N S (Insert a b) \<longleftrightarrow> a \<le> b \<and> (\<forall>y\<in>S. y < a) \<and> narrow N (S \<union> {a..b})"
| "allowed N S (Remove x) \<longleftrightarrow> near_all x S"
| "allowed N S (Find a b) \<longleftrightarrow> a \<le> b \<and> near_all a S \<and> near_all b S"
| "allowed N S First \<longleftrightarrow> True"
| "allowed N S Length \<longleftrightarrow> True"

fun set_step :: "int set \<Rightarrow> loss_op \<Rightarrow> int set \<times> loss_answer" where
  "set_step S (Insert a b) = (S \<union> {a..b}, Done)"
| "set_step S (Remove x) = (S - {x}, Truth (x \<in> S))"
| "set_step S (Find a b) = (S, Truth (S \<inter> {a..b} \<noteq> {}))"
| "set_step S First = (S, Number (if S = {} then -1 else sn (Min S)))"
| "set_step S Length = (S, Number (int (card S)))"

fun rcv_step :: "rcv_loss \<Rightarrow> loss_op \<Rightarrow> (rcv_loss \<times> loss_answer) option" where
  "rcv_step l (Insert a b) = do { l \<leftarrow> insert_rcv (sn a) (sn b) l; Some (l, Done) }"
| "rcv_step l (Remove x) = do { (r, l) \<leftarrow> remove_rcv (sn x) l; Some (l, Truth r) }"
| "rcv_step l (Find a b) = do { r \<leftarrow> find_rcv (sn a) (sn b) l; Some (l, Truth r) }"
| "rcv_step l First = do { x \<leftarrow> getFirstLostSeq l; Some (l, Number x) }"
| "rcv_step l Length = Some (l, Number (getLossLength l))"

definition rcv_represents :: "int \<Rightarrow> int set \<Rightarrow> rcv_loss \<Rightarrow> bool" where
  "rcv_represents N S l \<longleftrightarrow> m_iSize l = N \<and> (\<exists>k rs. holds_at k l rs \<and> lost rs = S)"

lemma insert_represents:
  assumes "rcv_represents N S l" "allowed N S (Insert a b)"
  shows "\<exists>l'. insert_rcv (sn a) (sn b) l = Some l' \<and> rcv_represents N (S \<union> {a..b}) l'"
proof -
  obtain k rs where h: "holds_at k l rs" "lost rs = S" "m_iSize l = N" using assms(1) by (auto simp: rcv_represents_def)
  show ?thesis
  proof (cases rs rule: rev_cases)
    case Nil
    have "a \<in> S \<union> {a..b}" "b \<in> S \<union> {a..b}" "narrow N (S \<union> {a..b})" using assms(2) by auto
    then have "\<bar>b - a\<bar> < N" by (simp only: narrow_def)
    with assms(2) insert_into_empty [of k l a b] h Nil obtain l' where
      "insert_rcv (sn a) (sn b) l = Some l'" "m_iSize l' = N" "holds_at (- a) l' [(a, b)]" by auto
    then show ?thesis using h(2) Nil by (force simp: rcv_represents_def)
  next
    case (snoc xs r)
    obtain c d where r: "r = (c, d)" by (cases r)
    have "d \<in> S" using holds_size(4) [OF h(1)] h(2) snoc r by auto
    with assms(2) insert_behind [of k l xs c d a b] h snoc r show ?thesis by (fastforce simp: rcv_represents_def)
  qed
qed

interpretation rcv: loss_collection "rcv_represents N" "allowed N" set_step rcv_step for N
proof
  fix S l oper
  assume r: "rcv_represents N S l" and ok: "allowed N S oper"
  then obtain k rs where h: "holds_at k l rs" "lost rs = S" "m_iSize l = N" by (auto simp: rcv_represents_def)
  show "\<exists>l'. rcv_step l oper = Some (l', snd (set_step S oper)) \<and> rcv_represents N (fst (set_step S oper)) l'"
  proof (cases oper)
    case (Insert a b)
    with insert_represents [OF r, of a b] ok show ?thesis by auto
  next
    case (Remove x)
    with remove_holds [OF h(1), of x] ok h show ?thesis by (fastforce simp: near_all_def rcv_represents_def)
  next
    case (Find a b)
    with find_holds [OF h(1), of a b] ok h r show ?thesis by (auto simp: near_all_def abs_minus_commute)
  next
    case First
    with first_holds [OF h(1)] h r show ?thesis by simp
  next
    case Length
    then show ?thesis using holds_size(4,7) [OF h(1)] total_length_card [of rs] h r by (simp add: getLossLength_def)
  qed
qed

lemma new_represents:
  assumes "0 < n" "int n \<le> m_iSeqNoTH"
  shows "rcv_represents (int n) {} (CRcvLossList junk n)"
proof -
  have "holds_at 0 (CRcvLossList junk n) []"
    using assms by (simp add: holds_at_def CRcvLossList_def rest_empty_def empty_node_def narrow_def)
  moreover have "m_iSize (CRcvLossList junk n) = int n" by (simp add: CRcvLossList_def)
  ultimately show ?thesis unfolding rcv_represents_def using lost_simps(1) by blast
qed

lemma represents_range: "a \<le> b \<Longrightarrow> narrow 16 {a..b} \<Longrightarrow> \<exists>l. rcv_represents 16 {a..b} l"
  using insert_represents [OF new_represents [of 16], of a b] by auto

section \<open>Removal of a range\<close>

lemma remove_represents:
  assumes "rcv_represents N S l" "near_all x S"
  shows "\<exists>l'. remove_rcv (sn x) l = Some (x \<in> S, l') \<and> rcv_represents N (S - {x}) l'"
  using rcv.step_refines [OF assms(1), of "Remove x"] assms(2) by (auto split: bind_splits)

lemma remove_loop_removes:
  "rcv_represents N S l \<Longrightarrow> sn a + int n \<le> m_iMaxSeqNo \<Longrightarrow> \<forall>x\<in>{a..<a + int n}. near_all x S \<Longrightarrow>
    \<exists>l'. remove_loop (sn a) (sn a + int n - 1) l = Some l' \<and> rcv_represents N (S - {a..<a + int n}) l'"
proof (induction n arbitrary: a S l)
  case 0
  then show ?case by (simp add: remove_loop.simps)
next
  case (Suc n)
  obtain l1 where l1: "remove_rcv (sn a) l = Some (a \<in> S, l1)" "rcv_represents N (S - {a}) l1"
    using remove_represents [OF Suc.prems(1), of a] Suc.prems(3) by auto
  have s: "sn (a + 1) = sn a + 1" using sn_shift(1) [of 1 a] Suc.prems(2) by simp
  have "\<forall>x\<in>{a + 1..<a + 1 + int n}. near_all x (S - {a})" using Suc.prems(3) by (auto simp: near_all_def)
  then obtain l2 where l2: "remove_loop (sn a + 1) (sn a + int (Suc n) - 1) l1 = Some l2" "rcv_represents N (S - {a} - {a + 1..<a + 1 + int n}) l2"
    using Suc.IH [OF l1(2), of "a + 1"] Suc.prems(2) s by (auto simp: algebra_simps)
  have "int32 (sn a + 1) = Some (sn a + 1)" using Suc.prems(2) sn_range [of a] by (intro int32_in) linarith+
  moreover have "S - {a} - {a + 1..<a + 1 + int n} = S - {a..<a + int (Suc n)}" by auto
  ultimately show ?case using l1(1) l2 by (subst remove_loop.simps) simp
qed

lemma remove_loop_to_max: "i \<le> m_iMaxSeqNo \<Longrightarrow> remove_loop i m_iMaxSeqNo l = None"
proof (induction i m_iMaxSeqNo l rule: remove_loop.induct)
  case (1 i l)
  then show ?case
    by (subst remove_loop.simps) (auto simp: int32_def split: bind_splits)
qed

section \<open>The loss report\<close>

text \<open>
  The format of a loss report: a number alone is itself, a number with the sign bit set begins a range that the next one
  ends.
\<close>

fun decode_report :: "int list \<Rightarrow> (int \<times> int) list option" where
  "decode_report [] = Some []"
| "decode_report (x # xs) =
    (if x < 0 then case xs of [] \<Rightarrow> None | y # ys \<Rightarrow> map_option ((#) (x + 0x80000000, y)) (decode_report ys)
     else map_option ((#) (x, x)) (decode_report xs))"

definition encode_range :: "int \<times> int \<Rightarrow> int list" where
  "encode_range = (\<lambda>(lo, hi). if lo = hi then [sn lo] else [range_first (sn lo), sn hi])"

lemma sn_bit: "\<not> bit (word_of_int (sn a) :: 32 word) 31"
proof -
  have "0 \<le> sn a" "sn a < 0x80000000" by (rule sn_range)+
  then have "\<not> bit (sn a) 31" by (simp add: bit_iff_odd)
  then show ?thesis by (simp add: bit_word_of_int_iff)
qed

lemma range_first_sn: "range_first (sn a) = sn a - 0x80000000"
proof -
  have s: "0 \<le> sn a" "sn a < 0x80000000" by (rule sn_range)+
  have "w AND 2 ^ 31 = 0" if "\<not> bit w 31" for w :: "32 word"
    by (rule bit_word_eqI, unfold bit_and_iff bit_exp_iff) (use that in auto)
  from this [OF sn_bit] have "(word_of_int (sn a) :: 32 word) AND 0x80000000 = 0" by simp
  then have "(word_of_int (sn a) :: 32 word) OR 0x80000000 = word_of_int (sn a) + 0x80000000"
    by (simp add: disjunctive_add_eq_or)
  also have "\<dots> = word_of_int (sn a - 0x80000000)" by (simp add: of_int_diff)
  finally have "range_first (sn a) = sint (word_of_int (sn a - 0x80000000) :: 32 word)" by (simp only: range_first_def)
  moreover have "signed_take_bit (LENGTH(32) - 1) (sn a - 0x80000000) = sn a - 0x80000000"
    using s by (intro signed_take_bit_int_eq_self) simp_all
  ultimately show ?thesis by (simp only: sint_sbintrunc')
qed

lemma decode_encode:
  "decode_report (concat (map encode_range rs)) = Some (map (\<lambda>(lo, hi). (sn lo, sn hi)) rs)"
proof (induction rs)
  case (Cons r rs)
  obtain lo hi where r: "r = (lo, hi)" by (cases r)
  have "range_first (sn lo) < 0" using sn_range(2) [of lo] by (simp add: range_first_sn)
  with Cons show ?case by (simp add: r encode_range_def range_first_sn sn_range(4))
qed simp

lemma loss_array_seg:
  assumes "0 < N" "int (length A) = N" "seg (pos N k) A pr rs (-1)" "length rs \<le> fuel" "int (length arr) \<le> limit"
  shows "\<exists>m \<le> length rs. loss_array_from fuel A limit (head_pos (pos N k) rs (-1)) arr = Some (arr @ concat (map encode_range (take m rs)))
    \<and> int (length (arr @ concat (map encode_range (take m rs)))) \<le> limit
    \<and> (m < length rs \<longrightarrow> limit - 1 \<le> int (length (arr @ concat (map encode_range (take m rs)))))"
  using assms(3-)
proof (induction rs arbitrary: pr fuel arr)
  case Nil
  then show ?case by (cases fuel) simp_all
next
  case (Cons r rs)
  obtain lo hi where r: "r = (lo, hi)" by (cases r)
  obtain f where f: "fuel = Suc f" using Cons.prems(2) by (cases fuel) auto
  show ?case
  proof (cases "int (length arr) < limit - 1")
    case True
    have lim: "int (length (arr @ encode_range r)) \<le> limit" using True by (simp add: r encode_range_def)
    have "seg (pos N k) A (pos N k lo) rs (-1)" using Cons.prems(1) r by simp
    from Cons.IH [OF this _ lim, of f] Cons.prems(2) f obtain m where m: "m \<le> length rs"
      "loss_array_from f A limit (head_pos (pos N k) rs (-1)) (arr @ encode_range r) = Some ((arr @ encode_range r) @ concat (map encode_range (take m rs)))"
      "int (length ((arr @ encode_range r) @ concat (map encode_range (take m rs)))) \<le> limit"
      "m < length rs \<longrightarrow> limit - 1 \<le> int (length ((arr @ encode_range r) @ concat (map encode_range (take m rs))))" by auto
    have "loss_array_from fuel A limit (head_pos (pos N k) (r # rs) (-1)) arr = loss_array_from f A limit (head_pos (pos N k) rs (-1)) (arr @ encode_range r)"
      using True Cons.prems(1) assms(1,2) pos_not_none [of N k lo] by (simp add: r f node_at_pos encode_range_def seq_end_def)
    with m show ?thesis by (intro exI [of _ "Suc m"]) simp
  next
    case False
    then show ?thesis using Cons.prems(3) f by (intro exI [of _ 0]) simp
  qed
qed

section \<open>The properties\<close>

text \<open>
  C23: the receiver's loss list is a set of lost numbers: after any sequence of insertions, removals and queries within
  the contract - insertions behind all that is lost, everything within a window the size of the array, queried numbers
  less than \<open>m_iSeqNoTH\<close> away - every answer is that of the set, across the wrap-around of the sequence numbers,
  whatever the uninitialised links held; no access leaves the array, nothing overflows and every loop ends.
\<close>

theorem loss_list_is_a_set:
  assumes "0 < n" "int n \<le> m_iSeqNoTH" "in_contract (allowed (int n)) set_step {} ops"
  shows "\<exists>l'. run rcv_step (CRcvLossList junk n) ops = Some (l', snd (spec_run set_step {} ops))"
  using rcv.run_refines [OF new_represents [OF assms(1,2)] assms(3)] by blast

theorem loss_list_is_a_set_witness:
  "\<exists>l'. run rcv_step (CRcvLossList (\<lambda>i. (7, 9)) 16)
      [Insert 0x7FFFFFFE 0x80000003, Remove 0x80000000, Remove 0x80000000, Find 0x80000000 0x80000000, Find 0x80000000 0x80000001] =
    Some (l', [Done, Truth True, Truth False, Truth False, Truth True])"
proof -
  let ?ops = "[Insert 0x7FFFFFFE 0x80000003, Remove 0x80000000, Remove 0x80000000, Find 0x80000000 0x80000000, Find 0x80000000 0x80000001]"
  have "in_contract (allowed (int 16)) set_step {} ?ops" by (auto simp: narrow_def near_all_def)
  moreover have "0x80000001 \<in> ({0x7FFFFFFE..0x80000003} - {0x80000000}) \<inter> {0x80000000..0x80000001 :: int}" by simp
  then have "({0x7FFFFFFE..0x80000003} - {0x80000000}) \<inter> {0x80000000..0x80000001 :: int} \<noteq> {}" by (rule ex_in_conv [THEN iffD1, OF exI])
  then have "snd (spec_run set_step {} ?ops) = [Done, Truth True, Truth False, Truth False, Truth True]" by simp
  ultimately show ?thesis using loss_list_is_a_set [of 16 ?ops "\<lambda>i. (7, 9)"] by (simp del: run.simps)
qed

text \<open>
  C25: the removal of a range that wraps around removes every number but the last one before the wrap-around, which stays
  lost; a range that ends at \<open>m_iMaxSeqNo\<close> makes the loop counter overflow.  Every other range is removed.
\<close>

theorem range_removal_misses_last:
  assumes r: "rcv_represents N S l" and ab: "a \<le> b" "b - a \<le> m_iMaxSeqNo" and near: "\<forall>x\<in>{a..b}. near_all x S"
  shows "if sn b = m_iMaxSeqNo then remove_range (sn a) (sn b) l = None
    else \<exists>l'. remove_range (sn a) (sn b) l = Some (True, l') \<and> rcv_represents N (S - {x \<in> {a..b}. sn x \<noteq> m_iMaxSeqNo}) l'"
proof (cases "sn b = m_iMaxSeqNo")
  case True
  then show ?thesis using remove_loop_to_max [of "sn a" l] sn_range(5) [of a] by (simp add: remove_range_def)
next
  case False
  then have b: "sn b < m_iMaxSeqNo" using sn_range(5) [of b] by linarith
  have "\<bar>b - a\<bar> < 0x80000000" using ab by simp
  then show ?thesis
  proof (cases rule: sn_diff)
    case 1
    then have s: "sn a \<le> sn b" "sn a + int (nat (b - a + 1)) \<le> m_iMaxSeqNo" using ab b by simp_all
    have e: "a + int (nat (b - a + 1)) = b + 1" "sn a + int (nat (b - a + 1)) - 1 = sn b" using ab 1 by simp_all
    have "sn x \<noteq> m_iMaxSeqNo" if "a \<le> x" "x \<le> b" for x
      using sn_shift(1) [of "x - a" a] that 1 b ab by auto
    then have "{x \<in> {a..b}. sn x \<noteq> m_iMaxSeqNo} = {a..<b + 1}" by auto
    with remove_loop_removes [OF r s(2), unfolded e] near s(1) False show ?thesis by (auto simp: remove_range_def)
  next
    case 2
    then show ?thesis using sn_sub [of b a] ab by linarith
  next
    case 3
    then have ba: "sn b < sn a" "b = a + (m_iMaxSeqNo - sn a) + 1 + sn b" using sn_sub [of b a] ab by linarith+
    define m where "m = a + (m_iMaxSeqNo - sn a)"
    have n: "0 \<le> sn b" "0 \<le> m_iMaxSeqNo - sn a" using sn_range by auto
    have s1: "sn a + int (nat (m_iMaxSeqNo - sn a)) \<le> m_iMaxSeqNo" "a + int (nat (m_iMaxSeqNo - sn a)) = m"
        "sn a + int (nat (m_iMaxSeqNo - sn a)) - 1 = m_iMaxSeqNo - 1" using n by (simp_all add: m_def)
    have "sn (a + (0x80000000 - sn a)) = 0" using sn_shift(1) [of "0x80000000 - sn a" a] ba(1) n sn_range(2) [of a] by simp
    moreover have "m + 1 = a + (0x80000000 - sn a)" by (simp add: m_def)
    ultimately have sm: "sn (m + 1) = 0" by (simp only:)
    then have s2: "sn (m + 1) + int (nat (sn b + 1)) \<le> m_iMaxSeqNo" "m + 1 + int (nat (sn b + 1)) = b + 1"
        "sn (m + 1) + int (nat (sn b + 1)) - 1 = sn b" using b n ba(2) by (simp_all add: m_def)
    have sub: "near_all x T" if "near_all x S" "T \<subseteq> S" for x T using that by (auto simp: near_all_def)
    have mb: "a \<le> m" "m \<le> b" using n ba by (simp_all add: m_def)
    obtain l1 where l1: "remove_loop (sn a) (m_iMaxSeqNo - 1) l = Some l1" "rcv_represents N (S - {a..<m}) l1"
      using remove_loop_removes [OF r s1(1), unfolded s1] near mb by auto
    obtain l2 where l2: "remove_loop 0 (sn b) l1 = Some l2" "rcv_represents N (S - {a..<m} - {m + 1..<b + 1}) l2"
      using remove_loop_removes [OF l1(2) s2(1), unfolded s2, unfolded sm] near sub mb by auto
    have "sn x = m_iMaxSeqNo \<longleftrightarrow> x = m" if "a \<le> x" "x \<le> b" for x
    proof -
      have "sn m = m_iMaxSeqNo" using sn_shift(1) [of "m_iMaxSeqNo - sn a" a] n sn_range(1) [of a] by (simp add: m_def)
      moreover have "\<bar>x - m\<bar> < 0x80000000" using that mb ab by simp
      ultimately show ?thesis using sn_inj [of x m] by simp
    qed
    then have "S - {a..<m} - {m + 1..<b + 1} = S - {x \<in> {a..b}. sn x \<noteq> m_iMaxSeqNo}" using mb by auto
    with l1(1) l2 ba(1) False show ?thesis by (auto simp: remove_range_def)
  qed
qed

theorem range_removal_misses_last_witness:
  "\<exists>l l'. rcv_represents 16 {0x7FFFFFFE..0x80000001} l
    \<and> remove_range 0x7FFFFFFE 1 l = Some (True, l') \<and> rcv_represents 16 {0x7FFFFFFF} l'"
proof -
  let ?a = "0x7FFFFFFE :: int" and ?b = "0x80000001 :: int"
  have "narrow 16 {?a..?b}" by (auto simp: narrow_def)
  from represents_range [OF _ this] obtain l where l: "rcv_represents 16 {?a..?b} l" by auto
  have s: "sn ?a = 0x7FFFFFFE" "sn ?b = 1" "sn 0x7FFFFFFF = 0x7FFFFFFF" by (simp_all add: sn_def)
  have "\<forall>x\<in>{?a..?b}. near_all x {?a..?b}" by (auto simp: near_all_def)
  from range_removal_misses_last [OF l _ _ this] s obtain l' where
    "remove_range 0x7FFFFFFE 1 l = Some (True, l')" "rcv_represents 16 ({?a..?b} - {x \<in> {?a..?b}. sn x \<noteq> m_iMaxSeqNo}) l'" by auto
  moreover have "sn x = m_iMaxSeqNo \<longleftrightarrow> x = 0x7FFFFFFF" if "?a \<le> x" "x \<le> ?b" for x
    using sn_inj [of x "0x7FFFFFFF"] s(3) that by auto
  then have "{?a..?b} - {x \<in> {?a..?b}. sn x \<noteq> m_iMaxSeqNo} = {0x7FFFFFFF}" by auto
  ultimately show ?thesis using l by auto
qed

text \<open>
  C24: the loss report has at most \<open>limit\<close> entries and decodes to the first ranges of what is lost; ranges are left out only
  when the report is full but for one entry.
\<close>

theorem loss_report_round_trip:
  assumes "rcv_represents N S l" "0 \<le> limit"
  shows "\<exists>arr rs m. getLossArray limit l = Some arr \<and> int (length arr) \<le> limit \<and> sorted_ranges rs \<and> lost rs = S
    \<and> decode_report arr = Some (map (\<lambda>(lo, hi). (sn lo, sn hi)) (take m rs)) \<and> (m < length rs \<longrightarrow> limit - 1 \<le> int (length arr))"
proof -
  obtain k rs where h: "holds_at k l rs" "lost rs = S" using assms(1) by (auto simp: rcv_represents_def)
  note sz = holds_size [OF h(1)]
  from loss_array_seg [OF sz(1,3) _ ranges_fit [OF h(1)], of k "-1" "[]" limit] h(1) assms(2) obtain m where
    "getLossArray limit l = Some (concat (map encode_range (take m rs)))" "int (length (concat (map encode_range (take m rs)))) \<le> limit"
    "m < length rs \<longrightarrow> limit - 1 \<le> int (length (concat (map encode_range (take m rs))))"
    by (auto simp: getLossArray_def holds_at_def)
  then show ?thesis using h(2) sz(4) decode_encode [of "take m rs"] by blast
qed

theorem loss_report_round_trip_witness:
  "\<exists>l arr rs m. rcv_represents 16 {5..8} l \<and> getLossArray 10 l = Some arr \<and> int (length arr) \<le> 10 \<and> sorted_ranges rs \<and> lost rs = {5..8}
    \<and> decode_report arr = Some (map (\<lambda>(lo, hi). (sn lo, sn hi)) (take m rs))"
proof -
  have "narrow 16 {5..8}" by (auto simp: narrow_def)
  from represents_range [OF _ this] obtain l where "rcv_represents 16 {5..8} l" by auto
  moreover from loss_report_round_trip [OF this, of 10] obtain arr rs m where
    "getLossArray 10 l = Some arr" "int (length arr) \<le> 10" "sorted_ranges rs" "lost rs = {5..8}"
    "decode_report arr = Some (map (\<lambda>(lo, hi). (sn lo, sn hi)) (take m rs))" by auto
  ultimately show ?thesis by blast
qed

end
