(* ===== verification/SndLossInv.thy ===== *)
theory SndLossInv
  imports SndLoss RcvLossProps
begin

text \<open>
  The representation of a list of ranges by the sender's loss list.  While a range is being inserted it may overlap the
  ones behind it, so that the links (\<open>linked\<close>) are kept apart from the order of the ranges.
\<close>

section \<open>Linked nodes\<close>

fun chain :: "(int \<Rightarrow> int) \<Rightarrow> snd_node list \<Rightarrow> ranges \<Rightarrow> int \<Rightarrow> bool" where
  "chain P A [] nx \<longleftrightarrow> True"
| "chain P A ((lo, hi) # rs) nx \<longleftrightarrow>
     A ! nat (P lo) = \<lparr>nseqstart = sn lo, nseqend = seq_end lo hi, ninext = head_pos P rs nx\<rparr> \<and> chain P A rs nx"

lemma chain_append [simp]: "chain P A (rs @ ss) nx \<longleftrightarrow> chain P A rs (head_pos P ss nx) \<and> chain P A ss nx"
  by (induction rs) auto

lemma chain_frame: "\<forall>a\<in>starts rs. nat (P a) \<noteq> p \<Longrightarrow> chain P (A[p := n]) rs nx = chain P A rs nx"
proof (induction rs)
  case (Cons r rs)
  obtain lo hi where "r = (lo, hi)" by (cases r)
  with Cons show ?case by (simp add: nth_list_update_neq [symmetric])
qed simp

definition vacant :: "snd_node \<Rightarrow> bool" where
  "vacant n \<longleftrightarrow> nseqstart n = -1 \<and> nseqend n = -1"

definition rest_vacant :: "(int \<Rightarrow> int) \<Rightarrow> snd_node list \<Rightarrow> ranges \<Rightarrow> bool" where
  "rest_vacant P A rs \<longleftrightarrow> (\<forall>p < length A. (\<forall>a\<in>starts rs. nat (P a) \<noteq> p) \<longrightarrow> vacant (A ! p))"

text \<open>Up to this size \<open>m_iHead + offset + m_iSize\<close> does not overflow, for every distance the comparison of numbers allows.\<close>

abbreviation (input) m_iMaxSize :: int where "m_iMaxSize \<equiv> 0x20000000"

definition linked :: "int \<Rightarrow> int \<Rightarrow> snd_node list \<Rightarrow> ranges \<Rightarrow> bool" where
  "linked N k A rs \<longleftrightarrow> 0 < N \<and> N \<le> m_iMaxSize \<and> int (length A) = N \<and> distinct (map fst rs) \<and> narrow N (starts rs)
     \<and> chain (pos N k) A rs (-1) \<and> rest_vacant (pos N k) A rs"

abbreviation at_node :: "int \<Rightarrow> int \<Rightarrow> int \<Rightarrow> nat" where
  "at_node N k a \<equiv> nat (pos N k a)"

abbreviation next_of :: "int \<Rightarrow> int \<Rightarrow> ranges \<Rightarrow> int" where
  "next_of N k rs \<equiv> head_pos (pos N k) rs (-1)"

lemma linked_size: "linked N k A rs \<Longrightarrow> 0 < N \<and> N \<le> m_iSeqNoTH \<and> int (length A) = N \<and> N \<le> m_iMaxSize"
  by (simp add: linked_def)

lemma linked_index:
  assumes "linked N k A rs"
  shows "at_node N k a < length A" "pos N k a \<noteq> -1" "0 \<le> pos N k a"
proof -
  have "0 \<le> pos N k a" "pos N k a < N" "int (length A) = N" using pos_range assms by (auto simp: linked_def)
  then show "at_node N k a < length A" "pos N k a \<noteq> -1" "0 \<le> pos N k a" by linarith+
qed

lemma linked_access:
  assumes "linked N k A rs" "length B = length A"
  shows "node_at B (pos N k a) = Some (B ! at_node N k a)" "set_node B (pos N k a) f = Some (B[at_node N k a := f (B ! at_node N k a)])"
  using assms node_at_pos [of N B k a] set_node_pos [of N B k a f] by (auto simp: linked_def)

lemma linked_node:
  assumes "linked N k A (xs @ (c, d) # ys)"
  shows "A ! at_node N k c = \<lparr>nseqstart = sn c, nseqend = seq_end c d, ninext = next_of N k ys\<rparr>"
  using assms by (simp add: linked_def)

lemma linked_frames:
  assumes "linked N k A (xs @ (c, d) # ys)"
  shows "\<forall>u\<in>starts xs \<union> starts ys. at_node N k u \<noteq> at_node N k c"
proof -
  have n: "narrow N (starts (xs @ (c, d) # ys))" and "c \<notin> starts xs \<union> starts ys" using assms by (auto simp: linked_def starts_def)
  then show ?thesis using nat_pos_inj_in [OF n, of _ c k] by auto
qed

text \<open>A number that may become the start of a range.\<close>

definition fresh_start :: "int \<Rightarrow> int \<Rightarrow> ranges \<Rightarrow> bool" where
  "fresh_start N x rs \<longleftrightarrow> x \<notin> starts rs \<and> narrow N (insert x (starts rs))"

lemma fresh_frames: "fresh_start N x rs \<Longrightarrow> \<forall>u\<in>starts rs. at_node N k u \<noteq> at_node N k x"
  unfolding fresh_start_def using nat_pos_inj_in [of N "insert x (starts rs)" _ x k] by auto

lemma fresh_vacant: "linked N k A rs \<Longrightarrow> fresh_start N x rs \<Longrightarrow> vacant (A ! at_node N k x)"
  using fresh_frames [of N x rs k] linked_index(1) by (auto simp: linked_def rest_vacant_def)

lemma vacant_fields: "vacant n \<Longrightarrow> nseqstart n = -1" "vacant n \<Longrightarrow> nseqend n = -1"
  by (simp_all add: vacant_def)

lemma node_eta: "n\<lparr>nseqstart := a, nseqend := b, ninext := c\<rparr> = \<lparr>nseqstart = a, nseqend = b, ninext = c\<rparr>"
  by (cases n) simp

section \<open>Changes of the links\<close>

lemma linked_set_end:
  assumes h: "linked N k A (xs @ (c, d) # ys)"
  shows "linked N k (A[at_node N k c := \<lparr>nseqstart = sn c, nseqend = seq_end c d', ninext = next_of N k ys\<rparr>]) (xs @ (c, d') # ys)"
proof -
  note fr = linked_frames [OF h] and ix = linked_index(1) [OF h, of c]
  show ?thesis
    using h fr ix by (auto simp: linked_def chain_frame rest_vacant_def nth_list_update)
qed

lemma linked_first:
  assumes h: "linked N k A rs" and f: "fresh_start N x rs"
  shows "linked N k (A[at_node N k x := \<lparr>nseqstart = sn x, nseqend = seq_end x y, ninext = next_of N k rs\<rparr>]) ((x, y) # rs)"
proof -
  note fr = fresh_frames [OF f, of k] and ix = linked_index(1) [OF h, of x]
  show ?thesis
    using h f fr ix by (auto simp: linked_def fresh_start_def chain_frame rest_vacant_def nth_list_update starts_def)
qed

lemma linked_after:
  assumes h: "linked N k A (xs @ (c, d) # ys)" and f: "fresh_start N x (xs @ (c, d) # ys)"
  shows "linked N k (A[at_node N k x := \<lparr>nseqstart = sn x, nseqend = seq_end x y, ninext = next_of N k ys\<rparr>,
       at_node N k c := \<lparr>nseqstart = sn c, nseqend = seq_end c d, ninext = pos N k x\<rparr>]) (xs @ (c, d) # (x, y) # ys)"
proof -
  note fr = fresh_frames [OF f, of k] and fc = linked_frames [OF h] and ix = linked_index(1) [OF h]
  have "distinct (map fst (xs @ (c, d) # (x, y) # ys))" "narrow N (starts (xs @ (c, d) # (x, y) # ys))"
    using h f by (auto simp: linked_def fresh_start_def starts_def insert_commute)
  then show ?thesis
    using h fr fc ix by (auto simp: linked_def chain_frame rest_vacant_def nth_list_update)
qed

lemma linked_drop_next:
  assumes h: "linked N k A (xs @ (c, d) # (e, f) # ys)"
  shows "linked N k (A[at_node N k e := \<lparr>nseqstart = -1, nseqend = -1, ninext = nx\<rparr>,
       at_node N k c := \<lparr>nseqstart = sn c, nseqend = seq_end c d', ninext = next_of N k ys\<rparr>]) (xs @ (c, d') # ys)"
proof -
  have fc: "\<forall>u\<in>starts xs \<union> starts ((e, f) # ys). at_node N k u \<noteq> at_node N k c"
    and fe: "\<forall>u\<in>starts (xs @ [(c, d)]) \<union> starts ys. at_node N k u \<noteq> at_node N k e"
    using linked_frames [OF h] linked_frames [of N k A "xs @ [(c, d)]" e f ys] h by simp_all
  have "narrow N (starts (xs @ (c, d') # ys))" using h unfolding linked_def by (auto elim!: narrow_subset)
  then show ?thesis
    using h fc fe linked_index(1) [OF h] by (auto simp: linked_def chain_frame rest_vacant_def nth_list_update vacant_def)
qed

lemma linked_drop_first:
  assumes h: "linked N k A ((c, d) # ys)"
  shows "linked N k (A[at_node N k c := \<lparr>nseqstart = -1, nseqend = -1, ninext = nx\<rparr>]) ys"
proof -
  have fc: "\<forall>u\<in>starts ys. at_node N k u \<noteq> at_node N k c" using linked_frames [of N k A "[]" c d ys] h by simp
  have "narrow N (starts ys)" using h unfolding linked_def by (auto elim!: narrow_subset)
  then show ?thesis
    using h fc linked_index(1) [OF h] by (auto simp: linked_def chain_frame rest_vacant_def nth_list_update vacant_def)
qed

text \<open>The range of a node is cut in two, the rest behind it.\<close>

lemma linked_split:
  assumes h: "linked N k A (xs @ (u, d) # ys)" and f: "fresh_start N (x + 1) (xs @ (u, d) # ys)"
  shows "linked N k (A[at_node N k (x + 1) := \<lparr>nseqstart = sn (x + 1), nseqend = seq_end (x + 1) d, ninext = next_of N k ys\<rparr>,
       at_node N k u := \<lparr>nseqstart = sn u, nseqend = seq_end u x, ninext = pos N k (x + 1)\<rparr>]) (xs @ (u, x) # (x + 1, d) # ys)"
proof -
  have "at_node N k u \<noteq> at_node N k (x + 1)" using fresh_frames [OF f, of k] by auto
  moreover have "fresh_start N (x + 1) (xs @ (u, x) # ys)" using f by (simp add: fresh_start_def)
  ultimately show ?thesis
    using linked_after [OF linked_set_end [OF h, of x], of "x + 1" d] by (simp add: list_update_swap)
qed

section \<open>The representation\<close>

definition links :: "int \<Rightarrow> snd_loss \<Rightarrow> ranges \<Rightarrow> bool" where
  "links k l rs \<longleftrightarrow> linked (s_iSize l) k (s_caSeq l) rs \<and> s_iHead l = next_of (s_iSize l) k rs
     \<and> (s_iLastInsertPos l = -1 \<or> s_iLastInsertPos l \<in> pos (s_iSize l) k ` starts rs)"

definition keeps :: "int \<Rightarrow> snd_loss \<Rightarrow> ranges \<Rightarrow> bool" where
  "keeps k l rs \<longleftrightarrow> links k l rs \<and> sorted_ranges rs \<and> narrow (s_iSize l) (lost rs) \<and> s_iLength l = total_length rs"

lemma total_length_narrow:
  assumes "sorted_ranges rs" "narrow N (lost rs)" "0 < N"
  shows "total_length rs \<le> N"
proof (cases rs)
  case (Cons r rs2)
  obtain w v where r: "rs = (w, v) # rs2" using Cons by (cases r) auto
  then have w: "w \<in> lost rs" using assms(1) by auto
  have "w \<le> y \<and> y < w + N" if "y \<in> lost rs" for y
    using first_least [of w v rs2 y] r that w assms(1,2) unfolding narrow_def by fastforce
  then have "lost rs \<subseteq> {w..<w + N}" by (meson atLeastLessThan_iff subsetI)
  then have "card (lost rs) \<le> card {w..<w + N}" by (intro card_mono) auto
  then show ?thesis using total_length_card [OF assms(1)] assms(3) by simp
qed (use assms(3) in simp)

lemma keeps_facts:
  assumes "keeps k l rs"
  shows "linked (s_iSize l) k (s_caSeq l) rs" "s_iHead l = next_of (s_iSize l) k rs" "sorted_ranges rs" "narrow (s_iSize l) (lost rs)"
    "s_iLength l = total_length rs" "0 < s_iSize l" "s_iSize l \<le> m_iSeqNoTH" "int (length (s_caSeq l)) = s_iSize l"
    "0 \<le> s_iLength l" "s_iLength l \<le> s_iSize l" "s_iLength l = 0 \<longleftrightarrow> rs = []" "s_iSize l \<le> m_iMaxSize"
  using assms total_length_pos [of rs] total_length_narrow [of rs "s_iSize l"] linked_size [of "s_iSize l" k "s_caSeq l" rs]
  by (auto simp: keeps_def links_def)

lemma change_length_in:
  "- 2147483648 \<le> s_iLength l + d \<Longrightarrow> s_iLength l + d < 2147483648 \<Longrightarrow> change_length d l = Some (l\<lparr>s_iLength := s_iLength l + d\<rparr>)"
  by (simp add: change_length_def)

end
