(* ===== verification/SndLossInsert.thy ===== *)
theory SndLossInsert
  imports SndLossInv
begin

text \<open>
  Insertion into the sender's loss list: the new range is placed, then merged with those behind it.
\<close>

section \<open>Coalescing\<close>

lemma absorb_next_sn:
  assumes h: "linked (s_iSize l) k (s_caSeq l) (xs @ (c, d) # (e, f) # ys)"
    and cd: "c < d" "c < e" "e \<le> f" "e \<le> d + 1" and n: "narrow (s_iSize l) ({c..d} \<union> {e..f})"
    and len: "0 \<le> s_iLength l" "s_iLength l \<le> 2 * s_iSize l"
  shows "absorb_next (pos (s_iSize l) k c) (pos (s_iSize l) k e) l =
    Some (l\<lparr>s_iLength := s_iLength l - (min d f - e + 1), s_caSeq := (s_caSeq l)[at_node (s_iSize l) k c :=
      \<lparr>nseqstart = sn c, nseqend = seq_end c (max d f), ninext = pos (s_iSize l) k e\<rparr>]\<rparr>)"
proof -
  let ?N = "s_iSize l"
  have N: "0 < ?N" "?N \<le> m_iSeqNoTH" using linked_size [OF h] by blast+
  have nc: "s_caSeq l ! at_node ?N k c = \<lparr>nseqstart = sn c, nseqend = sn d, ninext = pos ?N k e\<rparr>"
    using linked_node [OF h] cd by (simp add: seq_end_def)
  have ne: "s_caSeq l ! at_node ?N k e = \<lparr>nseqstart = sn e, nseqend = seq_end e f, ninext = next_of ?N k ys\<rparr>"
    using linked_node [of ?N k "s_caSeq l" "xs @ [(c, d)]" e f ys] h by simp
  note acc = linked_access [OF h refl]
  have mem: "d \<in> {c..d} \<union> {e..f}" "e \<in> {c..d} \<union> {e..f}" "f \<in> {c..d} \<union> {e..f}" using cd by auto
  then have "\<bar>f - d\<bar> < ?N" "\<bar>d - e\<bar> < ?N" "\<bar>f - e\<bar> < ?N" using n unfolding narrow_def by blast+
  then have cl: "\<bar>f - d\<bar> < m_iSeqNoTH" "\<bar>d - e\<bar> < m_iSeqNoTH" "\<bar>f - e\<bar> < ?N" "\<bar>d - e\<bar> < ?N" using N by linarith+
  obtain c1 where c1: "seqcmp (sn f) (sn d) = Some c1" "c1 > 0 \<longleftrightarrow> f > d" using seqcmp_sn [OF cl(1)] by metis
  obtain c2 where c2: "seqcmp (sn d) (sn e) = Some c2" "c2 \<ge> 0 \<longleftrightarrow> d \<ge> e" using seqcmp_sn [OF cl(2)] by (metis not_le)
  have sl: "seqlen (sn e) (sn d) = Some (d - e + 1)" if "e \<le> d" using that cl by (intro seqlen_sn) linarith+
  have sl2: "seqlen (sn e) (sn f) = Some (f - e + 1)" using cd cl N by (intro seqlen_sn) linarith+
  have adj: "sn e = sn (d + 1) \<longleftrightarrow> e = d + 1" using cl(2) by (intro sn_inj) linarith
  have ch: "change_length (- x) l = Some (l\<lparr>s_iLength := s_iLength l - x\<rparr>)" if "0 \<le> x" "x \<le> ?N" for x
    using change_length_in [of l "- x"] that len N by simp
  have same: "(s_caSeq l)[at_node ?N k c := \<lparr>nseqstart = sn c, nseqend = sn d, ninext = pos ?N k e\<rparr>] = s_caSeq l"
    using nc by (metis list_update_id)
  consider (longer) "e < f" "d < f" | (inner) "e < f" "f \<le> d" | (single) "e = f" "e = d + 1" | (inside) "e = f" "e \<le> d"
    using cd by linarith
  then show ?thesis
  proof cases
    case longer
    have m: "min d f = d" "max d f = f" using longer by simp_all
    show ?thesis
    proof (cases "e \<le> d")
      case True
      then have "change_length (- (d - e + 1)) l = Some (l\<lparr>s_iLength := s_iLength l - (d - e + 1)\<rparr>)" using cl by (intro ch) auto
      with True longer cd c1 c2 sl show ?thesis by (simp add: absorb_next_def acc nc ne seq_end_def m)
    next
      case False
      then have "d - e + 1 = 0" using cd by linarith
      with False longer cd c1 c2 show ?thesis by (simp add: absorb_next_def acc nc ne seq_end_def m)
    qed
  next
    case inner
    then have "change_length (- (f - e + 1)) l = Some (l\<lparr>s_iLength := s_iLength l - (f - e + 1)\<rparr>)" using cl by (intro ch) auto
    with inner cd c1 sl2 show ?thesis by (simp add: absorb_next_def acc nc ne seq_end_def same)
  next
    case single
    then have "seq_end e f = -1" "sn (d + 1) = sn e" "seq_end c (max d f) = sn e" "min d f - e + 1 = 0" using cd by (auto simp: seq_end_def)
    then show ?thesis by (simp add: absorb_next_def acc nc ne seq_sn)
  next
    case inside
    then have "seq_end e f = -1" "sn e \<noteq> sn (d + 1)" "seq_end c (max d f) = sn d" "min d f - e + 1 = 1" using cd adj by (auto simp: seq_end_def)
    then show ?thesis using ch [of 1] N by (simp add: absorb_next_def acc nc ne seq_sn same)
  qed
qed

lemma merge_next_links:
  assumes h: "links k l (xs @ (c, d) # (e, f) # ys)" and last: "s_iLastInsertPos l = pos (s_iSize l) k c"
    and cd: "c < d" "c < e" "e \<le> f" "e \<le> d + 1" and n: "narrow (s_iSize l) ({c..d} \<union> {e..f})"
    and len: "0 \<le> s_iLength l" "s_iLength l \<le> 2 * s_iSize l"
  shows "\<exists>l1. merge_next (pos (s_iSize l) k c) (pos (s_iSize l) k e) l = Some l1 \<and> links k l1 (xs @ (c, max d f) # ys)
    \<and> s_iLength l1 = s_iLength l - (min d f - e + 1) \<and> s_iSize l1 = s_iSize l \<and> s_iLastInsertPos l1 = pos (s_iSize l) k c"
proof -
  let ?N = "s_iSize l"
  have lk: "linked ?N k (s_caSeq l) (xs @ (c, d) # (e, f) # ys)" and hd: "s_iHead l = next_of ?N k (xs @ (c, d) # (e, f) # ys)"
    using h by (simp_all add: links_def)
  have ne: "s_caSeq l ! at_node ?N k e = \<lparr>nseqstart = sn e, nseqend = seq_end e f, ninext = next_of ?N k ys\<rparr>"
    using linked_node [of ?N k "s_caSeq l" "xs @ [(c, d)]" e f ys] lk by simp
  have "at_node ?N k e \<noteq> at_node ?N k c" using linked_frames [OF lk] by simp
  note step = absorb_next_sn [OF lk cd n len] and acc = linked_access [OF lk] and ix = linked_index(1) [OF lk]
  have "merge_next (pos ?N k c) (pos ?N k e) l = Some (l\<lparr>s_iLength := s_iLength l - (min d f - e + 1),
      s_caSeq := (s_caSeq l)[at_node ?N k e := \<lparr>nseqstart = -1, nseqend = -1, ninext = next_of ?N k ys\<rparr>,
        at_node ?N k c := \<lparr>nseqstart = sn c, nseqend = seq_end c (max d f), ninext = next_of ?N k ys\<rparr>]\<rparr>)"
    using \<open>at_node ?N k e \<noteq> at_node ?N k c\<close> ix by (simp add: merge_next_def step acc ne list_update_swap)
  then show ?thesis
    using linked_drop_next [OF lk] hd last by (auto simp: links_def)
qed

lemma coalesce_loop_links:
  assumes "links k l (xs @ (c, d) # ys)" "s_iLastInsertPos l = pos (s_iSize l) k c" "c \<le> d"
    "sorted_ranges ys" "\<forall>y\<in>starts ys. c < y" "narrow (s_iSize l) ({c..d} \<union> lost ys)"
    "s_iLength l = t + (d - c + 1) + total_length ys" "0 \<le> t" "s_iLength l \<le> 2 * s_iSize l" "length ys < fuel"
  shows "\<exists>l1 d' ys'. coalesce_loop fuel (pos (s_iSize l) k c) l = Some l1 \<and> links k l1 (xs @ (c, d') # ys') \<and> d \<le> d'
    \<and> sorted_ranges ((c, d') # ys') \<and> {c..d'} \<union> lost ys' = {c..d} \<union> lost ys
    \<and> s_iLength l1 = t + (d' - c + 1) + total_length ys' \<and> s_iSize l1 = s_iSize l"
  using assms
proof (induction ys arbitrary: l d fuel)
  case Nil
  then obtain f where f: "fuel = Suc f" by (cases fuel) auto
  have lk: "linked (s_iSize l) k (s_caSeq l) (xs @ [(c, d)])" using Nil.prems(1) by (simp add: links_def)
  have "coalesce_loop fuel (pos (s_iSize l) k c) l = Some l"
    using linked_node [OF lk] by (simp add: f linked_access [OF lk refl])
  then show ?case using Nil.prems by (intro exI [of _ l] exI [of _ d] exI [of _ "[]"]) simp
next
  case (Cons r ys)
  obtain e f where r: "r = (e, f)" by (cases r)
  obtain fu where fu: "fuel = Suc fu" using Cons.prems(10) by (cases fuel) auto
  let ?N = "s_iSize l"
  have lk: "linked ?N k (s_caSeq l) (xs @ (c, d) # (e, f) # ys)" using Cons.prems(1) by (simp add: links_def r)
  have lk': "linked ?N k (s_caSeq l) ((xs @ [(c, d)]) @ (e, f) # ys)" using lk by simp
  have N: "?N \<le> m_iSeqNoTH" using linked_size [OF lk] by blast
  have ef: "e \<le> f" "c < e" "sorted_ranges ys" "\<forall>y\<in>starts ys. f < y" using Cons.prems(4,5) by (auto simp: r starts_def)
  have mem: "d \<in> {c..d} \<union> lost (r # ys)" "e \<in> {c..d} \<union> lost (r # ys)" using Cons.prems(3) ef by (auto simp: r)
  then have "\<bar>e - d\<bar> < ?N" using Cons.prems(6) unfolding narrow_def by blast
  show ?case
  proof (cases "c < d \<and> e \<le> d + 1")
    case False
    then have sep: "d < e" using ef(2) Cons.prems(3) by linarith
    have "coalesce_loop fuel (pos ?N k c) l = Some l"
    proof (cases "c < d")
      case True
      then have "d + 1 < e" using False by linarith
      then have "\<bar>e - (d + 1)\<bar> < m_iSeqNoTH" using \<open>\<bar>e - d\<bar> < ?N\<close> N by linarith
      from seqcmp_sn [OF this] obtain c1 where "seqcmp (sn e) (sn (d + 1)) = Some c1" "c1 > 0" using \<open>d + 1 < e\<close> by metis
      then show ?thesis using True linked_node [OF lk] linked_node [OF lk'] linked_index(2) [OF lk]
        by (simp add: fu linked_access [OF lk refl] seq_end_def seq_sn)
    next
      case False
      then show ?thesis using Cons.prems(3) linked_node [OF lk] by (simp add: fu linked_access [OF lk refl] seq_end_def)
    qed
    moreover have "sorted_ranges ((c, d) # r # ys)" using sep Cons.prems(3,4) by (auto simp: r)
    ultimately show ?thesis using Cons.prems(1,7) by (intro exI [of _ l] exI [of _ d] exI [of _ "r # ys"]) simp
  next
    case True
    have tot: "0 \<le> total_length ys" using total_length_pos [OF ef(3)] by blast
    have nar: "narrow ?N ({c..d} \<union> {e..f})" using Cons.prems(6) by (rule narrow_subset) (auto simp: r)
    have len: "0 \<le> s_iLength l" using Cons.prems(7,8) ef(1) True tot by (simp add: r)
    obtain l1 where l1: "merge_next (pos ?N k c) (pos ?N k e) l = Some l1" "links k l1 (xs @ (c, max d f) # ys)"
        "s_iLength l1 = s_iLength l - (min d f - e + 1)" "s_iSize l1 = ?N" "s_iLastInsertPos l1 = pos ?N k c"
      using merge_next_links [OF Cons.prems(1) [unfolded r] Cons.prems(2) _ ef(2,1) _ nar len Cons.prems(9)] True by blast
    have un: "{c..max d f} \<union> lost ys = {c..d} \<union> lost (r # ys)" using True ef(1,2) by (auto simp: r)
    have "\<exists>l2 d' ys'. coalesce_loop fu (pos (s_iSize l1) k c) l1 = Some l2 \<and> links k l2 (xs @ (c, d') # ys') \<and> max d f \<le> d'
      \<and> sorted_ranges ((c, d') # ys') \<and> {c..d'} \<union> lost ys' = {c..max d f} \<union> lost ys
      \<and> s_iLength l2 = t + (d' - c + 1) + total_length ys' \<and> s_iSize l2 = s_iSize l1"
    proof (rule Cons.IH [OF l1(2)])
      show "\<forall>y\<in>starts ys. c < y" using ef by fastforce
      show "narrow (s_iSize l1) ({c..max d f} \<union> lost ys)" using Cons.prems(6) by (simp only: un l1(4))
      show "s_iLength l1 = t + (max d f - c + 1) + total_length ys" using l1(3) Cons.prems(7) by (auto simp: r)
      show "s_iLength l1 \<le> 2 * s_iSize l1" using l1(3,4) Cons.prems(9) True ef(1) by (simp add: min_def)
    qed (use l1 ef True Cons.prems(8,10) in \<open>auto simp: fu\<close>)
    moreover have "coalesce_loop fuel (pos ?N k c) l = coalesce_loop fu (pos ?N k c) l1"
    proof -
      have "c \<in> {c..d} \<union> lost (r # ys)" using Cons.prems(3) by simp
      then have "\<bar>d - c\<bar> < ?N" using mem(1) Cons.prems(6) unfolding narrow_def by blast
      then have "\<bar>e - (d + 1)\<bar> < m_iSeqNoTH" using True ef(2) N by linarith
      from seqcmp_sn [OF this] obtain c1 where "seqcmp (sn e) (sn (d + 1)) = Some c1" "\<not> c1 > 0" using True by (metis not_le)
      then show ?thesis using True linked_node [OF lk] linked_node [OF lk'] linked_index(2) [OF lk] l1(1)
        by (simp add: fu linked_access [OF lk refl] seq_end_def seq_sn)
    qed
    ultimately show ?thesis using l1(4) un by auto
  qed
qed

lemma linked_length: "linked N k A rs \<Longrightarrow> length rs \<le> length A"
proof -
  assume h: "linked N k A rs"
  have "inj_on (at_node N k) (starts rs)" using h by (auto simp: linked_def inj_on_def nat_pos_inj_in)
  then have "card (starts rs) = card (at_node N k ` starts rs)" by (simp add: card_image)
  also have "\<dots> \<le> card {..<length A}" using linked_index(1) [OF h] by (intro card_mono) auto
  finally show ?thesis using h distinct_card [of "map fst rs"] by (simp add: linked_def starts_def)
qed

section \<open>The new range in its place\<close>

text \<open>The state before \<open>coalesce(loc)\<close>: the range at \<open>loc\<close> may overlap those behind it, the numbers are all there.\<close>

definition placed :: "int \<Rightarrow> snd_loss \<Rightarrow> int set \<Rightarrow> int \<Rightarrow> bool" where
  "placed k l S loc \<longleftrightarrow> (\<exists>xs c d ys. links k l (xs @ (c, d) # ys) \<and> loc = pos (s_iSize l) k c \<and> s_iLastInsertPos l = loc
     \<and> sorted_ranges (xs @ [(c, d)]) \<and> sorted_ranges ys \<and> (\<forall>y\<in>starts ys. c < y) \<and> lost (xs @ (c, d) # ys) = S
     \<and> s_iLength l = total_length (xs @ (c, d) # ys) \<and> s_iLength l \<le> 2 * s_iSize l)"

lemma coalesce_placed:
  assumes "placed k l S loc" "narrow (s_iSize l) S"
  shows "\<exists>l' rs'. coalesce loc l = Some l' \<and> keeps k l' rs' \<and> lost rs' = S \<and> s_iSize l' = s_iSize l"
proof -
  obtain xs c d ys where p: "links k l (xs @ (c, d) # ys)" "loc = pos (s_iSize l) k c" "s_iLastInsertPos l = loc"
      "sorted_ranges (xs @ [(c, d)])" "sorted_ranges ys" "\<forall>y\<in>starts ys. c < y" "lost (xs @ (c, d) # ys) = S"
      "s_iLength l = total_length (xs @ (c, d) # ys)" "s_iLength l \<le> 2 * s_iSize l"
    using assms(1) unfolding placed_def by blast
  have cd: "c \<le> d" and xs: "0 \<le> total_length xs" using p(4) total_length_pos [of xs] by auto
  have "length ys < length (s_caSeq l)" using linked_length [of "s_iSize l" k "s_caSeq l"] p(1) by (fastforce simp: links_def)
  moreover have "narrow (s_iSize l) ({c..d} \<union> lost ys)" using assms(2) by (rule narrow_subset) (use p(7) in auto)
  moreover have "s_iLength l = total_length xs + (d - c + 1) + total_length ys" using p(8) by simp
  ultimately obtain l' d' ys' where l': "coalesce loc l = Some l'" "links k l' (xs @ (c, d') # ys')" "sorted_ranges ((c, d') # ys')"
      "{c..d'} \<union> lost ys' = {c..d} \<union> lost ys" "s_iLength l' = total_length xs + (d' - c + 1) + total_length ys'" "s_iSize l' = s_iSize l"
    using coalesce_loop_links [OF p(1) _ cd p(5,6) _ _ xs p(9)] p(2,3) unfolding coalesce_def by blast
  have L: "lost (xs @ (c, d') # ys') = S" using l'(4) p(7) by auto
  have "sorted_ranges (xs @ (c, d') # ys')" using l'(3) p(4) by fastforce
  with l' L assms(2) have "keeps k l' (xs @ (c, d') # ys')" by (simp add: keeps_def)
  with l'(1,6) L show ?thesis by blast
qed

lemma extend_node_sn:
  assumes h: "linked (s_iSize l) k (s_caSeq l) (xs @ (u, d) # ys)" and ub: "u \<le> d" "d < b" "b - u < s_iSize l"
    and len: "0 \<le> s_iLength l" "s_iLength l \<le> s_iSize l"
  shows "extend_node (pos (s_iSize l) k u) (sn d) (sn b) l = Some (l\<lparr>s_iLength := s_iLength l + (b - d),
    s_caSeq := (s_caSeq l)[at_node (s_iSize l) k u := \<lparr>nseqstart = sn u, nseqend = seq_end u b, ninext = next_of (s_iSize l) k ys\<rparr>]\<rparr>)"
proof -
  have N: "s_iSize l \<le> m_iSeqNoTH" using linked_size [OF h] by blast
  have "seqlen (sn d) (sn b) = Some (b - d + 1)" using ub N by (intro seqlen_sn) linarith+
  moreover have "int32 (b - d) = Some (b - d)" using ub N by (intro int32_in) linarith+
  moreover have "change_length (b - d) l = Some (l\<lparr>s_iLength := s_iLength l + (b - d)\<rparr>)"
    using ub N len by (intro change_length_in) linarith+
  ultimately show ?thesis using ub linked_node [OF h] by (simp add: extend_node_def linked_access [OF h refl] seq_end_def)
qed

lemma fill_node_sn:
  assumes h: "linked N k A rs" and f: "fresh_start N a rs" and ab: "\<bar>a - b\<bar> < 0x80000000"
  shows "\<exists>nx. fill_node (pos N k a) (sn a) (sn b) A = Some (A[at_node N k a := \<lparr>nseqstart = sn a, nseqend = seq_end a b, ninext = nx\<rparr>])"
proof -
  have v: "nseqend (A ! at_node N k a) = -1" using fresh_vacant [OF h f] by (simp add: vacant_def)
  have "sn b = sn a \<longleftrightarrow> b = a" using sn_inj [of b a] ab by (simp add: abs_minus_commute)
  then show ?thesis using v linked_index(1) [OF h]
    by (intro exI [of _ "ninext (A ! at_node N k a)"], cases "A ! at_node N k a") (auto simp: fill_node_def linked_access [OF h] seq_end_def)
qed

text \<open>The contract of an insertion.\<close>

definition insertable :: "int \<Rightarrow> int set \<Rightarrow> int \<Rightarrow> int \<Rightarrow> bool" where
  "insertable N S a b \<longleftrightarrow> a \<le> b \<and> b - a + 1 < N \<and> narrow N (S \<union> {a..b})"

lemma insertable_close:
  assumes "insertable N S a b" "N \<le> m_iSeqNoTH"
  shows "y \<in> S \<Longrightarrow> \<bar>y - a\<bar> < N \<and> \<bar>y - b\<bar> < N" "seqlen (sn a) (sn b) = Some (b - a + 1)" "\<bar>a - b\<bar> < 0x80000000" "narrow N S"
proof -
  have ab: "a \<le> b" "b - a + 1 < N" and n: "narrow N (S \<union> {a..b})" using assms(1) by (simp_all add: insertable_def)
  have "a \<in> S \<union> {a..b}" "b \<in> S \<union> {a..b}" using ab by auto
  then show "y \<in> S \<Longrightarrow> \<bar>y - a\<bar> < N \<and> \<bar>y - b\<bar> < N" using n unfolding narrow_def by blast
  show "seqlen (sn a) (sn b) = Some (b - a + 1)" using ab assms(2) by (intro seqlen_sn) linarith+
  show "\<bar>a - b\<bar> < 0x80000000" using ab assms(2) by linarith
  show "narrow N S" using n by (rule narrow_subset) auto
qed

lemma insertable_fresh:
  assumes "keeps k l rs" "insertable (s_iSize l) (lost rs) a b" "a \<notin> starts rs"
  shows "fresh_start (s_iSize l) a rs"
proof -
  have "insert a (starts rs) \<subseteq> lost rs \<union> {a..b}" using starts_lost keeps_facts(3) [OF assms(1)] assms(2) by (fastforce simp: insertable_def)
  then show ?thesis using assms(2,3) unfolding fresh_start_def insertable_def by (blast intro: narrow_subset)
qed

lemma insertHead_links:
  assumes h: "keeps k l rs" and i: "insertable (s_iSize l) (lost rs) a b" and a: "\<forall>y\<in>starts rs. a < y"
  shows "\<exists>l1. insertHead (pos (s_iSize l) k a) (sn a) (sn b) l = Some l1 \<and> links k l1 ((a, b) # rs) \<and> s_iSize l1 = s_iSize l
    \<and> s_iLastInsertPos l1 = pos (s_iSize l) k a \<and> s_iLength l1 = s_iLength l + (b - a + 1)"
proof -
  let ?N = "s_iSize l"
  note kf = keeps_facts [OF h] and cl = insertable_close [OF i keeps_facts(7) [OF h]]
  have ab: "a \<le> b" "b - a + 1 < ?N" using i by (simp_all add: insertable_def)
  have f: "fresh_start ?N a rs" using insertable_fresh [OF h i] a by fastforce
  obtain nx where fn: "fill_node (pos ?N k a) (sn a) (sn b) (s_caSeq l) = Some ((s_caSeq l)[at_node ?N k a := \<lparr>nseqstart = sn a, nseqend = seq_end a b, ninext = nx\<rparr>])"
    using fill_node_sn [OF kf(1) f cl(3)] by blast
  define l1 where "l1 = l\<lparr>s_caSeq := (s_caSeq l)[at_node ?N k a := \<lparr>nseqstart = sn a, nseqend = seq_end a b, ninext = next_of ?N k rs\<rparr>],
    s_iHead := pos ?N k a, s_iLastInsertPos := pos ?N k a, s_iLength := s_iLength l + (b - a + 1)\<rparr>"
  have "insertHead (pos ?N k a) (sn a) (sn b) l = Some l1"
    using fn linked_index [OF kf(1), of a] ab kf(7,9,10) by (simp add: insertHead_def linked_access [OF kf(1)] cl(2) kf(2) change_length_in l1_def)
  moreover have "links k l1 ((a, b) # rs)" using linked_first [OF kf(1) f] by (simp add: links_def l1_def)
  ultimately show ?thesis by (auto simp: l1_def)
qed

lemma insertHead_placed:
  assumes h: "keeps k l rs" and i: "insertable (s_iSize l) (lost rs) a b" and a: "\<forall>y\<in>starts rs. a < y"
  shows "\<exists>l1. insertHead (pos (s_iSize l) k a) (sn a) (sn b) l = Some l1 \<and> placed k l1 (lost rs \<union> {a..b}) (pos (s_iSize l) k a) \<and> s_iSize l1 = s_iSize l"
proof -
  note kf = keeps_facts [OF h]
  have ab: "a \<le> b" "b - a + 1 < s_iSize l" using i by (simp_all add: insertable_def)
  from insertHead_links [OF assms] obtain l1 where l1: "insertHead (pos (s_iSize l) k a) (sn a) (sn b) l = Some l1" "links k l1 ([] @ (a, b) # rs)"
      "s_iSize l1 = s_iSize l" "s_iLastInsertPos l1 = pos (s_iSize l) k a" "s_iLength l1 = s_iLength l + (b - a + 1)"
    by auto
  moreover have "sorted_ranges ([] @ [(a, b)])" "lost ([] @ (a, b) # rs) = lost rs \<union> {a..b}" "s_iLength l1 = total_length ([] @ (a, b) # rs)"
      "s_iLength l1 \<le> 2 * s_iSize l1"
    using l1(3,5) ab kf(5,10) by auto
  ultimately show ?thesis unfolding placed_def using a kf(3) by metis
qed

text \<open>What an insertion leaves before it coalesces: the range in its place, or nothing changed because it was there already.\<close>

definition after_place :: "int \<Rightarrow> snd_loss \<Rightarrow> ranges \<Rightarrow> int \<Rightarrow> int \<Rightarrow> int option \<times> snd_loss \<Rightarrow> bool" where
  "after_place k l rs a b = (\<lambda>(at, l1). s_iSize l1 = s_iSize l
     \<and> (case at of None \<Rightarrow> {a..b} \<subseteq> lost rs \<and> keeps k l1 rs | Some loc \<Rightarrow> placed k l1 (lost rs \<union> {a..b}) loc))"

lemma extend_placed:
  assumes h: "keeps k l (xs @ (u, d) # ys)" and i: "insertable (s_iSize l) (lost (xs @ (u, d) # ys)) a b"
    and ad: "u \<le> a" "a \<le> d + 1" "d < b"
  shows "\<exists>l1. extend_node (pos (s_iSize l) k u) (sn d) (sn b) (l\<lparr>s_iLastInsertPos := pos (s_iSize l) k u\<rparr>) = Some l1
    \<and> placed k l1 (lost (xs @ (u, d) # ys) \<union> {a..b}) (pos (s_iSize l) k u) \<and> s_iSize l1 = s_iSize l"
proof -
  let ?N = "s_iSize l" and ?l = "l\<lparr>s_iLastInsertPos := pos (s_iSize l) k u\<rparr>"
  note kf = keeps_facts [OF h]
  have ud: "u \<le> d" "u \<in> lost (xs @ (u, d) # ys)" using kf(3) by auto
  then have bu: "b - u < ?N" using insertable_close(1) [OF i kf(7)] by fastforce
  define l1 where "l1 = ?l\<lparr>s_iLength := s_iLength l + (b - d),
    s_caSeq := (s_caSeq l)[at_node ?N k u := \<lparr>nseqstart = sn u, nseqend = seq_end u b, ninext = next_of ?N k ys\<rparr>]\<rparr>"
  have "extend_node (pos ?N k u) (sn d) (sn b) ?l = Some l1"
    using extend_node_sn [of ?l k xs u d ys b] kf(1,9,10) ud ad bu by (simp add: l1_def)
  moreover have "placed k l1 (lost (xs @ (u, d) # ys) \<union> {a..b}) (pos ?N k u)"
  proof -
    have "links k l1 (xs @ (u, b) # ys)" using linked_set_end [OF kf(1)] kf(2) by (simp add: links_def l1_def)
    moreover have "\<forall>y\<in>starts ys. u < y" "sorted_ranges (xs @ [(u, b)])" "sorted_ranges ys"
      using kf(3) starts_order [OF kf(3)] ud(1) ad by auto
    moreover have "lost (xs @ (u, b) # ys) = lost (xs @ (u, d) # ys) \<union> {a..b}" using ud(1) ad by auto
    moreover have "s_iLength l1 = total_length (xs @ (u, b) # ys)" "s_iLength l1 \<le> 2 * s_iSize l1"
      using kf(5,10) bu ud(1) by (simp_all add: l1_def)
    moreover have "s_iLastInsertPos l1 = pos ?N k u" "s_iSize l1 = ?N" by (simp_all add: l1_def)
    ultimately show ?thesis unfolding placed_def by metis
  qed
  ultimately show ?thesis by (auto simp: l1_def)
qed

lemma last_pos_kept:
  "keeps k l (xs @ (u, d) # ys) \<Longrightarrow> keeps k (l\<lparr>s_iLastInsertPos := pos (s_iSize l) k u\<rparr>) (xs @ (u, d) # ys)"
  by (simp add: keeps_def links_def)

lemma updateElement_placed:
  assumes h: "keeps k l (xs @ (a, d) # ys)" and i: "insertable (s_iSize l) (lost (xs @ (a, d) # ys)) a b"
  shows "\<exists>r. map_option (updated_at (pos (s_iSize l) k a)) (updateElement (pos (s_iSize l) k a) (sn a) (sn b) l) = Some r
    \<and> after_place k l (xs @ (a, d) # ys) a b r"
proof -
  let ?l = "l\<lparr>s_iLastInsertPos := pos (s_iSize l) k a\<rparr>"
  note kf = keeps_facts [OF h] and cl = insertable_close [OF i keeps_facts(7) [OF h]]
  have ad: "a \<le> d" "d \<in> lost (xs @ (a, d) # ys)" "a \<le> b" using kf(3) i by (auto simp: insertable_def)
  have "\<bar>b - d\<bar> < m_iSeqNoTH" using cl(1) [OF ad(2)] kf(7) by linarith
  then obtain c where c: "seqcmp (sn b) (sn d) = Some c" "c \<le> 0 \<longleftrightarrow> b \<le> d" using seqcmp_sn by (metis not_le)
  have ba: "sn b = sn a \<longleftrightarrow> b = a" using sn_inj [of b a] cl(3) by (simp add: abs_minus_commute)
  note nd = linked_node [OF kf(1)] and acc = linked_access [OF kf(1) refl]
  show ?thesis
  proof (cases "d < b")
    case True
    from extend_placed [OF h i _ _ True] ad obtain l1 where "extend_node (pos (s_iSize l) k a) (sn d) (sn b) ?l = Some l1"
      "placed k l1 (lost (xs @ (a, d) # ys) \<union> {a..b}) (pos (s_iSize l) k a)" "s_iSize l1 = s_iSize l" by auto
    moreover from this have "updateElement (pos (s_iSize l) k a) (sn a) (sn b) l = Some (True, l1)"
      using True ad c ba by (auto simp: updateElement_def acc nd seq_end_def Let_def)
    ultimately show ?thesis by (simp add: updated_at_def after_place_def)
  next
    case False
    then have "updateElement (pos (s_iSize l) k a) (sn a) (sn b) l = Some (False, ?l)"
      using ad c ba by (auto simp: updateElement_def acc nd seq_end_def Let_def)
    moreover have "{a..b} \<subseteq> lost (xs @ (a, d) # ys)" using False by auto
    ultimately show ?thesis using last_pos_kept [OF h] by (simp add: updated_at_def after_place_def)
  qed
qed

section \<open>The prior node\<close>

lemma starts_split:
  assumes "z \<in> starts rs"
  obtains xs d ys where "rs = xs @ (z, d) # ys"
proof -
  obtain d where "(z, d) \<in> set rs" using assms by (auto simp: starts_def)
  then show thesis using that by (metis split_list)
qed

lemma prior_node_finds:
  assumes "linked N k A (xs @ (u, d) # ys)" "sorted_ranges ys" "u < x" "\<forall>y\<in>starts ys. \<bar>y - x\<bar> < m_iSeqNoTH" "length ys < fuel"
  shows "\<exists>xs' u' d' ys'. xs @ (u, d) # ys = xs' @ (u', d') # ys' \<and> prior_node fuel A (sn x) (pos N k u) = Some (pos N k u')
    \<and> u' < x \<and> (\<forall>y\<in>starts ys'. x \<le> y)"
  using assms
proof (induction ys arbitrary: xs u d fuel)
  case Nil
  then obtain f where f: "fuel = Suc f" by (cases fuel) auto
  have "prior_node fuel A (sn x) (pos N k u) = Some (pos N k u)"
    using linked_node [OF Nil.prems(1)] by (simp add: f linked_access [OF Nil.prems(1) refl])
  then show ?case using Nil.prems(3) by (intro exI [of _ xs] exI [of _ u] exI [of _ d] exI [of _ "[]"]) simp
next
  case (Cons r ys)
  obtain e g where r: "r = (e, g)" by (cases r)
  obtain f where f: "fuel = Suc f" using Cons.prems(5) by (cases fuel) auto
  have h': "linked N k A ((xs @ [(u, d)]) @ (e, g) # ys)" using Cons.prems(1) by (simp add: r)
  have "\<bar>e - x\<bar> < m_iSeqNoTH" using Cons.prems(4) by (simp add: r)
  then obtain c where c: "seqcmp (sn e) (sn x) = Some c" "c < 0 \<longleftrightarrow> e < x" using seqcmp_sn by metis
  have step: "prior_node fuel A (sn x) (pos N k u) = (if e < x then prior_node f A (sn x) (pos N k e) else Some (pos N k u))"
    using linked_node [OF Cons.prems(1)] linked_node [OF h'] linked_index(2) [OF h'] c by (simp add: f r linked_access [OF h' refl])
  show ?case
  proof (cases "e < x")
    case True
    have "sorted_ranges ys" "\<forall>y\<in>starts ys. \<bar>y - x\<bar> < m_iSeqNoTH" "length ys < f" using Cons.prems(2,4,5) by (simp_all add: r f)
    from Cons.IH [OF h' this(1) True this(2,3)] step True show ?thesis by (simp add: r)
  next
    case False
    have "\<forall>y\<in>starts (r # ys). x \<le> y" using False Cons.prems(2) by (fastforce simp: r starts_def)
    with step False Cons.prems(3) show ?thesis by (intro exI [of _ xs] exI [of _ u] exI [of _ d] exI [of _ "r # ys"]) simp
  qed
qed

lemma search_start_finds:
  assumes h: "keeps k l ((w, v) # rs)" and x: "w < x" "\<forall>y\<in>lost ((w, v) # rs). \<bar>y - x\<bar> < m_iSeqNoTH"
  shows "\<exists>xs u d ys. (w, v) # rs = xs @ (u, d) # ys \<and> u < x \<and> search_start (sn x) l = Some (pos (s_iSize l) k u)"
proof -
  note kf = keeps_facts [OF h]
  have head: "s_iHead l = pos (s_iSize l) k w" using kf(2) by simp
  consider "s_iLastInsertPos l = -1" | z where "z \<in> starts ((w, v) # rs)" "s_iLastInsertPos l = pos (s_iSize l) k z"
    using h by (auto simp: keeps_def links_def)
  then show ?thesis
  proof cases
    case 1
    with head x(1) show ?thesis by (intro exI [of _ "[]"] exI [of _ w] exI [of _ v] exI [of _ rs]) (simp add: search_start_def)
  next
    case (2 z)
    from starts_split [OF 2(1)] obtain xs d ys where rs: "(w, v) # rs = xs @ (z, d) # ys" .
    have "z \<in> lost ((w, v) # rs)" using starts_lost [OF kf(3)] 2(1) by blast
    then have "\<bar>z - x\<bar> < m_iSeqNoTH" using x(2) by blast
    then obtain c where c: "seqcmp (sn z) (sn x) = Some c" "c < 0 \<longleftrightarrow> z < x" using seqcmp_sn by metis
    have "search_start (sn x) l = Some (if z < x then pos (s_iSize l) k z else pos (s_iSize l) k w)"
      using linked_node [OF kf(1) [unfolded rs]] linked_index(2) [OF kf(1)] c 2(2) head
      by (simp add: search_start_def linked_access [OF kf(1) refl])
    then show ?thesis
      using rs x(1) append_Nil [of "(w, v) # rs"] by (cases "z < x") (metis, metis)
  qed
qed

section \<open>Insertion\<close>

lemma insertAfter_placed:
  assumes h: "keeps k l (xs @ (u, d) # ys)" and i: "insertable (s_iSize l) (lost (xs @ (u, d) # ys)) a b"
    and a: "d < a" "\<forall>y\<in>starts ys. a < y"
  shows "\<exists>l1. insertAfter (pos (s_iSize l) k a) (pos (s_iSize l) k u) (sn a) (sn b) l = Some l1
    \<and> placed k l1 (lost (xs @ (u, d) # ys) \<union> {a..b}) (pos (s_iSize l) k a) \<and> s_iSize l1 = s_iSize l"
proof -
  let ?N = "s_iSize l" and ?rs = "xs @ (u, d) # ys"
  note kf = keeps_facts [OF h] and cl = insertable_close [OF i keeps_facts(7) [OF h]]
  have ab: "a \<le> b" "b - a + 1 < ?N" using i by (simp_all add: insertable_def)
  have ud: "u \<le> d" using kf(3) by auto
  have "a \<notin> starts ?rs" using a ud starts_order [OF kf(3)] by auto
  then have f: "fresh_start ?N a ?rs" by (rule insertable_fresh [OF h i])
  obtain nx where fn: "fill_node (pos ?N k a) (sn a) (sn b) (s_caSeq l) = Some ((s_caSeq l)[at_node ?N k a := \<lparr>nseqstart = sn a, nseqend = seq_end a b, ninext = nx\<rparr>])"
    using fill_node_sn [OF kf(1) f cl(3)] by blast
  have ne: "at_node ?N k u \<noteq> at_node ?N k a" using fresh_frames [OF f, of k] by simp
  define l1 where "l1 = l\<lparr>s_caSeq := (s_caSeq l)[at_node ?N k a := \<lparr>nseqstart = sn a, nseqend = seq_end a b, ninext = next_of ?N k ys\<rparr>,
      at_node ?N k u := \<lparr>nseqstart = sn u, nseqend = seq_end u d, ninext = pos ?N k a\<rparr>],
    s_iLastInsertPos := pos ?N k a, s_iLength := s_iLength l + (b - a + 1)\<rparr>"
  have "insertAfter (pos ?N k a) (pos ?N k u) (sn a) (sn b) l = Some l1"
    using fn ne linked_index [OF kf(1)] linked_node [OF kf(1)] ab kf(7,9,10)
    by (simp add: insertAfter_def linked_access [OF kf(1)] cl(2) change_length_in l1_def)
  moreover have "placed k l1 (lost ?rs \<union> {a..b}) (pos ?N k a)"
  proof -
    have "links k l1 ((xs @ [(u, d)]) @ (a, b) # ys)" using linked_after [OF kf(1) f] kf(2) by (simp add: links_def l1_def)
    moreover have "sorted_ranges ((xs @ [(u, d)]) @ [(a, b)])" "sorted_ranges ys" using kf(3) a(1) ab(1) by fastforce+
    moreover have "lost ((xs @ [(u, d)]) @ (a, b) # ys) = lost ?rs \<union> {a..b}" by auto
    moreover have "s_iLength l1 = total_length ((xs @ [(u, d)]) @ (a, b) # ys)" "s_iLength l1 \<le> 2 * s_iSize l1"
      using kf(5,10) ab by (simp_all add: l1_def)
    moreover have "s_iLastInsertPos l1 = pos ?N k a" "s_iSize l1 = ?N" by (simp_all add: l1_def)
    ultimately show ?thesis unfolding placed_def using a(2) by metis
  qed
  ultimately show ?thesis by (auto simp: l1_def)
qed

lemma insert_behind_prior_placed:
  assumes h: "keeps k l ((w, v) # rs)" and i: "insertable (s_iSize l) (lost ((w, v) # rs)) a b"
    and a: "w < a" "a \<notin> starts ((w, v) # rs)"
  shows "\<exists>r. insert_behind_prior (pos (s_iSize l) k a) (sn a) (sn b) l = Some r \<and> after_place k l ((w, v) # rs) a b r"
proof -
  let ?N = "s_iSize l" and ?rs = "(w, v) # rs"
  note kf = keeps_facts [OF h] and cl = insertable_close [OF i keeps_facts(7) [OF h]]
  have close: "\<forall>y\<in>lost ?rs. \<bar>y - a\<bar> < m_iSeqNoTH \<and> \<bar>y - b\<bar> < m_iSeqNoTH" using cl(1) kf(7) by fastforce
  then obtain xs0 u0 d0 ys0 where s0: "?rs = xs0 @ (u0, d0) # ys0" "u0 < a" "search_start (sn a) l = Some (pos ?N k u0)"
    using search_start_finds [OF h a(1)] by blast
  have "\<forall>y\<in>starts ys0. \<bar>y - a\<bar> < m_iSeqNoTH" "sorted_ranges ys0" "length ys0 < length (s_caSeq l)"
    using close starts_lost [OF kf(3)] s0(1) kf(3) linked_length [OF kf(1)] by auto
  with prior_node_finds [OF kf(1) [unfolded s0(1)] _ s0(2)] obtain xs u d ys where p: "?rs = xs @ (u, d) # ys"
      "prior_node (length (s_caSeq l)) (s_caSeq l) (sn a) (pos ?N k u0) = Some (pos ?N k u)" "u < a" "\<forall>y\<in>starts ys. a \<le> y"
    unfolding s0(1) by blast
  note h' = h [unfolded p(1)] and i' = i [unfolded p(1)] and lk = kf(1) [unfolded p(1)]
  have ys: "\<forall>y\<in>starts ys. a < y" using p(4) a(2) p(1) by (metis UnCI insertCI le_neq_trans starts_simps(2,3))
  have ud: "u \<le> d" "d \<in> lost ?rs" using kf(3) p(1) by auto
  obtain c where c: "seqcmp (sn d) (sn a) = Some c" "c < 0 \<longleftrightarrow> d < a" using seqcmp_sn [of d a] close ud by metis
  obtain c' where c': "seqcmp (sn d) (sn b) = Some c'" "c' \<ge> 0 \<longleftrightarrow> d \<ge> b" using seqcmp_sn [of d b] close ud by (metis not_le)
  have eq: "sn (d + 1) = sn a \<longleftrightarrow> d + 1 = a" using close ud by (intro sn_inj) fastforce
  have node: "(if nseqend (s_caSeq l ! at_node ?N k u) = -1 then nseqstart (s_caSeq l ! at_node ?N k u) else nseqend (s_caSeq l ! at_node ?N k u)) = sn d"
    using linked_node [OF lk] by (simp add: seq_end_def)
  have step: "insert_behind_prior (pos ?N k a) (sn a) (sn b) l =
    (if d + 1 < a then do { l \<leftarrow> insertAfter (pos ?N k a) (pos ?N k u) (sn a) (sn b) l; Some (Some (pos ?N k a), l) }
     else if d \<ge> b then Some (None, l\<lparr>s_iLastInsertPos := pos ?N k u\<rparr>)
     else do { l \<leftarrow> extend_node (pos ?N k u) (sn d) (sn b) (l\<lparr>s_iLastInsertPos := pos ?N k u\<rparr>); Some (Some (pos ?N k u), l) })"
    using c c' eq s0(3) p(2) node by (auto simp: insert_behind_prior_def linked_access [OF lk refl] Let_def seq_sn)
  consider (apart) "d + 1 < a" | (inside) "a \<le> d + 1" "b \<le> d" | (over) "a \<le> d + 1" "d < b" by linarith
  then show ?thesis
  proof cases
    case apart
    with insertAfter_placed [OF h' i' _ ys] step show ?thesis by (auto simp: after_place_def p(1))
  next
    case inside
    moreover have "{a..b} \<subseteq> lost (xs @ (u, d) # ys)" using p(3) inside by auto
    ultimately show ?thesis using step last_pos_kept [OF h'] by (simp add: after_place_def p(1))
  next
    case over
    with extend_placed [OF h' i' _ over] p(3) step show ?thesis by (auto simp: after_place_def p(1))
  qed
qed

lemma ring_any_pos:
  assumes "0 < N" "N \<le> m_iMaxSize" "- N < d" "d < m_iSeqNoTH"
  shows "ring_any (pos N k a) d N = Some (pos N k (a + d))"
proof -
  have p: "0 \<le> pos N k a" "pos N k a < N" using pos_range assms by blast+
  have "(pos N k a + d + N) mod N = pos N k (a + d)" using pos_shift [of N k a d] by simp
  moreover have "int32 (pos N k a + d) = Some (pos N k a + d)" "int32 (pos N k a + d + N) = Some (pos N k a + d + N)"
    using p assms by (intro int32_in; linarith)+
  ultimately show ?thesis using p assms by (simp add: ring_any_def ring_def c_rem_def)
qed

lemma place_placed:
  assumes h: "keeps k l ((w, v) # rs)" and i: "insertable (s_iSize l) (lost ((w, v) # rs)) a b"
  shows "\<exists>r. place (a - w) (pos (s_iSize l) k a) (sn a) (sn b) l = Some r \<and> after_place k l ((w, v) # rs) a b r"
proof -
  note kf = keeps_facts [OF h] and cl = insertable_close [OF i keeps_facts(7) [OF h]]
  have wmin: "\<forall>y\<in>starts ((w, v) # rs). w \<le> y" using first_least [OF kf(3)] starts_lost [OF kf(3)] by blast
  consider (before) "a < w" | (head) "a = w" | (start) "w < a" "a \<in> starts ((w, v) # rs)" | (other) "w < a" "a \<notin> starts ((w, v) # rs)"
    by linarith
  then show ?thesis
  proof cases
    case before
    then have "\<forall>y\<in>starts ((w, v) # rs). a < y" using wmin by fastforce
    from insertHead_placed [OF h i this] before show ?thesis by (auto simp: place_def after_place_def)
  next
    case head
    with updateElement_placed [of k l "[]" w v rs b] h i kf(2) show ?thesis by (simp add: place_def)
  next
    case start
    from starts_split [OF start(2)] obtain xs d ys where rs: "(w, v) # rs = xs @ (a, d) # ys" .
    with updateElement_placed [of k l xs a d ys b] h i start(1) linked_node [OF kf(1) [unfolded rs]] show ?thesis
      by (simp add: place_def linked_access [OF kf(1) refl])
  next
    case other
    have "sn a \<noteq> nseqstart (s_caSeq l ! at_node (s_iSize l) k a)"
      using fresh_vacant [OF kf(1) insertable_fresh [OF h i other(2)]] by (simp add: vacant_def)
    with insert_behind_prior_placed [OF h i other] other(1) show ?thesis by (simp add: place_def linked_access [OF kf(1) refl])
  qed
qed

lemma insert_empty_keeps:
  assumes h: "keeps k l []" and i: "insertable (s_iSize l) {} a b"
  shows "\<exists>l1. insertHead 0 (sn a) (sn b) l = Some l1 \<and> keeps (- a) l1 [(a, b)] \<and> s_iSize l1 = s_iSize l"
proof -
  have "linked (s_iSize l) (- a) (s_caSeq l) []" using h by (simp add: keeps_def links_def linked_def rest_vacant_def)
  then have h': "keeps (- a) l []" using h by (simp add: keeps_def links_def)
  have "pos (s_iSize l) (- a) a = 0" by (simp add: pos_def)
  with insertHead_links [OF h', of a b] i obtain l1 where l1: "insertHead 0 (sn a) (sn b) l = Some l1" "links (- a) l1 [(a, b)]"
      "s_iSize l1 = s_iSize l" "s_iLength l1 = b - a + 1"
    using keeps_facts(5) [OF h] by auto
  moreover have "narrow (s_iSize l) {a..b}" "a \<le> b" using i by (simp_all add: insertable_def)
  ultimately show ?thesis by (simp add: keeps_def)
qed

lemma insert_keeps:
  assumes h: "keeps k l rs" and i: "insertable (s_iSize l) (lost rs) a b"
  shows "\<exists>l' k' rs'. insert_snd (sn a) (sn b) l = Some (int (card (lost rs \<union> {a..b})) - int (card (lost rs)), l')
    \<and> keeps k' l' rs' \<and> lost rs' = lost rs \<union> {a..b} \<and> s_iSize l' = s_iSize l"
proof (cases rs)
  case Nil
  with insert_empty_keeps [of k l a b] h i obtain l1 where l1: "insertHead 0 (sn a) (sn b) l = Some l1" "keeps (- a) l1 [(a, b)]" "s_iSize l1 = s_iSize l"
    by auto
  note kf = keeps_facts [OF h] and kf1 = keeps_facts [OF l1(2)]
  have ab: "a \<le> b" "b - a + 1 < s_iSize l" using i by (simp_all add: insertable_def)
  then have "insert_snd (sn a) (sn b) l = Some (b - a + 1, l1)"
    using l1(1) kf(11) kf1(5) Nil insertable_close(2) [OF i kf(7)] by (simp add: insert_snd_def sn_range)
  with l1 Nil ab show ?thesis by (intro exI [of _ l1] exI [of _ "- a"] exI [of _ "[(a, b)]"]) simp
next
  case (Cons r rs2)
  obtain w v where r: "rs = (w, v) # rs2" using Cons by (cases r) auto
  let ?N = "s_iSize l"
  note kf = keeps_facts [OF h] and cl = insertable_close [OF i keeps_facts(7) [OF h]]
  have "w \<in> lost rs" using kf(3) r by auto
  then have wa: "\<bar>a - w\<bar> < ?N" using cl(1) [of w] by (simp add: abs_minus_commute)
  then have off: "seqoff (sn w) (sn a) = Some (a - w)" using kf(7) by (intro seqoff_sn) linarith
  have ring: "ring_any (pos ?N k w) (a - w) ?N = Some (pos ?N k a)" using ring_any_pos [OF kf(6,12), of "a - w" k w] wa kf(7) by simp
  have ab: "a \<le> b" "b - a + 1 < ?N" using i by (simp_all add: insertable_def)
  have node: "s_iHead l = pos ?N k w" "nseqstart (s_caSeq l ! at_node ?N k w) = sn w"
    using kf(2) linked_node [of ?N k "s_caSeq l" "[]" w v rs2] kf(1) by (simp_all add: r)
  obtain at l1 where pl: "place (a - w) (pos ?N k a) (sn a) (sn b) l = Some (at, l1)" "after_place k l rs a b (at, l1)"
    using place_placed [of k l w v rs2 a b] h i r by auto
  have ok: "\<not> ?N \<le> a - w" "\<not> pos ?N k a < 0" "\<not> b - a + 1 \<le> 0" "\<not> ?N \<le> b - a + 1" "s_iLength l \<noteq> 0"
    using wa ab kf(11) linked_index(3) [OF kf(1), of a] r by auto
  have step: "insert_snd (sn a) (sn b) l = (case at of None \<Rightarrow> Some (0, l1)
      | Some loc \<Rightarrow> do { l' \<leftarrow> coalesce loc l1; d \<leftarrow> int32 (s_iLength l' - s_iLength l); Some (d, l') })"
    using off ring pl(1) node by (simp add: insert_snd_def sn_range cl(2) ok linked_access [OF kf(1) refl])
  note tl = total_length_card [OF kf(3)]
  show ?thesis
  proof (cases at)
    case None
    then have n: "{a..b} \<subseteq> lost rs" "keeps k l1 rs" "s_iSize l1 = ?N" using pl(2) by (auto simp: after_place_def)
    then have "lost rs \<union> {a..b} = lost rs" by blast
    with n step None show ?thesis by auto
  next
    case (Some loc)
    then have p: "placed k l1 (lost rs \<union> {a..b}) loc" "s_iSize l1 = ?N" using pl(2) by (auto simp: after_place_def)
    have "narrow (s_iSize l1) (lost rs \<union> {a..b})" using i p(2) by (simp add: insertable_def)
    from coalesce_placed [OF p(1) this] obtain l' rs' where l': "coalesce loc l1 = Some l'" "keeps k l' rs'" "lost rs' = lost rs \<union> {a..b}" "s_iSize l' = ?N"
      using p(2) by metis
    note kf' = keeps_facts [OF l'(2)]
    have "int32 (s_iLength l' - s_iLength l) = Some (s_iLength l' - s_iLength l)"
      using kf(7,9,10) kf'(9,10) l'(4) by (intro int32_in) linarith+
    moreover have "s_iLength l' - s_iLength l = int (card (lost rs \<union> {a..b})) - int (card (lost rs))"
      using tl total_length_card [OF kf'(3)] kf(5) kf'(5) l'(3) by simp
    ultimately show ?thesis using step Some l' by auto
  qed
qed

end
