(* ===== verification/SndLossRemove.thy ===== *)
theory SndLossRemove
  imports SndLossInsert
begin

text \<open>
  Removal from the head of the sender's loss list: \<open>popLostSeq\<close>, and \<open>removeUpTo\<close>, which finds or makes the node that is to
  become the head and empties all those before it.
\<close>

section \<open>One number\<close>

lemma fresh_inner:
  assumes "sorted_ranges (xs @ (u, d) # ys)" "narrow N (lost (xs @ (u, d) # ys))" "u < x" "x \<le> d"
  shows "fresh_start N x (xs @ (u, d) # ys)"
proof -
  have "insert x (starts (xs @ (u, d) # ys)) \<subseteq> lost (xs @ (u, d) # ys)"
    using starts_lost [OF assms(1)] assms(3,4) by auto
  then have "narrow N (insert x (starts (xs @ (u, d) # ys)))" using assms(2) by (rule narrow_subset [rotated])
  moreover have "x \<notin> starts (xs @ (u, d) # ys)" using starts_order [OF assms(1)] assms(3,4) by auto
  ultimately show ?thesis by (simp add: fresh_start_def)
qed

lemma rest_node_sn:
  assumes h: "linked N k A (xs @ (u, d) # ys)" and f: "fresh_start N (x + 1) (xs @ (u, d) # ys)"
    and x: "u \<le> x" "x < d" "\<bar>d - x\<bar> < m_iSeqNoTH"
  shows "\<exists>nx. rest_node (pos N k (x + 1)) (pos N k u) (sn x) A =
    Some (A[at_node N k (x + 1) := \<lparr>nseqstart = sn (x + 1), nseqend = seq_end (x + 1) d, ninext = nx\<rparr>])"
proof -
  have v: "nseqend (A ! at_node N k (x + 1)) = -1" using fresh_vacant [OF h f] by (simp add: vacant_def)
  have ne: "at_node N k u \<noteq> at_node N k (x + 1)" using fresh_frames [OF f, of k] by simp
  have "\<bar>d - (x + 1)\<bar> < m_iSeqNoTH" using x by linarith
  then obtain c where c: "seqcmp (sn d) (sn (x + 1)) = Some c" "c > 0 \<longleftrightarrow> d > x + 1" using seqcmp_sn by metis
  obtain s e n where nd: "A ! at_node N k (x + 1) = \<lparr>nseqstart = s, nseqend = e, ninext = n\<rparr>" by (cases "A ! at_node N k (x + 1)")
  have "d = x + 1" if "\<not> d > x + 1" using x that by linarith
  then show ?thesis
    using linked_node [OF h] ne linked_index(1) [OF h] c x v
    by (intro exI [of _ n], cases "d > x + 1") (auto simp: rest_node_def seq_sn linked_access [OF h] seq_end_def nd)
qed

text \<open>What is left when the first number is gone.\<close>

definition behind_first :: "int \<Rightarrow> int \<Rightarrow> ranges \<Rightarrow> ranges" where
  "behind_first w v rs = (if w = v then rs else (w + 1, v) # rs)"

lemma lost_behind_first:
  assumes "sorted_ranges ((w, v) # rs)"
  shows "lost (behind_first w v rs) = lost ((w, v) # rs) - {w}" "sorted_ranges (behind_first w v rs)"
    "total_length (behind_first w v rs) = total_length ((w, v) # rs) - 1"
proof -
  have "w \<notin> lost rs" using assms lost_disjoint(2) [of "[]" w v rs w] by simp
  then show "lost (behind_first w v rs) = lost ((w, v) # rs) - {w}" using assms by (auto simp: behind_first_def)
  show "sorted_ranges (behind_first w v rs)" "total_length (behind_first w v rs) = total_length ((w, v) # rs) - 1"
    using assms by (auto simp: behind_first_def)
qed

text \<open>The array of \<open>popLostSeq\<close>, and of \<open>removeUpTo\<close> at the head.\<close>

definition first_gone :: "int \<Rightarrow> int \<Rightarrow> snd_node list \<Rightarrow> int \<Rightarrow> int \<Rightarrow> ranges \<Rightarrow> snd_node list" where
  "first_gone N k A w v rs = (if w = v then A[at_node N k w := \<lparr>nseqstart = -1, nseqend = -1, ninext = next_of N k rs\<rparr>]
     else A[at_node N k (w + 1) := \<lparr>nseqstart = sn (w + 1), nseqend = seq_end (w + 1) v, ninext = next_of N k rs\<rparr>,
            at_node N k w := \<lparr>nseqstart = -1, nseqend = -1, ninext = next_of N k rs\<rparr>])"

lemma first_gone_keeps:
  assumes h: "keeps k l ((w, v) # rs)"
  shows "keeps k ((forget_pos (pos (s_iSize l) k w) l)\<lparr>s_caSeq := first_gone (s_iSize l) k (s_caSeq l) w v rs,
     s_iHead := next_of (s_iSize l) k (behind_first w v rs), s_iLength := s_iLength l - 1\<rparr>) (behind_first w v rs)"
proof -
  let ?N = "s_iSize l"
  note kf = keeps_facts [OF h] and bf = lost_behind_first [OF keeps_facts(3) [OF h]]
  have "linked ?N k (first_gone ?N k (s_caSeq l) w v rs) (behind_first w v rs)"
  proof (cases "w = v")
    case True
    then show ?thesis using linked_drop_first [OF kf(1)] by (simp add: first_gone_def behind_first_def)
  next
    case False
    then have "w + 1 \<le> v" using kf(3) by simp
    then have f: "fresh_start ?N (w + 1) ((w, v) # rs)" using fresh_inner [of "[]" w v rs] kf(3,4) by simp
    then have f': "fresh_start ?N (w + 1) rs" by (auto simp: fresh_start_def elim!: narrow_subset)
    have "at_node ?N k w \<noteq> at_node ?N k (w + 1)" using fresh_frames [OF f, of k] by simp
    with linked_first [OF linked_drop_first [OF kf(1), of "next_of ?N k rs"] f', of v] False show ?thesis
      by (simp add: first_gone_def behind_first_def list_update_swap)
  qed
  moreover have "narrow ?N (lost (behind_first w v rs))" using kf(4) by (rule narrow_subset) (use bf in auto)
  moreover have "s_iLastInsertPos l = -1 \<or> s_iLastInsertPos l \<in> pos ?N k ` starts ((w, v) # rs)"
    using h by (simp add: keeps_def links_def)
  then have "s_iLastInsertPos (forget_pos (pos ?N k w) l) = -1 \<or> s_iLastInsertPos (forget_pos (pos ?N k w) l) \<in> pos ?N k ` starts (behind_first w v rs)"
    by (auto simp: forget_pos_def behind_first_def)
  moreover have "s_iSize (forget_pos p l) = ?N" for p by (simp add: forget_pos_def)
  ultimately show ?thesis using kf(5) bf by (simp add: keeps_def links_def)
qed

lemma forget_pos_fields [simp]:
  "s_caSeq (forget_pos p l) = s_caSeq l" "s_iHead (forget_pos p l) = s_iHead l" "s_iLength (forget_pos p l) = s_iLength l" "s_iSize (forget_pos p l) = s_iSize l"
  by (simp_all add: forget_pos_def)

lemma first_reads:
  assumes h: "keeps k l ((w, v) # rs)"
  shows "node_at (s_caSeq l) (s_iHead l) = Some \<lparr>nseqstart = sn w, nseqend = seq_end w v, ninext = next_of (s_iSize l) k rs\<rparr>"
    "s_iHead l = pos (s_iSize l) k w" "0 < s_iLength l"
    "int32 (s_iLength l - 1) = Some (s_iLength l - 1)"
proof -
  note kf = keeps_facts [OF h]
  show hd: "s_iHead l = pos (s_iSize l) k w" using kf(2) by simp
  show "node_at (s_caSeq l) (s_iHead l) = Some \<lparr>nseqstart = sn w, nseqend = seq_end w v, ninext = next_of (s_iSize l) k rs\<rparr>"
    using linked_node [of "s_iSize l" k "s_caSeq l" "[]" w v rs] kf(1) hd by (simp add: linked_access [OF kf(1) refl])
  show "0 < s_iLength l" using kf(9,11) by auto
  then show "int32 (s_iLength l - 1) = Some (s_iLength l - 1)" using kf(7,10) by (intro int32_in) linarith+
qed

text \<open>The statements that turn a longer first range into its rest, in the two orders the code has them.\<close>

lemma rest_of_first:
  assumes h: "keeps k l ((w, v) # rs)" and wv: "w < v"
  obtains A1 where "rest_node (pos (s_iSize l) k (w + 1)) (pos (s_iSize l) k w) (sn w) (s_caSeq l) = Some A1"
    "do { A \<leftarrow> set_node A1 (pos (s_iSize l) k w) (\<lambda>n. n\<lparr>nseqstart := -1, nseqend := -1\<rparr>); copy_next (pos (s_iSize l) k (w + 1)) (pos (s_iSize l) k w) A }
       = Some (first_gone (s_iSize l) k (s_caSeq l) w v rs)"
    "do { A \<leftarrow> set_node A1 (pos (s_iSize l) k w) (\<lambda>n. n\<lparr>nseqend := -1\<rparr>); A \<leftarrow> copy_next (pos (s_iSize l) k (w + 1)) (pos (s_iSize l) k w) A;
       set_node A (pos (s_iSize l) k w) (\<lambda>n. n\<lparr>nseqstart := -1\<rparr>) } = Some (first_gone (s_iSize l) k (s_caSeq l) w v rs)"
proof -
  let ?N = "s_iSize l" and ?A = "s_caSeq l"
  note kf = keeps_facts [OF h]
  have lk: "linked ?N k ?A ([] @ (w, v) # rs)" using kf(1) by simp
  have f: "fresh_start ?N (w + 1) ([] @ (w, v) # rs)" using fresh_inner [of "[]" w v rs] kf(3,4) wv by simp
  have ne: "at_node ?N k w \<noteq> at_node ?N k (w + 1)" using fresh_frames [OF f, of k] by simp
  have "w \<in> lost ((w, v) # rs)" "v \<in> lost ((w, v) # rs)" using wv by auto
  then have "\<bar>v - w\<bar> < ?N" using kf(4) unfolding narrow_def by blast
  then obtain nx where r: "rest_node (pos ?N k (w + 1)) (pos ?N k w) (sn w) ?A =
      Some (?A[at_node ?N k (w + 1) := \<lparr>nseqstart = sn (w + 1), nseqend = seq_end (w + 1) v, ninext = nx\<rparr>])"
    using rest_node_sn [OF lk f _ wv] kf(7) by auto
  note acc = linked_access [OF kf(1)] and ix = linked_index(1) [OF kf(1)] and nd = linked_node [OF lk]
  show thesis
    by (rule that [OF r]) (use ne ix nd wv in \<open>auto simp: acc copy_next_def first_gone_def list_update_swap\<close>)
qed

lemma pop_keeps:
  assumes h: "keeps k l rs"
  shows "\<exists>l' rs'. popLostSeq l = Some (if lost rs = {} then -1 else sn (Min (lost rs)), l') \<and> keeps k l' rs'
    \<and> lost rs' = lost rs - {Min (lost rs)} \<and> s_iSize l' = s_iSize l"
proof (cases rs)
  case Nil
  with h keeps_facts [OF h] show ?thesis by (auto simp: popLostSeq_def)
next
  case (Cons r rs2)
  obtain w v where r: "rs = (w, v) # rs2" using Cons by (cases r) auto
  let ?N = "s_iSize l" and ?l = "forget_pos (pos (s_iSize l) k w) l"
  note h' = h [unfolded r] and kf = keeps_facts [OF h]
  note fr = first_reads [OF h']
  have wv: "w \<le> v" "w \<in> lost rs" "finite (lost rs)" using kf(3) total_length_card [OF kf(3)] by (auto simp: r)
  then have "Min (lost rs) = w" using first_least [of w v rs2] kf(3) by (intro Min_eqI) (auto simp: r)
  moreover have "popLostSeq l = Some (sn w, ?l\<lparr>s_caSeq := first_gone ?N k (s_caSeq l) w v rs2, s_iHead := next_of ?N k (behind_first w v rs2), s_iLength := s_iLength l - 1\<rparr>)"
  proof (cases "w = v")
    case True
    have "set_node (s_caSeq l) (pos ?N k w) (\<lambda>n. n\<lparr>nseqstart := -1\<rparr>) = Some (first_gone ?N k (s_caSeq l) w v rs2)"
      using True linked_node [of ?N k "s_caSeq l" "[]" w v rs2] kf(1) r by (simp add: linked_access [OF kf(1) refl] first_gone_def seq_end_def)
    then show ?thesis using True fr by (simp add: popLostSeq_def Let_def seq_end_def change_length_def behind_first_def)
  next
    case False
    then have "w < v" using wv by simp
    from rest_of_first [OF h' this] obtain A1 where A1: "rest_node (pos ?N k (w + 1)) (pos ?N k w) (sn w) (s_caSeq l) = Some A1"
      "do { A \<leftarrow> set_node A1 (pos ?N k w) (\<lambda>n. n\<lparr>nseqstart := -1, nseqend := -1\<rparr>); copy_next (pos ?N k (w + 1)) (pos ?N k w) A } = Some (first_gone ?N k (s_caSeq l) w v rs2)"
      by metis
    have "ring (pos ?N k w) 1 ?N = Some (pos ?N k (w + 1))" using ring_pos [OF kf(6,7)] by simp
    with False fr A1 show ?thesis by (auto simp: popLostSeq_def Let_def seq_end_def change_length_def behind_first_def bind_eq_Some_conv)
  qed
  ultimately show ?thesis
    using first_gone_keeps [OF h'] lost_behind_first(1) [of w v rs2] kf(3) wv(2) by (auto simp: r simp del: lost_simps)
qed

section \<open>All numbers up to a given one\<close>

lemma remove_head_keeps:
  assumes h: "keeps k l ((w, v) # rs)"
  shows "\<exists>l'. remove_head (pos (s_iSize l) k w) (sn w) l = Some l' \<and> keeps k l' (behind_first w v rs) \<and> s_iSize l' = s_iSize l"
proof -
  let ?N = "s_iSize l" and ?l = "forget_pos (pos (s_iSize l) k w) l"
  note kf = keeps_facts [OF h] and fr = first_reads [OF h]
  have ring: "ring (pos ?N k w) 1 ?N = Some (pos ?N k (w + 1))" using ring_pos [OF kf(6,7)] by simp
  have "remove_head (pos ?N k w) (sn w) l = Some (?l\<lparr>s_caSeq := first_gone ?N k (s_caSeq l) w v rs, s_iHead := next_of ?N k (behind_first w v rs), s_iLength := s_iLength l - 1\<rparr>)"
  proof (cases "w = v")
    case True
    have "set_node (s_caSeq l) (pos ?N k w) (\<lambda>n. n\<lparr>nseqstart := -1\<rparr>) = Some (first_gone ?N k (s_caSeq l) w v rs)"
      using True linked_node [of ?N k "s_caSeq l" "[]" w v rs] kf(1) by (simp add: linked_access [OF kf(1) refl] first_gone_def seq_end_def)
    then show ?thesis using True fr ring by (simp add: remove_head_def seq_end_def change_length_def behind_first_def)
  next
    case False
    then have "w < v" using kf(3) by simp
    from rest_of_first [OF h this] obtain A1 where A1: "rest_node (pos ?N k (w + 1)) (pos ?N k w) (sn w) (s_caSeq l) = Some A1"
      "do { A \<leftarrow> set_node A1 (pos ?N k w) (\<lambda>n. n\<lparr>nseqend := -1\<rparr>); A \<leftarrow> copy_next (pos ?N k (w + 1)) (pos ?N k w) A;
         set_node A (pos ?N k w) (\<lambda>n. n\<lparr>nseqstart := -1\<rparr>) } = Some (first_gone ?N k (s_caSeq l) w v rs)"
      by metis
    with False fr ring show ?thesis by (auto simp: remove_head_def seq_end_def change_length_def behind_first_def bind_eq_Some_conv)
  qed
  with first_gone_keeps [OF h] show ?thesis by auto
qed

text \<open>The list cut behind \<open>x\<close>.\<close>

definition cut_behind :: "int \<Rightarrow> ranges \<Rightarrow> ranges \<Rightarrow> ranges \<Rightarrow> bool" where
  "cut_behind x rs pre rest \<longleftrightarrow> sorted_ranges (pre @ rest) \<and> lost (pre @ rest) = lost rs \<and> total_length (pre @ rest) = total_length rs
     \<and> starts rs \<subseteq> starts (pre @ rest) \<and> pre \<noteq> [] \<and> (\<forall>y\<in>lost pre. y \<le> x) \<and> (\<forall>y\<in>lost rest. x < y)"

lemma cut_rest:
  assumes "cut_behind x rs pre rest"
  shows "lost rest = {y \<in> lost rs. x < y}"
proof -
  have "lost rs = lost pre \<union> lost rest" "\<forall>y\<in>lost pre. \<not> x < y" "\<forall>y\<in>lost rest. x < y"
    using assms by (auto simp: cut_behind_def)
  then show ?thesis by blast
qed

lemma cut_head:
  assumes cb: "cut_behind x rs pre rest" and w: "w \<in> lost rs" "\<forall>y\<in>lost rs. w \<le> y"
  shows "head_pos P (pre @ rest) nx = P w"
proof -
  have l: "lost (pre @ rest) = lost rs" "sorted_ranges (pre @ rest)" "pre \<noteq> []" using cb by (simp_all add: cut_behind_def)
  then obtain c d pre' where pre: "pre = (c, d) # pre'" by (cases pre) auto
  then have "c \<in> lost (pre @ rest)" using l(2) by auto
  then have "w \<le> c" using w(2) l(1) by metis
  moreover have "c \<le> w" using first_least [of c d "pre' @ rest" w] w(1) l pre by (metis append_Cons)
  ultimately show ?thesis by (simp add: pre)
qed

lemma lost_above: "sorted_ranges ys \<Longrightarrow> \<forall>y\<in>starts ys. x < y \<Longrightarrow> \<forall>y\<in>lost ys. x < y"
  by (fastforce simp: lost_iff starts_def)

lemma lost_below:
  assumes "sorted_ranges (xs @ (u, d) # ys)" "u \<le> x"
  shows "\<forall>y\<in>lost xs. y \<le> x"
  using assms by (fastforce simp: lost_iff)

lemma cut_between:
  assumes "sorted_ranges (xs @ (u, d) # ys)" "u \<le> x" "d \<le> x" "\<forall>y\<in>starts ys. x < y"
  shows "cut_behind x (xs @ (u, d) # ys) (xs @ [(u, d)]) ys"
  using assms lost_below [OF assms(1,2)] lost_above [of ys x] by (auto simp: cut_behind_def)

lemma cut_inside:
  assumes "sorted_ranges (xs @ (u, d) # ys)" "u \<le> x" "x < d"
  shows "cut_behind x (xs @ (u, d) # ys) (xs @ [(u, x)]) ((x + 1, d) # ys)"
proof -
  have ys: "\<forall>y\<in>lost ys. x < y" using starts_order [OF assms(1)] assms lost_above [of ys x] by fastforce
  have "sorted_ranges (xs @ (u, x) # (x + 1, d) # ys)" using assms by fastforce
  moreover have "{u..x} \<union> {x + 1..d} = {u..d}" using assms(2,3) by auto
  ultimately show ?thesis using ys lost_below [OF assms(1,2)] assms by (auto simp: cut_behind_def)
qed

lemma start_at:
  assumes h: "linked N k A rs" and close: "\<forall>y\<in>starts rs. \<bar>y - x\<bar> < m_iSeqNoTH" and x: "x \<notin> starts rs"
  shows "sn x \<noteq> nseqstart (A ! at_node N k x)"
proof (cases "\<exists>y\<in>starts rs. at_node N k y = at_node N k x")
  case True
  then obtain y where y: "y \<in> starts rs" "at_node N k y = at_node N k x" by blast
  from starts_split [OF y(1)] obtain xs d ys where "rs = xs @ (y, d) # ys" .
  then have "nseqstart (A ! at_node N k x) = sn y" using linked_node [of N k A xs y d ys] h y(2) by simp
  moreover have "\<bar>x - y\<bar> < 0x80000000" "x \<noteq> y" using close y(1) x by fastforce+
  ultimately show ?thesis using sn_inj by simp
next
  case False
  then have "vacant (A ! at_node N k x)" using h linked_index(1) [OF h] by (auto simp: linked_def rest_vacant_def)
  then show ?thesis by (simp add: vacant_def)
qed

text \<open>
  The node whose range ends at or behind \<open>x\<close>, or is the last before it: the one that starts at \<open>x\<close>, or the prior node.
\<close>

lemma head_target:
  assumes h: "keeps k l ((w, v) # rs)" and x: "w < x" and close: "\<forall>y\<in>lost ((w, v) # rs). \<bar>y - x\<bar> < m_iSeqNoTH"
  obtains xs u d ys where "(w, v) # rs = xs @ (u, d) # ys" "u \<le> x" "\<forall>y\<in>starts ys. x < y"
    "u = x \<and> sn x = nseqstart (s_caSeq l ! at_node (s_iSize l) k x)
     \<or> u < x \<and> sn x \<noteq> nseqstart (s_caSeq l ! at_node (s_iSize l) k x)
       \<and> prior_node (length (s_caSeq l)) (s_caSeq l) (sn x) (pos (s_iSize l) k w) = Some (pos (s_iSize l) k u)"
proof -
  let ?N = "s_iSize l" and ?rs = "(w, v) # rs"
  note kf = keeps_facts [OF h]
  have sc: "\<forall>y\<in>starts ?rs. \<bar>y - x\<bar> < m_iSeqNoTH" using close starts_lost [OF kf(3)] by blast
  show thesis
  proof (cases "x \<in> starts ?rs")
    case True
    from starts_split [OF True] obtain xs d ys where rs: "?rs = xs @ (x, d) # ys" .
    moreover have "\<forall>y\<in>starts ys. x < y" using starts_order [OF kf(3) [unfolded rs]] kf(3) [unfolded rs] by fastforce
    ultimately show ?thesis using linked_node [OF kf(1) [unfolded rs]] that [of xs x d ys] by simp
  next
    case False
    have "linked ?N k (s_caSeq l) ([] @ (w, v) # rs)" "sorted_ranges rs" "\<forall>y\<in>starts rs. \<bar>y - x\<bar> < m_iSeqNoTH" "length rs < length (s_caSeq l)"
      using linked_length [OF kf(1)] kf(1,3) sc by simp_all
    from prior_node_finds [OF this(1,2) x this(3,4)] obtain xs u d ys where
      p: "?rs = xs @ (u, d) # ys" "prior_node (length (s_caSeq l)) (s_caSeq l) (sn x) (pos ?N k w) = Some (pos ?N k u)" "u < x" "\<forall>y\<in>starts ys. x \<le> y"
      unfolding append_Nil by blast
    moreover have "\<forall>y\<in>starts ys. x < y" using p(1,4) False by (metis UnCI insertCI le_neq_trans starts_simps(2,3))
    ultimately show ?thesis using start_at [OF kf(1) sc False] that [of xs u d ys] by simp
  qed
qed

text \<open>The two ways to cut a range: at its start, where the node keeps one number, and behind it.\<close>

definition cut_nodes :: "int \<Rightarrow> int \<Rightarrow> snd_node list \<Rightarrow> int \<Rightarrow> int \<Rightarrow> int \<Rightarrow> ranges \<Rightarrow> snd_node list" where
  "cut_nodes N k A u x d ys =
     A[at_node N k (x + 1) := \<lparr>nseqstart = sn (x + 1), nseqend = seq_end (x + 1) d, ninext = next_of N k ys\<rparr>,
       at_node N k u := \<lparr>nseqstart = sn u, nseqend = seq_end u x, ninext = pos N k (x + 1)\<rparr>]"

lemma split_array:
  assumes h: "linked N k A (xs @ (u, d) # ys)" and f: "fresh_start N (x + 1) (xs @ (u, d) # ys)"
    and x: "u \<le> x" "x < d" "\<bar>d - x\<bar> < m_iSeqNoTH"
  obtains A1 where "rest_node (pos N k (x + 1)) (pos N k u) (sn x) A = Some A1"
    "u = x \<longrightarrow> do { A \<leftarrow> copy_next (pos N k (x + 1)) (pos N k u) A1; A \<leftarrow> set_node A (pos N k u) (\<lambda>n. n\<lparr>ninext := pos N k (x + 1)\<rparr>);
       set_node A (pos N k u) (\<lambda>n. n\<lparr>nseqend := -1\<rparr>) } = Some (cut_nodes N k A u x d ys)"
    "u < x \<longrightarrow> do { A \<leftarrow> set_node A1 (pos N k u) (\<lambda>n. n\<lparr>nseqend := sn x\<rparr>); A \<leftarrow> copy_next (pos N k (x + 1)) (pos N k u) A;
       set_node A (pos N k u) (\<lambda>n. n\<lparr>ninext := pos N k (x + 1)\<rparr>) } = Some (cut_nodes N k A u x d ys)"
proof -
  have ne: "at_node N k u \<noteq> at_node N k (x + 1)" using fresh_frames [OF f, of k] by simp
  note acc = linked_access [OF h] and ix = linked_index(1) [OF h] and nd = linked_node [OF h]
  from rest_node_sn [OF h f x] obtain nx where r: "rest_node (pos N k (x + 1)) (pos N k u) (sn x) A =
    Some (A[at_node N k (x + 1) := \<lparr>nseqstart = sn (x + 1), nseqend = seq_end (x + 1) d, ninext = nx\<rparr>])" by blast
  show thesis
    by (rule that [OF r]) (use ne ix nd in \<open>auto simp: cut_nodes_def acc copy_next_def list_update_swap seq_end_def\<close>)
qed

lemma new_head_cuts:
  assumes h: "keeps k l ((w, v) # rs)" and x: "w < x" and close: "\<forall>y\<in>lost ((w, v) # rs). \<bar>y - x\<bar> < m_iSeqNoTH"
  shows "\<exists>A pre rest. new_head (pos (s_iSize l) k x) (sn x) l = Some (next_of (s_iSize l) k rest, A)
    \<and> linked (s_iSize l) k A (pre @ rest) \<and> cut_behind x ((w, v) # rs) pre rest"
proof -
  let ?N = "s_iSize l" and ?rs = "(w, v) # rs"
  note kf = keeps_facts [OF h]
  have ring: "ring (pos ?N k x) 1 ?N = Some (pos ?N k (x + 1))" using ring_pos [OF kf(6,7)] by simp
  note acc = linked_access [OF kf(1) refl]
  from head_target [OF assms] obtain xs u d ys where p: "?rs = xs @ (u, d) # ys" "u \<le> x" "\<forall>y\<in>starts ys. x < y"
    "u = x \<and> sn x = nseqstart (s_caSeq l ! at_node ?N k x)
       \<or> u < x \<and> sn x \<noteq> nseqstart (s_caSeq l ! at_node ?N k x) \<and> prior_node (length (s_caSeq l)) (s_caSeq l) (sn x) (pos ?N k w) = Some (pos ?N k u)" .
  note lk = kf(1) [unfolded p(1)] and so = kf(3) [unfolded p(1)]
  note nd = linked_node [OF lk]
  have dl: "u \<le> d" "d \<in> lost ?rs" using so p(1) by auto
  then have dx: "\<bar>d - x\<bar> < m_iSeqNoTH" using close by blast
  obtain c where c: "seqcmp (sn d) (sn x) = Some c" "c > 0 \<longleftrightarrow> d > x" using seqcmp_sn [OF dx] by metis
  show ?thesis
  proof (cases "x < d")
    case True
    have f: "fresh_start ?N (x + 1) (xs @ (u, d) # ys)" using fresh_inner [OF so] kf(4) p(1,2) True by simp
    obtain A1 where A1: "rest_node (pos ?N k (x + 1)) (pos ?N k u) (sn x) (s_caSeq l) = Some A1"
      "u = x \<longrightarrow> do { A \<leftarrow> copy_next (pos ?N k (x + 1)) (pos ?N k u) A1; A \<leftarrow> set_node A (pos ?N k u) (\<lambda>n. n\<lparr>ninext := pos ?N k (x + 1)\<rparr>);
         set_node A (pos ?N k u) (\<lambda>n. n\<lparr>nseqend := -1\<rparr>) } = Some (cut_nodes ?N k (s_caSeq l) u x d ys)"
      "u < x \<longrightarrow> do { A \<leftarrow> set_node A1 (pos ?N k u) (\<lambda>n. n\<lparr>nseqend := sn x\<rparr>); A \<leftarrow> copy_next (pos ?N k (x + 1)) (pos ?N k u) A;
         set_node A (pos ?N k u) (\<lambda>n. n\<lparr>ninext := pos ?N k (x + 1)\<rparr>) } = Some (cut_nodes ?N k (s_caSeq l) u x d ys)"
      by (rule split_array [OF lk f p(2) True dx])
    have "new_head (pos ?N k x) (sn x) l = Some (pos ?N k (x + 1), cut_nodes ?N k (s_caSeq l) u x d ys)"
    proof (cases "u = x")
      case eq: True
      have ux: "sn x = nseqstart (s_caSeq l ! at_node ?N k x)" using p(4) eq by simp
      have "nseqend (s_caSeq l ! at_node ?N k x) \<noteq> -1" using nd eq True by (simp add: seq_end_def)
      with ux ring A1(1) A1(2) [THEN mp, OF eq] eq show ?thesis by (auto simp: new_head_def acc Let_def bind_eq_Some_conv)
    next
      case False
      then have ux: "u < x" "sn x \<noteq> nseqstart (s_caSeq l ! at_node ?N k x)" "prior_node (length (s_caSeq l)) (s_caSeq l) (sn x) (s_iHead l) = Some (pos ?N k u)"
        using p(4) kf(2) by simp_all
      have "nseqend (s_caSeq l ! at_node ?N k u) = sn d" "sn d \<noteq> -1" "c > 0" using nd True ux(1) c(2) by (simp_all add: seq_end_def)
      with ux(2,3) ring A1(1) A1(3) [THEN mp, OF ux(1)] c(1) show ?thesis by (auto simp: new_head_def acc Let_def bind_eq_Some_conv)
    qed
    moreover have "linked ?N k (cut_nodes ?N k (s_caSeq l) u x d ys) ((xs @ [(u, x)]) @ (x + 1, d) # ys)"
      using linked_split [OF lk f] by (simp add: cut_nodes_def)
    ultimately show ?thesis using cut_inside [OF so p(2) True] p(1) by (metis pos_simps(2))
  next
    case False
    then have "new_head (pos ?N k x) (sn x) l = Some (next_of ?N k ys, s_caSeq l)"
      using p(4) dl c nd ring kf(2) by (auto simp: new_head_def acc seq_end_def Let_def)
    moreover have "linked ?N k (s_caSeq l) ((xs @ [(u, d)]) @ ys)" using lk by simp
    ultimately show ?thesis using cut_between [OF so p(2) _ p(3)] False p(1) by (metis linorder_not_less)
  qed
qed

section \<open>The nodes before the new head\<close>

lemma empty_out_sn:
  assumes h: "linked (s_iSize l) k (s_caSeq l) ((c, d) # rs)" and cd: "c \<le> d" "d - c < s_iSize l"
    and len: "0 \<le> s_iLength l" "s_iLength l \<le> s_iSize l"
  shows "empty_out (pos (s_iSize l) k c) l = Some (next_of (s_iSize l) k rs, (forget_pos (pos (s_iSize l) k c) l)\<lparr>
    s_caSeq := (s_caSeq l)[at_node (s_iSize l) k c := \<lparr>nseqstart = -1, nseqend = -1, ninext = next_of (s_iSize l) k rs\<rparr>],
    s_iLength := s_iLength l - (d - c + 1)\<rparr>)"
proof -
  let ?N = "s_iSize l"
  have N: "?N \<le> m_iSeqNoTH" using linked_size [OF h] by blast
  have nd: "s_caSeq l ! at_node ?N k c = \<lparr>nseqstart = sn c, nseqend = seq_end c d, ninext = next_of ?N k rs\<rparr>"
    using linked_node [of ?N k "s_caSeq l" "[]" c d rs] h by simp
  have "change_length (- (d - c + 1)) l = Some (l\<lparr>s_iLength := s_iLength l - (d - c + 1)\<rparr>)"
    using change_length_in [of l "- (d - c + 1)"] cd len N by simp
  moreover have "seqlen (sn c) (sn d) = Some (d - c + 1)" using cd N by (intro seqlen_sn) linarith+
  ultimately show ?thesis
    using nd linked_index(1) [OF h] by (cases "c = d") (simp_all add: empty_out_def linked_access [OF h] seq_end_def forget_pos_def)
qed

lemma empty_loop_links:
  assumes "linked (s_iSize l) k (s_caSeq l) (pre @ rest)" "s_iHead l = next_of (s_iSize l) k rest"
    "s_iLastInsertPos l = -1 \<or> s_iLastInsertPos l \<in> pos (s_iSize l) k ` starts (pre @ rest)"
    "sorted_ranges (pre @ rest)" "narrow (s_iSize l) (lost (pre @ rest))" "s_iLength l = total_length (pre @ rest)" "length pre \<le> fuel"
  shows "\<exists>l'. empty_loop fuel (next_of (s_iSize l) k (pre @ rest)) l = Some l' \<and> keeps k l' rest \<and> s_iSize l' = s_iSize l"
  using assms
proof (induction pre arbitrary: l fuel)
  case Nil
  then show ?case by (cases fuel) (simp_all add: keeps_def links_def)
next
  case (Cons r pre)
  obtain c d where r: "r = (c, d)" by (cases r)
  obtain f where f: "fuel = Suc f" using Cons.prems(7) by (cases fuel) auto
  let ?N = "s_iSize l"
  have lk: "linked ?N k (s_caSeq l) ((c, d) # pre @ rest)" using Cons.prems(1) by (simp add: r)
  have lk0: "linked ?N k (s_caSeq l) ([] @ (c, d) # pre @ rest)" using lk by simp
  have N: "0 < ?N" using linked_size [OF lk] by blast
  have ne: "pos ?N k c \<noteq> next_of ?N k rest"
    using linked_frames [OF lk0] linked_index(2) [OF lk] by (cases rest) auto
  have cd: "c \<le> d" "c \<in> lost ((r # pre) @ rest)" "d \<in> lost ((r # pre) @ rest)" using Cons.prems(4) by (auto simp: r)
  then have "\<bar>d - c\<bar> < ?N" using Cons.prems(5) unfolding narrow_def by blast
  moreover have "0 \<le> s_iLength l" "s_iLength l \<le> ?N"
    using Cons.prems(6) total_length_pos [OF Cons.prems(4)] total_length_narrow [OF Cons.prems(4,5) N] by linarith+
  ultimately have step: "empty_out (pos ?N k c) l = Some (next_of ?N k (pre @ rest), (forget_pos (pos ?N k c) l)\<lparr>
      s_caSeq := (s_caSeq l)[at_node ?N k c := \<lparr>nseqstart = -1, nseqend = -1, ninext = next_of ?N k (pre @ rest)\<rparr>], s_iLength := s_iLength l - (d - c + 1)\<rparr>)"
    using empty_out_sn [OF lk cd(1)] by simp
  define l1 where "l1 = (forget_pos (pos ?N k c) l)\<lparr>
      s_caSeq := (s_caSeq l)[at_node ?N k c := \<lparr>nseqstart = -1, nseqend = -1, ninext = next_of ?N k (pre @ rest)\<rparr>], s_iLength := s_iLength l - (d - c + 1)\<rparr>"
  have "\<exists>l'. empty_loop f (next_of (s_iSize l1) k (pre @ rest)) l1 = Some l' \<and> keeps k l' rest \<and> s_iSize l' = s_iSize l1"
  proof (rule Cons.IH)
    show "linked (s_iSize l1) k (s_caSeq l1) (pre @ rest)" using linked_drop_first [OF lk] by (simp add: l1_def)
    show "s_iLastInsertPos l1 = -1 \<or> s_iLastInsertPos l1 \<in> pos (s_iSize l1) k ` starts (pre @ rest)"
      using Cons.prems(3) by (auto simp: l1_def r forget_pos_def)
    have "narrow ?N (lost (pre @ rest))" using Cons.prems(5) by (rule narrow_subset) (auto simp: r)
    then show "narrow (s_iSize l1) (lost (pre @ rest))" by (simp add: l1_def)
  qed (use Cons.prems r f in \<open>auto simp: l1_def\<close>)
  with step ne Cons.prems(2) show ?case by (simp add: f r l1_def)
qed

lemma remove_keeps:
  assumes h: "keeps k l rs" and close: "\<forall>y\<in>lost rs. \<bar>y - x\<bar> < m_iSeqNoTH"
  shows "\<exists>l' rs'. removeUpTo (sn x) l = Some l' \<and> keeps k l' rs' \<and> lost rs' = {y \<in> lost rs. x < y} \<and> s_iSize l' = s_iSize l"
proof (cases rs)
  case Nil
  with h keeps_facts [OF h] show ?thesis by (auto simp: removeUpTo_def)
next
  case (Cons r rs2)
  obtain w v where r: "rs = (w, v) # rs2" using Cons by (cases r) auto
  let ?N = "s_iSize l"
  note h' = h [unfolded r] and kf = keeps_facts [OF h]
  note fr = first_reads [OF h']
  have w: "w \<in> lost rs" "\<forall>y\<in>lost rs. w \<le> y" using kf(3) first_least [of w v rs2] by (auto simp: r)
  then have off: "seqoff (sn w) (sn x) = Some (x - w)" using close by (intro seqoff_sn) fastforce
  have wx: "\<bar>x - w\<bar> < m_iSeqNoTH" using close w(1) by fastforce
  consider "x < w" | "x = w" | "w < x" by linarith
  then show ?thesis
  proof cases
    case 1
    have p: "0 \<le> pos ?N k w" "pos ?N k w < ?N" using pos_range kf(6) by blast+
    have "\<exists>loc. ring_any (pos ?N k w) (x - w) ?N = Some loc"
      using p wx kf(6,12) 1 by (simp add: ring_any_def ring_def c_rem_def)
    then have "removeUpTo (sn x) l = Some l" using fr off 1 by (auto simp: removeUpTo_def)
    moreover have "{y \<in> lost rs. x < y} = lost rs" using w(2) 1 by fastforce
    ultimately show ?thesis using h by auto
  next
    case 2
    have "ring_any (pos ?N k w) 0 ?N = Some (pos ?N k w)" using ring_any_pos [OF kf(6,12), of 0] kf(6) by simp
    then have "removeUpTo (sn x) l = remove_head (pos ?N k w) (sn w) l" using fr off 2 by (simp add: removeUpTo_def)
    moreover have "lost rs - {w} = {y \<in> lost rs. x < y}" using w(2) 2 by auto
    then have "lost (behind_first w v rs2) = {y \<in> lost rs. x < y}" using lost_behind_first(1) [of w v rs2] kf(3) r by simp
    ultimately show ?thesis using remove_head_keeps [OF h'] by metis
  next
    case 3
    have ring: "ring_any (pos ?N k w) (x - w) ?N = Some (pos ?N k x)" using ring_any_pos [OF kf(6,12), of "x - w" k w] wx kf(6) 3 by simp
    from new_head_cuts [OF h' 3] close r obtain A pre rest where nh: "new_head (pos ?N k x) (sn x) l = Some (next_of ?N k rest, A)"
      "linked ?N k A (pre @ rest)" "cut_behind x rs pre rest" by auto
    note cb = nh(3) [unfolded cut_behind_def]
    have hd: "next_of ?N k (pre @ rest) = pos ?N k w" using cut_head [OF nh(3) w] .
    have last: "s_iLastInsertPos l = -1 \<or> s_iLastInsertPos l \<in> pos ?N k ` starts (pre @ rest)"
      using h cb unfolding keeps_def links_def by blast
    let ?l = "l\<lparr>s_caSeq := A, s_iHead := next_of ?N k rest\<rparr>"
    have "\<exists>l'. empty_loop (length A) (next_of ?N k (pre @ rest)) (l\<lparr>s_caSeq := A, s_iHead := next_of ?N k rest\<rparr>) = Some l' \<and> keeps k l' rest \<and> s_iSize l' = ?N"
      using empty_loop_links [of ?l k pre rest "length A"] nh(2) cb kf(4,5) last linked_length [OF nh(2)] by simp
    moreover have "removeUpTo (sn x) l = empty_loop (length A) (pos ?N k w) (l\<lparr>s_caSeq := A, s_iHead := next_of ?N k rest\<rparr>)"
      using fr off 3 ring nh(1) by (simp add: removeUpTo_def)
    ultimately show ?thesis using hd cut_rest [OF nh(3)] by metis
  qed
qed

end
