(* ===== verification/SndLossProps.thy ===== *)
theory SndLossProps
  imports SndLossRemove
begin

text \<open>
  The sender's loss list implements a set of lost numbers: its interpretation of the interface, and what happens outside
  its contract.
\<close>

section \<open>The interface\<close>

datatype resend_op = Lose int int | Settle int | Pop | Count

fun may_resend :: "int \<Rightarrow> int set \<Rightarrow> resend_op \<Rightarrow> bool" where
  "may_resend N S (Lose a b) \<longleftrightarrow> insertable N S a b"
| "may_resend N S (Settle x) \<longleftrightarrow> near_all x S"
| "may_resend N S Pop \<longleftrightarrow> True"
| "may_resend N S Count \<longleftrightarrow> True"

fun resend_spec :: "int set \<Rightarrow> resend_op \<Rightarrow> int set \<times> int" where
  "resend_spec S (Lose a b) = (S \<union> {a..b}, int (card (S \<union> {a..b})) - int (card S))"
| "resend_spec S (Settle x) = ({y \<in> S. x < y}, 0)"
| "resend_spec S Pop = (S - {Min S}, if S = {} then -1 else sn (Min S))"
| "resend_spec S Count = (S, int (card S))"

fun snd_step :: "snd_loss \<Rightarrow> resend_op \<Rightarrow> (snd_loss \<times> int) option" where
  "snd_step l (Lose a b) = do { (n, l) \<leftarrow> insert_snd (sn a) (sn b) l; Some (l, n) }"
| "snd_step l (Settle x) = do { l \<leftarrow> removeUpTo (sn x) l; Some (l, 0) }"
| "snd_step l Pop = do { (x, l) \<leftarrow> popLostSeq l; Some (l, x) }"
| "snd_step l Count = Some (l, getLossLength_snd l)"

definition snd_represents :: "int \<Rightarrow> int set \<Rightarrow> snd_loss \<Rightarrow> bool" where
  "snd_represents N S l \<longleftrightarrow> s_iSize l = N \<and> (\<exists>k rs. keeps k l rs \<and> lost rs = S)"

interpretation resend: loss_collection "snd_represents N" "may_resend N" resend_spec snd_step for N
proof
  fix S l oper
  assume r: "snd_represents N S l" and ok: "may_resend N S oper"
  then obtain k rs where h: "keeps k l rs" "lost rs = S" "s_iSize l = N" by (auto simp: snd_represents_def)
  show "\<exists>l'. snd_step l oper = Some (l', snd (resend_spec S oper)) \<and> snd_represents N (fst (resend_spec S oper)) l'"
  proof (cases oper)
    case (Lose a b)
    with insert_keeps [OF h(1), of a b] ok h show ?thesis by (fastforce simp: snd_represents_def)
  next
    case (Settle x)
    with remove_keeps [OF h(1), of x] ok h show ?thesis by (fastforce simp: near_all_def snd_represents_def abs_minus_commute)
  next
    case Pop
    with pop_keeps [OF h(1)] h show ?thesis by (fastforce simp: snd_represents_def)
  next
    case Count
    then show ?thesis using keeps_facts(3,5) [OF h(1)] total_length_card [of rs] h r by (simp add: getLossLength_snd_def)
  qed
qed

lemma new_resend:
  assumes "0 < n" "int n \<le> m_iMaxSize"
  shows "snd_represents (int n) {} (CSndLossList junk n)"
proof -
  have "keeps 0 (CSndLossList junk n) []"
    using assms by (simp add: keeps_def links_def linked_def CSndLossList_def rest_vacant_def vacant_def narrow_def)
  moreover have "s_iSize (CSndLossList junk n) = int n" by (simp add: CSndLossList_def)
  ultimately show ?thesis unfolding snd_represents_def using lost_simps(1) by blast
qed

text \<open>All that is lost comes out in order, each number once.\<close>

lemma pop_all:
  "snd_represents N S l \<Longrightarrow> finite S \<Longrightarrow>
    \<exists>l'. run snd_step l (replicate (card S) Pop @ [Pop]) = Some (l', map sn (sorted_list_of_set S) @ [-1])"
proof (induction "card S" arbitrary: S l)
  case 0
  then have "S = {}" by simp
  with resend.step_refines [OF 0(2), of Pop] show ?case by (auto simp del: snd_step.simps)
next
  case (Suc n)
  then have "S \<noteq> {}" by auto
  then have S: "S \<noteq> {}" "Min S \<in> S" using Suc.prems(2) by simp_all
  from resend.step_refines [OF Suc.prems(1), of Pop] S obtain l1 where
    l1: "snd_step l Pop = Some (l1, sn (Min S))" "snd_represents N (S - {Min S}) l1" by auto
  have "n = card (S - {Min S})" using Suc S by simp
  from Suc.hyps(1) [OF this l1(2)] Suc.prems(2) this obtain l2 where
    "run snd_step l1 (replicate n Pop @ [Pop]) = Some (l2, map sn (sorted_list_of_set (S - {Min S})) @ [-1])" by auto
  moreover have "sorted_list_of_set S = Min S # sorted_list_of_set (S - {Min S})"
    using sorted_list_of_set_nonempty [of S] Suc.prems(2) S by simp
  ultimately show ?case using l1(1) Suc.hyps(2) [symmetric] by (simp del: snd_step.simps)
qed

section \<open>The properties\<close>

text \<open>
  C22: the sender's loss list is a set of lost numbers: after any sequence of insertions of ranges, which may overlap
  what is there in any way, removals up to a number, pops and counts within the contract - what is lost fits a window the
  size of the array, a range is smaller than the array - every answer is that of the set: the number of numbers that were
  new, the least number, the count; across the wrap-around, with no failing assertion, no access outside the array, no
  overflow and every loop ended.
\<close>

theorem resend_list_is_a_set:
  assumes "0 < n" "int n \<le> m_iMaxSize" "in_contract (may_resend (int n)) resend_spec {} ops"
  shows "\<exists>l'. run snd_step (CSndLossList junk n) ops = Some (l', snd (spec_run resend_spec {} ops))"
  using resend.run_refines [OF new_resend [OF assms(1,2)] assms(3)] by blast

theorem resend_list_is_a_set_witness:
  "\<exists>l'. run snd_step (CSndLossList (\<lambda>i. 7) 16) [Lose 0x7FFFFFFE 0x7FFFFFFF, Lose 0x80000003 0x80000004, Lose 0x7FFFFFFF 0x80000003, Settle 0x80000001, Pop, Count] =
    Some (l', [2, 2, 3, 0, 2, 2])"
proof -
  let ?ops = "[Lose 0x7FFFFFFE 0x7FFFFFFF, Lose 0x80000003 0x80000004, Lose 0x7FFFFFFF 0x80000003, Settle 0x80000001, Pop, Count]"
  let ?S = "{0x7FFFFFFE..0x7FFFFFFF} \<union> {0x80000003..0x80000004} :: int set"
  have c: "card ?S = 4" by (subst card_Un_disjoint) auto
  have "resend_spec {} (Lose 0x7FFFFFFE 0x7FFFFFFF) = ({0x7FFFFFFE..0x7FFFFFFF}, 2)" by simp
  moreover have "resend_spec {0x7FFFFFFE..0x7FFFFFFF} (Lose 0x80000003 0x80000004) = (?S, 2)" by (simp add: c)
  moreover have "?S \<union> {0x7FFFFFFF..0x80000003} = {0x7FFFFFFE..0x80000004}" by auto
  then have "resend_spec ?S (Lose 0x7FFFFFFF 0x80000003) = ({0x7FFFFFFE..0x80000004}, 3)" by (simp add: c)
  moreover have "resend_spec {0x7FFFFFFE..0x80000004} (Settle 0x80000001) = ({0x80000002..0x80000004}, 0)" by auto
  moreover have "Min {0x80000002..0x80000004 :: int} = 0x80000002" "{0x80000002..0x80000004 :: int} - {0x80000002} = {0x80000003..0x80000004}"
    by (intro Min_eqI) auto
  then have "resend_spec {0x80000002..0x80000004} Pop = ({0x80000003..0x80000004}, 2)" by (simp add: sn_def)
  moreover have "resend_spec {0x80000003..0x80000004} Count = ({0x80000003..0x80000004}, 2)" by simp
  ultimately have spec: "snd (spec_run resend_spec {} ?ops) = [2, 2, 3, 0, 2, 2]" by (simp del: resend_spec.simps)
  have "in_contract (may_resend (int 16)) resend_spec {} ?ops"
    by (auto simp: insertable_def narrow_def near_all_def)
  note ok = resend_list_is_a_set [OF _ _ this, unfolded spec]
  show ?thesis by (rule ok) simp_all
qed

text \<open>
  Outside the contract: \<open>insert\<close> refuses a record that is too old only where \<open>m_iHead + offset + m_iSize\<close> is negative.
  Otherwise it may take the node of another range: the number 13 is forgotten, the list becomes a cycle, and once the
  count is down to 0 the assertion of \<open>popLostSeq\<close> fails.
\<close>

theorem old_loss_overwrites:
  "\<exists>l. run snd_step (CSndLossList (\<lambda>i. 0) 4) [Lose 10 10, Lose 13 13, Lose 9 9, Pop, Pop, Pop] = Some (l, [1, 1, 1, 9, 10, -1])
    \<and> popLostSeq l = None"
  by (simp add: CSndLossList_def insert_snd_def insertHead_def fill_node_def set_node_def node_at_def seqlen_def int32_def change_length_def
      seqoff_def seq_near_def ring_any_def ring_def c_rem_def place_def insert_behind_prior_def search_start_def seqcmp_def incseq_def insertAfter_def
      coalesce_def popLostSeq_def forget_pos_def sn_def upt_rec eval_nat_numeral Let_def)

end
