(* ===== verification/LossReport.thy ===== *)
theory LossReport
  imports SndLossProps
begin

text \<open>
  The loss report: what \<open>CUDT::processCtrlLossReport\<close> of \<open>srtcore/core.cpp\<close> does with the entries that the receiver's
  \<open>getLossArray\<close> wrote, and the way of a lost number from the receiver's loss list into the sender's and out again.
\<close>

section \<open>The sender's side of a connection\<close>

record snd_core =
  m_iSndLastAck :: int
  m_iSndCurrSeqNo :: int
  m_pSndLossList :: snd_loss
  traceSndLoss :: int
  sndLossTotal :: int
  recvNAK :: int
  recvNAKTotal :: int
  m_bBroken :: bool
  m_iBrokenCounter :: int

text \<open>What the handler calls: \<open>sendCtrl(UMSG_DROPREQ, ...)\<close>, \<open>updateCC(TEV_LOSSREPORT, ...)\<close> and the sending queue's \<open>update\<close>.\<close>

datatype report_event = DropReq int int | UpdateCC "int list" | Reschedule

definition range_bit :: "int \<Rightarrow> bool" where
  "range_bit x \<longleftrightarrow> (word_of_int x :: 32 word) AND 0x80000000 = 0x80000000"

definition seqno_value :: "int \<Rightarrow> int" where
  "seqno_value x = uint ((word_of_int x :: 32 word) AND 0x7FFFFFFF)"

text \<open>The two statistics that every insertion adds to.\<close>

definition count_loss :: "int \<Rightarrow> snd_core \<Rightarrow> snd_core option" where
  "count_loss num c = do {
     a \<leftarrow> int32 (traceSndLoss c + num);
     b \<leftarrow> int32 (sndLossTotal c + num);
     Some (c\<lparr>traceSndLoss := a, sndLossTotal := b\<rparr>) }"

definition insert_loss :: "int \<Rightarrow> int \<Rightarrow> snd_core \<Rightarrow> (int \<times> snd_core) option" where
  "insert_loss seqno1 seqno2 c = do {
     (num, l) \<leftarrow> insert_snd seqno1 seqno2 (m_pSndLossList c); Some (num, c\<lparr>m_pSndLossList := l\<rparr>) }"

text \<open>An entry with the range bit and the one behind it; the result says whether the report is secure.\<close>

definition loss_range :: "int \<Rightarrow> int \<Rightarrow> snd_core \<Rightarrow> (bool \<times> snd_core \<times> report_event list) option" where
  "loss_range lo hi c = do {
     c1 \<leftarrow> seqcmp lo hi;
     wrong \<leftarrow> (if c1 > 0 then Some True else do { c2 \<leftarrow> seqcmp hi (m_iSndCurrSeqNo c); Some (c2 > 0) });
     if wrong then Some (False, c, [])
     else do {
       c3 \<leftarrow> seqcmp lo (m_iSndLastAck c);
       (num, c, ev) \<leftarrow>
         (if c3 \<ge> 0 then do { (num, c) \<leftarrow> insert_loss lo hi c; Some (num, c, []) }
          else do {
            c4 \<leftarrow> seqcmp hi (m_iSndLastAck c);
            if c4 \<ge> 0 then do { (num, c) \<leftarrow> insert_loss (m_iSndLastAck c) hi c; Some (num, c, []) }
            else Some (0, c, [DropReq lo hi]) });
       c \<leftarrow> count_loss num c;
       Some (True, c, ev) } }"

definition loss_single :: "int \<Rightarrow> snd_core \<Rightarrow> (bool \<times> snd_core) option" where
  "loss_single x c = do {
     c1 \<leftarrow> seqcmp x (m_iSndLastAck c);
     if c1 \<ge> 0 then do {
       c2 \<leftarrow> seqcmp x (m_iSndCurrSeqNo c);
       if c2 > 0 then Some (False, c)
       else do { (num, c) \<leftarrow> insert_loss x x c; c \<leftarrow> count_loss num c; Some (True, c) } }
     else Some (True, c) }"

text \<open>The loop over the entries; a range without its second entry is read past the end of the report.\<close>

fun loss_entries :: "int list \<Rightarrow> snd_core \<Rightarrow> (bool \<times> snd_core \<times> report_event list) option" where
  "loss_entries [] c = Some (True, c, [])"
| "loss_entries (x # xs) c =
    (if range_bit x then case xs of
        [] \<Rightarrow> None
      | hi # ys \<Rightarrow> do {
          (secure, c, ev) \<leftarrow> loss_range (seqno_value x) hi c;
          if secure then do { (secure, c, ev') \<leftarrow> loss_entries ys c; Some (secure, c, ev @ ev') }
          else Some (False, c, ev) }
     else do {
       (secure, c) \<leftarrow> loss_single x c;
       if secure then loss_entries xs c else Some (False, c, []) })"

definition processCtrlLossReport :: "int list \<Rightarrow> snd_core \<Rightarrow> (snd_core \<times> report_event list) option" where
  "processCtrlLossReport losslist c = do {
     (secure, c, ev) \<leftarrow> loss_entries losslist c;
     if \<not> secure then Some (c\<lparr>m_bBroken := True, m_iBrokenCounter := 0\<rparr>, ev @ [UpdateCC losslist])
     else do {
       a \<leftarrow> int32 (recvNAK c + 1);
       b \<leftarrow> int32 (recvNAKTotal c + 1);
       Some (c\<lparr>recvNAK := a, recvNAKTotal := b\<rparr>, ev @ [UpdateCC losslist, Reschedule]) } }"

section \<open>Entries\<close>

lemma range_bit_sn [simp]: "range_bit (range_first (sn a))" "\<not> range_bit (sn a)" "seqno_value (range_first (sn a)) = sn a"
proof -
  have s: "0 \<le> sn a" "sn a < 0x80000000" by (rule sn_range)+
  note b = sn_bit [of a]
  have w: "(word_of_int (range_first (sn a)) :: 32 word) = word_of_int (sn a) OR 0x80000000" by (simp add: range_first_def)
  have m: "(0x80000000 :: 32 word) = 2 ^ 31" "(0x7FFFFFFF :: 32 word) = mask 31" by (simp_all add: mask_eq_exp_minus_1)
  show "range_bit (range_first (sn a))"
    unfolding range_bit_def w m(1) by (rule bit_word_eqI) (auto simp: bit_and_iff bit_or_iff bit_exp_iff)
  show "\<not> range_bit (sn a)"
  proof
    assume "range_bit (sn a)"
    then have "bit ((word_of_int (sn a) :: 32 word) AND 2 ^ 31) 31" by (simp add: range_bit_def bit_exp_iff)
    then show False using b by (simp add: bit_and_iff)
  qed
  have "((word_of_int (sn a) :: 32 word) OR 2 ^ 31) AND mask 31 = word_of_int (sn a)"
  proof (rule bit_word_eqI)
    fix n assume n: "n < LENGTH(32)"
    show "bit (((word_of_int (sn a) :: 32 word) OR 2 ^ 31) AND mask 31) n = bit (word_of_int (sn a) :: 32 word) n"
      unfolding bit_and_iff bit_or_iff bit_exp_iff bit_mask_iff using b n by (cases "n = 31") auto
  qed
  then have "seqno_value (range_first (sn a)) = uint (word_of_int (sn a) :: 32 word)" unfolding seqno_value_def w m by (rule arg_cong)
  moreover have "uint (word_of_int (sn a) :: 32 word) = sn a" using s by (simp add: uint_word_of_int)
  ultimately show "seqno_value (range_first (sn a)) = sn a" by (rule trans)
qed

section \<open>One range\<close>

text \<open>
  The state of the sender between two entries: what is lost lies between the last acknowledged and the last sent number,
  which the list has room for, and the statistics have room for all of it.
\<close>

definition sends :: "int \<Rightarrow> int \<Rightarrow> int \<Rightarrow> int set \<Rightarrow> snd_core \<Rightarrow> bool" where
  "sends N a b S c \<longleftrightarrow> m_iSndLastAck c = sn a \<and> m_iSndCurrSeqNo c = sn b \<and> snd_represents N S (m_pSndLossList c)
     \<and> S \<subseteq> {a..b} \<and> a \<le> b + 1 \<and> b - a + 1 < N \<and> N \<le> m_iMaxSize
     \<and> 0 \<le> traceSndLoss c \<and> traceSndLoss c + N \<le> 0x7FFFFFFF + int (card S)
     \<and> 0 \<le> sndLossTotal c \<and> sndLossTotal c + N \<le> 0x7FFFFFFF + int (card S)"

lemma sends_insert:
  assumes h: "sends N a b S c" and x: "a \<le> x" "x \<le> y" "y \<le> b"
  shows "\<exists>num c1 c2. insert_loss (sn x) (sn y) c = Some (num, c1) \<and> count_loss num c1 = Some c2 \<and> sends N a b (S \<union> {x..y}) c2
    \<and> recvNAK c2 = recvNAK c \<and> recvNAKTotal c2 = recvNAKTotal c \<and> m_bBroken c2 = m_bBroken c"
proof -
  have r: "snd_represents N S (m_pSndLossList c)" and S: "S \<subseteq> {a..b}" and N: "b - a + 1 < N" using h by (simp_all add: sends_def)
  have sub: "S \<union> {x..y} \<subseteq> {a..b}" using S x by auto
  then have fin: "finite (S \<union> {x..y})" by (rule finite_subset) simp
  have "narrow N {a..b}" using N by (auto simp: narrow_def)
  then have "insertable N S x y" using narrow_subset [OF _ sub] x N by (simp add: insertable_def)
  then obtain l where l: "insert_snd (sn x) (sn y) (m_pSndLossList c) = Some (int (card (S \<union> {x..y})) - int (card S), l)" "snd_represents N (S \<union> {x..y}) l"
    using resend.step_refines [OF r, of "Lose x y"] by (auto split: bind_splits)
  have "card (S \<union> {x..y}) \<le> card {a..b}" using sub by (intro card_mono) simp_all
  moreover have "card S \<le> card (S \<union> {x..y})" using fin by (intro card_mono) simp_all
  ultimately have k: "int (card S) \<le> int (card (S \<union> {x..y}))" "int (card (S \<union> {x..y})) \<le> b - a + 1" using x by auto
  let ?n = "int (card (S \<union> {x..y})) - int (card S)"
  have st: "int32 (traceSndLoss c + ?n) = Some (traceSndLoss c + ?n)" "int32 (sndLossTotal c + ?n) = Some (sndLossTotal c + ?n)"
    using h k N unfolding sends_def by (intro int32_in; linarith)+
  define c2 where "c2 = c\<lparr>m_pSndLossList := l, traceSndLoss := traceSndLoss c + ?n, sndLossTotal := sndLossTotal c + ?n\<rparr>"
  have "insert_loss (sn x) (sn y) c = Some (?n, c\<lparr>m_pSndLossList := l\<rparr>)" "count_loss ?n (c\<lparr>m_pSndLossList := l\<rparr>) = Some c2"
    using l(1) st by (simp_all add: insert_loss_def count_loss_def c2_def)
  moreover have "sends N a b (S \<union> {x..y}) c2" using h k(1) l(2) sub unfolding sends_def c2_def by simp
  moreover have "recvNAK c2 = recvNAK c" "recvNAKTotal c2 = recvNAKTotal c" "m_bBroken c2 = m_bBroken c" by (simp_all add: c2_def)
  ultimately show ?thesis by blast
qed

lemma sends_count_none: "sends N a b S c \<Longrightarrow> count_loss 0 c = Some c"
proof -
  assume h: "sends N a b S c"
  then have "card S \<le> card {a..b}" unfolding sends_def by (intro card_mono) auto
  then have "int (card S) < N" using h by (auto simp: sends_def)
  then have "int32 (traceSndLoss c) = Some (traceSndLoss c)" "int32 (sndLossTotal c) = Some (sndLossTotal c)"
    using h unfolding sends_def by (intro int32_in; linarith)+
  then show ?thesis by (simp add: count_loss_def)
qed

lemma sends_seqcmp:
  assumes "sends N a b S c" "\<bar>x - a\<bar> < m_iSeqNoTH" "\<bar>x - b\<bar> < m_iSeqNoTH"
  obtains c1 c2 where "seqcmp (sn x) (m_iSndLastAck c) = Some c1" "c1 \<ge> 0 \<longleftrightarrow> a \<le> x"
    "seqcmp (sn x) (m_iSndCurrSeqNo c) = Some c2" "c2 > 0 \<longleftrightarrow> b < x"
proof -
  have e: "m_iSndLastAck c = sn a" "m_iSndCurrSeqNo c = sn b" using assms(1) by (simp_all add: sends_def)
  obtain c1 where c1: "seqcmp (sn x) (sn a) = Some c1" "c1 < 0 \<longleftrightarrow> x < a" using seqcmp_sn [OF assms(2)] by metis
  obtain c2 where c2: "seqcmp (sn x) (sn b) = Some c2" "c2 > 0 \<longleftrightarrow> x > b" using seqcmp_sn [OF assms(3)] by metis
  have "c1 \<ge> 0 \<longleftrightarrow> a \<le> x" using c1(2) by linarith
  then show thesis using that [of c1 c2] c1 c2 e by simp
qed

text \<open>A range of numbers the sender knows: the part that is not acknowledged is added, one that is acknowledged is dropped.\<close>

definition within :: "int \<Rightarrow> int \<Rightarrow> int \<times> int \<Rightarrow> bool" where
  "within a b = (\<lambda>(lo, hi). lo \<le> hi \<and> hi \<le> b \<and> \<bar>lo - a\<bar> < m_iSeqNoTH \<and> \<bar>hi - a\<bar> < m_iSeqNoTH \<and> \<bar>lo - b\<bar> < m_iSeqNoTH \<and> \<bar>hi - b\<bar> < m_iSeqNoTH
     \<and> hi - lo < m_iSeqNoTH)"

definition drops :: "int \<Rightarrow> int \<times> int \<Rightarrow> report_event list" where
  "drops a = (\<lambda>(lo, hi). if lo < hi \<and> hi < a then [DropReq (sn lo) (sn hi)] else [])"

definition keeps_counters :: "snd_core \<Rightarrow> snd_core \<Rightarrow> bool" where
  "keeps_counters c c' \<longleftrightarrow> recvNAK c' = recvNAK c \<and> recvNAKTotal c' = recvNAKTotal c \<and> m_bBroken c' = m_bBroken c"

lemma entry_step:
  assumes h: "sends N a b S c" and w: "within a b (lo, hi)"
  shows "\<exists>c'. loss_entries (encode_range (lo, hi) @ xs) c = do { (secure, c, ev) \<leftarrow> loss_entries xs c'; Some (secure, c, drops a (lo, hi) @ ev) }
    \<and> sends N a b (S \<union> ({lo..hi} \<inter> {a..})) c' \<and> keeps_counters c c'"
proof -
  have lh: "lo \<le> hi" "hi \<le> b" "\<bar>lo - hi\<bar> < m_iSeqNoTH" using w by (simp_all add: within_def)
  have near: "\<bar>lo - a\<bar> < m_iSeqNoTH" "\<bar>lo - b\<bar> < m_iSeqNoTH" "\<bar>hi - a\<bar> < m_iSeqNoTH" "\<bar>hi - b\<bar> < m_iSeqNoTH"
    using w [unfolded within_def prod.case] by blast+
  obtain c1 where c1: "seqcmp (sn lo) (m_iSndLastAck c) = Some c1" "c1 \<ge> 0 \<longleftrightarrow> a \<le> lo"
    by (rule sends_seqcmp [OF h near(1,2)])
  obtain c2 c3 where c2: "seqcmp (sn hi) (m_iSndLastAck c) = Some c2" "c2 \<ge> 0 \<longleftrightarrow> a \<le> hi"
      "seqcmp (sn hi) (m_iSndCurrSeqNo c) = Some c3" "c3 > 0 \<longleftrightarrow> b < hi"
    by (rule sends_seqcmp [OF h near(3,4)])
  obtain c4 where c4: "seqcmp (sn lo) (sn hi) = Some c4" "c4 > 0 \<longleftrightarrow> lo > hi" using seqcmp_sn [OF lh(3)] by metis
  have ack: "m_iSndLastAck c = sn a" using h by (simp add: sends_def)
  note no = sends_count_none [OF h]
  consider (all) "a \<le> lo" | (part) "lo < a" "a \<le> hi" | (none) "hi < a" by linarith
  then show ?thesis
  proof cases
    case all
    then have u: "{lo..hi} \<inter> {a..} = {lo..hi}" "drops a (lo, hi) = []" by (auto simp: drops_def)
    from sends_insert [OF h all lh(1,2)] obtain num d1 d2 where d: "insert_loss (sn lo) (sn hi) c = Some (num, d1)" "count_loss num d1 = Some d2"
      "sends N a b (S \<union> {lo..hi}) d2" "keeps_counters c d2" unfolding keeps_counters_def by blast
    have "loss_entries (encode_range (lo, hi) @ xs) c = loss_entries xs d2"
    proof (cases "lo = hi")
      case True
      with all d(1,2) c1 c2 lh show ?thesis by (simp add: encode_range_def loss_single_def)
    next
      case False
      with all d(1,2) c1 c2 c4 lh show ?thesis by (simp add: encode_range_def loss_range_def)
    qed
    then have "loss_entries (encode_range (lo, hi) @ xs) c = do { (secure, c, ev) \<leftarrow> loss_entries xs d2; Some (secure, c, drops a (lo, hi) @ ev) }"
      by (simp add: u(2) split_def)
    with d(3,4) show ?thesis unfolding u(1) by blast
  next
    case part
    then have u: "{lo..hi} \<inter> {a..} = {a..hi}" "drops a (lo, hi) = []" by (auto simp: drops_def)
    from sends_insert [OF h order_refl part(2) lh(2)] obtain num d1 d2 where d: "insert_loss (sn a) (sn hi) c = Some (num, d1)" "count_loss num d1 = Some d2"
      "sends N a b (S \<union> {a..hi}) d2" "keeps_counters c d2" unfolding keeps_counters_def by blast
    have "loss_entries (encode_range (lo, hi) @ xs) c = loss_entries xs d2"
      using part d(1,2) c1 c2 c4 lh ack by (simp add: encode_range_def loss_range_def)
    then have "loss_entries (encode_range (lo, hi) @ xs) c = do { (secure, c, ev) \<leftarrow> loss_entries xs d2; Some (secure, c, drops a (lo, hi) @ ev) }"
      by (simp add: u(2) split_def)
    with d(3,4) show ?thesis unfolding u(1) by blast
  next
    case none
    then have u: "{lo..hi} \<inter> {a..} = {}" by auto
    have "loss_entries (encode_range (lo, hi) @ xs) c = do { (secure, c, ev) \<leftarrow> loss_entries xs c; Some (secure, c, drops a (lo, hi) @ ev) }"
      using none c1 c2 c4 lh no by (auto simp: encode_range_def loss_single_def loss_range_def drops_def)
    moreover have "sends N a b (S \<union> {}) c" "keeps_counters c c" using h by (simp_all add: keeps_counters_def)
    ultimately show ?thesis unfolding u by blast
  qed
qed

section \<open>The report\<close>

lemma entries_step:
  assumes "sends N a b S c" "\<forall>r\<in>set rs. within a b r"
  shows "\<exists>c'. loss_entries (concat (map encode_range rs) @ xs) c = do { (secure, c, ev) \<leftarrow> loss_entries xs c'; Some (secure, c, concat (map (drops a) rs) @ ev) }
    \<and> sends N a b (S \<union> (lost rs \<inter> {a..})) c' \<and> keeps_counters c c'"
  using assms
proof (induction rs arbitrary: S c)
  case Nil
  then show ?case by (intro exI [of _ c]) (simp add: keeps_counters_def split_def)
next
  case (Cons r rs)
  obtain lo hi where r: "r = (lo, hi)" by (cases r)
  from entry_step [OF Cons.prems(1), of lo hi "concat (map encode_range rs) @ xs"] Cons.prems(2) r obtain c1 where
    c1: "loss_entries (encode_range r @ concat (map encode_range rs) @ xs) c = do { (secure, c, ev) \<leftarrow> loss_entries (concat (map encode_range rs) @ xs) c1; Some (secure, c, drops a r @ ev) }"
      "sends N a b (S \<union> ({lo..hi} \<inter> {a..})) c1" "keeps_counters c c1" by auto
  from Cons.IH [OF c1(2)] Cons.prems(2) obtain c2 where
    c2: "loss_entries (concat (map encode_range rs) @ xs) c1 = do { (secure, c, ev) \<leftarrow> loss_entries xs c2; Some (secure, c, concat (map (drops a) rs) @ ev) }"
      "sends N a b (S \<union> ({lo..hi} \<inter> {a..}) \<union> (lost rs \<inter> {a..})) c2" "keeps_counters c1 c2" by auto
  have "S \<union> ({lo..hi} \<inter> {a..}) \<union> (lost rs \<inter> {a..}) = S \<union> (lost (r # rs) \<inter> {a..})" by (auto simp: r)
  with c1 c2 show ?case by (intro exI [of _ c2]) (auto simp: keeps_counters_def split_def)
qed

definition has_counters :: "snd_core \<Rightarrow> bool" where
  "has_counters c \<longleftrightarrow> 0 \<le> recvNAK c \<and> recvNAK c < 0x7FFFFFFF \<and> 0 \<le> recvNAKTotal c \<and> recvNAKTotal c < 0x7FFFFFFF"

lemma good_report:
  assumes h: "sends N a b S c" "has_counters c" and w: "\<forall>r\<in>set rs. within a b r"
  shows "\<exists>c'. processCtrlLossReport (concat (map encode_range rs)) c =
      Some (c', concat (map (drops a) rs) @ [UpdateCC (concat (map encode_range rs)), Reschedule])
    \<and> sends N a b (S \<union> (lost rs \<inter> {a..})) c' \<and> m_bBroken c' = m_bBroken c"
proof -
  from entries_step [OF h(1) w, of "[]"] obtain c1 where c1: "loss_entries (concat (map encode_range rs)) c = Some (True, c1, concat (map (drops a) rs))"
    "sends N a b (S \<union> (lost rs \<inter> {a..})) c1" "keeps_counters c c1" by auto
  have "int32 (recvNAK c1 + 1) = Some (recvNAK c1 + 1)" "int32 (recvNAKTotal c1 + 1) = Some (recvNAKTotal c1 + 1)"
    using h(2) c1(3) unfolding has_counters_def keeps_counters_def by (intro int32_in; linarith)+
  with c1 show ?thesis by (simp add: processCtrlLossReport_def sends_def keeps_counters_def)
qed

lemma within_lost:
  assumes "sorted_ranges rs" "narrow m_iSeqNoTH (lost rs)" "\<forall>y\<in>lost rs. y \<le> b \<and> \<bar>y - a\<bar> < m_iSeqNoTH \<and> \<bar>y - b\<bar> < m_iSeqNoTH"
  shows "\<forall>r\<in>set rs. within a b r"
proof
  fix r assume r: "r \<in> set rs"
  obtain lo hi where e: "r = (lo, hi)" by (cases r)
  have "lo \<le> hi" using assms(1) r e by (auto simp: sorted_ranges_def)
  then have m: "lo \<in> lost rs" "hi \<in> lost rs" using r e by (auto simp: lost_iff)
  then have "\<bar>hi - lo\<bar> < m_iSeqNoTH" using assms(2) unfolding narrow_def by blast
  moreover have "lo \<le> b \<and> \<bar>lo - a\<bar> < m_iSeqNoTH \<and> \<bar>lo - b\<bar> < m_iSeqNoTH" "hi \<le> b \<and> \<bar>hi - a\<bar> < m_iSeqNoTH \<and> \<bar>hi - b\<bar> < m_iSeqNoTH"
    using m assms(3) by blast+
  ultimately show "within a b r" using \<open>lo \<le> hi\<close> by (simp add: within_def e)
qed

lemma encode_length: "length (concat (map encode_range rs)) \<le> 2 * length rs"
  by (induction rs) (auto simp: encode_range_def)

text \<open>With room for two entries for every number that is lost the report is complete.\<close>

lemma complete_report:
  assumes "rcv_represents M R l" "2 * int (card R) < limit"
  obtains rs where "getLossArray limit l = Some (concat (map encode_range rs))" "sorted_ranges rs" "lost rs = R" "narrow m_iSeqNoTH R"
proof -
  obtain k rs where h: "holds_at k l rs" "lost rs = R" using assms(1) by (auto simp: rcv_represents_def)
  note sz = holds_size [OF h(1)]
  have len: "int (length rs) \<le> int (card R)" using length_ranges [OF sz(4)] total_length_card [OF sz(4)] h(2) by simp
  from loss_array_seg [OF sz(1,3) _ ranges_fit [OF h(1)], of k "-1" "[]" limit] h(1) assms(2) obtain m where
    m: "m \<le> length rs" "getLossArray limit l = Some (concat (map encode_range (take m rs)))"
       "m < length rs \<longrightarrow> limit - 1 \<le> int (length (concat (map encode_range (take m rs))))"
    by (auto simp: getLossArray_def holds_at_def)
  have "\<not> m < length rs"
  proof
    assume less: "m < length rs"
    have "length (concat (map encode_range (take m rs))) \<le> 2 * m" using encode_length [of "take m rs"] by simp
    with m(3) less len assms(2) show False by linarith
  qed
  then have "take m rs = rs" using m(1) by simp
  moreover have "narrow m_iSeqNoTH R" using sz(2,5) h(2) by (fastforce simp: narrow_def)
  ultimately show thesis using that [OF _ sz(4) h(2)] m(2) by simp
qed

section \<open>The properties\<close>

text \<open>
  C21: what the receiver misses is sent again: the report that it makes of its loss list, handled by the sender, adds
  every number that is not acknowledged yet to the sender's loss list and breaks nothing; the sender then takes exactly
  these and the ones it had before out of its list, in order and each once.  The limit leaves room for two entries for
  every lost number; what the receiver misses was sent, and all numbers are close enough to be compared.
\<close>

theorem lost_packets_are_resent:
  assumes r: "rcv_represents M R l" "2 * int (card R) < limit"
    and s: "sends N a b S c" "has_counters c"
    and close: "\<forall>y\<in>R. y \<le> b \<and> \<bar>y - a\<bar> < m_iSeqNoTH \<and> \<bar>y - b\<bar> < m_iSeqNoTH"
  shows "\<exists>report c' ev l'. getLossArray limit l = Some report \<and> processCtrlLossReport report c = Some (c', ev)
    \<and> m_bBroken c' = m_bBroken c \<and> Reschedule \<in> set ev
    \<and> run snd_step (m_pSndLossList c') (replicate (card (S \<union> (R \<inter> {a..}))) Pop @ [Pop]) =
        Some (l', map sn (sorted_list_of_set (S \<union> (R \<inter> {a..}))) @ [-1])"
proof -
  obtain rs where rs: "getLossArray limit l = Some (concat (map encode_range rs))" "sorted_ranges rs" "lost rs = R" "narrow m_iSeqNoTH R"
    by (rule complete_report [OF r])
  have "\<forall>r\<in>set rs. within a b r" by (rule within_lost [OF rs(2), unfolded rs(3), OF rs(4) close])
  from good_report [OF s this] rs(3) obtain c' where
    c': "processCtrlLossReport (concat (map encode_range rs)) c = Some (c', concat (map (drops a) rs) @ [UpdateCC (concat (map encode_range rs)), Reschedule])"
      "sends N a b (S \<union> (R \<inter> {a..})) c'" "m_bBroken c' = m_bBroken c" by auto
  have "snd_represents N (S \<union> (R \<inter> {a..})) (m_pSndLossList c')" and "S \<union> (R \<inter> {a..}) \<subseteq> {a..b}" using c'(2) by (simp_all add: sends_def)
  from pop_all [OF this(1) finite_subset [OF this(2)]] obtain l' where
    "run snd_step (m_pSndLossList c') (replicate (card (S \<union> (R \<inter> {a..}))) Pop @ [Pop]) = Some (l', map sn (sorted_list_of_set (S \<union> (R \<inter> {a..}))) @ [-1])"
    by auto
  with rs(1) c'(1,3) show ?thesis by auto
qed

theorem lost_packets_are_resent_witness:
  "\<exists>l c report c' ev l'. rcv_represents 16 {0x7FFFFFFE..0x80000001} l \<and> m_iSndLastAck c = 0x7FFFFFFF \<and> getLossArray 20 l = Some report
    \<and> processCtrlLossReport report c = Some (c', ev) \<and> \<not> m_bBroken c' \<and> run snd_step (m_pSndLossList c') [Pop, Pop, Pop, Pop] = Some (l', [0x7FFFFFFF, 0, 1, -1])"
proof -
  let ?R = "{0x7FFFFFFE..0x80000001 :: int}" and ?a = "0x7FFFFFFF :: int" and ?b = "0x80000003 :: int"
  let ?c = "\<lparr>m_iSndLastAck = sn ?a, m_iSndCurrSeqNo = sn ?b, m_pSndLossList = CSndLossList (\<lambda>i. 0) 16, traceSndLoss = 0, sndLossTotal = 0,
    recvNAK = 0, recvNAKTotal = 0, m_bBroken = False, m_iBrokenCounter = 0\<rparr>"
  have "narrow 16 ?R" by (auto simp: narrow_def)
  from represents_range [OF _ this] obtain l where l: "rcv_represents 16 ?R l" by auto
  have sc: "sends 16 ?a ?b {} ?c" "has_counters ?c" using new_resend [of 16] by (simp_all add: sends_def has_counters_def)
  have cl: "\<forall>y\<in>?R. y \<le> ?b \<and> \<bar>y - ?a\<bar> < m_iSeqNoTH \<and> \<bar>y - ?b\<bar> < m_iSeqNoTH" by auto
  have R: "{} \<union> (?R \<inter> {?a..}) = {0x7FFFFFFF, 0x80000000, 0x80000001}" by auto
  have "2 * int (card ?R) < 20" by simp
  note ok = lost_packets_are_resent [OF l this sc cl, unfolded R]
  have p: "replicate (card {0x7FFFFFFF, 0x80000000, 0x80000001 :: int}) Pop @ [Pop] = [Pop, Pop, Pop, Pop]"
    by (simp add: numeral_3_eq_3)
  have "sorted_list_of_set {0x7FFFFFFF, 0x80000000, 0x80000001 :: int} = [0x7FFFFFFF, 0x80000000, 0x80000001]"
    by (simp add: sorted_list_of_set_insert_remove)
  then have m: "map sn (sorted_list_of_set {0x7FFFFFFF, 0x80000000, 0x80000001}) @ [-1] = [0x7FFFFFFF, 0, 1, -1]" by (simp add: sn_def)
  have "m_iSndLastAck ?c = 0x7FFFFFFF" "\<not> m_bBroken ?c" by (simp_all add: sn_def)
  with l ok [unfolded p m] show ?thesis by metis
qed

text \<open>
  C26: a range in a report that is upside down or ends behind what has been sent breaks the connection: the losses before
  it are kept, it and all behind it are not, and nothing is rescheduled.  A report that ends in the middle of a range is
  read past its end.
\<close>

theorem wrong_report_breaks:
  assumes s: "sends N a b S c" "\<forall>r\<in>set rs. within a b r"
    and wrong: "hi < lo \<or> b < hi" "\<bar>lo - hi\<bar> < m_iSeqNoTH" "\<bar>hi - b\<bar> < m_iSeqNoTH"
  shows "(\<exists>c' ev. processCtrlLossReport (concat (map encode_range rs) @ [range_first (sn lo), sn hi] @ xs) c = Some (c', ev)
      \<and> m_bBroken c' \<and> Reschedule \<notin> set ev \<and> snd_represents N (S \<union> (lost rs \<inter> {a..})) (m_pSndLossList c'))
    \<and> processCtrlLossReport (concat (map encode_range rs) @ [range_first (sn lo)]) c = None"
proof -
  obtain c4 where c4: "seqcmp (sn lo) (sn hi) = Some c4" "c4 > 0 \<longleftrightarrow> lo > hi" using seqcmp_sn [OF wrong(2)] by metis
  obtain c5 where c5: "seqcmp (sn hi) (sn b) = Some c5" "c5 > 0 \<longleftrightarrow> hi > b" using seqcmp_sn [OF wrong(3)] by metis
  have d: "Reschedule \<notin> set (concat (map (drops a) rs))" by (auto simp: drops_def split: if_splits)
  from entries_step [OF s, of "[range_first (sn lo), sn hi] @ xs"] obtain c1 where
    c1: "loss_entries (concat (map encode_range rs) @ [range_first (sn lo), sn hi] @ xs) c =
        do { (secure, c, ev) \<leftarrow> loss_entries ([range_first (sn lo), sn hi] @ xs) c1; Some (secure, c, concat (map (drops a) rs) @ ev) }"
      "sends N a b (S \<union> (lost rs \<inter> {a..})) c1" by blast
  have "m_iSndCurrSeqNo c1 = sn b" using c1(2) by (simp add: sends_def)
  then have "loss_entries ([range_first (sn lo), sn hi] @ xs) c1 = Some (False, c1, [])" using c4 c5 wrong(1) by (auto simp: loss_range_def)
  then have "\<exists>c' ev. processCtrlLossReport (concat (map encode_range rs) @ [range_first (sn lo), sn hi] @ xs) c = Some (c', ev)
      \<and> m_bBroken c' \<and> Reschedule \<notin> set ev \<and> snd_represents N (S \<union> (lost rs \<inter> {a..})) (m_pSndLossList c')"
    using c1 d by (simp add: processCtrlLossReport_def sends_def)
  moreover from entries_step [OF s, of "[range_first (sn lo)]"] have "loss_entries (concat (map encode_range rs) @ [range_first (sn lo)]) c = None"
    by auto
  then have "processCtrlLossReport (concat (map encode_range rs) @ [range_first (sn lo)]) c = None" by (simp add: processCtrlLossReport_def)
  ultimately show ?thesis by blast
qed

theorem wrong_report_breaks_witness:
  "\<exists>c c' ev. m_iSndCurrSeqNo c = 9 \<and> processCtrlLossReport [5, range_first 8, 10] c = Some (c', ev) \<and> m_bBroken c' \<and> snd_represents 16 {5} (m_pSndLossList c')"
proof -
  let ?c = "\<lparr>m_iSndLastAck = 3, m_iSndCurrSeqNo = 9, m_pSndLossList = CSndLossList (\<lambda>i. 0) 16, traceSndLoss = 0, sndLossTotal = 0,
    recvNAK = 0, recvNAKTotal = 0, m_bBroken = False, m_iBrokenCounter = 0\<rparr>"
  have s: "sn 3 = 3" "sn 9 = 9" "sn 5 = 5" "sn 8 = 8" "sn 10 = 10" by (simp_all add: sn_def)
  have "sends 16 3 9 {} ?c" "\<forall>r\<in>set [(5, 5)]. within 3 9 r" using new_resend [of 16] s by (simp_all add: sends_def within_def)
  from wrong_report_breaks [OF this, of 10 8 "[]"] obtain c' ev where
    "processCtrlLossReport [5, range_first 8, 10] ?c = Some (c', ev)" "m_bBroken c'" "snd_represents 16 {5} (m_pSndLossList c')"
    by (auto simp: encode_range_def s)
  moreover have "m_iSndCurrSeqNo ?c = 9" by simp
  ultimately show ?thesis by blast
qed

end
