(* ===== verification/FreshLoss.thy ===== *)
theory FreshLoss
  imports RcvLossInv
begin

text \<open>
  A loss that is not reported yet because the packets may only be out of order: \<open>CRcvFreshLoss\<close> of \<open>srtcore/list.cpp\<close>, a
  range that shrinks when packets of it arrive.
\<close>

record fresh_loss =
  seq0 :: int
  seq1 :: int
  ttl :: int
  timestamp :: int

datatype Emod = NONE | STRIPPED | SPLIT | DELETE

text \<open>The clock's reading is an argument.\<close>

definition CRcvFreshLoss :: "int \<Rightarrow> int \<Rightarrow> int \<Rightarrow> int \<Rightarrow> fresh_loss" where
  "CRcvFreshLoss now seqlo seqhi initial_age = \<lparr>seq0 = seqlo, seq1 = seqhi, ttl = initial_age, timestamp = now\<rparr>"

definition revoke :: "int \<Rightarrow> fresh_loss \<Rightarrow> (Emod \<times> fresh_loss) option" where
  "revoke sequence f = do {
     diffbegin \<leftarrow> seqcmp sequence (seq0 f);
     diffend \<leftarrow> seqcmp sequence (seq1 f);
     if diffbegin < 0 \<or> diffend > 0 then Some (NONE, f)
     else if diffbegin = 0 then
       (if diffend = 0 then Some (DELETE, f)
        else do { s \<leftarrow> incseq (seq0 f); Some (STRIPPED, f\<lparr>seq0 := s\<rparr>) })
     else if diffend = 0 then do { s \<leftarrow> decseq (seq1 f); Some (STRIPPED, f\<lparr>seq1 := s\<rparr>) }
     else Some (SPLIT, f) }"

definition revoke_range :: "int \<Rightarrow> int \<Rightarrow> fresh_loss \<Rightarrow> (Emod \<times> fresh_loss) option" where
  "revoke_range lo hi f = do {
     c \<leftarrow> seqcmp lo (seq1 f);
     if c > 0 then Some (DELETE, f)
     else do {
       c \<leftarrow> seqcmp hi (seq0 f);
       if c < 0 then Some (NONE, f)
       else do {
         c \<leftarrow> seqcmp hi (seq1 f);
         if c < 0 then do { s \<leftarrow> incseq hi; Some (STRIPPED, f\<lparr>seq0 := s\<rparr>) }
         else Some (DELETE, f) } } }"

text \<open>The record of the numbers from \<open>a\<close> to \<open>b\<close>.\<close>

definition fresh_range :: "int \<Rightarrow> int \<Rightarrow> fresh_loss \<Rightarrow> bool" where
  "fresh_range a b f \<longleftrightarrow> a \<le> b \<and> seq0 f = sn a \<and> seq1 f = sn b"

text \<open>
  C27: what the arrival of packets leaves of a loss that is not reported yet: one number inside it is taken out, at an end
  by shrinking the record and in the middle by asking the caller to split it; a range takes out its numbers and all older
  ones.  The verdict tells whether the record is unchanged, shrunk or empty, across the wrap-around.
\<close>

theorem fresh_loss_revoked:
  assumes f: "fresh_range a b f" and x: "\<bar>x - a\<bar> < m_iSeqNoTH" "\<bar>x - b\<bar> < m_iSeqNoTH"
    and lh: "lo \<le> hi" "\<bar>lo - b\<bar> < m_iSeqNoTH" "\<bar>hi - a\<bar> < m_iSeqNoTH" "\<bar>hi - b\<bar> < m_iSeqNoTH"
  shows "(\<exists>v f'. revoke (sn x) f = Some (v, f') \<and> (case v of
        NONE \<Rightarrow> x \<notin> {a..b} \<and> f' = f
      | STRIPPED \<Rightarrow> x \<in> {a..b} \<and> (\<exists>a' b'. fresh_range a' b' f' \<and> {a'..b'} = {a..b} - {x})
      | SPLIT \<Rightarrow> x \<in> {a..b} \<and> {a..<x} \<noteq> {} \<and> {x<..b} \<noteq> {} \<and> f' = f
      | DELETE \<Rightarrow> {a..b} = {x}))
    \<and> (\<exists>v f'. revoke_range (sn lo) (sn hi) f = Some (v, f') \<and> (case v of
        NONE \<Rightarrow> {a..b} \<inter> {..hi} = {} \<and> f' = f
      | STRIPPED \<Rightarrow> {a..b} \<inter> {..hi} \<noteq> {} \<and> (\<exists>a' b'. fresh_range a' b' f' \<and> {a'..b'} = {a..b} - {..hi})
      | SPLIT \<Rightarrow> False
      | DELETE \<Rightarrow> {a..b} \<subseteq> {..hi}))"
proof
  have ab: "a \<le> b" "seq0 f = sn a" "seq1 f = sn b" using f by (simp_all add: fresh_range_def)
  obtain c1 where c1: "seqcmp (sn x) (sn a) = Some c1" "c1 < 0 \<longleftrightarrow> x < a" "c1 = 0 \<longleftrightarrow> x = a" using seqcmp_sn [OF x(1)] by metis
  obtain c2 where c2: "seqcmp (sn x) (sn b) = Some c2" "c2 > 0 \<longleftrightarrow> x > b" "c2 = 0 \<longleftrightarrow> x = b" using seqcmp_sn [OF x(2)] by metis
  have "revoke (sn x) f = Some (if x < a \<or> b < x then (NONE, f) else if x = a then if x = b then (DELETE, f) else (STRIPPED, f\<lparr>seq0 := sn (a + 1)\<rparr>)
      else if x = b then (STRIPPED, f\<lparr>seq1 := sn (b - 1)\<rparr>) else (SPLIT, f))"
    using c1 c2 by (simp add: revoke_def ab seq_sn)
  moreover have "fresh_range (a + 1) b (f\<lparr>seq0 := sn (a + 1)\<rparr>) \<and> {a + 1..b} = {a..b} - {a}" if "a \<noteq> b"
    using that ab by (auto simp: fresh_range_def)
  moreover have "fresh_range a (b - 1) (f\<lparr>seq1 := sn (b - 1)\<rparr>) \<and> {a..b - 1} = {a..b} - {b}" if "a \<noteq> b"
    using that ab by (auto simp: fresh_range_def)
  ultimately show "\<exists>v f'. revoke (sn x) f = Some (v, f') \<and> (case v of
        NONE \<Rightarrow> x \<notin> {a..b} \<and> f' = f
      | STRIPPED \<Rightarrow> x \<in> {a..b} \<and> (\<exists>a' b'. fresh_range a' b' f' \<and> {a'..b'} = {a..b} - {x})
      | SPLIT \<Rightarrow> x \<in> {a..b} \<and> {a..<x} \<noteq> {} \<and> {x<..b} \<noteq> {} \<and> f' = f
      | DELETE \<Rightarrow> {a..b} = {x})"
    using ab(1) by (cases "x < a \<or> b < x"; cases "x = a"; cases "x = b") (simp_all, (blast | auto)+)
  obtain c3 where c3: "seqcmp (sn lo) (sn b) = Some c3" "c3 > 0 \<longleftrightarrow> lo > b" using seqcmp_sn [OF lh(2)] by metis
  obtain c4 where c4: "seqcmp (sn hi) (sn a) = Some c4" "c4 < 0 \<longleftrightarrow> hi < a" using seqcmp_sn [OF lh(3)] by metis
  obtain c5 where c5: "seqcmp (sn hi) (sn b) = Some c5" "c5 < 0 \<longleftrightarrow> hi < b" using seqcmp_sn [OF lh(4)] by metis
  have "revoke_range (sn lo) (sn hi) f = Some (if b < lo \<or> b \<le> hi then (DELETE, f) else if hi < a then (NONE, f) else (STRIPPED, f\<lparr>seq0 := sn (hi + 1)\<rparr>))"
    using c3 c4 c5 ab by (simp add: revoke_range_def seq_sn)
  moreover have "fresh_range (hi + 1) b (f\<lparr>seq0 := sn (hi + 1)\<rparr>) \<and> {hi + 1..b} = {a..b} - {..hi}" if "a \<le> hi" "hi < b"
    using that ab by (auto simp: fresh_range_def)
  ultimately show "\<exists>v f'. revoke_range (sn lo) (sn hi) f = Some (v, f') \<and> (case v of
        NONE \<Rightarrow> {a..b} \<inter> {..hi} = {} \<and> f' = f
      | STRIPPED \<Rightarrow> {a..b} \<inter> {..hi} \<noteq> {} \<and> (\<exists>a' b'. fresh_range a' b' f' \<and> {a'..b'} = {a..b} - {..hi})
      | SPLIT \<Rightarrow> False
      | DELETE \<Rightarrow> {a..b} \<subseteq> {..hi})"
    using ab(1) lh(1) by (cases "b < lo \<or> b \<le> hi"; cases "hi < a") (simp_all, (blast | auto)+)
qed

theorem fresh_loss_revoked_witness:
  "(\<exists>v f'. revoke 0 (CRcvFreshLoss 7 0x7FFFFFFF 2 3) = Some (v, f') \<and> v \<noteq> NONE)
    \<and> (\<exists>v f'. revoke_range 0x7FFFFFFE 0 (CRcvFreshLoss 7 0x7FFFFFFF 2 3) = Some (v, f') \<and> v \<noteq> NONE \<and> v \<noteq> SPLIT)"
proof -
  let ?f = "CRcvFreshLoss 7 0x7FFFFFFF 2 3"
  have s: "sn 0x7FFFFFFF = 0x7FFFFFFF" "sn 0x80000002 = 2" "sn 0x80000000 = 0" "sn 0x7FFFFFFE = 0x7FFFFFFE" by (simp_all add: sn_def)
  have "fresh_range 0x7FFFFFFF 0x80000002 ?f" by (simp add: fresh_range_def CRcvFreshLoss_def s)
  note fr = this
  have n: "\<bar>0x80000000 - 0x7FFFFFFF\<bar> < m_iSeqNoTH" "\<bar>0x80000000 - 0x80000002\<bar> < m_iSeqNoTH" "0x7FFFFFFE \<le> (0x80000000 :: int)"
      "\<bar>0x7FFFFFFE - 0x80000002\<bar> < m_iSeqNoTH" by simp_all
  note ok = fresh_loss_revoked [OF fr n(1,2,3,4,1,2), unfolded s]
  have "0x80000000 \<in> {0x7FFFFFFF..0x80000002} \<inter> {..0x80000000 :: int}" by simp
  then have "{0x7FFFFFFF..0x80000002} \<inter> {..0x80000000 :: int} \<noteq> {}" by blast
  then have "\<exists>v f'. revoke_range 0x7FFFFFFE 0 ?f = Some (v, f') \<and> v \<noteq> NONE \<and> v \<noteq> SPLIT"
    using conjunct2 [OF ok] by (force split: Emod.splits)
  moreover have "0x80000000 \<in> {0x7FFFFFFF..0x80000002 :: int}" by simp
  then have "\<exists>v f'. revoke 0 ?f = Some (v, f') \<and> v \<noteq> NONE" using conjunct1 [OF ok] by (force split: Emod.splits)
  ultimately show ?thesis by blast
qed

end
