(* ===== verification/Spec2Isabelle.thy ===== *)
theory Spec2Isabelle
  imports RunTask SrtNetProps SrtCCProps CryptoProps HashProps HaiCryptErrors LossReport FreshLoss
begin

text \<open>
  Verification of xrtc, which sends and receives live media over SRT.

  \<^bold>\<open>The program.\<close>  The program's own code is a thin layer of C++: \<open>srt_net/\<close> (class \<open>SRTNet\<close>, a client or server on the
  SRT library with its threads, and \<open>SrtCongestionCtrl\<close>, which turns the statistics of a socket into an encoder bitrate),
  \<open>base/\<close> (\<open>RunTask\<close>, the throttle the congestion estimator polls), \<open>simple/\<close> (a client of a multiplexer), a logger, command
  line tools and a WebRTC plugin.  It is built on the libraries it carries under \<open>3rd/\<close>: SRT with its encryption layer
  HaiCrypt (\<open>3rd/srt/haicrypt\<close>) and its transport (\<open>3rd/srt/srtcore\<close>), and OpenSSL, whose AES, key wrap, counter mode,
  SHA-1, HMAC and PBKDF2 HaiCrypt calls.  The development follows the data: a packet is counted and sent by \<open>SRTNet\<close>,
  encrypted by HaiCrypt over OpenSSL, and sent again by the loss lists of SRT when it does not arrive.

  \<^bold>\<open>Conventions.\<close>  In every theory \<^term>\<open>None\<close> is a run that the code does not survive or does not finish (a failing
  assertion, an access outside a buffer, a null pointer, a signed overflow, a loop without end); a return value, error
  codes included, is a value.  Bytes and words are \<^typ>\<open>8 word\<close> and \<^typ>\<open>32 word\<close>; C++ \<open>int\<close>s that must not overflow
  are \<^typ>\<open>int\<close> with an explicit check.  Theory \<open>Prelude\<close> has the buffers, their checked accesses and the shared lemmas.

  \<^bold>\<open>Base and transport wrapper.\<close>
  \<^item> \<open>RunTask\<close>: \<open>base/run_task.cpp\<close>, every method; when a task fires, and that \<open>reset\<close> keeps the clock running.
  \<^item> \<open>SrtNet\<close>, \<open>SrtNetThreads\<close>: \<open>srt_net/srt_net.cpp\<close>; starting, sending and receiving as functions, the two threads and
    \<open>stop\<close> as steps of an interleaving.  \<open>SrtNetInv\<close> has the invariants by rule induction over the steps, \<open>SrtNetProps\<close> that
    every client is accounted for, that \<open>stop\<close> ends and joins the threads, what starting does on every path, and the races
    between \<open>stop\<close> and the threads.
  \<^item> \<open>Binary64\<close>, \<open>SrtCC\<close>, \<open>SrtCCProps\<close>: \<open>srt_net/srt_cc.cpp\<close> in rounded arithmetic; its windows, the bitrate's band, and
    where the average of the bandwidth and the rate of sampling go wrong.

  \<^bold>\<open>Cryptography of OpenSSL.\<close>
  \<^item> \<open>KeyWrap\<close>: \<open>crypto/modes/wrap128.c\<close> for any block cipher (locale \<open>block_cipher\<close>); wrapping and unwrapping invert each
    other, and only what was wrapped is unwrapped.
  \<^item> \<open>AesCore\<close>, \<open>AesCorrect\<close>, \<open>AesKeys\<close>, \<open>AesFips\<close>: \<open>crypto/aes/aes_core.c\<close> with its tables; decryption inverts
    encryption, and both are the cipher of FIPS 197.
  \<^item> \<open>Ctr128\<close>: \<open>crypto/modes/ctr128.c\<close>; the two builds agree, and a text may be given in pieces.
  \<^item> \<open>Sha1\<close>, \<open>Sha1Spec\<close>, \<open>Sha1Stream\<close>: \<open>crypto/sha/sha_local.h\<close> and \<open>md32_common.h\<close>; the unrolled block function and the
    streaming are those of FIPS 180-4 (locale \<open>streaming\<close>, which SHA-1 and HMAC both interpret).
  \<^item> \<open>Hmac\<close>, \<open>Pbkdf2\<close>: \<open>crypto/hmac/hmac.c\<close> and \<open>crypto/evp/p5_crpt2.c\<close>, with the keyed template and its copies; RFC 2104
    and RFC 2898, and 0 where memory is short.
  \<^item> \<open>CryptoProps\<close>, \<open>HashProps\<close>: the properties of this layer, also of what HaiCrypt builds itself.

  \<^bold>\<open>HaiCrypt.\<close>
  \<^item> \<open>HcMsg\<close>, \<open>HcCtx\<close>: messages, contexts and configuration.  \<open>Cryspr\<close>, \<open>CrysprProps\<close>: \<open>cryspr.c\<close>, the crypto provider, with
    the contract of a library as locale \<open>cryspr_lib\<close>; \<open>CrysprOpenSSL\<close>: \<open>cryspr-openssl.c\<close>, which meets it over the models
    above.
  \<^item> \<open>HcSession\<close>, \<open>HcApi\<close>: \<open>hcrypt_sa.c\<close>, \<open>hcrypt_ctx_tx.c\<close>, \<open>hcrypt_ctx_rx.c\<close>, \<open>hcrypt.c\<close>, \<open>hcrypt_tx.c\<close>, \<open>hcrypt_rx.c\<close>.
  \<^item> \<open>HcKm\<close>, \<open>HcExchange\<close>, \<open>HcTx\<close>, \<open>HcRx\<close>, \<open>HcCreate\<close>: keying material byte by byte, its exchange, the sender's two contexts
    over time, the receiver against arbitrary messages, and the creation of both ends.  \<open>HaiCryptProps\<close> and
    \<open>HaiCryptErrors\<close> state what follows for a link: what is sent arrives decrypted, keys are renewed in time, a receiver
    survives any message; and what is refused, and what a refusal leaves behind.

  \<^bold>\<open>Retransmission in SRT.\<close>
  \<^item> \<open>SeqNo\<close>: \<open>CSeqNo\<close> of \<open>srtcore/common.h\<close>; the circular numbers are the residues of unbounded ones.
  \<^item> \<open>RcvLoss\<close>, \<open>RcvLossInv\<close>, \<open>RcvLossRemove\<close>, \<open>RcvLossProps\<close>: \<open>CRcvLossList\<close> of \<open>srtcore/list.cpp\<close>, a doubly linked list
    in an array, statement by statement; it implements a set of numbers.
  \<^item> \<open>SndLoss\<close>, \<open>SndLossInv\<close>, \<open>SndLossInsert\<close>, \<open>SndLossRemove\<close>, \<open>SndLossProps\<close>: \<open>CSndLossList\<close>, whose insertions overlap and
    are merged; it implements a set of numbers too, both as interpretations of the interface in \<open>LossInterface\<close>.
  \<^item> \<open>FreshLoss\<close>: \<open>CRcvFreshLoss\<close>, losses that are held back.  \<open>LossReport\<close>: \<open>CUDT::processCtrlLossReport\<close> of
    \<open>srtcore/core.cpp\<close>, and the way of a lost number from the receiver's list through the report into the sender's list.

  \<^bold>\<open>Bounds and fuel.\<close>  Loops over buffers are structural.  The walks along a list of nodes and the search around the
  array of the loss lists have fuel for as many nodes as the array has: a walk that visits more is in a cycle, and the
  refinement theorems show that this never happens within the contract.  The contracts of the loss lists - what is lost
  fits a window the size of the array, and numbers that are compared are less than \<open>2^30 - 1\<close> apart - are those the
  comments of \<open>list.h\<close> and \<open>common.h\<close> state; the size is limited to \<open>2^29\<close> for the sender because \<open>m_iHead + offset + m_iSize\<close>
  is computed in an \<open>int\<close>.

  \<^bold>\<open>Parameters.\<close>  \<open>RAND_bytes\<close>, the clock, memory allocation (also that of OpenSSL's HMAC) and the method table of a crypto library are arguments of
  HaiCrypt's definitions; the SRT library, the resolver and the application's callbacks are arguments of \<open>SRTNet\<close>'s.  What
  is relied on is stated as a hypothesis where it is used, or as a locale that is interpreted on the models.

  \<^bold>\<open>Not modelled.\<close>  The bindings of HaiCrypt to GnuTLS and mbedTLS, whose libraries are not part of the repository; the
  rest of OpenSSL, of which the 32-bit counter variant of \<open>ctr128.c\<close>, the constant-time AES, other digests of HMAC and the
  ASN.1 front end of PBKDF2 are next to what is modelled but not called; the rest of \<open>srtcore\<close> (handshake, buffers,
  queues, socket table, groups, congestion control); the multiplexer client, the logger, the command line tools and the
  WebRTC plugin, which configure and connect libraries and have no logic of their own.
\<close>

end
